(* ===== verification/Prelude.thy ===== *)
theory Prelude
  imports Main "HOL-Library.Word" "HOL-Library.Monad_Syntax"
begin

text \<open>
  Shared vocabulary of the development: the C integer types as machine words, the
  conversions between them as the compiler performs them, the bit macros, and generic
  lemmas on words, lists and loops that several components use.
\<close>

unbundle bit_operations_syntax

section \<open>C integer types\<close>

type_synonym u8 = "8 word"
type_synonym u16 = "16 word"
type_synonym u32 = "32 word"

text \<open>
  \<open>i32_of\<close> reads an \<open>unsigned\<close> as the \<open>int\<close> the same 32 bits stand for (the
  implementation-defined conversion every compiler of the target performs), and
  \<open>u32_of\<close> is the conversion back. An \<open>int\<close> of the program is an \<^typ>\<open>int\<close> here.
\<close>

definition i32_of :: "u32 \<Rightarrow> int" where
  "i32_of w = sint w"

definition u32_of :: "int \<Rightarrow> u32" where
  "u32_of n = word_of_int n"

definition u16_of :: "int \<Rightarrow> u16" where
  "u16_of n = word_of_int n"

text \<open>The macro \<open>BIT(n)\<close>, at the width of the byte it is tested against.\<close>

definition BIT :: "nat \<Rightarrow> 'a::len word" where
  "BIT n = push_bit n 1"

text \<open>\<open>x & mask\<close> used as a condition.\<close>

definition has :: "'a::len word \<Rightarrow> 'a word \<Rightarrow> bool" where
  "has x m \<longleftrightarrow> x AND m \<noteq> 0"

lemma has_BIT: "has x (BIT n) \<longleftrightarrow> bit x n"
  by (simp add: has_def BIT_def and_exp_eq_0_iff_not_bit push_bit_of_1)

lemma has_OR: "has x (m OR n) \<longleftrightarrow> has x m \<or> has x n"
  by (simp add: has_def bit.conj_disj_distrib or_eq_0_iff)

section \<open>Collections of facts\<close>

named_theorems c_int "conversions between the C integer types"
named_theorems queue_laws "laws of the bounded byte queue"
named_theorems fb_laws "laws of the pixel buffers"

lemma unat_less_uint: "unat w < n \<longleftrightarrow> uint w < int n"
  by (simp flip: of_nat_less_iff [where 'a = int])

lemma unat_u8_bound: "unat (x :: u8) < 256"
  using unsigned_less [of x] by simp

lemma unat_u16_bound: "unat (x :: u16) < 65536"
  using unsigned_less [of x] by simp

lemma unat_u32_bound: "unat (x :: u32) < 2 ^ 32"
  using unsigned_less [of x] by simp

lemma i32_of_small [c_int]:
  assumes h: "unat w < 2 ^ 31"
  shows "i32_of w = int (unat w)"
proof -
  have "sint w = signed_take_bit 31 (uint w)"
    by (simp add: sint_uint)
  also have "\<dots> = uint w"
  proof (rule signed_take_bit_int_eq_self)
    show "- (2 ^ 31) \<le> uint w"
      by (rule order_trans [of _ 0]) simp_all
    have "int (unat w) < int (2 ^ 31)" using h by (simp only: of_nat_less_iff)
    then show "uint w < 2 ^ 31" by simp
  qed
  finally show ?thesis by (simp add: i32_of_def)
qed

lemma u32_of_nat [c_int]: "u32_of (int n) = of_nat n"
  by (simp add: u32_of_def)

lemma u16_of_nat [c_int]: "u16_of (int n) = of_nat n"
  by (simp add: u16_of_def)

lemma unat_of_nat_small: "n < 2 ^ LENGTH('a) \<Longrightarrow> unat (of_nat n :: 'a::len word) = n"
  by (simp add: unat_of_nat take_bit_nat_eq_self)

lemma unat_ucast_u8_u32 [simp]: "unat (ucast (x :: u8) :: u32) = unat x"
  using unat_u8_bound [of x] by (simp add: unsigned_ucast_eq take_bit_nat_eq_self)

lemma unat_ucast_u16_u32 [simp]: "unat (ucast (x :: u16) :: u32) = unat x"
  using unat_u16_bound [of x] by (simp add: unsigned_ucast_eq take_bit_nat_eq_self)

lemma and_255_u8 [simp]: "(x :: u8) AND 255 = x"
proof -
  have "(255 :: u8) = mask 8" by (simp add: mask_eq_exp_minus_1)
  then show ?thesis
    using unsigned_less [of x] by (simp only: mask_eq_iff) simp
qed

lemma uint_u8: "0 \<le> uint (b :: u8)" "uint (b :: u8) < 256"
  using unsigned_less [of b] by simp_all

lemma uint_u16: "0 \<le> uint (b :: u16)" "uint (b :: u16) < 65536"
  using unsigned_less [of b] by simp_all

lemma sint_u16_small: "- 32768 \<le> k \<Longrightarrow> k < 32768 \<Longrightarrow> sint (word_of_int k :: u16) = k"
  unfolding sint_sbintrunc' by (rule signed_take_bit_int_eq_self) simp_all

section \<open>Loops over an option-valued state\<close>

text \<open>
  \<open>foldM f xs s\<close> runs the body \<open>f\<close> for the elements of \<open>xs\<close> in order, as a counted
  \<open>for\<close> loop does; \<open>None\<close> is an undefined step, at which the run stops.
\<close>

primrec foldM :: "('a \<Rightarrow> 's \<Rightarrow> 's option) \<Rightarrow> 'a list \<Rightarrow> 's \<Rightarrow> 's option" where
  "foldM f [] s = Some s"
| "foldM f (x # xs) s = (case f x s of None \<Rightarrow> None | Some s' \<Rightarrow> foldM f xs s')"

lemma foldM_append:
  "foldM f (xs @ ys) s = (case foldM f xs s of None \<Rightarrow> None | Some s' \<Rightarrow> foldM f ys s')"
  by (induction xs arbitrary: s) (auto split: option.split)

text \<open>The loop rule: an invariant indexed by what has been done so far.\<close>

lemma foldM_invariant:
  assumes "I [] s"
    and "\<And>ds x rest t. xs = ds @ x # rest \<Longrightarrow> I ds t \<Longrightarrow>
           \<exists>t'. f x t = Some t' \<and> I (ds @ [x]) t'"
  shows "\<exists>s'. foldM f xs s = Some s' \<and> I xs s'"
proof -
  have "\<exists>s'. foldM f rest t = Some s' \<and> I xs s'" if "xs = ds @ rest" and "I ds t" for ds rest t
    using that
  proof (induction rest arbitrary: ds t)
    case Nil
    then show ?case by simp
  next
    case (Cons x rest)
    then obtain t' where t': "f x t = Some t'" and "I (ds @ [x]) t'"
      using assms(2) by blast
    moreover have "xs = (ds @ [x]) @ rest" using Cons.prems(1) by simp
    ultimately obtain s' where "foldM f rest t' = Some s'" and "I xs s'"
      using Cons.IH by blast
    with t' show ?case by simp
  qed
  from this [of "[]" xs s] assms(1) show ?thesis by simp
qed

text \<open>The rule for a property that every iteration keeps.\<close>

lemma foldM_keeps:
  assumes "P s" and "\<And>x t. x \<in> set xs \<Longrightarrow> P t \<Longrightarrow> \<exists>t'. f x t = Some t' \<and> P t'"
  shows "\<exists>s'. foldM f xs s = Some s' \<and> P s'"
  by (rule foldM_invariant [where I = "\<lambda>_. P"]) (use assms in auto)

text \<open>A loop in which some iteration is undefined in every state is undefined.\<close>

lemma foldM_undefined:
  assumes "x \<in> set xs" and "\<And>t. f x t = None"
  shows "foldM f xs s = None"
  using assms(1) by (induction xs arbitrary: s) (auto simp: assms(2) split: option.split)

text \<open>A loop whose body is simulated by another body.\<close>

lemma foldM_simulation:
  assumes "\<And>x t. x \<in> set xs \<Longrightarrow> map_option h (f x t) = g x (h t)"
  shows "map_option h (foldM f xs s) = foldM g xs (h s)"
  using assms
proof (induction xs arbitrary: s)
  case (Cons x xs)
  have "map_option h (f x s) = g x (h s)" using Cons.prems [of x s] by simp
  with Cons show ?case by (cases "f x s") (auto dest: sym)
qed simp

text \<open>What a loop that returns has kept.\<close>

lemma foldM_kept:
  assumes "foldM f xs s = Some s'" and "P s" and "\<And>x t t'. x \<in> set xs \<Longrightarrow> f x t = Some t' \<Longrightarrow> P t \<Longrightarrow> P t'"
  shows "P s'"
  using assms
proof (induction xs arbitrary: s)
  case (Cons x xs)
  then obtain t where t: "f x s = Some t" "foldM f xs t = Some s'" by (auto split: option.splits)
  moreover have "P t" using Cons.prems(3) [OF _ t(1) Cons.prems(2)] by simp
  ultimately show ?case using Cons.IH Cons.prems(3) by (meson list.set_intros(2))
qed simp

end
