(* ===== verification/Kernel.thy ===== *)
theory Kernel
  imports Prelude
begin

text \<open>
  What the program calls and cannot be read here: the system calls of the Minix kernel.
  They are the fields of one record over an unspecified world \<open>'w\<close>, and every operation
  that performs I/O takes that record and the world as arguments. The helpers of
  \<open>proj/src/utils.c\<close> stand on top of it.
\<close>

section \<open>The kernel interface\<close>

text \<open>
  \<^item> \<open>sys_inb K port w = (r, v, w')\<close>: the return code, the value stored through the
    pointer (meaningful when \<open>r = 0\<close>) and the world after the call;
  \<^item> \<open>sys_outb K port v w\<close>: the return code and the world;
  \<^item> \<open>tickdelay K us w\<close>: waiting;
  \<^item> \<open>sys_irqsetpolicy K irq policy hook w\<close>: the return code, the hook id the kernel
    stores back, the world;
  \<^item> \<open>sys_irqrmpolicy K hook w\<close>: the return code and the world.
\<close>

record 'w kernel =
  sys_inb :: "nat \<Rightarrow> 'w \<Rightarrow> int \<times> u32 \<times> 'w"
  sys_outb :: "nat \<Rightarrow> u32 \<Rightarrow> 'w \<Rightarrow> int \<times> 'w"
  tickdelay :: "nat \<Rightarrow> 'w \<Rightarrow> 'w"
  sys_irqsetpolicy :: "nat \<Rightarrow> u32 \<Rightarrow> int \<Rightarrow> 'w \<Rightarrow> int \<times> int \<times> 'w"
  sys_irqrmpolicy :: "int \<Rightarrow> 'w \<Rightarrow> int \<times> 'w"

section \<open>utils.c\<close>

definition LSB_MASK :: "'a::len word" where
  "LSB_MASK = 0x00FF"

definition MSB_MASK :: u16 where
  "MSB_MASK = 0xFF00"

text \<open>
  The functions return 0 and store their result through a pointer; the result is the pair
  of both. In \<open>util_get_LSB\<close> the cast binds tighter than \<open>&\<close>.
\<close>

definition util_get_LSB :: "u16 \<Rightarrow> int \<times> u8" where
  "util_get_LSB val = (0, ucast val AND LSB_MASK)"

definition util_get_MSB :: "u16 \<Rightarrow> int \<times> u8" where
  "util_get_MSB val = (0, ucast (drop_bit 8 (val AND MSB_MASK)))"

text \<open>\<open>old\<close> is what \<open>*value\<close> holds before the call: it keeps it when the call fails.\<close>

definition util_sys_inb :: "'w kernel \<Rightarrow> nat \<Rightarrow> u8 \<Rightarrow> 'w \<Rightarrow> int \<times> u8 \<times> 'w" where
  "util_sys_inb K port old w =
     (case sys_inb K port w of
        (r, aux, w') \<Rightarrow> if r \<noteq> 0 then (r, old, w') else (0, ucast (aux AND LSB_MASK), w'))"

lemma low_byte [simp]: "(ucast ((x :: u32) AND LSB_MASK) :: u8) = ucast x"
proof -
  have m: "(LSB_MASK :: u32) = mask 8" by (simp add: LSB_MASK_def mask_eq_exp_minus_1)
  show ?thesis unfolding m by (rule bit_word_eqI) (auto simp: bit_simps)
qed

lemma byte_through_port: "(ucast (ucast (x :: u8) :: u32) :: u8) = x"
  by (rule bit_word_eqI) (auto simp: bit_ucast_iff)

lemma util_LSB_unat: "unat (snd (util_get_LSB v)) = unat v mod 256"
  by (simp add: util_get_LSB_def LSB_MASK_def unsigned_ucast_eq take_bit_eq_mod)

lemma drop_MSB_MASK: "drop_bit 8 (v AND MSB_MASK) = drop_bit 8 v"
proof (rule bit_word_eqI)
  fix n assume "n < LENGTH(16)"
  have e: "MSB_MASK = push_bit 8 (mask 8)" by (simp add: MSB_MASK_def mask_eq_exp_minus_1)
  show "bit (drop_bit 8 (v AND MSB_MASK)) n = bit (drop_bit 8 v) n"
    using bit_imp_le_length [of v "8 + n"] unfolding e by (auto simp: bit_simps)
qed

lemma util_MSB_unat: "unat (snd (util_get_MSB v)) = unat v div 256"
proof -
  have "unat v div 256 < 2 ^ 8" using unat_u16_bound [of v] by simp
  moreover have "unat (drop_bit 8 v) = unat v div 256"
    using unat_u16_bound [of v]
    by (simp add: unsigned_drop_bit_eq drop_bit_nat_def take_bit_nat_eq_self)
  ultimately show ?thesis
    unfolding util_get_MSB_def drop_MSB_MASK snd_conv
    by (simp only: unsigned_ucast_eq) (simp add: take_bit_nat_eq_self)
qed

end
