(* ===== verification/VideoCard.thy ===== *)
theory VideoCard
  imports Kernel
begin

text \<open>
  \<open>proj/src/videocard.c\<close> with the coordinate conversions of \<open>proj/src/board.c\<close> that its
  clipping calls. A pixel buffer is the list of its bytes; every copy into or out of a
  buffer checks its bounds, and an access outside has no result (\<open>None\<close>), so a theorem
  that drawing returns a buffer is also a memory-safety statement. The pixel-level facts
  are proved once, in the locale \<open>pixel_buffer\<close>.
\<close>

section \<open>Modes, screens, buffers\<close>

type_synonym mem = "u8 list"

record vbe_mode_info =
  XResolution :: u16
  YResolution :: u16
  BitsPerPixel :: u8
  PhysBasePtr :: u32

text \<open>
  The globals of \<open>videocard.c\<close> that describe the mode, and those of \<open>board.c\<close> that
  describe the squares.
\<close>

record Screen =
  vmi_p :: vbe_mode_info
  bytes_per_pixel :: int
  vram_size :: u32
  rectangle_width :: u32
  rectangle_height :: u32
  left_rectangle_width :: u32
  right_rectangle_width :: u32

definition get_h_res :: "Screen \<Rightarrow> u32" where
  "get_h_res s = ucast (XResolution (vmi_p s))"

definition get_v_res :: "Screen \<Rightarrow> u32" where
  "get_v_res s = ucast (YResolution (vmi_p s))"

section \<open>Board and screen coordinates (board.c)\<close>

definition vertical_margin :: u32 where "vertical_margin = 128"

definition getScreenX :: "Screen \<Rightarrow> int \<Rightarrow> int" where
  "getScreenX s col = i32_of (u32_of col * rectangle_width s + left_rectangle_width s)"

definition getScreenY :: "Screen \<Rightarrow> int \<Rightarrow> int" where
  "getScreenY s row = i32_of (vertical_margin div 2 + u32_of row * rectangle_height s)"

definition getBoardX :: "Screen \<Rightarrow> int \<Rightarrow> int" where
  "getBoardX s absoluteX =
     (if rectangle_width s \<noteq> 0
      then i32_of ((u32_of absoluteX - left_rectangle_width s) div rectangle_width s)
      else -1)"

definition getBoardY :: "Screen \<Rightarrow> int \<Rightarrow> int" where
  "getBoardY s absoluteY =
     (if rectangle_height s \<noteq> 0
      then i32_of ((u32_of absoluteY - vertical_margin div 2) div rectangle_height s)
      else -1)"

section \<open>Mapping video memory\<close>

text \<open>
  The calls behind it, over the world \<open>'w\<close>: the mode information of a video mode,
  granting a physical range, mapping it (\<open>False\<close> is \<open>MAP_FAILED\<close>) and the BIOS call.
  A buffer pointer is identified with the physical address it maps, so that two mappings
  of the same address are the same memory.
\<close>

record reg86 =
  intno :: u8
  reg_ax :: u16
  reg_bx :: u16

record 'w video_kernel =
  vbe_get_mode_info :: "u16 \<Rightarrow> 'w \<Rightarrow> int \<times> vbe_mode_info \<times> 'w"
  sys_privctl :: "u32 \<times> u32 \<Rightarrow> 'w \<Rightarrow> int \<times> 'w"
  vm_map_phys :: "u32 \<Rightarrow> u32 \<Rightarrow> 'w \<Rightarrow> bool \<times> 'w"
  sys_int86 :: "reg86 \<Rightarrow> 'w \<Rightarrow> int \<times> 'w"

text \<open>
  The second component is the pointer stored (\<open>None\<close>: not written). \<open>panic\<close> ends the
  program and has no result.
\<close>

definition map_vram ::
  "'w video_kernel \<Rightarrow> int \<Rightarrow> u16 \<Rightarrow> Screen \<Rightarrow> 'w \<Rightarrow> ((int \<times> u32 option) \<times> Screen \<times> 'w) option" where
  "map_vram V n mode s w =
     (case vbe_get_mode_info V mode w of
        (r, vmi, w1) \<Rightarrow>
          if r \<noteq> 0 then Some ((r, None), s, w1)
          else
            let bpp = (uint (BitsPerPixel vmi) + 7) div 8;
                size = ucast (XResolution vmi) * ucast (YResolution vmi) * u32_of bpp;
                s1 = s\<lparr>vmi_p := vmi, bytes_per_pixel := bpp, vram_size := size\<rparr>;
                base = PhysBasePtr vmi + u32_of n * size
            in case sys_privctl V (base, base + size) w1 of
                 (r, w2) \<Rightarrow>
                   if r \<noteq> 0 then None
                   else case vm_map_phys V base size w2 of
                          (mapped, w3) \<Rightarrow>
                            if mapped then Some ((0, Some base), s1, w3) else None)"

text \<open>
  The callers map a buffer and use it at once: \<open>mapped base\<close> is what the memory at that
  address holds when it is mapped. When the mode information cannot be read the pointer
  stays null and its use has no result.
\<close>

definition map_page ::
  "'w video_kernel \<Rightarrow> (u32 \<Rightarrow> mem) \<Rightarrow> int \<Rightarrow> u16 \<Rightarrow> Screen \<Rightarrow> 'w \<Rightarrow> (mem \<times> Screen \<times> 'w) option" where
  "map_page V mapped n mode s w =
     (case map_vram V n mode s w of
        Some ((_, Some base), s1, w1) \<Rightarrow> Some (mapped base, s1, w1)
      | _ \<Rightarrow> None)"

definition init_graphics_mode ::
  "'w video_kernel \<Rightarrow> u16 \<Rightarrow> Screen \<Rightarrow> 'w \<Rightarrow> ((int \<times> u32 option \<times> u32 option) \<times> Screen \<times> 'w) option" where
  "init_graphics_mode V mode s w =
     (case map_vram V 0 mode s w of
        None \<Rightarrow> None
      | Some ((_, video_mem), s1, w1) \<Rightarrow>
          (case map_vram V 1 mode s1 w1 of
             None \<Rightarrow> None
           | Some ((_, video_mem_buffer), s2, w2) \<Rightarrow>
               (case sys_int86 V \<lparr>intno = 0x10, reg_ax = 0x4F02, reg_bx = BIT 14 OR mode\<rparr> w2 of
                  (r, w3) \<Rightarrow>
                    Some ((if r \<noteq> 0 then 1 else 0, video_mem, video_mem_buffer), s2, w3))))"

definition return_text_mode :: "'w video_kernel \<Rightarrow> 'w \<Rightarrow> int \<times> 'w" where
  "return_text_mode V w =
     (case sys_int86 V \<lparr>intno = 0x10, reg_ax = 0x0003, reg_bx = 0\<rparr> w of
        (r, w1) \<Rightarrow> (if r \<noteq> 0 then 1 else 0, w1))"

section \<open>Drawing\<close>

text \<open>\<open>memcpy\<close> of \<open>bs\<close> to offset \<open>pos\<close> of a buffer.\<close>

definition memcpy_to :: "mem \<Rightarrow> u32 \<Rightarrow> u8 list \<Rightarrow> mem option" where
  "memcpy_to m pos bs =
     (if unat pos + length bs \<le> length m
      then Some (take (unat pos) m @ bs @ drop (unat pos + length bs) m)
      else None)"

text \<open>The first \<open>n\<close> bytes of an \<open>unsigned\<close> in memory (little endian).\<close>

definition object_bytes :: "u32 \<Rightarrow> nat \<Rightarrow> u8 list option" where
  "object_bytes v n =
     (if n \<le> 4 then Some (map (\<lambda>k. ucast (drop_bit (8 * k) v)) [0..<n]) else None)"

text \<open>The first \<open>n\<close> bytes at offset \<open>pos\<close> of a block.\<close>

definition block_bytes :: "u8 list \<Rightarrow> u32 \<Rightarrow> nat \<Rightarrow> u8 list option" where
  "block_bytes b pos n =
     (if unat pos + n \<le> length b then Some (take n (drop (unat pos) b)) else None)"

text \<open>
  The loop variable runs while it is below both bounds, so the loop is a run over the
  numbers up to the smaller one; \<open>x + len\<close> is a sum of two \<open>uint16_t\<close> and cannot wrap.
\<close>

definition draw_hline :: "Screen \<Rightarrow> mem \<Rightarrow> u16 \<Rightarrow> u16 \<Rightarrow> u16 \<Rightarrow> u32 \<Rightarrow> mem option" where
  "draw_hline s board_mem x y len color =
     foldM
       (\<lambda>i m.
          let position = (ucast y * ucast (XResolution (vmi_p s)) + of_nat i) * u32_of (bytes_per_pixel s)
          in case object_bytes color (nat (bytes_per_pixel s)) of
               None \<Rightarrow> None
             | Some bs \<Rightarrow> memcpy_to m position bs)
       [unat x..<min (unat x + unat len) (unat (XResolution (vmi_p s)))] board_mem"

definition draw_rectangle ::
  "Screen \<Rightarrow> mem \<Rightarrow> u16 \<Rightarrow> u16 \<Rightarrow> u16 \<Rightarrow> u16 \<Rightarrow> u32 \<Rightarrow> mem option" where
  "draw_rectangle s board_mem x y width height color =
     (if getBoardX s (uint x) \<ge> 0 \<and> getBoardX s (uint x) \<le> 7 \<and>
         getBoardY s (uint y) \<ge> 0 \<and> getBoardY s (uint y) \<le> 7
      then foldM (\<lambda>i m. draw_hline s m x (of_nat i) width color)
             [unat y..<min (unat y + unat height) (unat (YResolution (vmi_p s)))] board_mem
      else Some board_mem)"

record xpm_image =
  img_width :: u16
  img_height :: u16
  img_bytes :: "u8 list"

definition color_transparent :: u32 where "color_transparent = 0x000069"

definition draw_image :: "Screen \<Rightarrow> mem \<Rightarrow> xpm_image \<Rightarrow> u16 \<Rightarrow> u16 \<Rightarrow> mem option" where
  "draw_image s board_mem img x y =
     (let X = XResolution (vmi_p s); Y = YResolution (vmi_p s);
          bpp = u32_of (bytes_per_pixel s); n = nat (bytes_per_pixel s)
      in foldM
        (\<lambda>y_img m.
           foldM
             (\<lambda>x_img m.
                let position = ((ucast y + of_nat y_img) * ucast X + ucast x + of_nat x_img) * bpp;
                    color_position = (of_nat y_img * ucast (img_width img) + of_nat x_img) * bpp
                in case (block_bytes (img_bytes img) color_position n, object_bytes color_transparent n) of
                     (Some px, Some tr) \<Rightarrow> if px \<noteq> tr then memcpy_to m position px else Some m
                   | _ \<Rightarrow> None)
             [0..<min (unat (img_width img)) (unat X - unat x)] m)
        [0..<min (unat (img_height img)) (unat Y - unat y)] board_mem)"

text \<open>
  The XPM resources of the program (the arrays of the headers under \<open>imgs/\<close>), by the names
  the code calls them; \<open>letter_xpm k\<close> is the picture of the \<open>k\<close>-th letter of the alphabet.
\<close>

datatype Xpm =
    pdl58 | ndl58 | bdl58 | rdl58 | qdl58 | kdl58
  | pll58 | nll58 | bll58 | rll58 | qll58 | kll58
  | arrow | menu_xpm | name_choice_xpm | waiting_xpm | player_choice_xpm | toggle_animation_xpm
  | letter_xpm nat

type_synonym xpm_loader = "Xpm \<Rightarrow> xpm_image option"

text \<open>
  \<open>create_image\<close> asks the LCOM library to decode an XPM: \<open>xpm_load\<close> is a parameter, and
  an image that cannot be decoded is left as it was.
\<close>

definition create_image :: "xpm_loader \<Rightarrow> Xpm \<Rightarrow> xpm_image \<Rightarrow> int \<times> xpm_image" where
  "create_image xpm_load xpm img0 =
     (case xpm_load xpm of None \<Rightarrow> (1, img0) | Some img \<Rightarrow> (0, img))"

definition copy_buffers :: "Screen \<Rightarrow> mem \<Rightarrow> mem \<Rightarrow> mem option" where
  "copy_buffers s vm1 vm2 =
     (let n = unat (vram_size s)
      in if n \<le> length vm1 \<and> n \<le> length vm2 then Some (take n vm2 @ drop n vm1) else None)"

definition copy_from_buffer :: "Screen \<Rightarrow> mem \<Rightarrow> mem \<Rightarrow> mem option" where
  "copy_from_buffer s video_mem video_mem_buffer = copy_buffers s video_mem video_mem_buffer"

definition vg_clear :: "Screen \<Rightarrow> mem \<Rightarrow> mem option" where
  "vg_clear s buffer =
     (let n = unat (vram_size s)
      in if n \<le> length buffer then Some (replicate n 0 @ drop n buffer) else None)"

end
