(* ===== verification/Pixels.thy ===== *)
theory Pixels
  imports VideoCard
begin

text \<open>
  What drawing does to a buffer, pixel by pixel. The locale \<open>pixel_buffer\<close> states the one
  law a buffer must keep, storing a pixel, and derives what loops of stores paint; the
  byte buffers of the video card are shown to keep it, and the drawing operations are
  characterised through it.
\<close>

section \<open>The contract\<close>

locale pixel_buffer =
  fixes get :: "'m \<Rightarrow> nat \<Rightarrow> 'c"
    and put :: "'m \<Rightarrow> nat \<Rightarrow> 'c \<Rightarrow> 'm option"
    and npix :: nat
    and wf :: "'m \<Rightarrow> bool"
    and colour :: "'c \<Rightarrow> bool"
  assumes put_law: "wf m \<Longrightarrow> p < npix \<Longrightarrow> colour c \<Longrightarrow>
    \<exists>m'. put m p c = Some m' \<and> wf m' \<and> (\<forall>q<npix. get m' q = (if q = p then c else get m q))"
begin

text \<open>\<open>m'\<close> is \<open>m\<close> with the pixels of \<open>P\<close> coloured by \<open>f\<close>.\<close>

definition painted :: "'m \<Rightarrow> nat set \<Rightarrow> (nat \<Rightarrow> 'c) \<Rightarrow> 'm \<Rightarrow> bool" where
  "painted m P f m' \<longleftrightarrow> wf m' \<and> (\<forall>q<npix. get m' q = (if q \<in> P then f q else get m q))"

lemma painted_none: "wf m \<Longrightarrow> painted m {} f m"
  by (simp add: painted_def)

lemma painted_wf: "painted m P f m' \<Longrightarrow> wf m'"
  by (simp add: painted_def)

lemma painted_trans: "painted m P f m1 \<Longrightarrow> painted m1 Q f m2 \<Longrightarrow> painted m (P \<union> Q) f m2"
  by (auto simp: painted_def)

lemma put_painted:
  assumes "wf m" and "p < npix" and "colour (f p)"
  shows "\<exists>m'. put m p (f p) = Some m' \<and> painted m {p} f m'"
  using put_law [OF assms] by (auto simp: painted_def)

lemma foldM_painted:
  assumes "\<And>i m. i \<in> set xs \<Longrightarrow> wf m \<Longrightarrow> \<exists>m'. body i m = Some m' \<and> painted m (P i) f m'"
    and "wf m"
  shows "\<exists>m'. foldM body xs m = Some m' \<and> painted m (\<Union>i\<in>set xs. P i) f m'"
  using assms
proof (induction xs arbitrary: m)
  case Nil
  then show ?case by (simp add: painted_none)
next
  case (Cons i xs)
  obtain m1 where m1: "body i m = Some m1" "painted m (P i) f m1"
    using Cons.prems(1) [of i m] Cons.prems(2) by auto
  obtain m2 where m2: "foldM body xs m1 = Some m2" "painted m1 (\<Union>i\<in>set xs. P i) f m2"
    using Cons.IH [of m1] Cons.prems(1) painted_wf [OF m1(2)] by auto
  show ?case
    using m1(1) m2(1) painted_trans [OF m1(2) m2(2)] by simp
qed

end

section \<open>The byte buffers keep it\<close>

definition bpp :: "Screen \<Rightarrow> nat" where
  "bpp s = nat (bytes_per_pixel s)"

definition hres :: "Screen \<Rightarrow> nat" where
  "hres s = unat (XResolution (vmi_p s))"

definition vres :: "Screen \<Rightarrow> nat" where
  "vres s = unat (YResolution (vmi_p s))"

text \<open>A mode whose pixels take one to four bytes and whose buffer fits the address space.\<close>

definition fb_ok :: "Screen \<Rightarrow> bool" where
  "fb_ok s \<longleftrightarrow> 0 < bytes_per_pixel s \<and> bytes_per_pixel s \<le> 4 \<and>
     hres s * vres s * bpp s < 2 ^ 32 \<and> unat (vram_size s) = hres s * vres s * bpp s"

definition fb_wf :: "Screen \<Rightarrow> mem \<Rightarrow> bool" where
  "fb_wf s m \<longleftrightarrow> fb_ok s \<and> length m = unat (vram_size s)"

definition fb_get :: "Screen \<Rightarrow> mem \<Rightarrow> nat \<Rightarrow> u8 list" where
  "fb_get s m p = take (bpp s) (drop (p * bpp s) m)"

definition fb_put :: "Screen \<Rightarrow> mem \<Rightarrow> nat \<Rightarrow> u8 list \<Rightarrow> mem option" where
  "fb_put s m p c = memcpy_to m (of_nat (p * bpp s)) c"

definition fb_colour :: "Screen \<Rightarrow> u8 list \<Rightarrow> bool" where
  "fb_colour s c \<longleftrightarrow> length c = bpp s"

definition fb_size :: "Screen \<Rightarrow> nat" where
  "fb_size s = hres s * vres s"

lemma pixel_fits: "p < n \<Longrightarrow> p * b + b \<le> n * (b :: nat)"
proof -
  assume "p < n"
  then have "Suc p * b \<le> n * b" by (intro mult_le_mono1) simp
  then show ?thesis by simp
qed

lemma blit_get:
  fixes m :: "'a list"
  assumes "length c = b" and "length m = n * b" and "p < n" and "q < n"
  shows "take b (drop (q * b) (take (p * b) m @ c @ drop (p * b + b) m)) =
    (if q = p then c else take b (drop (q * b) m))"
proof (rule nth_equalityI)
  have pq: "p * b + b \<le> length m" "q * b + b \<le> length m"
    using pixel_fits [of p n b] pixel_fits [of q n b] assms(2,3,4) by simp_all
  have "length (take (p * b) m @ c @ drop (p * b + b) m) = length m"
    using pq assms(1) by simp
  then have len: "length (take b (drop (q * b) (take (p * b) m @ c @ drop (p * b + b) m))) = b"
    using pq by (simp only: length_take length_drop)
  show "length (take b (drop (q * b) (take (p * b) m @ c @ drop (p * b + b) m))) =
      length (if q = p then c else take b (drop (q * b) m))"
    unfolding len using pq assms(1) by simp
  fix i assume "i < length (take b (drop (q * b) (take (p * b) m @ c @ drop (p * b + b) m)))"
  then have i: "i < b" by (simp only: len)
  consider "q < p" | "q = p" | "p < q" by linarith
  then show "take b (drop (q * b) (take (p * b) m @ c @ drop (p * b + b) m)) ! i =
      (if q = p then c else take b (drop (q * b) m)) ! i"
  proof cases
    case 1
    with pixel_fits [of q p b] i pq show ?thesis by (simp add: nth_append)
  next
    case 2
    with i pq assms(1) show ?thesis by (simp add: nth_append)
  next
    case 3
    with pixel_fits [of p q b] i pq assms(1) show ?thesis by (simp add: nth_append)
  qed
qed

lemma fb_put_law:
  assumes "fb_wf s m" and "p < fb_size s" and "fb_colour s c"
  shows "\<exists>m'. fb_put s m p c = Some m' \<and> fb_wf s m' \<and>
    (\<forall>q<fb_size s. fb_get s m' q = (if q = p then c else fb_get s m q))"
proof -
  have len: "length m = fb_size s * bpp s" and c: "length c = bpp s"
    and lt: "fb_size s * bpp s < 2 ^ 32"
    using assms by (auto simp: fb_wf_def fb_ok_def fb_size_def fb_colour_def)
  have fits: "p * bpp s + bpp s \<le> fb_size s * bpp s"
    by (rule pixel_fits) (rule assms(2))
  then have u: "unat (of_nat (p * bpp s) :: u32) = p * bpp s"
    using lt by (intro unat_of_nat_small) simp
  have "fb_put s m p c = Some (take (p * bpp s) m @ c @ drop (p * bpp s + bpp s) m)"
    unfolding fb_put_def memcpy_to_def u using fits len c by simp
  moreover have "length (take (p * bpp s) m @ c @ drop (p * bpp s + bpp s) m) = length m"
    using fits len c by simp
  ultimately show ?thesis
    using blit_get [OF c len assms(2)] assms(1) by (auto simp: fb_wf_def fb_get_def)
qed

interpretation fb: pixel_buffer "fb_get s" "fb_put s" "fb_size s" "fb_wf s" "fb_colour s" for s
  by unfold_locales (rule fb_put_law)

section \<open>Positions and colours as the code computes them\<close>

text \<open>The index of the pixel in column \<open>x\<close> and row \<open>y\<close>.\<close>

definition pix :: "Screen \<Rightarrow> nat \<Rightarrow> nat \<Rightarrow> nat" where
  "pix s x y = y * hres s + x"

lemma pix_less: "x < hres s \<Longrightarrow> y < vres s \<Longrightarrow> pix s x y < fb_size s"
  using pixel_fits [of y "vres s" "hres s"] by (simp add: pix_def fb_size_def mult.commute)

lemma pix_inj:
  assumes "pix s x y = pix s x' y'" and "x < hres s" and "x' < hres s"
  shows "x = x' \<and> y = y'"
proof -
  have "x = pix s x y mod hres s" "y = pix s x y div hres s"
    "x' = pix s x' y' mod hres s" "y' = pix s x' y' div hres s"
    using assms(2,3) by (auto simp: pix_def)
  then show ?thesis using assms(1) by metis
qed

lemma of_nat_bpp: "fb_ok s \<Longrightarrow> u32_of (bytes_per_pixel s) = of_nat (bpp s)"
  unfolding bpp_def fb_ok_def using u32_of_nat [of "nat (bytes_per_pixel s)"] by simp

definition colour_bytes :: "Screen \<Rightarrow> u32 \<Rightarrow> u8 list" where
  "colour_bytes s v = map (\<lambda>k. ucast (drop_bit (8 * k) v)) [0..<bpp s]"

lemma object_bytes_colour:
  assumes "fb_ok s"
  shows "object_bytes v (nat (bytes_per_pixel s)) = Some (colour_bytes s v)"
    "fb_colour s (colour_bytes s v)"
proof -
  have "bpp s \<le> 4" using assms by (auto simp: fb_ok_def bpp_def)
  then show "object_bytes v (nat (bytes_per_pixel s)) = Some (colour_bytes s v)"
    by (simp add: object_bytes_def colour_bytes_def bpp_def)
qed (simp add: fb_colour_def colour_bytes_def)

section \<open>What each drawing operation paints\<close>

lemma of_nat_unat_ucast: "(ucast (x :: u16) :: u32) = of_nat (unat x)"
  by simp

lemma hline_position:
  assumes "fb_ok s"
  shows "(ucast (y :: u16) * ucast (XResolution (vmi_p s)) + of_nat i) * u32_of (bytes_per_pixel s) =
         of_nat (pix s i (unat y) * bpp s)"
  unfolding of_nat_bpp [OF assms] pix_def hres_def of_nat_unat_ucast
  by (simp only: of_nat_mult of_nat_add)

lemma draw_hline_painted:
  assumes "fb_wf s m" and "unat y < vres s"
  shows "\<exists>m'. draw_hline s m x y len color = Some m' \<and>
    fb.painted s m (\<Union>i\<in>{unat x..<min (unat x + unat len) (hres s)}. {pix s i (unat y)})
      (\<lambda>_. colour_bytes s color) m'"
proof -
  have ok: "fb_ok s" using assms(1) by (simp add: fb_wf_def)
  let ?body = "\<lambda>i m. fb_put s m (pix s i (unat y)) (colour_bytes s color)"
  have "draw_hline s m x y len color =
      foldM ?body [unat x..<min (unat x + unat len) (hres s)] m"
    unfolding draw_hline_def Let_def hline_position [OF ok] object_bytes_colour(1) [OF ok]
    by (simp add: fb_put_def hres_def)
  moreover have "\<exists>m'. foldM ?body [unat x..<min (unat x + unat len) (hres s)] m = Some m' \<and>
      fb.painted s m (\<Union>i\<in>set [unat x..<min (unat x + unat len) (hres s)]. {pix s i (unat y)})
        (\<lambda>_. colour_bytes s color) m'"
  proof (rule fb.foldM_painted [OF _ assms(1)])
    fix i m assume "i \<in> set [unat x..<min (unat x + unat len) (hres s)]" and "fb_wf s m"
    then show "\<exists>m'. fb_put s m (pix s i (unat y)) (colour_bytes s color) = Some m' \<and>
        fb.painted s m {pix s i (unat y)} (\<lambda>_. colour_bytes s color) m'"
      using assms(2) object_bytes_colour(2) [OF ok]
      by (intro fb.put_painted pix_less) simp_all
  qed
  ultimately show ?thesis by simp
qed

text \<open>The pixels of the part of a rectangle that is on the screen.\<close>

definition rect_pixels :: "Screen \<Rightarrow> nat \<Rightarrow> nat \<Rightarrow> nat \<Rightarrow> nat \<Rightarrow> nat set" where
  "rect_pixels s x y w h =
     {pix s px py |px py. x \<le> px \<and> px < x + w \<and> px < hres s \<and> y \<le> py \<and> py < y + h \<and> py < vres s}"

text \<open>The guard of \<^const>\<open>draw_rectangle\<close>: its corner is on the board.\<close>

definition on_board :: "Screen \<Rightarrow> u16 \<Rightarrow> u16 \<Rightarrow> bool" where
  "on_board s x y \<longleftrightarrow> getBoardX s (uint x) \<ge> 0 \<and> getBoardX s (uint x) \<le> 7 \<and>
     getBoardY s (uint y) \<ge> 0 \<and> getBoardY s (uint y) \<le> 7"

lemma rows_painted:
  assumes "fb_wf s m"
  shows "\<exists>m'. foldM (\<lambda>i m. draw_hline s m x (of_nat i) width color)
      [unat y..<min (unat y + unat height) (vres s)] m = Some m' \<and>
    fb.painted s m (rect_pixels s (unat x) (unat y) (unat width) (unat height))
      (\<lambda>_. colour_bytes s color) m'"
proof -
  let ?rows = "[unat y..<min (unat y + unat height) (vres s)]"
  let ?row = "\<lambda>j. \<Union>i\<in>{unat x..<min (unat x + unat width) (hres s)}. {pix s i j}"
  have "\<exists>m'. foldM (\<lambda>i m. draw_hline s m x (of_nat i) width color) ?rows m = Some m' \<and>
      fb.painted s m (\<Union>j\<in>set ?rows. ?row j) (\<lambda>_. colour_bytes s color) m'"
  proof (rule fb.foldM_painted [OF _ assms])
    fix j m assume j: "j \<in> set ?rows" and "fb_wf s m"
    then have "j < vres s" by simp
    moreover have "vres s < 65536" using unat_u16_bound by (simp add: vres_def)
    ultimately have "unat (of_nat j :: u16) = j" by (intro unat_of_nat_small) simp
    with draw_hline_painted [OF \<open>fb_wf s m\<close>, of "of_nat j" x width color] \<open>j < vres s\<close>
    show "\<exists>m'. draw_hline s m x (of_nat j) width color = Some m' \<and>
        fb.painted s m (?row j) (\<lambda>_. colour_bytes s color) m'" by simp
  qed
  moreover have "(\<Union>j\<in>set ?rows. ?row j) =
      rect_pixels s (unat x) (unat y) (unat width) (unat height)"
    by (fastforce simp: rect_pixels_def)
  ultimately show ?thesis by simp
qed

lemma draw_rectangle_painted:
  assumes "fb_wf s m"
  shows "\<exists>m'. draw_rectangle s m x y width height color = Some m' \<and>
    fb.painted s m
      (if on_board s x y then rect_pixels s (unat x) (unat y) (unat width) (unat height) else {})
      (\<lambda>_. colour_bytes s color) m'"
  using rows_painted [OF assms, of x width color y height] fb.painted_none [OF assms]
  by (simp add: draw_rectangle_def on_board_def [symmetric] vres_def)

text \<open>The colour of an image at a pixel of the screen, for an image drawn at \<open>x\<close>, \<open>y\<close>.\<close>

definition image_at :: "Screen \<Rightarrow> xpm_image \<Rightarrow> nat \<Rightarrow> nat \<Rightarrow> u8 list" where
  "image_at s img i j =
     take (bpp s) (drop ((j * unat (img_width img) + i) * bpp s) (img_bytes img))"

definition image_ok :: "Screen \<Rightarrow> xpm_image \<Rightarrow> bool" where
  "image_ok s img \<longleftrightarrow>
     unat (img_width img) * unat (img_height img) * bpp s \<le> length (img_bytes img) \<and>
     unat (img_width img) * unat (img_height img) * bpp s < 2 ^ 32"

definition opaque :: "Screen \<Rightarrow> xpm_image \<Rightarrow> nat \<Rightarrow> nat \<Rightarrow> bool" where
  "opaque s img i j \<longleftrightarrow> image_at s img i j \<noteq> colour_bytes s color_transparent"

definition image_pixels :: "Screen \<Rightarrow> xpm_image \<Rightarrow> nat \<Rightarrow> nat \<Rightarrow> nat set" where
  "image_pixels s img x y =
     {pix s (x + i) (y + j) |i j. i < unat (img_width img) \<and> j < unat (img_height img) \<and>
        x + i < hres s \<and> y + j < vres s \<and> opaque s img i j}"

lemma image_position:
  assumes "fb_ok s"
  shows "((ucast (y :: u16) + of_nat j) * ucast (XResolution (vmi_p s)) + ucast (x :: u16) + of_nat i) *
      u32_of (bytes_per_pixel s) = of_nat (pix s (unat x + i) (unat y + j) * bpp s)"
  unfolding of_nat_bpp [OF assms] pix_def hres_def of_nat_unat_ucast
  by (simp only: of_nat_mult of_nat_add add.assoc)

lemma image_block:
  assumes "fb_ok s" and "image_ok s img" and "i < unat (img_width img)" and "j < unat (img_height img)"
  shows "block_bytes (img_bytes img)
      ((of_nat j * ucast (img_width img) + of_nat i) * u32_of (bytes_per_pixel s))
      (nat (bytes_per_pixel s)) = Some (image_at s img i j)"
    "fb_colour s (image_at s img i j)"
proof -
  let ?w = "unat (img_width img)" and ?h = "unat (img_height img)"
  have "j * ?w + i < ?w * ?h"
    using pixel_fits [of j ?h ?w] assms(3,4) by (simp add: mult.commute)
  from pixel_fits [OF this, of "bpp s"]
  have fits: "(j * ?w + i) * bpp s + bpp s \<le> length (img_bytes img)"
    and small: "(j * ?w + i) * bpp s < 2 ^ 32"
    using assms(2) by (auto simp: image_ok_def)
  have "(of_nat j * ucast (img_width img) + of_nat i) * u32_of (bytes_per_pixel s) =
      (of_nat ((j * ?w + i) * bpp s) :: u32)"
    unfolding of_nat_bpp [OF assms(1)] of_nat_unat_ucast by (simp only: of_nat_mult of_nat_add)
  moreover have "unat (of_nat ((j * ?w + i) * bpp s) :: u32) = (j * ?w + i) * bpp s"
    using small by (intro unat_of_nat_small) simp
  ultimately show "block_bytes (img_bytes img)
      ((of_nat j * ucast (img_width img) + of_nat i) * u32_of (bytes_per_pixel s))
      (nat (bytes_per_pixel s)) = Some (image_at s img i j)"
    using fits by (simp only: block_bytes_def image_at_def bpp_def [symmetric]) simp
  show "fb_colour s (image_at s img i j)"
    using fits by (simp add: fb_colour_def image_at_def)
qed

text \<open>
  The double loop of an image, for any rule \<open>cp\<close> by which the code finds the source of the
  pixel in column \<open>i\<close> and row \<open>j\<close>: \<open>src i j\<close> is what it finds there.
\<close>

lemma blit_painted:
  fixes x y :: u16
  assumes wf: "fb_wf s m"
    and src: "\<And>i j. i < W \<Longrightarrow> j < H \<Longrightarrow>
      block_bytes bs (cp j i) (nat (bytes_per_pixel s)) = Some (src i j) \<and> fb_colour s (src i j)"
  shows "\<exists>m'. foldM (\<lambda>j. foldM (\<lambda>i m.
        let position = ((ucast y + of_nat j) * ucast (XResolution (vmi_p s)) +
              ucast x + of_nat i) * u32_of (bytes_per_pixel s);
            color_position = cp j i
        in case (block_bytes bs color_position (nat (bytes_per_pixel s)),
                 object_bytes color_transparent (nat (bytes_per_pixel s))) of
             (Some px, Some tr) \<Rightarrow> if px \<noteq> tr then memcpy_to m position px else Some m
           | _ \<Rightarrow> None)
        [0..<min W (hres s - unat x)]) [0..<min H (vres s - unat y)] m = Some m' \<and>
    fb.painted s m
      {pix s (unat x + i) (unat y + j) |i j. i < W \<and> j < H \<and> unat x + i < hres s \<and>
         unat y + j < vres s \<and> src i j \<noteq> colour_bytes s color_transparent}
      (\<lambda>q. src (q mod hres s - unat x) (q div hres s - unat y)) m'"
proof -
  have ok: "fb_ok s" using wf by (simp add: fb_wf_def)
  let ?x = "unat x" and ?y = "unat y"
  let ?col = "\<lambda>q. src (q mod hres s - ?x) (q div hres s - ?y)"
  let ?cols = "[0..<min W (hres s - ?x)]" and ?rows = "[0..<min H (vres s - ?y)]"
  let ?shown = "\<lambda>i j. src i j \<noteq> colour_bytes s color_transparent"
  let ?P = "\<lambda>j i. if ?shown i j then {pix s (?x + i) (?y + j)} else {}"
  let ?body = "\<lambda>j i m. let position = ((ucast y + of_nat j) * ucast (XResolution (vmi_p s)) +
          ucast x + of_nat i) * u32_of (bytes_per_pixel s); color_position = cp j i
      in case (block_bytes bs color_position (nat (bytes_per_pixel s)),
               object_bytes color_transparent (nat (bytes_per_pixel s))) of
           (Some px, Some tr) \<Rightarrow> if px \<noteq> tr then memcpy_to m position px else Some m
         | _ \<Rightarrow> None"
  have step: "\<exists>m'. ?body j i m = Some m' \<and> fb.painted s m (?P j i) ?col m'"
    if i: "i \<in> set ?cols" and j: "j \<in> set ?rows" and w: "fb_wf s m" for i j m
  proof -
    from i j have b: "i < W" "j < H" "?x + i < hres s" "?y + j < vres s" by auto
    note blk = src [OF b(1,2)]
    have e: "?body j i m = (if ?shown i j
        then fb_put s m (pix s (?x + i) (?y + j)) (src i j) else Some m)"
      unfolding Let_def image_position [OF ok] conjunct1 [OF blk] object_bytes_colour(1) [OF ok]
      by (simp add: fb_put_def)
    have "?col (pix s (?x + i) (?y + j)) = src i j"
      using b(3) by (simp add: pix_def)
    then show ?thesis
      unfolding e using fb.put_painted [OF w pix_less [OF b(3,4)], of ?col] blk
        fb.painted_none [OF w, of ?col] by simp
  qed
  have row: "\<exists>m'. foldM (?body j) ?cols m = Some m' \<and>
      fb.painted s m (\<Union>i\<in>set ?cols. ?P j i) ?col m'" if "j \<in> set ?rows" and "fb_wf s m" for j m
    by (rule fb.foldM_painted [OF step [OF _ that(1)] that(2)])
  have "\<exists>m'. foldM (\<lambda>j. foldM (?body j) ?cols) ?rows m = Some m' \<and>
      fb.painted s m (\<Union>j\<in>set ?rows. \<Union>i\<in>set ?cols. ?P j i) ?col m'"
    by (rule fb.foldM_painted [OF row wf])
  moreover have "(\<Union>j\<in>set ?rows. \<Union>i\<in>set ?cols. ?P j i) =
      {pix s (?x + i) (?y + j) |i j. i < W \<and> j < H \<and> ?x + i < hres s \<and> ?y + j < vres s \<and> ?shown i j}"
  proof -
    have "set ?cols = {i. i < W \<and> ?x + i < hres s}" "set ?rows = {j. j < H \<and> ?y + j < vres s}" by auto
    then show ?thesis by (auto split: if_splits)
  qed
  ultimately show ?thesis by simp
qed

text \<open>The same pixel by pixel.\<close>

lemma blit_pixels:
  assumes p: "fb.painted s m {pix s (x + i) (y + j) |i j. i < W \<and> j < H \<and> x + i < hres s \<and>
         y + j < vres s \<and> shown i j} (\<lambda>q. src (q mod hres s - x) (q div hres s - y)) m'"
    and b: "px < hres s" "py < vres s"
  shows "fb_get s m' (pix s px py) =
     (if x \<le> px \<and> px < x + W \<and> y \<le> py \<and> py < y + H \<and> shown (px - x) (py - y)
      then src (px - x) (py - y) else fb_get s m (pix s px py))"
proof -
  have "pix s px py \<in> {pix s (x + i) (y + j) |i j. i < W \<and> j < H \<and> x + i < hres s \<and>
         y + j < vres s \<and> shown i j} \<longleftrightarrow>
      x \<le> px \<and> px < x + W \<and> y \<le> py \<and> py < y + H \<and> shown (px - x) (py - y)" (is "?L = ?R")
  proof
    assume ?L
    then obtain i j where e: "pix s px py = pix s (x + i) (y + j)"
      and r: "i < W" "j < H" "x + i < hres s" "y + j < vres s" "shown i j" by auto
    from pix_inj [OF e b(1) r(3)] r show ?R by simp
  next
    assume ?R
    then have "px - x < W" "py - y < H" by linarith+
    with \<open>?R\<close> b show ?L
      unfolding mem_Collect_eq
      by - (rule exI [of _ "px - x"], rule exI [of _ "py - y"], simp)
  qed
  moreover have "pix s px py mod hres s = px" "pix s px py div hres s = py"
    using b by (simp_all add: pix_def)
  ultimately show ?thesis using p pix_less [OF b] by (simp add: fb.painted_def)
qed

lemma draw_image_painted:
  assumes wf: "fb_wf s m" and img: "image_ok s img"
  shows "\<exists>m'. draw_image s m img x y = Some m' \<and>
    fb.painted s m (image_pixels s img (unat x) (unat y))
      (\<lambda>q. image_at s img (q mod hres s - unat x) (q div hres s - unat y)) m'"
proof -
  have ok: "fb_ok s" using wf by (simp add: fb_wf_def)
  let ?cp = "\<lambda>j i. (of_nat j * ucast (img_width img) + of_nat i) * u32_of (bytes_per_pixel s)"
  from blit_painted [OF wf, where W = "unat (img_width img)" and H = "unat (img_height img)"
      and cp = ?cp and src = "image_at s img" and bs = "img_bytes img" and x = x and y = y,
      OF conjI [OF image_block [OF ok img]]]
  show ?thesis
    by (simp add: draw_image_def image_pixels_def opaque_def Let_def hres_def vres_def)
qed

text \<open>Copying and clearing whole buffers.\<close>

lemma copy_buffers_wf:
  assumes "fb_wf s a" and "fb_wf s b"
  shows "copy_buffers s a b = Some b"
  using assms by (simp add: copy_buffers_def fb_wf_def Let_def)

lemma vg_clear_wf:
  assumes "fb_wf s m"
  shows "vg_clear s m = Some (replicate (length m) 0)" "fb_wf s (replicate (length m) 0)"
  using assms by (simp_all add: vg_clear_def fb_wf_def Let_def)

section \<open>The video mode of the game\<close>

text \<open>
  Mode 0x115: 800 by 600 pixels of 24 bits. \<open>mode_115\<close> says that the globals describe it,
  with the squares as \<open>initBoard\<close> computes them for it; \<open>screen_115\<close> is such a screen.
\<close>

definition mode_115 :: "Screen \<Rightarrow> bool" where
  "mode_115 s \<longleftrightarrow> XResolution (vmi_p s) = 800 \<and> YResolution (vmi_p s) = 600 \<and>
     bytes_per_pixel s = 3 \<and> vram_size s = 1440000"

definition squares_115 :: "Screen \<Rightarrow> bool" where
  "squares_115 s \<longleftrightarrow> mode_115 s \<and> rectangle_width s = 59 \<and> rectangle_height s = 59 \<and>
     left_rectangle_width s = 65"

definition screen_115 :: Screen where
  "screen_115 = \<lparr>vmi_p = \<lparr>XResolution = 800, YResolution = 600, BitsPerPixel = 24,
      PhysBasePtr = 0xE0000000\<rparr>, bytes_per_pixel = 3, vram_size = 1440000,
      rectangle_width = 59, rectangle_height = 59, left_rectangle_width = 65,
      right_rectangle_width = 263\<rparr>"

lemma screen_115: "squares_115 screen_115"
  by (simp add: squares_115_def mode_115_def screen_115_def)

lemma mode_115_facts:
  assumes "mode_115 s"
  shows "hres s = 800" "vres s = 600" "bpp s = 3" "fb_ok s" "unat (vram_size s) = 1440000"
  using assms by (simp_all add: mode_115_def hres_def vres_def bpp_def fb_ok_def)

lemma pix_in_rect:
  assumes "px < hres s" and "py < vres s"
  shows "pix s px py \<in> rect_pixels s x y w h \<longleftrightarrow>
      x \<le> px \<and> px < x + w \<and> y \<le> py \<and> py < y + h"
proof
  assume "pix s px py \<in> rect_pixels s x y w h"
  then obtain px' py' where e: "pix s px py = pix s px' py'"
    and r: "x \<le> px'" "px' < x + w" "y \<le> py'" "py' < y + h" "px' < hres s" "py' < vres s"
    by (auto simp: rect_pixels_def)
  from pix_inj [OF e assms(1) r(5)] r show "x \<le> px \<and> px < x + w \<and> y \<le> py \<and> py < y + h"
    by simp
next
  assume "x \<le> px \<and> px < x + w \<and> y \<le> py \<and> py < y + h"
  then show "pix s px py \<in> rect_pixels s x y w h"
    using assms unfolding rect_pixels_def by blast
qed

section \<open>Properties\<close>

text \<open>C14: Drawing a rectangle is exact and memory safe: on a buffer of the mode's size it always
  succeeds, keeps the size, and gives every pixel of the screen the new colour precisely
  when the rectangle's corner lies on the board and the pixel is inside the rectangle;
  every other pixel keeps its colour.\<close>
theorem draw_rectangle_exact:
  assumes "fb_wf s m"
  shows "\<exists>m'. draw_rectangle s m x y w h color = Some m' \<and> length m' = length m \<and>
    (\<forall>px py. px < hres s \<longrightarrow> py < vres s \<longrightarrow>
       fb_get s m' (pix s px py) =
         (if on_board s x y \<and> unat x \<le> px \<and> px < unat x + unat w \<and>
             unat y \<le> py \<and> py < unat y + unat h
          then colour_bytes s color else fb_get s m (pix s px py)))"
proof -
  obtain m' where m': "draw_rectangle s m x y w h color = Some m'"
    and p: "fb.painted s m
      (if on_board s x y then rect_pixels s (unat x) (unat y) (unat w) (unat h) else {})
      (\<lambda>_. colour_bytes s color) m'"
    using draw_rectangle_painted [OF assms] by blast
  have r: "pix s px py \<in> rect_pixels s (unat x) (unat y) (unat w) (unat h) \<longleftrightarrow>
      unat x \<le> px \<and> px < unat x + unat w \<and> unat y \<le> py \<and> py < unat y + unat h"
    if "px < hres s" "py < vres s" for px py
    using that by (rule pix_in_rect)
  have "fb_get s m' (pix s px py) =
         (if on_board s x y \<and> unat x \<le> px \<and> px < unat x + unat w \<and>
             unat y \<le> py \<and> py < unat y + unat h
          then colour_bytes s color else fb_get s m (pix s px py))"
    if "px < hres s" "py < vres s" for px py
    using p r [OF that] pix_less [OF that] by (simp add: fb.painted_def)
  moreover have "length m' = length m"
    using p assms by (simp add: fb.painted_def fb_wf_def)
  ultimately show ?thesis using m' by simp
qed

theorem draw_rectangle_exact_witness:
  "\<exists>m'. draw_rectangle screen_115 (replicate 1440000 0) 65 64 59 59 0xed820e = Some m' \<and>
     fb_get screen_115 m' (pix screen_115 100 100) = [0x0e, 0x82, 0xed]"
proof -
  note f = mode_115_facts [OF conjunct1 [OF screen_115 [unfolded squares_115_def]]]
  have "fb_wf screen_115 (replicate 1440000 0)"
    using f by (simp add: fb_wf_def)
  from draw_rectangle_exact [OF this, of 65 64 59 59 "0xed820e"]
  obtain m' where m': "draw_rectangle screen_115 (replicate 1440000 0) 65 64 59 59 0xed820e = Some m'"
    and g: "fb_get screen_115 m' (pix screen_115 100 100) =
      (if on_board screen_115 65 64 then colour_bytes screen_115 0xed820e
       else fb_get screen_115 (replicate 1440000 0) (pix screen_115 100 100))"
    using f(1,2) by force
  have "on_board screen_115 65 64"
    by (simp add: on_board_def getBoardX_def getBoardY_def screen_115_def u32_of_def i32_of_def
        vertical_margin_def)
  moreover have "colour_bytes screen_115 0xed820e = [0x0e, 0x82, 0xed]"
    unfolding colour_bytes_def f(3) by (simp add: upt_rec)
  ultimately show ?thesis using m' g by auto
qed

text \<open>C15: Drawing an image is exact and memory safe: for an image whose data covers its size,
  drawing succeeds wherever the corner is, keeps the buffer's size, and each pixel of the
  screen that the image covers with a non-transparent pixel takes that pixel's bytes; all
  other pixels keep their colour.\<close>
theorem draw_image_exact:
  assumes "fb_wf s m" and "image_ok s img"
  shows "\<exists>m'. draw_image s m img x y = Some m' \<and> length m' = length m \<and>
    (\<forall>px py. px < hres s \<longrightarrow> py < vres s \<longrightarrow>
       fb_get s m' (pix s px py) =
         (if unat x \<le> px \<and> px < unat x + unat (img_width img) \<and>
             unat y \<le> py \<and> py < unat y + unat (img_height img) \<and>
             opaque s img (px - unat x) (py - unat y)
          then image_at s img (px - unat x) (py - unat y)
          else fb_get s m (pix s px py)))"
proof -
  obtain m' where m': "draw_image s m img x y = Some m'"
    and p: "fb.painted s m (image_pixels s img (unat x) (unat y))
      (\<lambda>q. image_at s img (q mod hres s - unat x) (q div hres s - unat y)) m'"
    using draw_image_painted [OF assms] by blast
  then show ?thesis
    using m' assms(1) blit_pixels [where shown = "opaque s img" and src = "image_at s img"]
    by (auto simp: image_pixels_def fb.painted_def fb_wf_def)
qed

theorem draw_image_exact_witness:
  "\<exists>m'. draw_image screen_115 (replicate 1440000 0)
       \<lparr>img_width = 2, img_height = 1, img_bytes = [1, 2, 3, 0x69, 0, 0]\<rparr> 10 20 = Some m' \<and>
     fb_get screen_115 m' (pix screen_115 10 20) = [1, 2, 3] \<and>
     fb_get screen_115 m' (pix screen_115 11 20) =
       fb_get screen_115 (replicate 1440000 0) (pix screen_115 11 20)"
proof -
  let ?img = "\<lparr>img_width = 2, img_height = 1, img_bytes = [1, 2, 3, 0x69, 0, 0]\<rparr>"
  note f = mode_115_facts [OF conjunct1 [OF screen_115 [unfolded squares_115_def]]]
  have "fb_wf screen_115 (replicate 1440000 0)" and "image_ok screen_115 ?img"
    using f by (simp_all add: fb_wf_def image_ok_def)
  from draw_image_exact [OF this, of 10 20]
  obtain m' where m': "draw_image screen_115 (replicate 1440000 0) ?img 10 20 = Some m'"
    and g: "\<forall>px py. px < hres screen_115 \<longrightarrow> py < vres screen_115 \<longrightarrow>
       fb_get screen_115 m' (pix screen_115 px py) =
         (if unat (10::u16) \<le> px \<and> px < unat (10::u16) + unat (img_width ?img) \<and>
             unat (20::u16) \<le> py \<and> py < unat (20::u16) + unat (img_height ?img) \<and>
             opaque screen_115 ?img (px - unat (10::u16)) (py - unat (20::u16))
          then image_at screen_115 ?img (px - unat (10::u16)) (py - unat (20::u16))
          else fb_get screen_115 (replicate 1440000 0) (pix screen_115 px py))"
    by blast
  note g1 = g [rule_format, of 10 20] and g2 = g [rule_format, of 11 20]
  have t: "colour_bytes screen_115 color_transparent = [0x69, 0, 0]"
    unfolding colour_bytes_def f(3) by (simp add: upt_rec color_transparent_def)
  have "opaque screen_115 ?img 0 0" "image_at screen_115 ?img 0 0 = [1, 2, 3]"
    "\<not> opaque screen_115 ?img 1 0"
    unfolding opaque_def t by (simp_all add: image_at_def f(3))
  with g1 g2 f(1,2) m' show ?thesis by simp
qed

end
