(* ===== verification/Piece.thy ===== *)
theory Piece
  imports Pixels
begin

text \<open>
  \<open>proj/src/piece.c\<close>: a chess piece on the screen. A piece keeps where it is drawn, where
  it is heading, and the flags by which the board decides when and on which layer to draw
  it. The movement rules live in the theory of the board.
\<close>

section \<open>Types of pieces\<close>

text \<open>The enumeration in the order of \<open>piece.h\<close>; its order is the order of the C values.\<close>

datatype PieceType =
    b_pawn | b_knight | b_bishop | b_rook | b_queen | b_king
  | w_pawn | w_knight | w_bishop | w_rook | w_queen | w_king

primrec type_num :: "PieceType \<Rightarrow> int" where
  "type_num b_pawn = 0" | "type_num b_knight = 1" | "type_num b_bishop = 2"
| "type_num b_rook = 3" | "type_num b_queen = 4" | "type_num b_king = 5"
| "type_num w_pawn = 6" | "type_num w_knight = 7" | "type_num w_bishop = 8"
| "type_num w_rook = 9" | "type_num w_queen = 10" | "type_num w_king = 11"

lemma type_num_inj: "type_num a = type_num b \<Longrightarrow> a = b"
  by (cases a; cases b) simp_all

instantiation PieceType :: linorder
begin

definition less_eq_PieceType :: "PieceType \<Rightarrow> PieceType \<Rightarrow> bool" where
  "less_eq_PieceType a b \<longleftrightarrow> type_num a \<le> type_num b"

definition less_PieceType :: "PieceType \<Rightarrow> PieceType \<Rightarrow> bool" where
  "less_PieceType a b \<longleftrightarrow> type_num a < type_num b"

instance
  by standard (auto simp: less_eq_PieceType_def less_PieceType_def dest: type_num_inj)

end

text \<open>The two colours, as the rules of chess have them.\<close>

definition is_white :: "PieceType \<Rightarrow> bool" where
  "is_white t \<longleftrightarrow> b_king < t"

lemma is_white_num: "is_white t \<longleftrightarrow> type_num t > 5"
  by (simp add: is_white_def less_PieceType_def)

definition is_pawn :: "PieceType \<Rightarrow> bool" where
  "is_pawn t \<longleftrightarrow> t = b_pawn \<or> t = w_pawn"

section \<open>The piece\<close>

record Piece =
  absolute_x :: u16
  absolute_y :: u16
  board_x :: u16
  board_y :: u16
  target_x :: u16
  target_y :: u16
  piece_image :: xpm_image
  ptype :: PieceType
  is_moving :: bool
  priority_draw :: bool
  change :: bool
  pawn_moved :: bool

text \<open>The picture of a type of piece: the first argument of each branch's \<open>create_image\<close>.\<close>

primrec piece_xpm :: "PieceType \<Rightarrow> Xpm" where
  "piece_xpm b_pawn = pdl58" | "piece_xpm b_knight = ndl58" | "piece_xpm b_bishop = bdl58"
| "piece_xpm b_rook = rdl58" | "piece_xpm b_queen = qdl58" | "piece_xpm b_king = kdl58"
| "piece_xpm w_pawn = pll58" | "piece_xpm w_knight = nll58" | "piece_xpm w_bishop = bll58"
| "piece_xpm w_rook = rll58" | "piece_xpm w_queen = qll58" | "piece_xpm w_king = kll58"

text \<open>
  \<open>p\<close> is the block \<open>malloc\<close> returned: the fields that \<open>initPiece\<close> does not write keep
  whatever it holds. The \<open>default\<close> branch of the switch is for values outside the
  enumeration.
\<close>

definition initPiece :: "xpm_loader \<Rightarrow> Piece \<Rightarrow> PieceType \<Rightarrow> int \<Rightarrow> int \<Rightarrow> Piece" where
  "initPiece load p piece_type ux uy =
     (let p1 = p\<lparr>piece_image := snd (create_image load (piece_xpm piece_type) (piece_image p))\<rparr>;
          p2 = (if piece_type = b_pawn \<or> piece_type = w_pawn then p1\<lparr>pawn_moved := False\<rparr> else p1)
      in p2\<lparr>absolute_x := u16_of ux, absolute_y := u16_of uy, ptype := piece_type,
            is_moving := False, priority_draw := False\<rparr>)"

text \<open>A null piece draws nothing.\<close>

definition drawPieces :: "Screen \<Rightarrow> mem \<Rightarrow> Piece option \<Rightarrow> mem option" where
  "drawPieces s m piece =
     (case piece of
        None \<Rightarrow> Some m
      | Some p \<Rightarrow> draw_image s m (piece_image p) (absolute_x p) (absolute_y p))"

text \<open>One coordinate of one frame: the \<open>int\<close> difference decides, so nothing wraps.\<close>

definition step_towards :: "u16 \<Rightarrow> u16 \<Rightarrow> u16" where
  "step_towards target absolute =
     (let add = uint target - uint absolute
      in if add > 0 then absolute + 1 else if add < 0 then absolute - 1 else absolute)"

definition updatePiece :: "Piece \<Rightarrow> bool \<times> Piece" where
  "updatePiece p =
     (if absolute_x p = target_x p \<and> absolute_y p = target_y p then
        (if is_moving p
         then (True, p\<lparr>is_moving := False, priority_draw := False, change := True\<rparr>)
         else (False, p))
      else
        let p1 = p\<lparr>absolute_x := step_towards (target_x p) (absolute_x p),
                   absolute_y := step_towards (target_y p) (absolute_y p)\<rparr>
        in (False,
            if (ptype p1 = b_pawn \<or> ptype p1 = w_pawn) \<and> \<not> pawn_moved p1
            then p1\<lparr>pawn_moved := True\<rparr> else p1))"

definition updatePiece_no_animation :: "Piece \<Rightarrow> bool \<times> Piece" where
  "updatePiece_no_animation p =
     (let p1 = p\<lparr>absolute_x := target_x p, absolute_y := target_y p\<rparr>
      in if is_moving p1
         then (True, p1\<lparr>is_moving := False, priority_draw := False, change := True\<rparr>)
         else (False, p1))"

definition movePiece :: "Piece \<Rightarrow> int \<Rightarrow> int \<Rightarrow> Piece" where
  "movePiece p px py =
     p\<lparr>change := True, is_moving := True, priority_draw := True,
       target_x := u16_of px, target_y := u16_of py\<rparr>"

definition setPiecePosition :: "Piece \<Rightarrow> int \<Rightarrow> int \<Rightarrow> Piece" where
  "setPiecePosition p px py = p\<lparr>absolute_x := u16_of px, absolute_y := u16_of py\<rparr>"

section \<open>Moving one pixel per frame\<close>

text \<open>
  The distance left, and where a coordinate is after \<open>k\<close> frames: at most \<open>k\<close> pixels
  closer, never past its target.
\<close>

definition gap :: "u16 \<Rightarrow> u16 \<Rightarrow> nat" where
  "gap target absolute = nat \<bar>uint target - uint absolute\<bar>"

lemma gap_zero: "gap t a = 0 \<longleftrightarrow> a = t"
  by (auto simp: gap_def simp flip: word_uint_eq_iff)

lemma uint_plus1_below: "uint a < uint t \<Longrightarrow> uint (a + 1) = uint a + 1" for a t :: u16
  using uint_u16 [of t] uint_u16 [of a] by (simp add: uint_word_ariths)

lemma uint_minus1_above:
  fixes a t :: u16
  assumes "uint t < uint a"
  shows "uint (a - 1) = uint a - 1"
proof -
  have "0 < uint a" using assms uint_u16(1) [of t] by linarith
  then show ?thesis using uint_u16(2) [of a] by (simp add: uint_word_ariths)
qed

lemma step_towards_gap: "gap t (step_towards t a) = gap t a - 1"
  using uint_plus1_below [of a t] uint_minus1_above [of t a]
  by (auto simp: step_towards_def gap_def Let_def)

text \<open>Frames of one piece.\<close>

primrec frames :: "nat \<Rightarrow> Piece \<Rightarrow> Piece" where
  "frames 0 p = p"
| "frames (Suc n) p = frames n (snd (updatePiece p))"

definition distance :: "Piece \<Rightarrow> nat" where
  "distance p = max (gap (target_x p) (absolute_x p)) (gap (target_y p) (absolute_y p))"

lemma distance_zero: "distance p = 0 \<longleftrightarrow> absolute_x p = target_x p \<and> absolute_y p = target_y p"
  by (auto simp: distance_def gap_zero)

text \<open>What a frame away from the target leaves alone, and the distance it takes off.\<close>

lemma updatePiece_far:
  assumes "distance p > 0"
  shows "fst (updatePiece p) = False" and "distance (snd (updatePiece p)) = distance p - 1"
    and "\<exists>ux uy. snd (updatePiece p) = p\<lparr>absolute_x := ux, absolute_y := uy,
           pawn_moved := pawn_moved p \<or> is_pawn (ptype p)\<rparr>"
proof -
  have far: "\<not> (absolute_x p = target_x p \<and> absolute_y p = target_y p)"
    using assms distance_zero by force
  show "fst (updatePiece p) = False"
    unfolding updatePiece_def Let_def if_not_P [OF far] by simp
  show "distance (snd (updatePiece p)) = distance p - 1"
    unfolding updatePiece_def Let_def if_not_P [OF far]
    by (simp add: distance_def step_towards_gap max_def)
  show "\<exists>ux uy. snd (updatePiece p) = p\<lparr>absolute_x := ux, absolute_y := uy,
           pawn_moved := pawn_moved p \<or> is_pawn (ptype p)\<rparr>"
    unfolding updatePiece_def Let_def if_not_P [OF far]
    by (rule exI [of _ "step_towards (target_x p) (absolute_x p)"],
        rule exI [of _ "step_towards (target_y p) (absolute_y p)"])
       (auto simp: is_pawn_def)
qed

lemma frames_far:
  "k \<le> distance p \<Longrightarrow>
   distance (frames k p) = distance p - k \<and>
   (\<exists>ux uy. frames k p = p\<lparr>absolute_x := ux, absolute_y := uy,
      pawn_moved := pawn_moved p \<or> (0 < k \<and> is_pawn (ptype p))\<rparr>)"
proof (induction k arbitrary: p)
  case 0
  have "(\<lambda>ux uy. frames 0 p = p\<lparr>absolute_x := ux, absolute_y := uy,
      pawn_moved := pawn_moved p \<or> (0 < (0::nat) \<and> is_pawn (ptype p))\<rparr>)
      (absolute_x p) (absolute_y p)"
    by simp
  then have "\<exists>ux uy. frames 0 p = p\<lparr>absolute_x := ux, absolute_y := uy,
      pawn_moved := pawn_moved p \<or> (0 < (0::nat) \<and> is_pawn (ptype p))\<rparr>"
    by blast
  then show ?case by simp
next
  case (Suc k)
  then have d: "0 < distance p" by simp
  obtain ux uy where u: "snd (updatePiece p) = p\<lparr>absolute_x := ux, absolute_y := uy,
      pawn_moved := pawn_moved p \<or> is_pawn (ptype p)\<rparr>"
    using updatePiece_far(3) [OF d] by blast
  have "k \<le> distance (snd (updatePiece p))"
    using Suc.prems updatePiece_far(2) [OF d] by simp
  from Suc.IH [OF this] obtain vx vy where
    "distance (frames k (snd (updatePiece p))) = distance p - 1 - k"
    "frames k (snd (updatePiece p)) = (snd (updatePiece p))\<lparr>absolute_x := vx, absolute_y := vy,
      pawn_moved := pawn_moved (snd (updatePiece p)) \<or>
        (0 < k \<and> is_pawn (ptype (snd (updatePiece p))))\<rparr>"
    using updatePiece_far(2) [OF d] by metis
  moreover have e: "(pawn_moved p \<or> is_pawn (ptype p) \<or> 0 < k \<and> is_pawn (ptype p)) =
      (pawn_moved p \<or> is_pawn (ptype p))" by blast
  ultimately show ?case by (simp add: u e) blast
qed

section \<open>Properties\<close>

text \<open>C20: An animated move arrives. A moving piece whose distance to its target (the larger of
  the two coordinate differences, of any size a 16-bit coordinate allows) is n reaches the
  target after exactly n frames without overshooting or wrapping, reports nothing on the
  way, and the next frame reports the end of the move, clears its moving and priority
  flags and asks for a redraw; a pawn that travelled is marked as moved.\<close>
theorem updatePiece_converges:
  assumes "is_moving p"
  shows "(\<forall>k<distance p. fst (updatePiece (frames k p)) = False \<and> is_moving (frames k p)) \<and>
    updatePiece (frames (distance p) p) =
      (True, p\<lparr>absolute_x := target_x p, absolute_y := target_y p, is_moving := False,
               priority_draw := False, change := True,
               pawn_moved := pawn_moved p \<or> (0 < distance p \<and> is_pawn (ptype p))\<rparr>)"
proof (intro conjI allI impI)
  fix k assume k: "k < distance p"
  then have f: "distance (frames k p) = distance p - k \<and>
   (\<exists>ux uy. frames k p = p\<lparr>absolute_x := ux, absolute_y := uy,
      pawn_moved := pawn_moved p \<or> (0 < k \<and> is_pawn (ptype p))\<rparr>)"
    by (intro frames_far) simp
  with k have "distance (frames k p) > 0" by simp
  then show "fst (updatePiece (frames k p)) = False" by (rule updatePiece_far(1))
  from f obtain ux uy where "frames k p = p\<lparr>absolute_x := ux, absolute_y := uy,
      pawn_moved := pawn_moved p \<or> (0 < k \<and> is_pawn (ptype p))\<rparr>" by blast
  with assms show "is_moving (frames k p)" by simp
next
  obtain ux uy where e: "frames (distance p) p = p\<lparr>absolute_x := ux, absolute_y := uy,
      pawn_moved := pawn_moved p \<or> (0 < distance p \<and> is_pawn (ptype p))\<rparr>"
    and z: "distance (frames (distance p) p) = 0"
    using frames_far [of "distance p" p] by auto
  from z have "ux = target_x p \<and> uy = target_y p"
    unfolding distance_zero e by simp
  with assms show "updatePiece (frames (distance p) p) =
      (True, p\<lparr>absolute_x := target_x p, absolute_y := target_y p, is_moving := False,
               priority_draw := False, change := True,
               pawn_moved := pawn_moved p \<or> (0 < distance p \<and> is_pawn (ptype p))\<rparr>)"
    unfolding e by (simp add: updatePiece_def)
qed

definition sample_piece :: Piece where
  "sample_piece = \<lparr>absolute_x = 65, absolute_y = 418, board_x = 0, board_y = 0, target_x = 0,
     target_y = 0, piece_image = \<lparr>img_width = 0, img_height = 0, img_bytes = []\<rparr>,
     ptype = w_pawn, is_moving = False, priority_draw = False, change = False,
     pawn_moved = False\<rparr>"

theorem updatePiece_converges_witness:
  "updatePiece (frames 118 (movePiece sample_piece 65 300)) =
     (True, (movePiece sample_piece 65 300)\<lparr>absolute_x := 65, absolute_y := 300,
        is_moving := False, priority_draw := False, change := True, pawn_moved := True\<rparr>)"
proof -
  let ?p = "movePiece sample_piece 65 300"
  have d: "distance ?p = 118"
    by (simp add: distance_def gap_def movePiece_def sample_piece_def u16_of_def)
  have "is_moving ?p" by (simp add: movePiece_def)
  from updatePiece_converges [OF this] show ?thesis
    unfolding d by (simp add: movePiece_def sample_piece_def u16_of_def is_pawn_def)
qed

end
