(* ===== verification/Board.thy ===== *)
theory Board
  imports Piece
begin

text \<open>
  \<open>proj/src/board.c\<close>: the squares, the pieces on them, and the layers they are drawn on.
  The board holds references to pieces, since the game keeps a second reference to the
  piece being dragged: a piece lives in a heap and a square holds its address or null.
\<close>

section \<open>The board\<close>

text \<open>
  \<open>mem_board\<close> is the layer with the squares, \<open>mem_pieces\<close> the layer with the squares
  and the pieces at rest. \<open>heap\<close> holds the pieces \<open>createPiece\<close> allocated, in order.
\<close>

record Board =
  mem_board :: mem
  mem_pieces :: mem
  squares :: "nat option list"
  heap :: "Piece list"
  redrawPieces :: bool

definition get_position :: "int \<Rightarrow> int \<Rightarrow> int" where
  "get_position c r = c + r * 8"

text \<open>
  Reading \<open>board->board[i]\<close>: defined for an index of the array only. \<open>piece_of\<close> follows
  the reference.
\<close>

definition square_at :: "Board \<Rightarrow> int \<Rightarrow> nat option option" where
  "square_at b i = (if 0 \<le> i \<and> i < int (length (squares b)) then Some (squares b ! nat i) else None)"

definition piece_of :: "Board \<Rightarrow> nat \<Rightarrow> Piece option" where
  "piece_of b ref = (if ref < length (heap b) then Some (heap b ! ref) else None)"

definition set_square :: "Board \<Rightarrow> int \<Rightarrow> nat option \<Rightarrow> Board option" where
  "set_square b i v =
     (if 0 \<le> i \<and> i < int (length (squares b)) then Some (b\<lparr>squares := (squares b)[nat i := v]\<rparr>)
      else None)"

definition set_piece :: "Board \<Rightarrow> nat \<Rightarrow> Piece \<Rightarrow> Board option" where
  "set_piece b ref p =
     (if ref < length (heap b) then Some (b\<lparr>heap := (heap b)[ref := p]\<rparr>) else None)"

section \<open>Setting up\<close>

text \<open>\<open>fresh\<close> is the block \<open>malloc\<close> returned for the piece.\<close>

definition createPiece ::
  "xpm_loader \<Rightarrow> Screen \<Rightarrow> Piece \<Rightarrow> PieceType \<Rightarrow> int \<Rightarrow> int \<Rightarrow> Board \<Rightarrow> Board option" where
  "createPiece load s fresh t c r b =
     (let px = u32_of c * rectangle_width s + left_rectangle_width s;
          py = vertical_margin div 2 + u32_of r * rectangle_height s;
          p = initPiece load fresh t (i32_of px) (i32_of py)
      in set_square (b\<lparr>heap := heap b @ [p]\<rparr>) (get_position c r) (Some (length (heap b))))"

text \<open>
  The literal \<open>0.20\<close> is stored in a \<open>float\<close>: the nearest one is 13421773 / 2^26. The
  product with an unsigned below 2^24 is rounded to a float of 24 significant bits and
  truncated; \<open>float_mul_trunc\<close> computes it exactly (round half to even).
\<close>

definition horizontal_margin_num :: nat where "horizontal_margin_num = 13421773"

definition round_bits :: "nat \<Rightarrow> nat \<Rightarrow> nat" where
  "round_bits n k =
     (let q = n div 2 ^ k; r = n mod 2 ^ k
      in (if 2 * r > 2 ^ k \<or> (2 * r = 2 ^ k \<and> odd q) then q + 1 else q) * 2 ^ k)"

fun bit_length :: "nat \<Rightarrow> nat" where
  "bit_length n = (if n = 0 then 0 else bit_length (n div 2) + 1)"

declare bit_length.simps [simp del]

definition float_mul_trunc :: "u32 \<Rightarrow> u32" where
  "float_mul_trunc v =
     (let prod = unat v * horizontal_margin_num
      in of_nat (round_bits prod (bit_length prod - 24) div 2 ^ 26))"

text \<open>The 32 calls of \<open>createPiece\<close> in \<open>initBoard\<close>, in order.\<close>

definition initial_pieces :: "(PieceType \<times> int \<times> int) list" where
  "initial_pieces =
     [(b_rook, 0, 0), (b_knight, 1, 0), (b_bishop, 2, 0), (b_queen, 3, 0),
      (b_king, 4, 0), (b_bishop, 5, 0), (b_knight, 6, 0), (b_rook, 7, 0),
      (b_pawn, 0, 1), (b_pawn, 1, 1), (b_pawn, 2, 1), (b_pawn, 3, 1),
      (b_pawn, 4, 1), (b_pawn, 5, 1), (b_pawn, 6, 1), (b_pawn, 7, 1),
      (w_rook, 0, 7), (w_knight, 1, 7), (w_bishop, 2, 7), (w_queen, 3, 7),
      (w_king, 4, 7), (w_bishop, 5, 7), (w_knight, 6, 7), (w_rook, 7, 7),
      (w_pawn, 0, 6), (w_pawn, 1, 6), (w_pawn, 2, 6), (w_pawn, 3, 6),
      (w_pawn, 4, 6), (w_pawn, 5, 6), (w_pawn, 6, 6), (w_pawn, 7, 6)]"

text \<open>The geometry, from the resolution of the mode.\<close>

definition set_geometry :: "Screen \<Rightarrow> Screen" where
  "set_geometry s =
     (let rw = (get_v_res s - vertical_margin) div 8;
          left = float_mul_trunc (get_h_res s - 8 * rw)
      in s\<lparr>rectangle_width := rw, rectangle_height := (get_v_res s - vertical_margin) div 8,
           left_rectangle_width := left,
           right_rectangle_width := get_h_res s - 8 * rw - left\<rparr>)"

text \<open>
  \<open>b\<close> is the block \<open>malloc\<close> returned for the board and \<open>fresh k\<close> the \<open>k\<close>-th block
  allocated for a piece.
\<close>

definition initBoard ::
  "'w video_kernel \<Rightarrow> (u32 \<Rightarrow> mem) \<Rightarrow> xpm_loader \<Rightarrow> (nat \<Rightarrow> Piece) \<Rightarrow> Screen \<Rightarrow> 'w \<Rightarrow> Board \<Rightarrow>
   (Screen \<times> 'w \<times> Board) option" where
  "initBoard V mapped load fresh s w b =
     do {
       (m2, s1, w1) \<leftarrow> map_page V mapped 2 0x115 s w;
       mb \<leftarrow> vg_clear s1 m2;
       (m3, s2, w2) \<leftarrow> map_page V mapped 3 0x115 s1 w1;
       mp \<leftarrow> vg_clear s2 m3;
       let s3 = set_geometry s2;
       let b1 = b\<lparr>mem_board := mb, mem_pieces := mp, squares := replicate 64 None, heap := []\<rparr>;
       b2 \<leftarrow> foldM (\<lambda>(t, c, r) b. createPiece load s3 (fresh (length (heap b))) t c r b)
              initial_pieces b1;
       Some (s3, w2, b2\<lparr>redrawPieces := True\<rparr>)
     }"

section \<open>Drawing the board\<close>

definition color1 :: u32 where "color1 = 0x3cb043"
definition color2 :: u32 where "color2 = 0xFFFDD0"
definition orange :: u32 where "orange = 0xed820e"

definition toggle_color :: "u32 \<Rightarrow> u32" where
  "toggle_color c = (if c = color1 then color2 else color1)"

text \<open>The two loops: the colour changes before every square and once more after a row.\<close>

definition draw_square :: "Screen \<Rightarrow> nat \<Rightarrow> nat \<Rightarrow> u32 \<Rightarrow> mem \<Rightarrow> mem option" where
  "draw_square s row col c m =
     draw_rectangle s m
       (ucast (of_nat col * rectangle_width s + left_rectangle_width s))
       (ucast (of_nat row * rectangle_height s + vertical_margin div 2))
       (ucast (rectangle_width s)) (ucast (rectangle_height s)) c"

definition draw_row :: "Screen \<Rightarrow> nat \<Rightarrow> mem \<times> u32 \<Rightarrow> (mem \<times> u32) option" where
  "draw_row s row mc =
     map_option (\<lambda>(m, c). (m, toggle_color c))
       (foldM (\<lambda>col (m, c).
          let c' = toggle_color c
          in map_option (\<lambda>m'. (m', c')) (draw_square s row col c' m)) [0..<8] mc)"

definition drawBoard :: "Screen \<Rightarrow> Board \<Rightarrow> Board option" where
  "drawBoard s b =
     do {
       (m, c) \<leftarrow> foldM (draw_row s) [0..<8] (mem_board b, color1);
       Some (b\<lparr>redrawPieces := True, mem_board := m\<rparr>)
     }"

text \<open>One square of the loop of \<open>updateBoard\<close>.\<close>

definition update_square :: "bool \<Rightarrow> nat \<Rightarrow> Board \<Rightarrow> Board option" where
  "update_square animation i b =
     do {
       sq \<leftarrow> square_at b (int i);
       case sq of
         None \<Rightarrow> Some b
       | Some ref \<Rightarrow> do {
           p \<leftarrow> piece_of b ref;
           let p1 = (if is_moving p then snd (if animation then updatePiece p else updatePiece_no_animation p)
                     else p);
           b1 \<leftarrow> set_piece b ref p1;
           if change p1 then set_piece (b1\<lparr>redrawPieces := True\<rparr>) ref (p1\<lparr>change := False\<rparr>)
           else Some b1
         }
     }"

definition updateBoard :: "bool \<Rightarrow> Board \<Rightarrow> Board option" where
  "updateBoard animation b =
     foldM (\<lambda>row. foldM (\<lambda>col. update_square animation (nat (get_position (int col) (int row)))) [0..<8])
       [0..<8] b"

text \<open>
  Drawing the pieces of one priority, in the order of the squares. The second layer is
  drawn first; the pieces with priority go on top of its copy in the frame.
\<close>

definition draw_layer :: "Screen \<Rightarrow> Board \<Rightarrow> bool \<Rightarrow> mem \<Rightarrow> mem option" where
  "draw_layer s b prio m =
     foldM (\<lambda>row. foldM (\<lambda>col m.
       do {
         sq \<leftarrow> square_at b (get_position (int col) (int row));
         case sq of
           None \<Rightarrow> Some m
         | Some ref \<Rightarrow> do {
             p \<leftarrow> piece_of b ref;
             if priority_draw p = prio then drawPieces s m (Some p) else Some m
           }
       }) [0..<8]) [0..<8] m"

definition drawBoardPieces :: "Screen \<Rightarrow> mem \<Rightarrow> Board \<Rightarrow> (mem \<times> Board) option" where
  "drawBoardPieces s video_mem_buffer b =
     do {
       b1 \<leftarrow> (if redrawPieces b then
                do {
                  mp \<leftarrow> copy_buffers s (mem_pieces b) (mem_board b);
                  mp' \<leftarrow> draw_layer s b False mp;
                  Some (b\<lparr>mem_pieces := mp', redrawPieces := False\<rparr>)
                }
              else Some b);
       v \<leftarrow> copy_buffers s video_mem_buffer (mem_pieces b1);
       v' \<leftarrow> draw_layer s b1 True v;
       Some (v', b1)
     }"

definition changePiecePriority :: "Piece \<Rightarrow> bool \<Rightarrow> Piece" where
  "changePiecePriority p priority = p\<lparr>priority_draw := priority, change := True\<rparr>"

section \<open>Where a piece may go\<close>

text \<open>
  The squares \<open>possiblePosition\<close> paints, in the order it paints them. It tests
  \<open>board->board[i]\<close> for indices outside the array too (a pawn two rows from the edge, the
  diagonals of bishop and queen). C leaves such a read undefined; what the machine does is
  the parameter \<open>junk\<close>: \<open>junk i\<close> is \<open>None\<close> when the read has no result and otherwise tells
  whether the word found there is not null. A capture test also follows the reference
  (\<open>None\<close>: it leads nowhere).
\<close>

definition occupied :: "(int \<Rightarrow> bool option) \<Rightarrow> Board \<Rightarrow> int \<Rightarrow> bool option" where
  "occupied junk b i = (case square_at b i of Some sq \<Rightarrow> Some (sq \<noteq> None) | None \<Rightarrow> junk i)"

text \<open>\<open>board->board[i] && P(board->board[i]->type)\<close>\<close>

definition holds_type :: "Board \<Rightarrow> int \<Rightarrow> (int \<Rightarrow> bool) \<Rightarrow> bool option" where
  "holds_type b i P =
     do {
       sq \<leftarrow> square_at b i;
       case sq of
         None \<Rightarrow> Some False
       | Some ref \<Rightarrow> map_option (\<lambda>p. P (type_num (ptype p))) (piece_of b ref)
     }"

text \<open>A guarded capture square.\<close>

definition capture :: "bool \<Rightarrow> Board \<Rightarrow> int \<Rightarrow> (int \<Rightarrow> bool) \<Rightarrow> int \<times> int \<Rightarrow> (int \<times> int) list option" where
  "capture guard b i P sq =
     (if guard then map_option (\<lambda>h. if h then [sq] else []) (holds_type b i P) else Some [])"

definition b_pawn_squares :: "(int \<Rightarrow> bool option) \<Rightarrow> Board \<Rightarrow> bool \<Rightarrow> int \<Rightarrow> int \<Rightarrow> (int \<times> int) list option" where
  "b_pawn_squares junk b moved x y =
     do {
       right \<leftarrow> capture (y < 7 \<and> x < 7) b ((y + 1) * 8 + x + 1) (\<lambda>t. t \<ge> 5) (x + 1, y + 1);
       left \<leftarrow> capture (x > 0 \<and> y < 7) b ((y + 1) * 8 + x - 1) (\<lambda>t. t \<ge> 5) (x - 1, y + 1);
       one \<leftarrow> occupied junk b ((y + 1) * 8 + x);
       if one then Some (right @ left)
       else do {
         two \<leftarrow> occupied junk b ((y + 2) * 8 + x);
         Some (right @ left @ (if \<not> two \<and> \<not> moved then [(x, y + 2)] else []) @ [(x, y + 1)])
       }
     }"

definition w_pawn_squares :: "(int \<Rightarrow> bool option) \<Rightarrow> Board \<Rightarrow> bool \<Rightarrow> int \<Rightarrow> int \<Rightarrow> (int \<times> int) list option" where
  "w_pawn_squares junk b moved x y =
     do {
       right \<leftarrow> capture (y > 0 \<and> x < 7) b ((y - 1) * 8 + x + 1) (\<lambda>t. t < 5) (x + 1, y - 1);
       left \<leftarrow> capture (y > 0 \<and> x > 0) b ((y - 1) * 8 + x - 1) (\<lambda>t. t < 5) (x - 1, y - 1);
       one \<leftarrow> occupied junk b ((y - 1) * 8 + x);
       if one then Some (right @ left)
       else do {
         two \<leftarrow> occupied junk b ((y - 2) * 8 + x);
         Some (right @ left @ (if \<not> two \<and> \<not> moved then [(x, y - 2)] else []) @ [(x, y - 1)])
       }
     }"

definition knight_squares :: "int \<Rightarrow> int \<Rightarrow> (int \<times> int) list" where
  "knight_squares x y =
     [(x + 2, y - 1), (x + 2, y + 1), (x - 2, y - 1), (x - 2, y + 1),
      (x + 1, y + 2), (x + 1, y - 2), (x - 1, y - 2), (x - 1, y + 2)]"

definition king_squares :: "int \<Rightarrow> int \<Rightarrow> (int \<times> int) list" where
  "king_squares x y =
     [(x + 1, y + 1), (x + 1, y), (x + 1, y - 1), (x, y + 1), (x, y - 1),
      (x - 1, y + 1), (x - 1, y), (x - 1, y - 1)]"

text \<open>
  One of the four loops of the rook: it paints every square it visits, the first one (the
  piece's own) unconditionally, and stops after painting an occupied one.
\<close>

fun ray :: "(int \<Rightarrow> bool option) \<Rightarrow> int \<Rightarrow> int list \<Rightarrow> int list option" where
  "ray occ start [] = Some []"
| "ray occ start (i # is) =
     do {
       stop \<leftarrow> (if i \<noteq> start then occ i else Some False);
       if stop then Some [i] else map_option ((#) i) (ray occ start is)
     }"

definition rook_squares :: "(int \<Rightarrow> bool option) \<Rightarrow> Board \<Rightarrow> int \<Rightarrow> int \<Rightarrow> (int \<times> int) list option" where
  "rook_squares junk b x y =
     do {
       up \<leftarrow> ray (\<lambda>i. occupied junk b (i * 8 + x)) y (rev [0..y]);
       down \<leftarrow> ray (\<lambda>i. occupied junk b (i * 8 + x)) y [y..7];
       right \<leftarrow> ray (\<lambda>i. occupied junk b (y * 8 + i)) x [x..7];
       left \<leftarrow> ray (\<lambda>i. occupied junk b (y * 8 + i)) x (rev [0..x]);
       Some (map (\<lambda>i. (x, i)) up @ map (\<lambda>i. (x, i)) down @ map (\<lambda>i. (i, y)) right @ map (\<lambda>i. (i, y)) left)
     }"

text \<open>
  One of the four tests of the bishop's loop: what is painted and the flag after it.
\<close>

definition diag_step :: "bool \<Rightarrow> bool \<Rightarrow> int \<times> int \<Rightarrow> (int \<times> int) list \<times> bool" where
  "diag_step occ flag sq =
     (if occ \<and> flag then ([sq], False) else if flag then ([sq], flag) else ([], flag))"

text \<open>The word of the board is read before the flag is tested.\<close>

primrec diag_loop ::
  "(int \<Rightarrow> bool option) \<Rightarrow> Board \<Rightarrow> int \<Rightarrow> int \<Rightarrow> bool \<times> bool \<times> bool \<times> bool \<Rightarrow> int list \<Rightarrow> (int \<times> int) list option" where
  "diag_loop junk b x y flags [] = Some []"
| "diag_loop junk b x y flags (i # is) =
     (case flags of (one, two, three, four) \<Rightarrow>
        do {
          o1 \<leftarrow> occupied junk b ((y + i) * 8 + (x + i));
          let (s1, one') = diag_step o1 one (x + i, y + i);
          o2 \<leftarrow> occupied junk b ((y - i) * 8 + (x + i));
          let (s2, two') = diag_step o2 two (x + i, y - i);
          o3 \<leftarrow> occupied junk b ((y - i) * 8 + (x - i));
          let (s3, three') = diag_step o3 three (x - i, y - i);
          o4 \<leftarrow> occupied junk b ((y + i) * 8 + (x - i));
          let (s4, four') = diag_step o4 four (x - i, y + i);
          rest \<leftarrow> diag_loop junk b x y (one', two', three', four') is;
          Some (s1 @ s2 @ s3 @ s4 @ rest)
        })"

definition bishop_squares :: "(int \<Rightarrow> bool option) \<Rightarrow> Board \<Rightarrow> int \<Rightarrow> int \<Rightarrow> (int \<times> int) list option" where
  "bishop_squares junk b x y = diag_loop junk b x y (True, True, True, True) [1..7]"

text \<open>The queen's case is the bishop's followed by the rook's.\<close>

definition queen_squares :: "(int \<Rightarrow> bool option) \<Rightarrow> Board \<Rightarrow> int \<Rightarrow> int \<Rightarrow> (int \<times> int) list option" where
  "queen_squares junk b x y =
     do {
       diagonals \<leftarrow> bishop_squares junk b x y;
       lines \<leftarrow> rook_squares junk b x y;
       Some (diagonals @ lines)
     }"

definition painted_squares ::
  "(int \<Rightarrow> bool option) \<Rightarrow> Board \<Rightarrow> Piece \<Rightarrow> int \<Rightarrow> int \<Rightarrow> (int \<times> int) list option" where
  "painted_squares junk b p x y =
     (case ptype p of
        b_pawn \<Rightarrow> b_pawn_squares junk b (pawn_moved p) x y
      | w_pawn \<Rightarrow> w_pawn_squares junk b (pawn_moved p) x y
      | w_knight \<Rightarrow> Some (knight_squares x y)
      | b_knight \<Rightarrow> Some (knight_squares x y)
      | w_king \<Rightarrow> Some (king_squares x y)
      | b_king \<Rightarrow> Some (king_squares x y)
      | b_rook \<Rightarrow> rook_squares junk b x y
      | w_rook \<Rightarrow> rook_squares junk b x y
      | b_bishop \<Rightarrow> bishop_squares junk b x y
      | w_bishop \<Rightarrow> bishop_squares junk b x y
      | w_queen \<Rightarrow> queen_squares junk b x y
      | b_queen \<Rightarrow> queen_squares junk b x y)"

definition paint_square :: "Screen \<Rightarrow> int \<times> int \<Rightarrow> mem \<Rightarrow> mem option" where
  "paint_square s sq m =
     draw_rectangle s m (u16_of (getScreenX s (fst sq))) (u16_of (getScreenY s (snd sq))) 59 59 orange"

definition possiblePosition ::
  "(int \<Rightarrow> bool option) \<Rightarrow> Screen \<Rightarrow> mem \<Rightarrow> Board \<Rightarrow> Piece \<Rightarrow> int \<Rightarrow> int \<Rightarrow> (mem \<times> Board) option" where
  "possiblePosition junk s video_mem_buffer b p x y =
     do {
       sqs \<leftarrow> painted_squares junk b p x y;
       mb \<leftarrow> foldM (paint_square s) sqs (mem_board b);
       let b1 = b\<lparr>mem_board := mb\<rparr>;
       v \<leftarrow> copy_buffers s video_mem_buffer (mem_board b1);
       Some (v, b1)
     }"

end
