(* ===== verification/Geometry.thy ===== *)
theory Geometry
  imports Board
begin

text \<open>
  Squares and pixels. The conversions of \<open>board.c\<close> between squares and screen coordinates
  in the video mode of the game, the corner pixel that stands for a square, and what
  painting squares does to those corners: the facts the rules of movement and the handling
  of a move rest on.
\<close>

section \<open>The conversions in mode 0x115\<close>

lemma mod_below_zero: "- m \<le> k \<Longrightarrow> k < 0 \<Longrightarrow> k mod m = k + m" for k m :: int
  by (smt (verit) mod_add_self2 mod_pos_pos_trivial)

lemma half_margin: "vertical_margin div 2 = (64 :: u32)"
  unfolding vertical_margin_def by (rule word_uint_eqI) (simp add: uint_div)

lemma squares_115D:
  assumes "squares_115 s"
  shows "mode_115 s" "rectangle_width s = 59" "rectangle_height s = 59"
    "left_rectangle_width s = 65"
  using assms by (simp_all add: squares_115_def)

lemma i32_of_small_int:
  assumes "0 \<le> k" and "k < 2 ^ 31"
  shows "i32_of (word_of_int k) = k"
proof -
  have u: "uint (word_of_int k :: u32) = k" using assms by (simp add: uint_word_of_int)
  have "unat (word_of_int k :: u32) < 2 ^ 31"
    using assms by (simp add: u flip: of_nat_less_iff [where 'a = int])
  from i32_of_small [OF this] show ?thesis by (simp add: u)
qed

lemma word_div_of_int:
  assumes "0 \<le> k" and "k < 2 ^ 32"
  shows "(word_of_int k :: u32) div 59 = word_of_int (k div 59)"
proof (rule word_uint_eqI)
  have "k div 59 \<le> k" using assms(1) by linarith
  then show "uint ((word_of_int k :: u32) div 59) = uint (word_of_int (k div 59) :: u32)"
    using assms pos_imp_zdiv_nonneg_iff [of 59 k] by (simp add: uint_div uint_word_of_int)
qed

text \<open>A coordinate left of the board wraps around and gives a column far beyond 7.\<close>

lemma board_coord:
  assumes "0 \<le> v" and "v < 65536" and "0 \<le> m" and "m < 65536"
  shows "i32_of ((word_of_int v - word_of_int m) div 59) =
    (if m \<le> v then v - m else v - m + 4294967296) div 59"
proof -
  let ?k = "if m \<le> v then v - m else v - m + 4294967296"
  have e: "(word_of_int v - word_of_int m :: u32) = word_of_int ?k"
    by (rule word_uint_eqI)
       (use assms in \<open>simp add: uint_word_ariths(2) uint_word_of_int mod_below_zero\<close>)
  have k: "0 \<le> ?k" "?k < 4294967296" using assms by auto
  then have "0 \<le> ?k div 59" "?k div 59 < 2 ^ 31" by auto
  then show ?thesis
    unfolding e using k by (subst word_div_of_int) (auto simp: i32_of_small_int)
qed

lemma side_nonzero: "(59 :: u32) \<noteq> 0"
  unfolding word_uint_eq_iff by simp

lemma getBoardX_115:
  assumes "squares_115 s" and "0 \<le> v" and "v < 65536"
  shows "getBoardX s v = (if 65 \<le> v then v - 65 else v + 4294967231) div 59"
proof -
  have "getBoardX s v = i32_of ((word_of_int v - word_of_int 65) div 59)"
    unfolding getBoardX_def u32_of_def squares_115D [OF assms(1)] if_P [OF side_nonzero]
    by (simp only: word_of_int_numeral)
  then show ?thesis using board_coord [of v 65] assms(2,3) by (simp only:) (simp add: add.commute)
qed

lemma getBoardY_115:
  assumes "squares_115 s" and "0 \<le> v" and "v < 65536"
  shows "getBoardY s v = (if 64 \<le> v then v - 64 else v + 4294967232) div 59"
proof -
  have "getBoardY s v = i32_of ((word_of_int v - word_of_int 64) div 59)"
    unfolding getBoardY_def u32_of_def squares_115D [OF assms(1)] half_margin if_P [OF side_nonzero]
    by (simp only: word_of_int_numeral)
  then show ?thesis using board_coord [of v 64] assms(2,3) by (simp only:) (simp add: add.commute)
qed

text \<open>A square of the board.\<close>

definition on_sq :: "int \<Rightarrow> int \<Rightarrow> bool" where
  "on_sq c r \<longleftrightarrow> 0 \<le> c \<and> c \<le> 7 \<and> 0 \<le> r \<and> r \<le> 7"

lemma getBoardX_range:
  assumes "squares_115 s" and "0 \<le> v" and "v < 65536"
  shows "0 \<le> getBoardX s v" "getBoardX s v \<le> 7 \<longleftrightarrow> 65 \<le> v \<and> v < 537"
  using assms by (auto simp: getBoardX_115)

lemma getBoardY_range:
  assumes "squares_115 s" and "0 \<le> v" and "v < 65536"
  shows "0 \<le> getBoardY s v" "getBoardY s v \<le> 7 \<longleftrightarrow> 64 \<le> v \<and> v < 536"
  using assms by (auto simp: getBoardY_115)

lemma on_board_115:
  assumes "squares_115 s"
  shows "on_board s x y \<longleftrightarrow> 65 \<le> uint x \<and> uint x < 537 \<and> 64 \<le> uint y \<and> uint y < 536"
  using getBoardX_range [OF assms uint_u16] getBoardY_range [OF assms uint_u16]
  by (simp add: on_board_def)

text \<open>Screen coordinates, for any square near the board.\<close>

lemma getScreenX_word:
  assumes "squares_115 s"
  shows "getScreenX s c = i32_of (word_of_int (59 * c + 65))"
  using assms by (simp add: getScreenX_def squares_115D u32_of_def wi_hom_syms mult.commute)

lemma getScreenY_word:
  assumes "squares_115 s"
  shows "getScreenY s r = i32_of (word_of_int (59 * r + 64))"
  using assms
  by (simp add: getScreenY_def squares_115D u32_of_def half_margin wi_hom_syms
      mult.commute add.commute)

lemma getScreenX_115:
  assumes "squares_115 s" and "0 \<le> c" and "c \<le> 1000"
  shows "getScreenX s c = 59 * c + 65"
  unfolding getScreenX_word [OF assms(1)] by (rule i32_of_small_int) (use assms in simp_all)

lemma getScreenY_115:
  assumes "squares_115 s" and "0 \<le> r" and "r \<le> 1000"
  shows "getScreenY s r = 59 * r + 64"
  unfolding getScreenY_word [OF assms(1)] by (rule i32_of_small_int) (use assms in simp_all)

lemma u16_of_i32: "u16_of (i32_of w) = ucast w"
  by (rule bit_word_eqI) (simp add: u16_of_def i32_of_def bit_simps)

lemma uint_u16_word: "uint (ucast (word_of_int k :: u32) :: u16) = k mod 65536"
  by (simp add: unsigned_ucast_eq uint_word_of_int take_bit_eq_mod mod_mod_cancel)

lemma square_corner:
  assumes "squares_115 s" and "- 100 \<le> c" and "c \<le> 100"
  shows "uint (u16_of (getScreenX s c)) = (59 * c + 65) mod 65536"
    "uint (u16_of (getScreenY s c)) = (59 * c + 64) mod 65536"
  using assms by (simp_all only: getScreenX_word getScreenY_word u16_of_i32 uint_u16_word)

text \<open>Only squares of the board pass the guard of \<^const>\<open>draw_rectangle\<close>.\<close>

lemma on_board_square:
  assumes s: "squares_115 s" and c: "- 100 \<le> c" "c \<le> 100" and r: "- 100 \<le> r" "r \<le> 100"
  shows "on_board s (u16_of (getScreenX s c)) (u16_of (getScreenY s r)) \<longleftrightarrow> on_sq c r"
proof -
  have "65 \<le> (59 * c + 65) mod 65536 \<and> (59 * c + 65) mod 65536 < 537 \<longleftrightarrow> 0 \<le> c \<and> c \<le> 7"
  proof (cases "59 * c + 65 < 0")
    case True
    then have "(59 * c + 65) mod 65536 = 59 * c + 65 + 65536"
      using c by (intro mod_below_zero) simp_all
    then show ?thesis using True c by auto
  next
    case False
    then show ?thesis using c by auto
  qed
  moreover have "64 \<le> (59 * r + 64) mod 65536 \<and> (59 * r + 64) mod 65536 < 536 \<longleftrightarrow> 0 \<le> r \<and> r \<le> 7"
  proof (cases "59 * r + 64 < 0")
    case True
    then have "(59 * r + 64) mod 65536 = 59 * r + 64 + 65536"
      using r by (intro mod_below_zero) simp_all
    then show ?thesis using True r by auto
  next
    case False
    then show ?thesis using r by auto
  qed
  ultimately show ?thesis
    unfolding on_board_115 [OF s] square_corner(1) [OF s c] square_corner(2) [OF s r] on_sq_def
    by blast
qed


section \<open>The corner of a square\<close>

text \<open>
  The pixel the game looks at to decide whether a square is a possible destination, and
  when it says so. \<open>col_px\<close> and \<open>row_px\<close> are its coordinates.
\<close>

definition col_px :: "int \<Rightarrow> nat" where "col_px c = nat (59 * c + 65)"
definition row_px :: "int \<Rightarrow> nat" where "row_px r = nat (59 * r + 64)"

definition corner :: "Screen \<Rightarrow> mem \<Rightarrow> int \<Rightarrow> int \<Rightarrow> u8 list" where
  "corner s m c r = fb_get s m (pix s (col_px c) (row_px r))"

definition lit :: "Screen \<Rightarrow> mem \<Rightarrow> int \<Rightarrow> int \<Rightarrow> bool" where
  "lit s m c r \<longleftrightarrow> corner s m c r = colour_bytes s orange"

lemma corner_on_screen:
  assumes "squares_115 s" and "on_sq c r"
  shows "col_px c < hres s" "row_px r < vres s"
  using assms mode_115_facts [OF squares_115D(1) [OF assms(1)]]
  by (auto simp: col_px_def row_px_def on_sq_def nat_less_iff)

lemma square_px:
  assumes "squares_115 s" and "on_sq c r"
  shows "unat (u16_of (getScreenX s c)) = col_px c" "unat (u16_of (getScreenY s r)) = row_px r"
proof -
  have "uint (u16_of (getScreenX s c)) = 59 * c + 65" "uint (u16_of (getScreenY s r)) = 59 * r + 64"
    using assms by (simp_all add: square_corner on_sq_def)
  then show "unat (u16_of (getScreenX s c)) = col_px c" "unat (u16_of (getScreenY s r)) = row_px r"
    by (simp_all add: col_px_def row_px_def flip: nat_uint_eq)
qed

text \<open>A rectangle of the size of a square covers the corner of no other square.\<close>

lemma corner_in_square:
  assumes "on_sq c r" and "on_sq c' r'"
  shows "col_px c \<le> col_px c' \<and> col_px c' < col_px c + 59 \<and>
         row_px r \<le> row_px r' \<and> row_px r' < row_px r + 59 \<longleftrightarrow> c' = c \<and> r' = r"
  using assms by (auto simp: col_px_def row_px_def on_sq_def)

lemma rectangle_corner:
  assumes s: "squares_115 s" and wf: "fb_wf s m"
    and b: "- 100 \<le> c" "c \<le> 100" "- 100 \<le> r" "r \<le> 100"
  shows "\<exists>m'. draw_rectangle s m (u16_of (getScreenX s c)) (u16_of (getScreenY s r)) 59 59 color = Some m' \<and>
    fb_wf s m' \<and>
    (\<forall>c' r'. on_sq c' r' \<longrightarrow> corner s m' c' r' =
       (if c' = c \<and> r' = r then colour_bytes s color else corner s m c' r'))"
proof -
  let ?x = "u16_of (getScreenX s c)" and ?y = "u16_of (getScreenY s r)"
  obtain m' where m': "draw_rectangle s m ?x ?y 59 59 color = Some m'"
    and p: "fb.painted s m
      (if on_board s ?x ?y then rect_pixels s (unat ?x) (unat ?y) (unat (59 :: u16)) (unat (59 :: u16)) else {})
      (\<lambda>_. colour_bytes s color) m'"
    using draw_rectangle_painted [OF wf] by blast
  have g: "on_board s ?x ?y \<longleftrightarrow> on_sq c r" by (rule on_board_square [OF s b])
  have "corner s m' c' r' =
      (if c' = c \<and> r' = r then colour_bytes s color else corner s m c' r')"
    if o: "on_sq c' r'" for c' r'
  proof (cases "on_sq c r")
    case True
    have "pix s (col_px c') (row_px r') \<in>
        rect_pixels s (unat ?x) (unat ?y) (unat (59 :: u16)) (unat (59 :: u16)) \<longleftrightarrow> c' = c \<and> r' = r"
      unfolding pix_in_rect [OF corner_on_screen [OF s o]] square_px [OF s True]
      using corner_in_square [OF True o] by simp
    then show ?thesis
      using p True g pix_less [OF corner_on_screen [OF s o]]
      by (simp add: fb.painted_def corner_def)
  next
    case False
    with o have n: "\<not> (c' = c \<and> r' = r)" by auto
    show ?thesis
      unfolding if_not_P [OF n]
      using p False g pix_less [OF corner_on_screen [OF s o]]
      by (simp add: fb.painted_def corner_def)
  qed
  moreover have "fb_wf s m'" using p by (simp add: fb.painted_def)
  ultimately show ?thesis using m' by blast
qed

definition near :: "int \<times> int \<Rightarrow> bool" where
  "near sq \<longleftrightarrow> - 100 \<le> fst sq \<and> fst sq \<le> 100 \<and> - 100 \<le> snd sq \<and> snd sq \<le> 100"

lemma paint_squares_corners:
  assumes s: "squares_115 s" and wf: "fb_wf s m" and n: "\<forall>sq\<in>set sqs. near sq"
  shows "\<exists>m'. foldM (paint_square s) sqs m = Some m' \<and> fb_wf s m' \<and>
    (\<forall>c r. on_sq c r \<longrightarrow> corner s m' c r =
       (if (c, r) \<in> set sqs then colour_bytes s orange else corner s m c r))"
proof (rule foldM_invariant)
  show "fb_wf s m \<and> (\<forall>c r. on_sq c r \<longrightarrow> corner s m c r =
       (if (c, r) \<in> set [] then colour_bytes s orange else corner s m c r))"
    using wf by simp
next
  fix ds sq rest t
  assume e: "sqs = ds @ sq # rest"
    and I: "fb_wf s t \<and> (\<forall>c r. on_sq c r \<longrightarrow> corner s t c r =
       (if (c, r) \<in> set ds then colour_bytes s orange else corner s m c r))"
  obtain c r where sq: "sq = (c, r)" by force
  have "near sq" using n e by simp
  then have b: "- 100 \<le> c" "c \<le> 100" "- 100 \<le> r" "r \<le> 100" by (simp_all add: near_def sq)
  from rectangle_corner [OF s conjunct1 [OF I] b, of orange]
  obtain t' where "paint_square s sq t = Some t'" "fb_wf s t'"
    "\<forall>c' r'. on_sq c' r' \<longrightarrow> corner s t' c' r' =
       (if c' = c \<and> r' = r then colour_bytes s orange else corner s t c' r')"
    by (auto simp: paint_square_def sq)
  with I show "\<exists>t'. paint_square s sq t = Some t' \<and> fb_wf s t' \<and>
      (\<forall>c r. on_sq c r \<longrightarrow> corner s t' c r =
       (if (c, r) \<in> set (ds @ [sq]) then colour_bytes s orange else corner s m c r))"
    by (auto simp: sq)
qed


section \<open>The empty board\<close>

text \<open>The colour of a square, and the square a pixel lies in.\<close>

definition square_colour :: "nat \<Rightarrow> nat \<Rightarrow> u32" where
  "square_colour col row = (if even (col + row) then color2 else color1)"

definition after_toggles :: "nat \<Rightarrow> u32" where
  "after_toggles k = (if even k then color1 else color2)"

lemma toggle_after: "toggle_color (after_toggles k) = after_toggles (Suc k)"
  by (simp add: toggle_color_def after_toggles_def color1_def color2_def)

lemma toggle_square: "toggle_color (after_toggles (row + col)) = square_colour col row"
  unfolding toggle_after by (simp add: after_toggles_def square_colour_def add.commute)

lemma draw_square_pixels:
  assumes s: "squares_115 s" and wf: "fb_wf s m" and c: "col < 8" and r: "row < 8"
  shows "\<exists>m'. draw_square s row col color m = Some m' \<and> fb_wf s m' \<and>
    (\<forall>px py. px < hres s \<longrightarrow> py < vres s \<longrightarrow> fb_get s m' (pix s px py) =
       (if (65 + 59 * col \<le> px \<and> px < 65 + 59 * col + 59) \<and>
           (64 + 59 * row \<le> py \<and> py < 64 + 59 * row + 59)
        then colour_bytes s color else fb_get s m (pix s px py)))"
proof -
  let ?x = "ucast (of_nat col * rectangle_width s + left_rectangle_width s) :: u16"
  let ?y = "ucast (of_nat row * rectangle_height s + vertical_margin div 2) :: u16"
  let ?w = "ucast (rectangle_width s) :: u16" and ?h = "ucast (rectangle_height s) :: u16"
  have "?x = u16_of (getScreenX s (int col))" "?y = u16_of (getScreenY s (int row))"
    unfolding getScreenX_def getScreenY_def u16_of_i32 by (simp_all add: u32_of_nat add.commute)
  moreover have o: "on_sq (int col) (int row)" using c r by (simp add: on_sq_def)
  moreover have "on_board s (u16_of (getScreenX s (int col))) (u16_of (getScreenY s (int row)))"
    using on_board_square [OF s, of "int col" "int row"] o c r by simp
  ultimately have b: "on_board s ?x ?y" and xy: "unat ?x = 65 + 59 * col" "unat ?y = 64 + 59 * row"
    using square_px [OF s o] by (simp_all add: col_px_def row_px_def nat_add_distrib nat_mult_distrib)
  have wh: "unat ?w = 59" "unat ?h = 59" by (simp_all add: squares_115D [OF s])
  obtain m' where m': "draw_rectangle s m ?x ?y ?w ?h color = Some m'"
    and p: "fb.painted s m (rect_pixels s (unat ?x) (unat ?y) (unat ?w) (unat ?h))
      (\<lambda>_. colour_bytes s color) m'"
    using draw_rectangle_painted [OF wf, of ?x ?y ?w ?h color] b by auto
  have "fb_get s m' (pix s px py) =
       (if (65 + 59 * col \<le> px \<and> px < 65 + 59 * col + 59) \<and>
           (64 + 59 * row \<le> py \<and> py < 64 + 59 * row + 59)
        then colour_bytes s color else fb_get s m (pix s px py))"
    if h: "px < hres s" "py < vres s" for px py
    using p pix_less [OF h] unfolding fb.painted_def
    by (simp add: pix_in_rect [OF h] xy wh)
  with m' p show ?thesis by (auto simp: draw_square_def fb.painted_def)
qed

lemma draw_row_pixels:
  assumes s: "squares_115 s" and wf: "fb_wf s m" and r: "row < 8"
  shows "\<exists>m'. draw_row s row (m, after_toggles row) = Some (m', after_toggles (Suc row)) \<and> fb_wf s m' \<and>
    (\<forall>px py. px < hres s \<longrightarrow> py < vres s \<longrightarrow> fb_get s m' (pix s px py) =
       (if (65 \<le> px \<and> px < 537) \<and> (64 + 59 * row \<le> py \<and> py < 64 + 59 * row + 59)
        then colour_bytes s (square_colour ((px - 65) div 59) row) else fb_get s m (pix s px py)))"
proof -
  let ?body = "\<lambda>col (m, c). let c' = toggle_color c
          in map_option (\<lambda>m'. (m', c')) (draw_square s row col c' m)"
  let ?I = "\<lambda>ds (mc :: mem \<times> u32). fb_wf s (fst mc) \<and> snd mc = after_toggles (row + length ds) \<and>
    (\<forall>px py. px < hres s \<longrightarrow> py < vres s \<longrightarrow> fb_get s (fst mc) (pix s px py) =
       (if (65 \<le> px \<and> px < 65 + 59 * length ds) \<and> (64 + 59 * row \<le> py \<and> py < 64 + 59 * row + 59)
        then colour_bytes s (square_colour ((px - 65) div 59) row) else fb_get s m (pix s px py)))"
  have "\<exists>mc. foldM ?body [0..<8] (m, after_toggles row) = Some mc \<and> ?I [0..<8] mc"
  proof (rule foldM_invariant)
    show "?I [] (m, after_toggles row)" using wf by auto
  next
    fix ds :: "nat list" and col rest mc
    assume e: "[0..<8] = ds @ col # rest" and I: "?I ds mc"
    have col: "col = length ds" "length ds < 8"
      using arg_cong [OF e, of "\<lambda>l. l ! length ds"] arg_cong [OF e, of length]
      by (simp_all add: nth_append)
    obtain m1 c1 where mc: "mc = (m1, c1)" by force
    have t: "toggle_color c1 = square_colour col row"
      using I col by (simp add: mc toggle_square)
    have tog: "toggle_color c1 = after_toggles (row + length (ds @ [col]))"
      using I by (simp add: mc toggle_after)
    obtain m2 where m2: "draw_square s row col (toggle_color c1) m1 = Some m2" "fb_wf s m2"
      and g: "\<forall>px py. px < hres s \<longrightarrow> py < vres s \<longrightarrow> fb_get s m2 (pix s px py) =
       (if (65 + 59 * col \<le> px \<and> px < 65 + 59 * col + 59) \<and>
           (64 + 59 * row \<le> py \<and> py < 64 + 59 * row + 59)
        then colour_bytes s (toggle_color c1) else fb_get s m1 (pix s px py))"
      using draw_square_pixels [OF s _ _ r, of m1 col "toggle_color c1"] I col by (auto simp: mc)
    have "fb_get s m2 (pix s px py) =
       (if (65 \<le> px \<and> px < 65 + 59 * length (ds @ [col])) \<and>
           (64 + 59 * row \<le> py \<and> py < 64 + 59 * row + 59)
        then colour_bytes s (square_colour ((px - 65) div 59) row) else fb_get s m (pix s px py))"
      if h: "px < hres s" "py < vres s" for px py
    proof (cases "65 + 59 * col \<le> px \<and> px < 65 + 59 * col + 59")
      case True
      then have "(px - 65) div 59 = col" by auto
      with True g h I show ?thesis by (simp add: toggle_square col mc)
    next
      case False
      then show ?thesis using g h I by (auto simp: col mc)
    qed
    then have "?I (ds @ [col]) (m2, toggle_color c1)" using m2(2) tog by simp
    then show "\<exists>t'. ?body col mc = Some t' \<and> ?I (ds @ [col]) t'"
      using m2(1) by (auto simp: mc Let_def)
  qed
  then obtain m' c' where "foldM ?body [0..<8] (m, after_toggles row) = Some (m', c')"
    and I: "?I [0..<8] (m', c')" by force
  then have "draw_row s row (m, after_toggles row) = Some (m', toggle_color c')"
    by (simp add: draw_row_def)
  moreover have "toggle_color c' = after_toggles (Suc row)"
    using I by (simp add: toggle_after) (simp add: after_toggles_def)
  ultimately show ?thesis using I by auto
qed

lemma drawBoard_pixels:
  assumes s: "squares_115 s" and wf: "fb_wf s (mem_board b)"
  shows "\<exists>m'. drawBoard s b = Some (b\<lparr>redrawPieces := True, mem_board := m'\<rparr>) \<and> fb_wf s m' \<and>
    (\<forall>px py. px < hres s \<longrightarrow> py < vres s \<longrightarrow> fb_get s m' (pix s px py) =
       (if (65 \<le> px \<and> px < 537) \<and> (64 \<le> py \<and> py < 536)
        then colour_bytes s (square_colour ((px - 65) div 59) ((py - 64) div 59))
        else fb_get s (mem_board b) (pix s px py)))"
proof -
  let ?m = "mem_board b"
  let ?I = "\<lambda>ds (mc :: mem \<times> u32). fb_wf s (fst mc) \<and> snd mc = after_toggles (length ds) \<and>
    (\<forall>px py. px < hres s \<longrightarrow> py < vres s \<longrightarrow> fb_get s (fst mc) (pix s px py) =
       (if (65 \<le> px \<and> px < 537) \<and> (64 \<le> py \<and> py < 64 + 59 * length ds)
        then colour_bytes s (square_colour ((px - 65) div 59) ((py - 64) div 59))
        else fb_get s ?m (pix s px py)))"
  have "\<exists>mc. foldM (draw_row s) [0..<8] (?m, color1) = Some mc \<and> ?I [0..<8] mc"
  proof (rule foldM_invariant)
    show "?I [] (?m, color1)" using wf by (auto simp: after_toggles_def)
  next
    fix ds :: "nat list" and row rest mc
    assume e: "[0..<8] = ds @ row # rest" and I: "?I ds mc"
    have row: "row = length ds" "length ds < 8"
      using arg_cong [OF e, of "\<lambda>l. l ! length ds"] arg_cong [OF e, of length]
      by (simp_all add: nth_append)
    obtain m1 where mc: "mc = (m1, after_toggles row)" using I row by (metis prod.collapse)
    obtain m2 where m2: "draw_row s row mc = Some (m2, after_toggles (Suc row))" "fb_wf s m2"
      and g: "\<forall>px py. px < hres s \<longrightarrow> py < vres s \<longrightarrow> fb_get s m2 (pix s px py) =
       (if (65 \<le> px \<and> px < 537) \<and> (64 + 59 * row \<le> py \<and> py < 64 + 59 * row + 59)
        then colour_bytes s (square_colour ((px - 65) div 59) row) else fb_get s m1 (pix s px py))"
      using draw_row_pixels [OF s, of m1 row] I row by (auto simp: mc)
    have "fb_get s m2 (pix s px py) =
       (if (65 \<le> px \<and> px < 537) \<and> (64 \<le> py \<and> py < 64 + 59 * length (ds @ [row]))
        then colour_bytes s (square_colour ((px - 65) div 59) ((py - 64) div 59))
        else fb_get s ?m (pix s px py))"
      if h: "px < hres s" "py < vres s" for px py
    proof (cases "64 + 59 * row \<le> py \<and> py < 64 + 59 * row + 59")
      case True
      then have "(py - 64) div 59 = row" by auto
      with True g h I show ?thesis by (simp add: row mc)
    next
      case False
      then show ?thesis using g h I by (auto simp: row mc)
    qed
    then have "?I (ds @ [row]) (m2, after_toggles (Suc row))" using m2(2) row by simp
    then show "\<exists>t'. draw_row s row mc = Some t' \<and> ?I (ds @ [row]) t'"
      using m2(1) by auto
  qed
  then obtain m' c' where "foldM (draw_row s) [0..<8] (?m, color1) = Some (m', c')"
    and I: "?I [0..<8] (m', c')" by force
  then have "drawBoard s b = Some (b\<lparr>redrawPieces := True, mem_board := m'\<rparr>)"
    by (simp add: drawBoard_def)
  moreover have "fb_wf s m'" and
    "\<forall>px py. px < hres s \<longrightarrow> py < vres s \<longrightarrow> fb_get s m' (pix s px py) =
       (if (65 \<le> px \<and> px < 537) \<and> (64 \<le> py \<and> py < 536)
        then colour_bytes s (square_colour ((px - 65) div 59) ((py - 64) div 59))
        else fb_get s ?m (pix s px py))"
    using I by simp_all
  ultimately show ?thesis by blast
qed

text \<open>No square of a freshly drawn board is marked.\<close>

lemma colours_differ:
  assumes "squares_115 s"
  shows "colour_bytes s (square_colour c r) \<noteq> colour_bytes s orange"
  using mode_115_facts(3) [OF squares_115D(1) [OF assms]]
  by (simp add: colour_bytes_def square_colour_def color1_def color2_def orange_def upt_rec)

lemma drawBoard_unlit:
  assumes s: "squares_115 s" and wf: "fb_wf s (mem_board b)"
  shows "\<exists>m'. drawBoard s b = Some (b\<lparr>redrawPieces := True, mem_board := m'\<rparr>) \<and> fb_wf s m' \<and>
    (\<forall>c r. on_sq c r \<longrightarrow> \<not> lit s m' c r)"
proof -
  obtain m' where m': "drawBoard s b = Some (b\<lparr>redrawPieces := True, mem_board := m'\<rparr>)" "fb_wf s m'"
    and g: "\<forall>px py. px < hres s \<longrightarrow> py < vres s \<longrightarrow> fb_get s m' (pix s px py) =
       (if (65 \<le> px \<and> px < 537) \<and> (64 \<le> py \<and> py < 536)
        then colour_bytes s (square_colour ((px - 65) div 59) ((py - 64) div 59))
        else fb_get s (mem_board b) (pix s px py))"
    using drawBoard_pixels [OF assms] by blast
  have "\<not> lit s m' c r" if o: "on_sq c r" for c r
  proof -
    have "(65 \<le> col_px c \<and> col_px c < 537) \<and> (64 \<le> row_px r \<and> row_px r < 536)"
      using o by (auto simp: col_px_def row_px_def on_sq_def)
    with g corner_on_screen [OF s o] show ?thesis
      using colours_differ [OF s] by (simp add: lit_def corner_def)
  qed
  with m' show ?thesis by blast
qed

section \<open>Properties\<close>

text \<open>C22: drawBoard paints a checkerboard: on any buffer of the mode it succeeds, keeps everything
  but the layer and the redraw flag, gives every pixel of the 8 by 8 squares the colour of
  its square (the two colours alternate along rows and columns) and leaves every pixel
  outside the board as it was.\<close>
theorem drawBoard_checkerboard:
  assumes "squares_115 s" and "fb_wf s (mem_board b)"
  shows "\<exists>m'. drawBoard s b = Some (b\<lparr>redrawPieces := True, mem_board := m'\<rparr>) \<and>
    (\<forall>px py. px < hres s \<longrightarrow> py < vres s \<longrightarrow> fb_get s m' (pix s px py) =
       (if (65 \<le> px \<and> px < 537) \<and> (64 \<le> py \<and> py < 536)
        then colour_bytes s (square_colour ((px - 65) div 59) ((py - 64) div 59))
        else fb_get s (mem_board b) (pix s px py)))"
  using drawBoard_pixels [OF assms] by blast

definition blank_board :: Board where
  "blank_board = \<lparr>mem_board = replicate 1440000 0, mem_pieces = replicate 1440000 0,
     squares = replicate 64 None, heap = [], redrawPieces = False\<rparr>"

lemma blank_board_wf: "fb_wf screen_115 (mem_board blank_board)" "fb_wf screen_115 (mem_pieces blank_board)"
  using mode_115_facts [OF squares_115D(1) [OF screen_115]]
  by (simp_all add: fb_wf_def blank_board_def)

theorem drawBoard_checkerboard_witness:
  "\<exists>m'. drawBoard screen_115 blank_board =
      Some (blank_board\<lparr>redrawPieces := True, mem_board := m'\<rparr>) \<and>
    fb_get screen_115 m' (pix screen_115 70 70) = [0xD0, 0xFD, 0xFF] \<and>
    fb_get screen_115 m' (pix screen_115 130 70) = [0x43, 0xb0, 0x3c]"
proof -
  note f = mode_115_facts [OF squares_115D(1) [OF screen_115]]
  obtain m' where m': "drawBoard screen_115 blank_board =
      Some (blank_board\<lparr>redrawPieces := True, mem_board := m'\<rparr>)"
    and g: "\<forall>px py. px < hres screen_115 \<longrightarrow> py < vres screen_115 \<longrightarrow>
       fb_get screen_115 m' (pix screen_115 px py) =
       (if (65 \<le> px \<and> px < 537) \<and> (64 \<le> py \<and> py < 536)
        then colour_bytes screen_115 (square_colour ((px - 65) div 59) ((py - 64) div 59))
        else fb_get screen_115 (mem_board blank_board) (pix screen_115 px py))"
    using drawBoard_checkerboard [OF screen_115 blank_board_wf(1)] by blast
  have "colour_bytes screen_115 color2 = [0xD0, 0xFD, 0xFF]"
    "colour_bytes screen_115 color1 = [0x43, 0xb0, 0x3c]"
    unfolding colour_bytes_def f(3) by (simp_all add: upt_rec color1_def color2_def)
  then have "fb_get screen_115 m' (pix screen_115 70 70) = [0xD0, 0xFD, 0xFF] \<and>
      fb_get screen_115 m' (pix screen_115 130 70) = [0x43, 0xb0, 0x3c]"
    using g [rule_format, of 70 70] g [rule_format, of 130 70] f(1,2)
    by (simp add: square_colour_def)
  with m' show ?thesis by blast
qed

text \<open>C23: The conversions between pixels and squares agree: every pixel of a square converts to
  that square's column and row, and a screen coordinate converts to a column or row of the
  board exactly when it lies inside the board, on every side of it (coordinates left of or
  above the board wrap around the unsigned subtraction but never onto the board).\<close>
theorem board_screen_roundtrip:
  assumes "squares_115 s" and "on_sq c r" and "0 \<le> dx" and "dx < 59" and "0 \<le> dy" and "dy < 59"
  shows "getBoardX s (getScreenX s c + dx) = c \<and> getBoardY s (getScreenY s r + dy) = r \<and>
    (getBoardX s (uint (px :: u16)) \<in> {0..7} \<longleftrightarrow>
       getScreenX s 0 \<le> uint px \<and> uint px < getScreenX s 8) \<and>
    (getBoardY s (uint (py :: u16)) \<in> {0..7} \<longleftrightarrow>
       getScreenY s 0 \<le> uint py \<and> uint py < getScreenY s 8)"
  using assms getBoardX_range [OF assms(1) uint_u16, of px] getBoardY_range [OF assms(1) uint_u16, of py]
  by (auto simp: getScreenX_115 getScreenY_115 getBoardX_115 getBoardY_115 on_sq_def)

theorem board_screen_roundtrip_witness:
  "getBoardX screen_115 (getScreenX screen_115 3 + 58) = 3 \<and>
   getBoardY screen_115 (getScreenY screen_115 7 + 0) = 7 \<and>
   \<not> getBoardX screen_115 (uint (64 :: u16)) \<in> {0..7}"
proof -
  have "on_sq 3 7" by (simp add: on_sq_def)
  from board_screen_roundtrip [OF screen_115 this, of 58 0 64 0] show ?thesis
    by (simp add: getScreenX_115 [OF screen_115])
qed

end
