(* ===== verification/Moves.thy ===== *)
theory Moves
  imports Geometry
begin

text \<open>
  The rules of movement: what \<open>possiblePosition\<close> of \<open>proj/src/board.c\<close> paints, compared
  with a declarative description of where each type of piece may go. The description
  speaks about squares of the board only, so the comparison also shows that the words read
  outside the array never decide anything visible.
\<close>

section \<open>Machines on which every word can be read\<close>

text \<open>
  What the loops of \<open>possiblePosition\<close> come to when every word they read beside the array
  has a value: the same loops without the failures. \<open>junk i\<close> tells whether the word \<open>i\<close> is
  not null.
\<close>

definition held :: "(int \<Rightarrow> bool) \<Rightarrow> Board \<Rightarrow> int \<Rightarrow> bool" where
  "held junk b i = (case square_at b i of Some sq \<Rightarrow> sq \<noteq> None | None \<Rightarrow> junk i)"

definition b_pawn_marks :: "(int \<Rightarrow> bool) \<Rightarrow> Board \<Rightarrow> bool \<Rightarrow> int \<Rightarrow> int \<Rightarrow> (int \<times> int) list option" where
  "b_pawn_marks junk b moved x y =
     do {
       right \<leftarrow> capture (y < 7 \<and> x < 7) b ((y + 1) * 8 + x + 1) (\<lambda>t. t \<ge> 5) (x + 1, y + 1);
       left \<leftarrow> capture (x > 0 \<and> y < 7) b ((y + 1) * 8 + x - 1) (\<lambda>t. t \<ge> 5) (x - 1, y + 1);
       let ahead =
         (if \<not> held junk b ((y + 1) * 8 + x) then
            (if \<not> held junk b ((y + 2) * 8 + x) \<and> \<not> moved then [(x, y + 2)] else []) @ [(x, y + 1)]
          else []);
       Some (right @ left @ ahead)
     }"

definition w_pawn_marks :: "(int \<Rightarrow> bool) \<Rightarrow> Board \<Rightarrow> bool \<Rightarrow> int \<Rightarrow> int \<Rightarrow> (int \<times> int) list option" where
  "w_pawn_marks junk b moved x y =
     do {
       right \<leftarrow> capture (y > 0 \<and> x < 7) b ((y - 1) * 8 + x + 1) (\<lambda>t. t < 5) (x + 1, y - 1);
       left \<leftarrow> capture (y > 0 \<and> x > 0) b ((y - 1) * 8 + x - 1) (\<lambda>t. t < 5) (x - 1, y - 1);
       let ahead =
         (if \<not> held junk b ((y - 1) * 8 + x) then
            (if \<not> held junk b ((y - 2) * 8 + x) \<and> \<not> moved then [(x, y - 2)] else []) @ [(x, y - 1)]
          else []);
       Some (right @ left @ ahead)
     }"

fun ray_marks :: "(int \<Rightarrow> bool) \<Rightarrow> int \<Rightarrow> int list \<Rightarrow> int list" where
  "ray_marks occ start [] = []"
| "ray_marks occ start (i # is) = i # (if i \<noteq> start \<and> occ i then [] else ray_marks occ start is)"

definition rook_marks :: "(int \<Rightarrow> bool) \<Rightarrow> Board \<Rightarrow> int \<Rightarrow> int \<Rightarrow> (int \<times> int) list" where
  "rook_marks junk b x y =
     map (\<lambda>i. (x, i)) (ray_marks (\<lambda>i. held junk b (i * 8 + x)) y (rev [0..y])) @
     map (\<lambda>i. (x, i)) (ray_marks (\<lambda>i. held junk b (i * 8 + x)) y [y..7]) @
     map (\<lambda>i. (i, y)) (ray_marks (\<lambda>i. held junk b (y * 8 + i)) x [x..7]) @
     map (\<lambda>i. (i, y)) (ray_marks (\<lambda>i. held junk b (y * 8 + i)) x (rev [0..x]))"

primrec diag_marks ::
  "(int \<Rightarrow> bool) \<Rightarrow> Board \<Rightarrow> int \<Rightarrow> int \<Rightarrow> bool \<times> bool \<times> bool \<times> bool \<Rightarrow> int list \<Rightarrow> (int \<times> int) list" where
  "diag_marks junk b x y flags [] = []"
| "diag_marks junk b x y flags (i # is) =
     (case flags of (one, two, three, four) \<Rightarrow>
        let (s1, one') = diag_step (held junk b ((y + i) * 8 + (x + i))) one (x + i, y + i);
            (s2, two') = diag_step (held junk b ((y - i) * 8 + (x + i))) two (x + i, y - i);
            (s3, three') = diag_step (held junk b ((y - i) * 8 + (x - i))) three (x - i, y - i);
            (s4, four') = diag_step (held junk b ((y + i) * 8 + (x - i))) four (x - i, y + i)
        in s1 @ s2 @ s3 @ s4 @ diag_marks junk b x y (one', two', three', four') is)"

definition bishop_marks :: "(int \<Rightarrow> bool) \<Rightarrow> Board \<Rightarrow> int \<Rightarrow> int \<Rightarrow> (int \<times> int) list" where
  "bishop_marks junk b x y = diag_marks junk b x y (True, True, True, True) [1..7]"

definition marks ::
  "(int \<Rightarrow> bool) \<Rightarrow> Board \<Rightarrow> Piece \<Rightarrow> int \<Rightarrow> int \<Rightarrow> (int \<times> int) list option" where
  "marks junk b p x y =
     (case ptype p of
        b_pawn \<Rightarrow> b_pawn_marks junk b (pawn_moved p) x y
      | w_pawn \<Rightarrow> w_pawn_marks junk b (pawn_moved p) x y
      | w_knight \<Rightarrow> Some (knight_squares x y)
      | b_knight \<Rightarrow> Some (knight_squares x y)
      | w_king \<Rightarrow> Some (king_squares x y)
      | b_king \<Rightarrow> Some (king_squares x y)
      | b_rook \<Rightarrow> Some (rook_marks junk b x y)
      | w_rook \<Rightarrow> Some (rook_marks junk b x y)
      | b_bishop \<Rightarrow> Some (bishop_marks junk b x y)
      | w_bishop \<Rightarrow> Some (bishop_marks junk b x y)
      | w_queen \<Rightarrow> Some (bishop_marks junk b x y @ rook_marks junk b x y)
      | b_queen \<Rightarrow> Some (bishop_marks junk b x y @ rook_marks junk b x y))"

section \<open>Boards\<close>

definition board_ok :: "Board \<Rightarrow> bool" where
  "board_ok b \<longleftrightarrow> length (squares b) = 64 \<and> (\<forall>ref. Some ref \<in> set (squares b) \<longrightarrow> ref < length (heap b))"

definition piece_at :: "Board \<Rightarrow> int \<Rightarrow> int \<Rightarrow> Piece option" where
  "piece_at b c r = map_option (\<lambda>ref. heap b ! ref) (squares b ! nat (r * 8 + c))"

definition free_at :: "Board \<Rightarrow> int \<Rightarrow> int \<Rightarrow> bool" where
  "free_at b c r \<longleftrightarrow> piece_at b c r = None"

lemma square_at_on:
  assumes "board_ok b" and "on_sq c r"
  shows "square_at b (r * 8 + c) = Some (squares b ! nat (r * 8 + c))"
    and "nat (r * 8 + c) < length (squares b)"
  using assms by (auto simp: square_at_def board_ok_def on_sq_def)

lemma held_on:
  assumes "board_ok b" and "on_sq c r"
  shows "held junk b (r * 8 + c) \<longleftrightarrow> \<not> free_at b c r"
  using square_at_on(1) [OF assms] by (simp add: held_def free_at_def piece_at_def)

lemma holds_type_on:
  assumes "board_ok b" and "on_sq c r"
  shows "holds_type b (r * 8 + c) P =
    Some (case piece_at b c r of None \<Rightarrow> False | Some q \<Rightarrow> P (type_num (ptype q)))"
proof (cases "squares b ! nat (r * 8 + c)")
  case None
  then show ?thesis using square_at_on(1) [OF assms] by (simp add: holds_type_def piece_at_def)
next
  case (Some ref)
  then have "Some ref \<in> set (squares b)"
    using square_at_on(2) [OF assms] by (metis nth_mem)
  then have "ref < length (heap b)" using assms(1) by (simp add: board_ok_def)
  then show ?thesis
    using Some square_at_on(1) [OF assms] by (simp add: holds_type_def piece_at_def piece_of_def)
qed

section \<open>Where a piece may go\<close>

text \<open>
  \<open>slides b x y dx dy c r\<close>: going from (x, y) in the direction (dx, dy) one reaches (c, r)
  over free squares only. (c, r) itself may hold any piece.
\<close>

definition slides :: "Board \<Rightarrow> int \<Rightarrow> int \<Rightarrow> int \<Rightarrow> int \<Rightarrow> int \<Rightarrow> int \<Rightarrow> bool" where
  "slides b x y dx dy c r \<longleftrightarrow>
     (\<exists>n\<in>{1..7}. c = x + n * dx \<and> r = y + n * dy \<and>
        (\<forall>k\<in>{1..<n}. free_at b (x + k * dx) (y + k * dy)))"

definition straight :: "Board \<Rightarrow> int \<Rightarrow> int \<Rightarrow> int \<Rightarrow> int \<Rightarrow> bool" where
  "straight b x y c r \<longleftrightarrow> slides b x y 0 (-1) c r \<or> slides b x y 0 1 c r \<or>
     slides b x y 1 0 c r \<or> slides b x y (-1) 0 c r"

definition diagonal :: "Board \<Rightarrow> int \<Rightarrow> int \<Rightarrow> int \<Rightarrow> int \<Rightarrow> bool" where
  "diagonal b x y c r \<longleftrightarrow> slides b x y 1 1 c r \<or> slides b x y 1 (-1) c r \<or>
     slides b x y (-1) (-1) c r \<or> slides b x y (-1) 1 c r"

text \<open>
  A pawn's steps ahead, and its captures, with the pieces it takes for an enemy: the game
  counts the black king among the white pieces here.
\<close>

definition pawn_steps :: "Board \<Rightarrow> int \<Rightarrow> bool \<Rightarrow> int \<Rightarrow> int \<Rightarrow> int \<Rightarrow> int \<Rightarrow> bool" where
  "pawn_steps b d moved x y c r \<longleftrightarrow>
     c = x \<and> free_at b x (y + d) \<and>
     (r = y + d \<or> r = y + 2 * d \<and> free_at b x (y + 2 * d) \<and> \<not> moved)"

definition pawn_takes :: "Board \<Rightarrow> int \<Rightarrow> (PieceType \<Rightarrow> bool) \<Rightarrow> int \<Rightarrow> int \<Rightarrow> int \<Rightarrow> int \<Rightarrow> bool" where
  "pawn_takes b d enemy x y c r \<longleftrightarrow>
     \<bar>c - x\<bar> = 1 \<and> r = y + d \<and> (case piece_at b c r of None \<Rightarrow> False | Some q \<Rightarrow> enemy (ptype q))"

definition may_go :: "Board \<Rightarrow> Piece \<Rightarrow> int \<Rightarrow> int \<Rightarrow> int \<Rightarrow> int \<Rightarrow> bool" where
  "may_go b p x y c r =
     (case ptype p of
        b_pawn \<Rightarrow> pawn_steps b 1 (pawn_moved p) x y c r \<or>
                  pawn_takes b 1 (\<lambda>t. is_white t \<or> t = b_king) x y c r
      | w_pawn \<Rightarrow> pawn_steps b (-1) (pawn_moved p) x y c r \<or>
                  pawn_takes b (-1) (\<lambda>t. \<not> is_white t \<and> t \<noteq> b_king) x y c r
      | w_knight \<Rightarrow> \<bar>c - x\<bar> = 1 \<and> \<bar>r - y\<bar> = 2 \<or> \<bar>c - x\<bar> = 2 \<and> \<bar>r - y\<bar> = 1
      | b_knight \<Rightarrow> \<bar>c - x\<bar> = 1 \<and> \<bar>r - y\<bar> = 2 \<or> \<bar>c - x\<bar> = 2 \<and> \<bar>r - y\<bar> = 1
      | w_king \<Rightarrow> \<bar>c - x\<bar> \<le> 1 \<and> \<bar>r - y\<bar> \<le> 1 \<and> (c, r) \<noteq> (x, y)
      | b_king \<Rightarrow> \<bar>c - x\<bar> \<le> 1 \<and> \<bar>r - y\<bar> \<le> 1 \<and> (c, r) \<noteq> (x, y)
      | b_rook \<Rightarrow> (c, r) = (x, y) \<or> straight b x y c r
      | w_rook \<Rightarrow> (c, r) = (x, y) \<or> straight b x y c r
      | b_bishop \<Rightarrow> diagonal b x y c r
      | w_bishop \<Rightarrow> diagonal b x y c r
      | w_queen \<Rightarrow> (c, r) = (x, y) \<or> straight b x y c r \<or> diagonal b x y c r
      | b_queen \<Rightarrow> (c, r) = (x, y) \<or> straight b x y c r \<or> diagonal b x y c r)"

section \<open>The loops\<close>

text \<open>How far a loop over \<open>[a..N]\<close> gets that stops after the first \<open>n\<close> with \<open>P n\<close>.\<close>

definition reach :: "(int \<Rightarrow> bool) \<Rightarrow> int \<Rightarrow> int \<Rightarrow> int set" where
  "reach P a N = {n. a \<le> n \<and> n \<le> N \<and> (\<forall>k\<in>{a..<n}. \<not> P k)}"

lemma reach_empty: "N < a \<Longrightarrow> reach P a N = {}"
  by (auto simp: reach_def)

lemma reach_step:
  assumes "a \<le> N"
  shows "reach P a N = insert a (if P a then {} else reach P (a + 1) N)"
proof (intro set_eqI)
  fix n
  show "n \<in> reach P a N \<longleftrightarrow> n \<in> insert a (if P a then {} else reach P (a + 1) N)"
  proof (cases "a < n")
    case True
    then have "{a..<n} = insert a {a + 1..<n}" by auto
    with True show ?thesis by (auto simp: reach_def)
  next
    case False
    then show ?thesis using assms by (auto simp: reach_def)
  qed
qed

lemma ray_map:
  assumes "\<forall>n\<in>{a..N}. f n \<noteq> start"
  shows "set (ray_marks occ start (map f [a..N])) = f ` reach (\<lambda>k. occ (f k)) a N"
  using assms
proof (induction a N rule: upto.induct)
  case (1 a N)
  show ?case
  proof (cases "a \<le> N")
    case False
    then show ?thesis by (simp add: reach_empty)
  next
    case True
    have e: "map f [a..N] = f a # map f [a + 1..N]" using True by (simp add: upto_rec1)
    have "f a \<noteq> start" using 1(2) True by simp
    moreover have "set (ray_marks occ start (map f [a + 1..N])) = f ` reach (\<lambda>k. occ (f k)) (a + 1) N"
      using 1(1) [OF True] 1(2) by simp
    ultimately show ?thesis unfolding e reach_step [OF True] by simp
  qed
qed

text \<open>The four loops of the rook, as runs away from its square.\<close>

lemma upto_shift: "map (\<lambda>n. y + n) [1..N] = [y + 1..y + N]" for y N :: int
proof (induction "nat N" arbitrary: N)
  case 0
  then show ?case by simp
next
  case (Suc m)
  then have "1 \<le> N" "m = nat (N - 1)" by auto
  moreover have "[y + 1..y + (N - 1)] = [y + 1..y + N - 1]"
    by (rule arg_cong2 [of _ _ _ _ upto]) simp_all
  ultimately show ?case using Suc(1) [of "N - 1"] by (simp add: upto_rec2)
qed

lemma rev_upto_shift: "map (\<lambda>n. y - n) [1..N] = rev [y - N..y - 1]" for y N :: int
proof (induction "nat N" arbitrary: N)
  case 0
  then show ?case by simp
next
  case (Suc m)
  then have n: "1 \<le> N" "m = nat (N - 1)" by auto
  have "[y - (N - 1)..y - 1] = [y - N + 1..y - 1]"
    by (rule arg_cong2 [of _ _ _ _ upto]) simp_all
  then have "[y - N..y - 1] = (y - N) # [y - (N - 1)..y - 1]"
    using n by (simp only:) (simp add: upto_rec1)
  then show ?case using n Suc(1) [of "N - 1"] by (simp add: upto_rec2)
qed

lemma ray_up:
  assumes "0 \<le> v" and "v \<le> 7"
  shows "set (ray_marks occ v [v..7]) = insert v ((\<lambda>n. v + n) ` reach (\<lambda>k. occ (v + k)) 1 (7 - v))"
proof -
  have "[v..7] = v # map (\<lambda>n. v + n) [1..7 - v]"
    using assms by (simp add: upto_rec1 upto_shift)
  then show ?thesis using ray_map [of 1 "7 - v" "\<lambda>n. v + n" v occ] by simp
qed

lemma ray_down:
  assumes "0 \<le> v" and "v \<le> 7"
  shows "set (ray_marks occ v (rev [0..v])) = insert v ((\<lambda>n. v - n) ` reach (\<lambda>k. occ (v - k)) 1 v)"
proof -
  have "rev [0..v] = v # map (\<lambda>n. v - n) [1..v]"
    using assms by (simp add: upto_rec2 rev_upto_shift)
  then show ?thesis using ray_map [of 1 v "\<lambda>n. v - n" v occ] by simp
qed

text \<open>The loop of the bishop: four runs in step, each with its flag.\<close>

definition arm :: "bool \<Rightarrow> (int \<Rightarrow> bool) \<Rightarrow> int \<Rightarrow> int \<Rightarrow> int set" where
  "arm flag P a N = (if flag then reach P a N else {})"

lemma diag_step_arm:
  assumes "a \<le> N" and "diag_step (P a) flag (g a) = (sqs, flag')"
  shows "g ` arm flag P a N = set sqs \<union> g ` arm flag' P (a + 1) N"
  using assms by (auto simp: diag_step_def arm_def reach_step split: if_splits)

lemma diag_marks_arms:
  "set (diag_marks junk b x y (f1, f2, f3, f4) [a..N]) =
     (\<lambda>i. (x + i, y + i)) ` arm f1 (\<lambda>i. held junk b ((y + i) * 8 + (x + i))) a N \<union>
     (\<lambda>i. (x + i, y - i)) ` arm f2 (\<lambda>i. held junk b ((y - i) * 8 + (x + i))) a N \<union>
     (\<lambda>i. (x - i, y - i)) ` arm f3 (\<lambda>i. held junk b ((y - i) * 8 + (x - i))) a N \<union>
     (\<lambda>i. (x - i, y + i)) ` arm f4 (\<lambda>i. held junk b ((y + i) * 8 + (x - i))) a N"
proof (induction a N arbitrary: f1 f2 f3 f4 rule: upto.induct)
  case (1 a N)
  show ?case
  proof (cases "a \<le> N")
    case False
    then show ?thesis by (simp add: arm_def reach_empty)
  next
    case True
    have e: "[a..N] = a # [a + 1..N]" using True by (simp add: upto_rec1)
    obtain s1 g1 where d1: "diag_step (held junk b ((y + a) * 8 + (x + a))) f1 (x + a, y + a) = (s1, g1)"
      by force
    obtain s2 g2 where d2: "diag_step (held junk b ((y - a) * 8 + (x + a))) f2 (x + a, y - a) = (s2, g2)"
      by force
    obtain s3 g3 where d3: "diag_step (held junk b ((y - a) * 8 + (x - a))) f3 (x - a, y - a) = (s3, g3)"
      by force
    obtain s4 g4 where d4: "diag_step (held junk b ((y + a) * 8 + (x - a))) f4 (x - a, y + a) = (s4, g4)"
      by force
    note arms =
      diag_step_arm [OF True, of "\<lambda>i. held junk b ((y + i) * 8 + (x + i))" _ "\<lambda>i. (x + i, y + i)", OF d1]
      diag_step_arm [OF True, of "\<lambda>i. held junk b ((y - i) * 8 + (x + i))" _ "\<lambda>i. (x + i, y - i)", OF d2]
      diag_step_arm [OF True, of "\<lambda>i. held junk b ((y - i) * 8 + (x - i))" _ "\<lambda>i. (x - i, y - i)", OF d3]
      diag_step_arm [OF True, of "\<lambda>i. held junk b ((y + i) * 8 + (x - i))" _ "\<lambda>i. (x - i, y + i)", OF d4]
    have l: "diag_marks junk b x y (f1, f2, f3, f4) [a..N] =
        s1 @ s2 @ s3 @ s4 @ diag_marks junk b x y (g1, g2, g3, g4) [a + 1..N]"
      unfolding e diag_marks.simps prod.case Let_def d1 d2 d3 d4 by (rule refl)
    show ?thesis
      unfolding l arms set_append 1 [OF True] by (simp only: Un_ac)
  qed
qed


section \<open>Loops and rules\<close>

lemma slide_inside:
  assumes "on_sq x y" and "on_sq (x + n * dx) (y + n * dy)" and "0 \<le> k" and "k \<le> n"
    and "dx \<in> {-1, 0, 1}" and "dy \<in> {-1, 0, 1}"
  shows "on_sq (x + k * dx) (y + k * dy)"
  using assms by (auto simp: on_sq_def)

lemma reach_slides:
  assumes b: "board_ok b" and xy: "on_sq x y" and cr: "on_sq c r"
    and d: "dx \<in> {-1, 0, 1}" "dy \<in> {-1, 0, 1}"
    and N: "N \<le> 7" "\<forall>n\<ge>1. on_sq (x + n * dx) (y + n * dy) \<and> n \<le> 7 \<longrightarrow> n \<le> N"
  shows "(\<exists>n\<in>reach (\<lambda>k. held junk b ((y + k * dy) * 8 + (x + k * dx))) 1 N.
      c = x + n * dx \<and> r = y + n * dy) \<longleftrightarrow> slides b x y dx dy c r"
proof -
  have blocked: "(\<forall>k\<in>{1..<n}. \<not> held junk b ((y + k * dy) * 8 + (x + k * dx))) \<longleftrightarrow>
      (\<forall>k\<in>{1..<n}. free_at b (x + k * dx) (y + k * dy))"
    if "c = x + n * dx" "r = y + n * dy" for n
  proof (rule ball_cong)
    fix k assume "k \<in> {1..<n}"
    then have "on_sq (x + k * dx) (y + k * dy)"
      using slide_inside [OF xy, of n dx dy k] cr d that by simp
    then show "\<not> held junk b ((y + k * dy) * 8 + (x + k * dx)) \<longleftrightarrow>
        free_at b (x + k * dx) (y + k * dy)"
      using held_on [OF b] by blast
  qed simp
  show ?thesis
  proof
    assume "\<exists>n\<in>reach (\<lambda>k. held junk b ((y + k * dy) * 8 + (x + k * dx))) 1 N.
      c = x + n * dx \<and> r = y + n * dy"
    then obtain n where "1 \<le> n" "n \<le> N" "c = x + n * dx" "r = y + n * dy"
      "\<forall>k\<in>{1..<n}. \<not> held junk b ((y + k * dy) * 8 + (x + k * dx))"
      by (auto simp: reach_def)
    with blocked N(1) show "slides b x y dx dy c r"
      unfolding slides_def by (intro bexI [of _ n]) auto
  next
    assume "slides b x y dx dy c r"
    then obtain n where n: "1 \<le> n" "n \<le> 7" "c = x + n * dx" "r = y + n * dy"
      "\<forall>k\<in>{1..<n}. free_at b (x + k * dx) (y + k * dy)"
      by (auto simp: slides_def)
    then have "n \<le> N" using N(2) cr by simp
    with n blocked show "\<exists>n\<in>reach (\<lambda>k. held junk b ((y + k * dy) * 8 + (x + k * dx))) 1 N.
      c = x + n * dx \<and> r = y + n * dy"
      by (intro bexI [of _ n]) (auto simp: reach_def)
  qed
qed

lemma rook_marks_iff:
  assumes "board_ok b" and xy: "on_sq x y" and cr: "on_sq c r"
  shows "(c, r) \<in> set (rook_marks junk b x y) \<longleftrightarrow> (c, r) = (x, y) \<or> straight b x y c r"
proof -
  have v: "0 \<le> x" "x \<le> 7" "0 \<le> y" "y \<le> 7" using xy by (simp_all add: on_sq_def)
  have "(c, r) \<in> (\<lambda>i. (x, i)) ` set (ray_marks (\<lambda>i. held junk b (i * 8 + x)) y (rev [0..y])) \<longleftrightarrow>
      (c, r) = (x, y) \<or> slides b x y 0 (-1) c r"
    using reach_slides [OF assms, of 0 "-1" y junk] v
    by (auto simp: ray_down on_sq_def)
  moreover have "(c, r) \<in> (\<lambda>i. (x, i)) ` set (ray_marks (\<lambda>i. held junk b (i * 8 + x)) y [y..7]) \<longleftrightarrow>
      (c, r) = (x, y) \<or> slides b x y 0 1 c r"
    using reach_slides [OF assms, of 0 1 "7 - y" junk] v
    by (auto simp: ray_up on_sq_def)
  moreover have "(c, r) \<in> (\<lambda>i. (i, y)) ` set (ray_marks (\<lambda>i. held junk b (y * 8 + i)) x [x..7]) \<longleftrightarrow>
      (c, r) = (x, y) \<or> slides b x y 1 0 c r"
    using reach_slides [OF assms, of 1 0 "7 - x" junk] v
    by (auto simp: ray_up on_sq_def)
  moreover have "(c, r) \<in> (\<lambda>i. (i, y)) ` set (ray_marks (\<lambda>i. held junk b (y * 8 + i)) x (rev [0..x])) \<longleftrightarrow>
      (c, r) = (x, y) \<or> slides b x y (-1) 0 c r"
    using reach_slides [OF assms, of "-1" 0 x junk] v
    by (auto simp: ray_down on_sq_def)
  ultimately show ?thesis
    unfolding rook_marks_def set_append set_map Un_iff straight_def by blast
qed

lemma bishop_marks_iff:
  assumes "board_ok b" and xy: "on_sq x y" and cr: "on_sq c r"
  shows "(c, r) \<in> set (bishop_marks junk b x y) \<longleftrightarrow> diagonal b x y c r"
proof -
  have "(c, r) \<in> (\<lambda>i. (x + i, y + i)) ` reach (\<lambda>i. held junk b ((y + i) * 8 + (x + i))) 1 7 \<longleftrightarrow>
      slides b x y 1 1 c r"
    using reach_slides [OF assms, of 1 1 7 junk] by auto
  moreover have "(c, r) \<in> (\<lambda>i. (x + i, y - i)) ` reach (\<lambda>i. held junk b ((y - i) * 8 + (x + i))) 1 7 \<longleftrightarrow>
      slides b x y 1 (-1) c r"
    using reach_slides [OF assms, of 1 "-1" 7 junk] by auto
  moreover have "(c, r) \<in> (\<lambda>i. (x - i, y - i)) ` reach (\<lambda>i. held junk b ((y - i) * 8 + (x - i))) 1 7 \<longleftrightarrow>
      slides b x y (-1) (-1) c r"
    using reach_slides [OF assms, of "-1" "-1" 7 junk] by auto
  moreover have "(c, r) \<in> (\<lambda>i. (x - i, y + i)) ` reach (\<lambda>i. held junk b ((y + i) * 8 + (x - i))) 1 7 \<longleftrightarrow>
      slides b x y (-1) 1 c r"
    using reach_slides [OF assms, of "-1" 1 7 junk] by auto
  ultimately show ?thesis
    unfolding bishop_marks_def diag_marks_arms Un_iff diagonal_def arm_def if_True by blast
qed


text \<open>The pawns: the tests before a capture keep its reads inside the array.\<close>

lemma capture_on:
  assumes "board_ok b" and "guard \<Longrightarrow> on_sq c r"
  shows "capture guard b (r * 8 + c) P (c, r) =
    Some (if guard \<and> (case piece_at b c r of None \<Rightarrow> False | Some q \<Rightarrow> P (type_num (ptype q)))
          then [(c, r)] else [])"
  using holds_type_on [OF assms(1) assms(2)] by (simp add: capture_def)

lemma abs_one: "\<bar>a - b\<bar> = 1 \<longleftrightarrow> a = b + 1 \<or> a = b - 1" for a b :: int
  by arith

lemma abs_two: "\<bar>a - b\<bar> = 2 \<longleftrightarrow> a = b + 2 \<or> a = b - 2" for a b :: int
  by arith

lemma abs_le_one: "\<bar>a - b\<bar> \<le> 1 \<longleftrightarrow> a = b \<or> a = b + 1 \<or> a = b - 1" for a b :: int
  by arith

lemma type_num_bounds:
  "type_num t \<ge> 5 \<longleftrightarrow> is_white t \<or> t = b_king" "type_num t < 5 \<longleftrightarrow> \<not> is_white t \<and> t \<noteq> b_king"
  by (cases t; simp add: is_white_num)+

lemma type_case:
  "(case q of None \<Rightarrow> False | Some q \<Rightarrow> 5 \<le> type_num (ptype q)) \<longleftrightarrow>
   (case q of None \<Rightarrow> False | Some q \<Rightarrow> is_white (ptype q) \<or> ptype q = b_king)"
  "(case q of None \<Rightarrow> False | Some q \<Rightarrow> type_num (ptype q) < 5) \<longleftrightarrow>
   (case q of None \<Rightarrow> False | Some q \<Rightarrow> \<not> is_white (ptype q) \<and> ptype q \<noteq> b_king)"
  by (simp_all add: type_num_bounds split: option.split)

lemma b_pawn_marks_iff:
  assumes b: "board_ok b" and xy: "on_sq x y"
  shows "\<exists>sqs. b_pawn_marks junk b moved x y = Some sqs \<and> (\<forall>sq\<in>set sqs. near sq) \<and>
    (\<forall>c r. on_sq c r \<longrightarrow> (c, r) \<in> set sqs \<longleftrightarrow> pawn_steps b 1 moved x y c r \<or>
        pawn_takes b 1 (\<lambda>t. is_white t \<or> t = b_king) x y c r)"
proof -
  let ?right = "if (y < 7 \<and> x < 7) \<and> (case piece_at b (x + 1) (y + 1) of None \<Rightarrow> False
      | Some q \<Rightarrow> is_white (ptype q) \<or> ptype q = b_king) then [(x + 1, y + 1)] else []"
  let ?left = "if (x > 0 \<and> y < 7) \<and> (case piece_at b (x - 1) (y + 1) of None \<Rightarrow> False
      | Some q \<Rightarrow> is_white (ptype q) \<or> ptype q = b_king) then [(x - 1, y + 1)] else []"
  let ?ahead = "if \<not> held junk b ((y + 1) * 8 + x) then
      (if \<not> held junk b ((y + 2) * 8 + x) \<and> \<not> moved then [(x, y + 2)] else []) @ [(x, y + 1)]
      else []"
  have r: "capture (y < 7 \<and> x < 7) b ((y + 1) * 8 + x + 1) (\<lambda>t. t \<ge> 5) (x + 1, y + 1) = Some ?right"
    using capture_on [OF b, of "y < 7 \<and> x < 7" "x + 1" "y + 1" "\<lambda>t. t \<ge> 5"] xy
    unfolding type_case add.assoc by (simp add: on_sq_def)
  have l: "capture (x > 0 \<and> y < 7) b ((y + 1) * 8 + x - 1) (\<lambda>t. t \<ge> 5) (x - 1, y + 1) = Some ?left"
    using capture_on [OF b, of "x > 0 \<and> y < 7" "x - 1" "y + 1" "\<lambda>t. t \<ge> 5"] xy
    unfolding type_case add_diff_eq by (simp add: on_sq_def)
  have eq: "b_pawn_marks junk b moved x y = Some (?right @ ?left @ ?ahead)"
    unfolding b_pawn_marks_def r l by simp
  have v: "0 \<le> x" "x \<le> 7" "0 \<le> y" "y \<le> 7" using xy by (simp_all add: on_sq_def)
  have "\<forall>sq\<in>set (?right @ ?left @ ?ahead). near sq"
    using v by (auto simp: near_def)
  moreover have "(c, r) \<in> set (?right @ ?left @ ?ahead) \<longleftrightarrow> pawn_steps b 1 moved x y c r \<or>
        pawn_takes b 1 (\<lambda>t. is_white t \<or> t = b_king) x y c r" if cr: "on_sq c r" for c r
  proof -
    have "(c, r) \<in> set ?ahead \<longleftrightarrow> pawn_steps b 1 moved x y c r"
      using held_on [OF b, of x "y + 1" junk] held_on [OF b, of x "y + 2" junk] cr v
      by (auto simp: pawn_steps_def on_sq_def)
    moreover have "(c, r) \<in> set ?right \<or> (c, r) \<in> set ?left \<longleftrightarrow>
        pawn_takes b 1 (\<lambda>t. is_white t \<or> t = b_king) x y c r"
      using cr v by (auto simp: pawn_takes_def on_sq_def abs_one)
    ultimately show ?thesis unfolding set_append Un_iff by blast
  qed
  ultimately show ?thesis using eq by blast
qed

lemma w_pawn_marks_iff:
  assumes b: "board_ok b" and xy: "on_sq x y"
  shows "\<exists>sqs. w_pawn_marks junk b moved x y = Some sqs \<and> (\<forall>sq\<in>set sqs. near sq) \<and>
    (\<forall>c r. on_sq c r \<longrightarrow> (c, r) \<in> set sqs \<longleftrightarrow> pawn_steps b (-1) moved x y c r \<or>
        pawn_takes b (-1) (\<lambda>t. \<not> is_white t \<and> t \<noteq> b_king) x y c r)"
proof -
  let ?right = "if (y > 0 \<and> x < 7) \<and> (case piece_at b (x + 1) (y - 1) of None \<Rightarrow> False
      | Some q \<Rightarrow> \<not> is_white (ptype q) \<and> ptype q \<noteq> b_king) then [(x + 1, y - 1)] else []"
  let ?left = "if (y > 0 \<and> x > 0) \<and> (case piece_at b (x - 1) (y - 1) of None \<Rightarrow> False
      | Some q \<Rightarrow> \<not> is_white (ptype q) \<and> ptype q \<noteq> b_king) then [(x - 1, y - 1)] else []"
  let ?ahead = "if \<not> held junk b ((y - 1) * 8 + x) then
      (if \<not> held junk b ((y - 2) * 8 + x) \<and> \<not> moved then [(x, y - 2)] else []) @ [(x, y - 1)]
      else []"
  have r: "capture (y > 0 \<and> x < 7) b ((y - 1) * 8 + x + 1) (\<lambda>t. t < 5) (x + 1, y - 1) = Some ?right"
    using capture_on [OF b, of "y > 0 \<and> x < 7" "x + 1" "y - 1" "\<lambda>t. t < 5"] xy
    unfolding type_case add.assoc by (simp add: on_sq_def)
  have l: "capture (y > 0 \<and> x > 0) b ((y - 1) * 8 + x - 1) (\<lambda>t. t < 5) (x - 1, y - 1) = Some ?left"
    using capture_on [OF b, of "y > 0 \<and> x > 0" "x - 1" "y - 1" "\<lambda>t. t < 5"] xy
    unfolding type_case add_diff_eq by (simp add: on_sq_def)
  have eq: "w_pawn_marks junk b moved x y = Some (?right @ ?left @ ?ahead)"
    unfolding w_pawn_marks_def r l by simp
  have v: "0 \<le> x" "x \<le> 7" "0 \<le> y" "y \<le> 7" using xy by (simp_all add: on_sq_def)
  have "\<forall>sq\<in>set (?right @ ?left @ ?ahead). near sq"
    using v by (auto simp: near_def)
  moreover have "(c, r) \<in> set (?right @ ?left @ ?ahead) \<longleftrightarrow> pawn_steps b (-1) moved x y c r \<or>
        pawn_takes b (-1) (\<lambda>t. \<not> is_white t \<and> t \<noteq> b_king) x y c r" if cr: "on_sq c r" for c r
  proof -
    have "(c, r) \<in> set ?ahead \<longleftrightarrow> pawn_steps b (-1) moved x y c r"
      using held_on [OF b, of x "y - 1" junk] held_on [OF b, of x "y - 2" junk] cr v
      by (auto simp: pawn_steps_def on_sq_def)
    moreover have "(c, r) \<in> set ?right \<or> (c, r) \<in> set ?left \<longleftrightarrow>
        pawn_takes b (-1) (\<lambda>t. \<not> is_white t \<and> t \<noteq> b_king) x y c r"
      using cr v by (auto simp: pawn_takes_def on_sq_def abs_one)
    ultimately show ?thesis unfolding set_append Un_iff by blast
  qed
  ultimately show ?thesis using eq by blast
qed

lemma knight_squares_iff:
  "(c, r) \<in> set (knight_squares x y) \<longleftrightarrow> \<bar>c - x\<bar> = 1 \<and> \<bar>r - y\<bar> = 2 \<or> \<bar>c - x\<bar> = 2 \<and> \<bar>r - y\<bar> = 1"
  unfolding knight_squares_def abs_one abs_two by simp blast

lemma king_squares_iff:
  "(c, r) \<in> set (king_squares x y) \<longleftrightarrow> \<bar>c - x\<bar> \<le> 1 \<and> \<bar>r - y\<bar> \<le> 1 \<and> (c, r) \<noteq> (x, y)"
  unfolding king_squares_def abs_le_one by auto

lemma ray_subset: "set (ray_marks occ v is) \<subseteq> set is"
  by (induction occ v "is" rule: ray_marks.induct) auto

lemma rook_marks_near:
  assumes "on_sq x y" and "sq \<in> set (rook_marks junk b x y)"
  shows "near sq"
  using assms ray_subset [of _ y "rev [0..y]"] ray_subset [of _ y "[y..7]"]
    ray_subset [of _ x "rev [0..x]"] ray_subset [of _ x "[x..7]"]
  by (fastforce simp: rook_marks_def near_def on_sq_def)

lemma bishop_marks_near:
  assumes "on_sq x y" and "sq \<in> set (bishop_marks junk b x y)"
  shows "near sq"
  using assms by (auto simp: bishop_marks_def diag_marks_arms arm_def reach_def near_def on_sq_def)

lemma marks_iff:
  assumes b: "board_ok b" and xy: "on_sq x y"
  shows "\<exists>sqs. marks junk b p x y = Some sqs \<and> (\<forall>sq\<in>set sqs. near sq) \<and>
    (\<forall>c r. on_sq c r \<longrightarrow> (c, r) \<in> set sqs \<longleftrightarrow> may_go b p x y c r)"
proof -
  have k: "\<forall>sq\<in>set (knight_squares x y). near sq" "\<forall>sq\<in>set (king_squares x y). near sq"
    using xy by (auto simp: knight_squares_def king_squares_def near_def on_sq_def)
  note iffs = knight_squares_iff king_squares_iff rook_marks_iff [OF b xy] bishop_marks_iff [OF b xy]
  note nears = rook_marks_near [OF xy] bishop_marks_near [OF xy]
  show ?thesis
  proof (cases "ptype p")
    case b_pawn
    then show ?thesis using b_pawn_marks_iff [OF b xy] by (simp add: marks_def may_go_def)
  next
    case w_pawn
    then show ?thesis using w_pawn_marks_iff [OF b xy] by (simp add: marks_def may_go_def)
  qed (use k nears in \<open>auto simp: marks_def may_go_def iffs\<close>)
qed

section \<open>Reads beside the array\<close>

text \<open>
  Whether the words that the marking of a piece reads can be read: one or two ahead of a pawn,
  seven on each diagonal of a bishop or queen. Words of the array always can, so knights,
  kings and rooks never depend on what lies beside it.
\<close>

definition probes :: "(int \<Rightarrow> bool option) \<Rightarrow> Board \<Rightarrow> int \<Rightarrow> bool" where
  "probes junk b i \<longleftrightarrow> square_at b i \<noteq> None \<or> junk i \<noteq> None"

definition readable :: "(int \<Rightarrow> bool option) \<Rightarrow> Board \<Rightarrow> Piece \<Rightarrow> int \<Rightarrow> int \<Rightarrow> bool" where
  "readable junk b p x y \<longleftrightarrow>
     (let ahead = (\<lambda>d. probes junk b ((y + d) * 8 + x) \<and>
            (occupied junk b ((y + d) * 8 + x) = Some False \<longrightarrow> probes junk b ((y + 2 * d) * 8 + x)));
          diagonals = (\<forall>i\<in>{1..7}. probes junk b ((y + i) * 8 + (x + i)) \<and> probes junk b ((y - i) * 8 + (x + i)) \<and>
            probes junk b ((y - i) * 8 + (x - i)) \<and> probes junk b ((y + i) * 8 + (x - i)))
      in case ptype p of
           b_pawn \<Rightarrow> ahead 1 | w_pawn \<Rightarrow> ahead (-1)
         | b_bishop \<Rightarrow> diagonals | w_bishop \<Rightarrow> diagonals | b_queen \<Rightarrow> diagonals | w_queen \<Rightarrow> diagonals
         | _ \<Rightarrow> True)"

lemma readable_total: "\<forall>i. junk i \<noteq> None \<Longrightarrow> readable junk b p x y"
  by (simp add: readable_def probes_def Let_def split: PieceType.split)

text \<open>The words, where they can be read.\<close>

abbreviation word_at :: "(int \<Rightarrow> bool option) \<Rightarrow> int \<Rightarrow> bool" where
  "word_at junk \<equiv> \<lambda>i. junk i = Some True"

lemma occupied_held: "occupied junk b i = (if probes junk b i then Some (held (word_at junk) b i) else None)"
  by (cases "square_at b i"; cases "junk i") (auto simp: occupied_def probes_def held_def)

lemma probes_on: "board_ok b \<Longrightarrow> on_sq c r \<Longrightarrow> probes junk b (r * 8 + c)"
  using square_at_on(1) by (simp add: probes_def)

lemma ray_read:
  "\<forall>i\<in>set is. occ i = Some (h i) \<Longrightarrow> ray occ start is = Some (ray_marks h start is)"
  by (induction "is") simp_all

lemma rook_squares_read:
  assumes b: "board_ok b" and xy: "on_sq x y"
  shows "rook_squares junk b x y = Some (rook_marks (word_at junk) b x y)"
proof -
  have o: "\<And>i. i \<in> {0..7} \<Longrightarrow> on_sq x i" "\<And>i. i \<in> {0..7} \<Longrightarrow> on_sq i y" using xy by (simp_all add: on_sq_def)
  have v: "0 \<le> x" "x \<le> 7" "0 \<le> y" "y \<le> 7" using xy by (simp_all add: on_sq_def)
  have col: "ray (\<lambda>i. occupied junk b (i * 8 + x)) y is = Some (ray_marks (\<lambda>i. held (word_at junk) b (i * 8 + x)) y is)"
    if "set is \<subseteq> {0..7}" for "is"
    using that o(1) probes_on [OF b] by (intro ray_read) (auto simp: occupied_held)
  have row: "ray (\<lambda>i. occupied junk b (y * 8 + i)) x is = Some (ray_marks (\<lambda>i. held (word_at junk) b (y * 8 + i)) x is)"
    if "set is \<subseteq> {0..7}" for "is"
    using that o(2) probes_on [OF b] by (intro ray_read) (auto simp: occupied_held)
  show ?thesis using v by (simp add: rook_squares_def rook_marks_def col row)
qed

lemma diag_loop_read:
  "diag_loop junk b x y fs is =
     (if \<forall>i\<in>set is. probes junk b ((y + i) * 8 + (x + i)) \<and> probes junk b ((y - i) * 8 + (x + i)) \<and>
          probes junk b ((y - i) * 8 + (x - i)) \<and> probes junk b ((y + i) * 8 + (x - i))
      then Some (diag_marks (word_at junk) b x y fs is) else None)"
proof (induction "is" arbitrary: fs)
  case (Cons i "is")
  let ?o = "\<lambda>r c. probes junk b (r * 8 + c)" and ?h = "\<lambda>r c. held (word_at junk) b (r * 8 + c)"
  obtain f1 f2 f3 f4 where fs: "fs = (f1, f2, f3, f4)" by (cases fs) auto
  obtain s1 g1 where 1: "diag_step (?h (y + i) (x + i)) f1 (x + i, y + i) = (s1, g1)" by fastforce
  obtain s2 g2 where 2: "diag_step (?h (y - i) (x + i)) f2 (x + i, y - i) = (s2, g2)" by fastforce
  obtain s3 g3 where 3: "diag_step (?h (y - i) (x - i)) f3 (x - i, y - i) = (s3, g3)" by fastforce
  obtain s4 g4 where 4: "diag_step (?h (y + i) (x - i)) f4 (x - i, y + i) = (s4, g4)" by fastforce
  show ?case
  proof (cases "?o (y + i) (x + i) \<and> ?o (y - i) (x + i) \<and> ?o (y - i) (x - i) \<and> ?o (y + i) (x - i)")
    case True
    then show ?thesis unfolding fs
      by (cases "\<forall>i\<in>set is. ?o (y + i) (x + i) \<and> ?o (y - i) (x + i) \<and> ?o (y - i) (x - i) \<and> ?o (y + i) (x - i)")
        (simp_all add: occupied_held Cons.IH 1 [simplified] 2 [simplified] 3 [simplified] 4 [simplified])
  next
    case False
    then show ?thesis unfolding fs
      by (cases "?o (y + i) (x + i)"; cases "?o (y - i) (x + i)"; cases "?o (y - i) (x - i)")
        (simp_all add: occupied_held 1 [simplified] 2 [simplified] 3 [simplified] 4 [simplified])
  qed
qed simp

lemma painted_squares_read:
  assumes b: "board_ok b" and xy: "on_sq x y"
  shows "painted_squares junk b p x y = (if readable junk b p x y then marks (word_at junk) b p x y else None)"
proof -
  note reads = rook_squares_read [OF b xy] bishop_squares_def diag_loop_read set_upto
  show ?thesis
  proof (cases "ptype p")
    case b_pawn
    have "(y + 2 * 1) * 8 + x = (y + 2) * 8 + x" by simp
    then show ?thesis
      using b_pawn
      by (cases "capture (y < 7 \<and> x < 7) b ((y + 1) * 8 + x + 1) (\<lambda>t. t \<ge> 5) (x + 1, y + 1)";
          cases "capture (x > 0 \<and> y < 7) b ((y + 1) * 8 + x - 1) (\<lambda>t. t \<ge> 5) (x - 1, y + 1)")
        (simp_all add: painted_squares_def marks_def readable_def b_pawn_squares_def b_pawn_marks_def occupied_held Let_def)
  next
    case w_pawn
    have "(y + 2 * - 1) * 8 + x = (y - 2) * 8 + x" "(y + - 1) * 8 + x = (y - 1) * 8 + x" by simp_all
    then show ?thesis
      using w_pawn
      by (cases "capture (y > 0 \<and> x < 7) b ((y - 1) * 8 + x + 1) (\<lambda>t. t < 5) (x + 1, y - 1)";
          cases "capture (y > 0 \<and> x > 0) b ((y - 1) * 8 + x - 1) (\<lambda>t. t < 5) (x - 1, y - 1)")
        (simp_all add: painted_squares_def marks_def readable_def w_pawn_squares_def w_pawn_marks_def occupied_held Let_def)
  qed (simp_all add: painted_squares_def marks_def readable_def queen_squares_def reads bishop_marks_def)
qed

text \<open>Reading depends on the squares and on the type of the piece alone.\<close>

lemma readable_cong:
  assumes "squares b' = squares b" and "ptype p' = ptype p"
  shows "readable junk b' p' x y = readable junk b p x y"
proof -
  have "square_at b' = square_at b" by (simp add: square_at_def assms(1) fun_eq_iff)
  then have "occupied junk b' = occupied junk b" "probes junk b' = probes junk b"
    by (simp_all add: occupied_def probes_def fun_eq_iff)
  then show ?thesis unfolding readable_def by (simp only: assms(2))
qed

lemma possiblePosition_corners:
  assumes s: "squares_115 s" and wf: "fb_wf s (mem_board b)" "fb_wf s vm"
    and b: "board_ok b" and xy: "on_sq x y" and rd: "readable junk b p x y"
  shows "\<exists>m'. possiblePosition junk s vm b p x y = Some (m', b\<lparr>mem_board := m'\<rparr>) \<and> fb_wf s m' \<and>
    (\<forall>c r. on_sq c r \<longrightarrow> corner s m' c r =
       (if may_go b p x y c r then colour_bytes s orange else corner s (mem_board b) c r))"
proof -
  obtain sqs where q: "painted_squares junk b p x y = Some sqs" "\<forall>sq\<in>set sqs. near sq"
    and g: "\<forall>c r. on_sq c r \<longrightarrow> (c, r) \<in> set sqs \<longleftrightarrow> may_go b p x y c r"
  proof -
    have "painted_squares junk b p x y = marks (word_at junk) b p x y"
      by (simp only: painted_squares_read [OF b xy] rd if_True)
    then show ?thesis using marks_iff [OF b xy, of "word_at junk" p] that by (simp only:) blast
  qed
  obtain m' where m': "foldM (paint_square s) sqs (mem_board b) = Some m'" "fb_wf s m'"
    and c: "\<forall>c r. on_sq c r \<longrightarrow> corner s m' c r =
       (if (c, r) \<in> set sqs then colour_bytes s orange else corner s (mem_board b) c r)"
    using paint_squares_corners [OF s wf(1) q(2)] by blast
  have "possiblePosition junk s vm b p x y = Some (m', b\<lparr>mem_board := m'\<rparr>)"
    using copy_buffers_wf [OF wf(2) m'(2)] by (simp add: possiblePosition_def q(1) m'(1))
  with m'(2) c g show ?thesis by auto
qed


text \<open>The rules depend on the pieces alone.\<close>

lemma may_go_cong:
  assumes "squares b' = squares b" and "heap b' = heap b"
  shows "may_go b' = may_go b"
proof -
  have p: "piece_at b' = piece_at b" by (simp add: piece_at_def assms fun_eq_iff)
  then have f: "free_at b' = free_at b" by (simp add: free_at_def fun_eq_iff)
  then have sl: "slides b' = slides b" by (simp add: slides_def fun_eq_iff)
  then have "straight b' = straight b" "diagonal b' = diagonal b"
    by (simp_all add: straight_def diagonal_def fun_eq_iff)
  moreover have "pawn_steps b' = pawn_steps b" "pawn_takes b' = pawn_takes b"
    using p f by (simp_all add: pawn_steps_def pawn_takes_def fun_eq_iff)
  ultimately show ?thesis unfolding fun_eq_iff may_go_def by (simp only: simp_thms)
qed

lemma board_ok_cong:
  "squares b' = squares b \<Longrightarrow> heap b' = heap b \<Longrightarrow> board_ok b' = board_ok b"
  by (simp add: board_ok_def)

lemma marks_on_fresh_board:
  assumes s: "squares_115 s" and wf: "fb_wf s (mem_board b)" "fb_wf s vm"
    and b: "board_ok b" and xy: "on_sq x y"
  shows "\<exists>b1. drawBoard s b = Some b1 \<and> squares b1 = squares b \<and> heap b1 = heap b \<and>
    (if readable junk b p x y then \<exists>m'. possiblePosition junk s vm b1 p x y = Some (m', b1\<lparr>mem_board := m'\<rparr>) \<and> fb_wf s m' \<and>
       (\<forall>c r. on_sq c r \<longrightarrow> lit s m' c r = may_go b p x y c r)
     else possiblePosition junk s vm b1 p x y = None)"
proof -
  obtain m1 where d: "drawBoard s b = Some (b\<lparr>redrawPieces := True, mem_board := m1\<rparr>)" "fb_wf s m1"
    and u: "\<forall>c r. on_sq c r \<longrightarrow> \<not> lit s m1 c r"
    using drawBoard_unlit [OF s wf(1)] by blast
  let ?b1 = "b\<lparr>redrawPieces := True, mem_board := m1\<rparr>"
  have ok: "board_ok ?b1" using b by (simp add: board_ok_def)
  have same: "may_go ?b1 = may_go b" by (rule may_go_cong) simp_all
  have wfb: "fb_wf s (mem_board ?b1)" using d(2) by simp
  have sq: "squares ?b1 = squares b" "heap ?b1 = heap b" by simp_all
  have rd: "readable junk ?b1 p x y = readable junk b p x y" by (rule readable_cong) simp_all
  show ?thesis
  proof (cases "readable junk b p x y")
    case False
    then have "possiblePosition junk s vm ?b1 p x y = None"
      using painted_squares_read [OF ok xy, of junk p] rd by (simp add: possiblePosition_def)
    then show ?thesis using d(1) sq False by auto
  next
    case True
  then obtain m' where m': "possiblePosition junk s vm ?b1 p x y = Some (m', ?b1\<lparr>mem_board := m'\<rparr>)"
      "fb_wf s m'"
    and c: "\<forall>c r. on_sq c r \<longrightarrow> corner s m' c r =
       (if may_go ?b1 p x y c r then colour_bytes s orange else corner s (mem_board ?b1) c r)"
    using possiblePosition_corners [OF s wfb wf(2) ok xy, of junk p] rd by blast
  have "lit s m' c r = may_go b p x y c r" if o: "on_sq c r" for c r
    using c [rule_format, OF o] u [rule_format, OF o] by (simp add: lit_def same)
  then show ?thesis using d(1) sq m' True by auto
  qed
qed

section \<open>Properties\<close>

text \<open>C3: The marks are the moves. On a freshly drawn board possiblePosition copies the marked
  layer to the frame and marks a square of the board exactly when the piece may go there,
  whatever is held by the words beside the array that it reads: knights and kings by their
  offsets, rooks, bishops and queens by sliding over free squares up to and including the
  first held one, pawns one or two steps ahead over free squares and diagonally onto a piece
  they take for an enemy. Rooks and queens also mark their own square. It fails exactly when
  one of the words it reads beside the array cannot be read (\<open>readable\<close> lists them: those
  ahead of a pawn, and the four diagonals of a bishop and a queen).\<close>
theorem possiblePosition_marks_moves:
  assumes "squares_115 s" and "fb_wf s (mem_board b)" and "fb_wf s vm"
    and "board_ok b" and "on_sq x y"
  shows "\<exists>b1. drawBoard s b = Some b1 \<and>
    (if readable junk b p x y
     then \<exists>m'. possiblePosition junk s vm b1 p x y = Some (m', b1\<lparr>mem_board := m'\<rparr>) \<and>
       (\<forall>c r. on_sq c r \<longrightarrow> lit s m' c r = may_go b p x y c r)
     else possiblePosition junk s vm b1 p x y = None)"
proof -
  obtain b1 where "drawBoard s b = Some b1"
    "if readable junk b p x y then \<exists>m'. possiblePosition junk s vm b1 p x y = Some (m', b1\<lparr>mem_board := m'\<rparr>) \<and>
       fb_wf s m' \<and> (\<forall>c r. on_sq c r \<longrightarrow> lit s m' c r = may_go b p x y c r)
     else possiblePosition junk s vm b1 p x y = None"
    using marks_on_fresh_board [OF assms, of junk p] by blast
  then show ?thesis by (cases "readable junk b p x y") auto
qed

text \<open>A white rook on c6 of an otherwise empty board but for a black pawn two squares below it.\<close>

definition rook_board :: Board where
  "rook_board = blank_board\<lparr>heap := [sample_piece\<lparr>ptype := w_rook\<rparr>, sample_piece\<lparr>ptype := b_pawn\<rparr>],
     squares := (replicate 64 None)[18 := Some 0, 34 := Some 1]\<rparr>"

lemma rook_board_ok: "board_ok rook_board"
proof -
  have "Some ref \<in> set ((replicate 64 None)[18 := Some 0, 34 := Some 1]) \<Longrightarrow> ref < 2" for ref :: nat
    by (auto dest!: subsetD [OF set_update_subset_insert])
  then show ?thesis by (auto simp: board_ok_def rook_board_def numeral_2_eq_2)
qed

lemma rook_board_at:
  "piece_at rook_board 2 3 = None" "piece_at rook_board 2 4 = Some (sample_piece\<lparr>ptype := b_pawn\<rparr>)"
  by (simp_all add: piece_at_def rook_board_def nth_list_update)

lemma rook_reaches: "may_go rook_board (sample_piece\<lparr>ptype := w_rook\<rparr>) 2 2 2 4"
proof -
  have "\<forall>k\<in>{1..<2}. free_at rook_board 2 (2 + k)"
  proof
    fix k :: int assume "k \<in> {1..<2}"
    then have "k = 1" by auto
    then show "free_at rook_board 2 (2 + k)" by (simp add: free_at_def rook_board_at)
  qed
  then have "slides rook_board 2 2 0 1 2 4"
    unfolding slides_def by (intro bexI [of _ 2]) simp_all
  then show ?thesis by (simp add: may_go_def straight_def)
qed

theorem possiblePosition_marks_moves_witness:
  "\<exists>b1 m'. drawBoard screen_115 rook_board = Some b1 \<and>
    possiblePosition (\<lambda>_. Some True) screen_115 (replicate 1440000 0) b1 (sample_piece\<lparr>ptype := w_rook\<rparr>) 2 2 =
      Some (m', b1\<lparr>mem_board := m'\<rparr>) \<and>
    lit screen_115 m' 2 4 \<and> \<not> lit screen_115 m' 2 5"
proof -
  let ?p = "sample_piece\<lparr>ptype := w_rook\<rparr>"
  have wf: "fb_wf screen_115 (mem_board rook_board)" "fb_wf screen_115 (replicate 1440000 0)"
    using blank_board_wf by (simp_all add: rook_board_def blank_board_def)
  have o: "on_sq 2 2" "on_sq 2 4" "on_sq 2 5" by (simp_all add: on_sq_def)
  obtain b1 m' where r: "drawBoard screen_115 rook_board = Some b1"
    "possiblePosition (\<lambda>_. Some True) screen_115 (replicate 1440000 0) b1 ?p 2 2 =
       Some (m', b1\<lparr>mem_board := m'\<rparr>)"
    and g: "\<forall>c r. on_sq c r \<longrightarrow> lit screen_115 m' c r = may_go rook_board ?p 2 2 c r"
    using possiblePosition_marks_moves [OF screen_115 wf rook_board_ok o(1), of "\<lambda>_. Some True" ?p]
      readable_total [of "\<lambda>_. Some True" rook_board ?p 2 2] by auto
  have "\<not> may_go rook_board ?p 2 2 2 5"
  proof -
    have "\<not> free_at rook_board 2 4" by (simp add: free_at_def rook_board_at)
    then have "\<not> slides rook_board 2 2 0 1 2 5"
      unfolding slides_def by (auto intro!: bexI [of _ 2])
    then show ?thesis by (simp add: may_go_def straight_def) (auto simp: slides_def)
  qed
  then show ?thesis using r g o rook_reaches by blast
qed

text \<open>C27: The pawns miscount the black king, the sixth piece of the enumeration: a white pawn does
  not mark a black king it attacks, so it can never take it, and a black pawn marks its own
  king. The marking returns unless a word beside the array that it reads ahead of the pawn
  cannot be read.\<close>
theorem pawns_misjudge_black_king:
  assumes "squares_115 s" and "fb_wf s (mem_board b)" and "fb_wf s vm"
    and "board_ok b" and "on_sq x y" and "on_sq c r" and "piece_at b c r = Some q"
    and "ptype q = b_king" and "\<bar>c - x\<bar> = 1" and "r = y + (if ptype p = w_pawn then -1 else 1)"
    and "ptype p = w_pawn \<or> ptype p = b_pawn"
  shows "\<exists>b1. drawBoard s b = Some b1 \<and>
    (if readable junk b p x y
     then \<exists>m'. possiblePosition junk s vm b1 p x y = Some (m', b1\<lparr>mem_board := m'\<rparr>) \<and>
       lit s m' c r = (ptype p = b_pawn)
     else possiblePosition junk s vm b1 p x y = None)"
proof -
  have "may_go b p x y c r \<longleftrightarrow> ptype p = b_pawn"
    using assms(7-11) by (auto simp: may_go_def pawn_steps_def pawn_takes_def)
  moreover obtain b1 where "drawBoard s b = Some b1"
    "if readable junk b p x y then \<exists>m'. possiblePosition junk s vm b1 p x y = Some (m', b1\<lparr>mem_board := m'\<rparr>) \<and>
       fb_wf s m' \<and> (\<forall>c r. on_sq c r \<longrightarrow> lit s m' c r = may_go b p x y c r)
     else possiblePosition junk s vm b1 p x y = None"
    using marks_on_fresh_board [OF assms(1-5), of junk p] by blast
  ultimately show ?thesis using assms(6) by (cases "readable junk b p x y") auto
qed

text \<open>A white pawn and the black king it attacks.\<close>

definition king_board :: Board where
  "king_board = blank_board\<lparr>heap := [sample_piece, sample_piece\<lparr>ptype := b_king\<rparr>],
     squares := (replicate 64 None)[51 := Some 0, 44 := Some 1]\<rparr>"

theorem pawns_misjudge_black_king_witness:
  "\<exists>b1 m'. drawBoard screen_115 king_board = Some b1 \<and>
    possiblePosition (\<lambda>_. Some True) screen_115 (replicate 1440000 0) b1 sample_piece 3 6 =
      Some (m', b1\<lparr>mem_board := m'\<rparr>) \<and> \<not> lit screen_115 m' 4 5"
proof -
  have wf: "fb_wf screen_115 (mem_board king_board)" "fb_wf screen_115 (replicate 1440000 0)"
    using blank_board_wf by (simp_all add: king_board_def blank_board_def)
  have o: "on_sq 3 6" "on_sq 4 5" by (simp_all add: on_sq_def)
  have "Some ref \<in> set ((replicate 64 None)[51 := Some 0, 44 := Some 1]) \<Longrightarrow> ref < 2" for ref :: nat
    by (auto dest!: subsetD [OF set_update_subset_insert])
  then have ok: "board_ok king_board" by (auto simp: board_ok_def king_board_def numeral_2_eq_2)
  have at: "piece_at king_board 4 5 = Some (sample_piece\<lparr>ptype := b_king\<rparr>)"
    by (simp add: piece_at_def king_board_def nth_list_update)
  have p: "ptype sample_piece = w_pawn" by (simp add: sample_piece_def)
  show ?thesis
    using pawns_misjudge_black_king [OF screen_115 wf ok o at, of sample_piece "\<lambda>_. Some True"] p
      readable_total [of "\<lambda>_. Some True" king_board sample_piece 3 6] by simp
qed

end
