(* ===== verification/Setup.thy ===== *)
theory Setup
  imports Moves
begin

text \<open>
  Setting up a game: the geometry \<open>initBoard\<close> of \<open>proj/src/board.c\<close> computes from the
  video mode, and the position it sets up.
\<close>

section \<open>Video memory in mode 0x115\<close>

text \<open>
  What the code relies on when it maps its buffers: the BIOS describes mode 0x115 as 800 by
  600 pixels of 24 bits, the kernel grants and maps the memory, and a mapped buffer has the
  size asked for.
\<close>

definition video_115 :: "'w video_kernel \<Rightarrow> (u32 \<Rightarrow> mem) \<Rightarrow> bool" where
  "video_115 V mapped \<longleftrightarrow>
     (\<forall>w. \<exists>vmi w'. vbe_get_mode_info V 0x115 w = (0, vmi, w') \<and>
        XResolution vmi = 800 \<and> YResolution vmi = 600 \<and> BitsPerPixel vmi = 24) \<and>
     (\<forall>r w. fst (sys_privctl V r w) = 0) \<and>
     (\<forall>a n w. fst (vm_map_phys V a n w)) \<and>
     (\<forall>base. length (mapped base) = 1440000)"

lemma map_vram_115:
  assumes "video_115 V mapped"
  shows "\<exists>base s1 w1. map_vram V n 0x115 s w = Some ((0, Some base), s1, w1) \<and> mode_115 s1 \<and>
    rectangle_width s1 = rectangle_width s \<and> rectangle_height s1 = rectangle_height s \<and>
    left_rectangle_width s1 = left_rectangle_width s"
proof -
  obtain vmi w1 where v: "vbe_get_mode_info V 0x115 w = (0, vmi, w1)"
    "XResolution vmi = 800" "YResolution vmi = 600" "BitsPerPixel vmi = 24"
    using assms unfolding video_115_def by blast
  let ?s = "s\<lparr>vmi_p := vmi, bytes_per_pixel := 3, vram_size := 1440000\<rparr>"
  let ?base = "PhysBasePtr vmi + u32_of n * 1440000"
  obtain w2 where p: "sys_privctl V (?base, ?base + 1440000) w1 = (0, w2)"
    using assms unfolding video_115_def by (metis prod.collapse)
  obtain w3 where q: "vm_map_phys V ?base 1440000 w2 = (True, w3)"
    using assms unfolding video_115_def by (metis prod.collapse)
  have "map_vram V n 0x115 s w = Some ((0, Some ?base), ?s, w3)"
    using p q by (simp add: map_vram_def v Let_def u32_of_def)
  moreover have "mode_115 ?s" by (simp add: mode_115_def v)
  ultimately show ?thesis by fastforce
qed

lemma map_page_115:
  assumes "video_115 V mapped"
  shows "\<exists>m s1 w1. map_page V mapped n 0x115 s w = Some (m, s1, w1) \<and> mode_115 s1 \<and>
    length m = 1440000 \<and> rectangle_width s1 = rectangle_width s \<and>
    rectangle_height s1 = rectangle_height s \<and> left_rectangle_width s1 = left_rectangle_width s"
proof -
  obtain base s1 w1 where "map_vram V n 0x115 s w = Some ((0, Some base), s1, w1)" "mode_115 s1"
    "rectangle_width s1 = rectangle_width s" "rectangle_height s1 = rectangle_height s"
    "left_rectangle_width s1 = left_rectangle_width s"
    using map_vram_115 [OF assms] by blast
  moreover have "length (mapped base) = 1440000" using assms by (simp add: video_115_def)
  ultimately show ?thesis by (simp add: map_page_def)
qed

lemma mode_115_wf: "mode_115 s \<Longrightarrow> fb_wf s m \<longleftrightarrow> length m = 1440000"
  using mode_115_facts [of s] by (simp add: fb_wf_def)

section \<open>Geometry\<close>

lemma margin_328: "float_mul_trunc 328 = 65"
proof -
  have "bit_length 4402341544 = 33" by (simp add: bit_length.simps)
  then show ?thesis
    by (simp add: float_mul_trunc_def horizontal_margin_num_def round_bits_def Let_def)
qed

lemma set_geometry_115:
  assumes "mode_115 s"
  shows "squares_115 (set_geometry s)"
proof -
  have r: "get_h_res s = 800" "get_v_res s = 600"
    using assms by (simp_all add: mode_115_def get_h_res_def get_v_res_def)
  have w: "(get_v_res s - vertical_margin) div 8 = (59 :: u32)"
    by (rule word_uint_eqI) (simp add: r vertical_margin_def uint_div)
  show ?thesis
    using assms by (simp add: set_geometry_def Let_def w [unfolded r] r margin_328 squares_115_def mode_115_def)
qed

section \<open>The position\<close>

text \<open>The piece \<open>createPiece\<close> makes and the index of its square.\<close>

definition made :: "xpm_loader \<Rightarrow> Screen \<Rightarrow> Piece \<Rightarrow> PieceType \<times> int \<times> int \<Rightarrow> Piece" where
  "made load s fresh tcr =
     (case tcr of (t, c, r) \<Rightarrow> initPiece load fresh t (getScreenX s c) (getScreenY s r))"

definition pos_of :: "PieceType \<times> int \<times> int \<Rightarrow> nat" where
  "pos_of tcr = (case tcr of (t, c, r) \<Rightarrow> nat (r * 8 + c))"

definition placed :: "(PieceType \<times> int \<times> int) list \<Rightarrow> (nat \<Rightarrow> PieceType \<times> int \<times> int \<Rightarrow> Piece) \<Rightarrow> Board \<Rightarrow> bool" where
  "placed ds mk b \<longleftrightarrow> length (squares b) = 64 \<and> length (heap b) = length ds \<and>
     (\<forall>k<length ds. heap b ! k = mk k (ds ! k) \<and> squares b ! pos_of (ds ! k) = Some k) \<and>
     (\<forall>i<64. i \<notin> pos_of ` set ds \<longrightarrow> squares b ! i = None)"

lemma createPiece_placed:
  assumes "placed ds mk b" and "on_sq c r" and "pos_of (t, c, r) \<notin> pos_of ` set ds"
    and "mk (length ds) (t, c, r) = made load s fresh (t, c, r)"
  shows "\<exists>b'. createPiece load s fresh t c r b = Some b' \<and> placed (ds @ [(t, c, r)]) mk b' \<and>
    mem_board b' = mem_board b \<and> mem_pieces b' = mem_pieces b"
proof -
  let ?p = "made load s fresh (t, c, r)"
  let ?b = "b\<lparr>heap := heap b @ [?p], squares := (squares b)[nat (r * 8 + c) := Some (length (heap b))]\<rparr>"
  have i: "0 \<le> c + r * 8" "nat (r * 8 + c) < 64" using assms(2) by (auto simp: on_sq_def)
  have "createPiece load s fresh t c r b = Some ?b"
    using i assms(1)
    by (simp add: createPiece_def set_square_def get_position_def placed_def made_def Let_def
        getScreenX_def getScreenY_def add.commute)
  moreover have "placed (ds @ [(t, c, r)]) mk ?b"
    unfolding placed_def
  proof (intro conjI allI impI)
    fix k assume k: "k < length (ds @ [(t, c, r)])"
    show "heap ?b ! k = mk k ((ds @ [(t, c, r)]) ! k)"
      using k assms(1,4) by (auto simp: placed_def nth_append less_Suc_eq)
    show "squares ?b ! pos_of ((ds @ [(t, c, r)]) ! k) = Some k"
    proof (cases "k < length ds")
      case True
      then have "pos_of (ds ! k) \<noteq> nat (r * 8 + c)"
        using assms(3) by (auto simp: pos_of_def split: prod.splits)
          (metis (mono_tags, lifting) case_prod_conv image_eqI nth_mem pos_of_def)
      then show ?thesis using True assms(1) by (simp add: placed_def nth_append)
    next
      case False
      then show ?thesis using k i assms(1) by (simp add: placed_def pos_of_def nth_append less_Suc_eq)
    qed
  next
    fix j assume "j < 64" "j \<notin> pos_of ` set (ds @ [(t, c, r)])"
    then show "squares ?b ! j = None" using assms(1) by (auto simp: placed_def pos_of_def)
  qed (use assms(1) in \<open>simp_all add: placed_def\<close>)
  ultimately show ?thesis by simp
qed

lemma initial_facts:
  "distinct (map pos_of initial_pieces)" "length initial_pieces = 32"
  "\<forall>(t, c, r)\<in>set initial_pieces. on_sq c r"
  by (simp_all add: initial_pieces_def pos_of_def on_sq_def)

lemma createPieces_placed:
  assumes "mem_board b = mb" and "mem_pieces b = mp" and "squares b = replicate 64 None" and "heap b = []"
  shows "\<exists>b'. foldM (\<lambda>(t, c, r) b. createPiece load s (fresh (length (heap b))) t c r b) initial_pieces b = Some b' \<and>
    placed initial_pieces (\<lambda>k. made load s (fresh k)) b' \<and> mem_board b' = mb \<and> mem_pieces b' = mp"
proof -
  let ?mk = "\<lambda>k. made load s (fresh k)"
  let ?I = "\<lambda>ds b'. placed ds ?mk b' \<and> mem_board b' = mb \<and> mem_pieces b' = mp"
  let ?f = "\<lambda>(t, c, r) b. createPiece load s (fresh (length (heap b))) t c r b"
  show "\<exists>b'. foldM ?f initial_pieces b = Some b' \<and> ?I initial_pieces b'"
  proof (rule foldM_invariant)
    show "?I [] b" using assms by (simp add: placed_def)
  next
    fix ds tcr rest t
    assume e: "initial_pieces = ds @ tcr # rest" and I: "?I ds t"
    obtain ty c r where tcr: "tcr = (ty, c, r)" by (metis prod_cases3)
    have "tcr \<in> set initial_pieces" unfolding e by simp
    from bspec [OF initial_facts(3) this] have o: "on_sq c r" by (simp add: tcr)
    have n: "pos_of (ty, c, r) \<notin> pos_of ` set ds" using initial_facts(1) unfolding e tcr by auto
    have "length (heap t) = length ds" using I by (simp add: placed_def)
    with createPiece_placed [OF conjunct1 [OF I] o n] I
    show "\<exists>t'. ?f tcr t = Some t' \<and> ?I (ds @ [tcr]) t'"
      by (auto simp: tcr)
  qed
qed

lemma initBoard_placed:
  assumes V: "video_115 V mapped"
  shows "\<exists>s' w' b'. initBoard V mapped load fresh s w b = Some (s', w', b') \<and> squares_115 s' \<and>
    placed initial_pieces (\<lambda>k. made load s' (fresh k)) b' \<and>
    mem_board b' = replicate 1440000 0 \<and> mem_pieces b' = replicate 1440000 0 \<and> redrawPieces b'"
proof -
  obtain m2 s1 w1 where 2: "map_page V mapped 2 0x115 s w = Some (m2, s1, w1)" "mode_115 s1"
    "length m2 = 1440000"
    using map_page_115 [OF V] by blast
  obtain m3 s2 w2 where 3: "map_page V mapped 3 0x115 s1 w1 = Some (m3, s2, w2)" "mode_115 s2"
    "length m3 = 1440000"
    using map_page_115 [OF V] by blast
  let ?z = "replicate 1440000 0 :: mem"
  have c: "vg_clear s1 m2 = Some ?z" "vg_clear s2 m3 = Some ?z"
    using vg_clear_wf(1) [of s1 m2] vg_clear_wf(1) [of s2 m3] 2 3 by (simp_all add: mode_115_wf)
  let ?s = "set_geometry s2"
  let ?mk = "\<lambda>k. made load ?s (fresh k)"
  let ?b = "b\<lparr>mem_board := ?z, mem_pieces := ?z, squares := replicate 64 None, heap := []\<rparr>"
  let ?f = "\<lambda>(t, c, r) b. createPiece load ?s (fresh (length (heap b))) t c r b"
  obtain b' where I: "placed initial_pieces ?mk b' \<and> mem_board b' = ?z \<and> mem_pieces b' = ?z"
    and "foldM ?f initial_pieces ?b = Some b'"
    using createPieces_placed [of ?b ?z ?z load ?s fresh] by auto
  then have "initBoard V mapped load fresh s w b = Some (?s, w2, b'\<lparr>redrawPieces := True\<rparr>)"
    by (simp add: initBoard_def 2(1) 3(1) c)
  moreover have "squares_115 ?s" by (rule set_geometry_115 [OF 3(2)])
  moreover have "placed initial_pieces ?mk (b'\<lparr>redrawPieces := True\<rparr>)"
    using I by (simp add: placed_def)
  ultimately show ?thesis using I by (intro exI conjI) auto
qed


text \<open>The starting position, by rank and file as the game numbers them.\<close>

definition start_type :: "int \<Rightarrow> int \<Rightarrow> PieceType option" where
  "start_type c r =
     (if r = 0 then Some ([b_rook, b_knight, b_bishop, b_queen, b_king, b_bishop, b_knight, b_rook] ! nat c)
      else if r = 1 then Some b_pawn
      else if r = 6 then Some w_pawn
      else if r = 7 then Some ([w_rook, w_knight, w_bishop, w_queen, w_king, w_bishop, w_knight, w_rook] ! nat c)
      else None)"

lemma start_type_initial: "(t, c, r) \<in> set initial_pieces \<Longrightarrow> start_type c r = Some t"
  by (auto simp: initial_pieces_def start_type_def)

lemma initial_start_type:
  assumes "on_sq c r" and "start_type c r = Some t"
  shows "(t, c, r) \<in> set initial_pieces"
proof -
  have "c = 0 \<or> c = 1 \<or> c = 2 \<or> c = 3 \<or> c = 4 \<or> c = 5 \<or> c = 6 \<or> c = 7"
    using assms(1) by (auto simp: on_sq_def)
  moreover have "r = 0 \<or> r = 1 \<or> r = 6 \<or> r = 7"
    using assms(2) by (auto simp: start_type_def split: if_splits)
  ultimately show ?thesis
    using assms(2) by (elim disjE; simp add: start_type_def initial_pieces_def)
qed

lemma pos_of_inj:
  assumes "on_sq c r" and "on_sq c' r'" and "pos_of (t, c, r) = pos_of (t', c', r')"
  shows "c = c' \<and> r = r'"
proof -
  have "r * 8 + c = r' * 8 + c'"
    using assms by (simp add: pos_of_def on_sq_def eq_nat_nat_iff)
  moreover have "(r * 8 + c) div 8 = r" "(r' * 8 + c') div 8 = r'"
    using assms(1,2) by (simp_all add: on_sq_def)
  ultimately show ?thesis by simp
qed

lemma placed_piece_at:
  assumes p: "placed initial_pieces mk b" and o: "on_sq c r"
  shows "case start_type c r of
      None \<Rightarrow> piece_at b c r = None
    | Some t \<Rightarrow> \<exists>k. piece_at b c r = Some (mk k (t, c, r))"
proof (cases "start_type c r")
  case None
  have "nat (r * 8 + c) < 64" using o by (auto simp: on_sq_def)
  moreover have "nat (r * 8 + c) \<notin> pos_of ` set initial_pieces"
  proof
    assume "nat (r * 8 + c) \<in> pos_of ` set initial_pieces"
    then obtain t c' r' where i: "(t, c', r') \<in> set initial_pieces" "nat (r * 8 + c) = pos_of (t, c', r')"
      by (metis imageE prod_cases3)
    then have "c = c' \<and> r = r'"
      using pos_of_inj [OF o, of c' r' t t] bspec [OF initial_facts(3) i(1)] by (simp add: pos_of_def)
    then show False using start_type_initial [OF i(1)] None by simp
  qed
  ultimately show ?thesis using None p by (simp add: piece_at_def placed_def)
next
  case (Some t)
  then obtain k where "k < length initial_pieces" "initial_pieces ! k = (t, c, r)"
    using initial_start_type [OF o] by (metis in_set_conv_nth)
  with p have "squares b ! nat (r * 8 + c) = Some k" "heap b ! k = mk k (t, c, r)"
    unfolding placed_def by (metis pos_of_def case_prod_conv)+
  then show ?thesis using Some by (auto simp: piece_at_def)
qed

lemma placed_board_ok:
  assumes p: "placed initial_pieces mk b"
  shows "board_ok b"
  unfolding board_ok_def
proof (intro conjI allI impI)
  show "length (squares b) = 64" using p by (simp add: placed_def)
  fix ref assume "Some ref \<in> set (squares b)"
  then obtain i where i: "i < 64" "squares b ! i = Some ref"
    using p by (metis in_set_conv_nth placed_def)
  then have "i \<in> pos_of ` set initial_pieces" using p unfolding placed_def by force
  then obtain k where "k < length initial_pieces" "i = pos_of (initial_pieces ! k)"
    by (metis imageE in_set_conv_nth)
  with p i show "ref < length (heap b)" unfolding placed_def by (metis option.inject)
qed

section \<open>Properties\<close>

text \<open>C11: initBoard sets up a game of chess. With a video card that provides mode 0x115 it returns,
  the squares have side 59 with the board at (65, 64), every reference leads to a piece,
  and each square holds exactly the piece of the starting position, at rest, drawn at the
  corner of its square, without priority, the pawns not yet moved; both layers are
  cleared and a redraw is due.\<close>
theorem initBoard_starting_position:
  assumes "video_115 V mapped"
  shows "\<exists>s' w' b'. initBoard V mapped load fresh s w b = Some (s', w', b') \<and>
    squares_115 s' \<and> board_ok b' \<and> redrawPieces b' \<and>
    fb_wf s' (mem_board b') \<and> fb_wf s' (mem_pieces b') \<and>
    (\<forall>c r. on_sq c r \<longrightarrow>
      (case start_type c r of
         None \<Rightarrow> piece_at b' c r = None
       | Some t \<Rightarrow> \<exists>p. piece_at b' c r = Some p \<and> ptype p = t \<and> \<not> is_moving p \<and> \<not> priority_draw p \<and>
           uint (absolute_x p) = 59 * c + 65 \<and> uint (absolute_y p) = 59 * r + 64 \<and>
           (is_pawn t \<longrightarrow> \<not> pawn_moved p)))"
proof -
  obtain s' w' b' where i: "initBoard V mapped load fresh s w b = Some (s', w', b')"
    and s: "squares_115 s'" and p: "placed initial_pieces (\<lambda>k. made load s' (fresh k)) b'"
    and m: "mem_board b' = replicate 1440000 0" "mem_pieces b' = replicate 1440000 0" "redrawPieces b'"
    using initBoard_placed [OF assms] by blast
  have "case start_type c r of
         None \<Rightarrow> piece_at b' c r = None
       | Some t \<Rightarrow> \<exists>p. piece_at b' c r = Some p \<and> ptype p = t \<and> \<not> is_moving p \<and> \<not> priority_draw p \<and>
           uint (absolute_x p) = 59 * c + 65 \<and> uint (absolute_y p) = 59 * r + 64 \<and>
           (is_pawn t \<longrightarrow> \<not> pawn_moved p)" if o: "on_sq c r" for c r
  proof (cases "start_type c r")
    case None
    then show ?thesis using placed_piece_at [OF p o] by simp
  next
    case (Some t)
    obtain k where k: "piece_at b' c r = Some (made load s' (fresh k) (t, c, r))"
      using placed_piece_at [OF p o] Some by auto
    have "uint (u16_of (getScreenX s' c)) = 59 * c + 65" "uint (u16_of (getScreenY s' r)) = 59 * r + 64"
      using o s by (simp_all add: square_corner on_sq_def)
    then show ?thesis using Some k by (simp add: made_def initPiece_def Let_def is_pawn_def)
  qed
  with i s m placed_board_ok [OF p] show ?thesis
    by (auto simp: mode_115_wf [OF squares_115D(1) [OF s]])
qed

definition sample_video :: "unit video_kernel" where
  "sample_video = \<lparr>
     vbe_get_mode_info = \<lambda>_ w. (0, \<lparr>XResolution = 800, YResolution = 600, BitsPerPixel = 24,
        PhysBasePtr = 0xE0000000\<rparr>, w),
     sys_privctl = \<lambda>_ w. (0, w), vm_map_phys = \<lambda>_ _ w. (True, w), sys_int86 = \<lambda>_ w. (0, w)\<rparr>"

lemma sample_video: "video_115 sample_video (\<lambda>_. replicate 1440000 0)"
  by (simp add: video_115_def sample_video_def)

theorem initBoard_starting_position_witness:
  "\<exists>s' w' b' p. initBoard sample_video (\<lambda>_. replicate 1440000 0) (\<lambda>_. None) (\<lambda>_. sample_piece)
      screen_115 () blank_board = Some (s', w', b') \<and>
    piece_at b' 4 0 = Some p \<and> ptype p = b_king \<and> uint (absolute_x p) = 301 \<and>
    piece_at b' 4 4 = None"
proof -
  obtain s' w' b' where i: "initBoard sample_video (\<lambda>_. replicate 1440000 0) (\<lambda>_. None)
      (\<lambda>_. sample_piece) screen_115 () blank_board = Some (s', w', b')"
    and g: "\<forall>c r. on_sq c r \<longrightarrow>
      (case start_type c r of
         None \<Rightarrow> piece_at b' c r = None
       | Some t \<Rightarrow> \<exists>p. piece_at b' c r = Some p \<and> ptype p = t \<and> \<not> is_moving p \<and> \<not> priority_draw p \<and>
           uint (absolute_x p) = 59 * c + 65 \<and> uint (absolute_y p) = 59 * r + 64 \<and>
           (is_pawn t \<longrightarrow> \<not> pawn_moved p))"
    using initBoard_starting_position [OF sample_video] by blast
  have o: "on_sq 4 0" "on_sq 4 4" by (simp_all add: on_sq_def)
  from g [rule_format, OF o(1)] g [rule_format, OF o(2)] i show ?thesis
    by (auto simp: start_type_def)
qed

end
