(* ===== verification/Timer.thy ===== *)
theory Timer
  imports Kernel
begin

text \<open>
  \<open>proj/src/timer.c\<close> and the interrupt constants it uses. The counter is an \<open>int\<close> that
  the handler increments; the target wraps it.
\<close>

definition IRQ_REENABLE :: u32 where "IRQ_REENABLE = 0x001"
definition IRQ_EXCLUSIVE :: u32 where "IRQ_EXCLUSIVE = 0x002"

definition TIMER0_IRQ :: nat where "TIMER0_IRQ = 0"

record TimerState =
  t_hook_id :: int
  n_interrupts :: int

definition compare_bits :: "u32 \<Rightarrow> u32 \<Rightarrow> bool" where
  "compare_bits val active_bits \<longleftrightarrow> val AND active_bits = active_bits"

text \<open>
  Subscribing returns \<open>OK\<close> whatever the kernel answers; the pair is the return value and
  the bit number stored through the pointer.
\<close>

definition timer_subscribe_int ::
  "'w kernel \<Rightarrow> TimerState \<Rightarrow> 'w \<Rightarrow> (int \<times> u8) \<times> TimerState \<times> 'w" where
  "timer_subscribe_int K t w =
     (let bit_no = of_nat TIMER0_IRQ; hook = int TIMER0_IRQ
      in case sys_irqsetpolicy K TIMER0_IRQ IRQ_REENABLE hook w of
           (r, hook', w') \<Rightarrow> ((0, bit_no), t\<lparr>t_hook_id := hook'\<rparr>, w'))"

definition timer_unsubscribe_int :: "'w kernel \<Rightarrow> TimerState \<Rightarrow> 'w \<Rightarrow> int \<times> 'w" where
  "timer_unsubscribe_int K t w = sys_irqrmpolicy K (t_hook_id t) w"

definition timer_int_handler :: "TimerState \<Rightarrow> TimerState" where
  "timer_int_handler t = t\<lparr>n_interrupts := i32_of (u32_of (n_interrupts t) + 1)\<rparr>"

lemma compare_bits_iff:
  "compare_bits v m \<longleftrightarrow> (\<forall>n < 32. bit m n \<longrightarrow> bit v n)"
proof
  assume "compare_bits v m"
  then have "bit (v AND m) n = bit m n" for n by (simp add: compare_bits_def)
  then show "\<forall>n < 32. bit m n \<longrightarrow> bit v n" by (auto simp: bit_and_iff)
next
  assume "\<forall>n < 32. bit m n \<longrightarrow> bit v n"
  then have "v AND m = m" by (intro bit_word_eqI) (auto simp: bit_and_iff)
  then show "compare_bits v m" by (simp add: compare_bits_def)
qed

end
