(* ===== verification/Keyboard.thy ===== *)
theory Keyboard
  imports Timer
begin

text \<open>
  \<open>proj/src/keyboard.c\<close>: the keyboard interrupt. The status register of the keyboard
  controller decides whether the output buffer holds a scan code.
\<close>

section \<open>Controller registers and status bits (keyboard.h)\<close>

definition STAT_REG :: nat where "STAT_REG = 0x64"
definition OUT_BUF :: nat where "OUT_BUF = 0x60"
definition TWO_BYTES :: u8 where "TWO_BYTES = 0xe0"
definition KB_IRQ :: int where "KB_IRQ = 0x01"
definition KEYBOARD_IRQ :: nat where "KEYBOARD_IRQ = 1"
definition OBF_FULL :: u8 where "OBF_FULL = BIT 0"
definition PAR_ERR :: u8 where "PAR_ERR = BIT 7"
definition TIMEOUT_ERR :: u8 where "TIMEOUT_ERR = BIT 6"
definition AUX :: u8 where "AUX = BIT 5"

lemmas status_bits = OBF_FULL_def PAR_ERR_def TIMEOUT_ERR_def AUX_def BIT_def

section \<open>The driver\<close>

record KeyboardState =
  kb_hook_id :: int
  readKey :: bool
  scancode :: u8

definition keyboard_init :: KeyboardState where
  "keyboard_init = \<lparr>kb_hook_id = KB_IRQ, readKey = False, scancode = 0\<rparr>"

definition keyboard_subscribe_int ::
  "'w kernel \<Rightarrow> KeyboardState \<Rightarrow> 'w \<Rightarrow> (int \<times> u8) \<times> KeyboardState \<times> 'w" where
  "keyboard_subscribe_int K kb w =
     (let bit_no = word_of_int (kb_hook_id kb)
      in case sys_irqsetpolicy K KEYBOARD_IRQ (IRQ_REENABLE OR IRQ_EXCLUSIVE) (kb_hook_id kb) w of
           (r, hook', w') \<Rightarrow> ((r, bit_no), kb\<lparr>kb_hook_id := hook'\<rparr>, w'))"

definition keyboard_unsubscribe_int :: "'w kernel \<Rightarrow> KeyboardState \<Rightarrow> 'w \<Rightarrow> int \<times> 'w" where
  "keyboard_unsubscribe_int K kb w = sys_irqrmpolicy K (kb_hook_id kb) w"

text \<open>
  The local \<open>kbc_state\<close> is only read after a successful call, so its initial value does
  not matter. A failed read of the output buffer leaves the global \<open>scancode\<close> alone.
\<close>

definition keyboard_int_handler ::
  "'w kernel \<Rightarrow> KeyboardState \<Rightarrow> 'w \<Rightarrow> int \<times> KeyboardState \<times> 'w" where
  "keyboard_int_handler K kb w =
     (let kb0 = kb\<lparr>readKey := False\<rparr>
      in case util_sys_inb K STAT_REG 0 w of
           (r, kbc_state, w1) \<Rightarrow>
             if r \<noteq> 0 then (r, kb0, w1)
             else if has kbc_state OBF_FULL \<and>
                     \<not> has kbc_state (PAR_ERR OR TIMEOUT_ERR OR AUX) then
               (case util_sys_inb K OUT_BUF (scancode kb0) w1 of
                  (r, code, w2) \<Rightarrow>
                    if r \<noteq> 0 then (r, kb0\<lparr>scancode := code\<rparr>, w2)
                    else (0, kb0\<lparr>scancode := code, readKey := True\<rparr>, w2))
             else (1, kb0, w1))"

section \<open>Properties\<close>

text \<open>When the port reads succeed, the keyboard interrupt reports a key exactly when the
  controller says its output buffer is full and no parity error, timeout or mouse data is
  flagged; then the scan code is the low byte of the output buffer. In every other case
  the output buffer is not read at all, the last scan code is kept and the handler
  returns 1.\<close>
lemma keyboard_int_handler_spec:
  assumes "sys_inb K STAT_REG w = (0, st, w1)" and "sys_inb K OUT_BUF w1 = (0, v, w2)"
  shows "keyboard_int_handler K kb w =
     (if bit st 0 \<and> \<not> bit st 5 \<and> \<not> bit st 6 \<and> \<not> bit st 7
      then (0, kb\<lparr>readKey := True, scancode := ucast v\<rparr>, w2)
      else (1, kb\<lparr>readKey := False\<rparr>, w1))"
proof -
  have b: "bit (ucast st :: u8) n \<longleftrightarrow> n < 8 \<and> bit st n" for n
    by (auto simp: bit_simps)
  show ?thesis
    using assms
    by (simp add: keyboard_int_handler_def util_sys_inb_def Let_def has_OR has_BIT b
        OBF_FULL_def PAR_ERR_def TIMEOUT_ERR_def AUX_def)
qed

text \<open>A kernel whose ports answer from a fixed table, for concrete runs.\<close>

definition table_kernel :: "(nat \<Rightarrow> u32) \<Rightarrow> unit kernel" where
  "table_kernel f =
     \<lparr>sys_inb = (\<lambda>port w. (0, f port, w)), sys_outb = (\<lambda>port v w. (0, w)),
      tickdelay = (\<lambda>us w. w), sys_irqsetpolicy = (\<lambda>irq p h w. (0, h, w)),
      sys_irqrmpolicy = (\<lambda>h w. (0, w))\<rparr>"

lemma keyboard_int_handler_spec_example:
  "keyboard_int_handler (table_kernel (\<lambda>p. if p = 0x64 then 0x1D else 0x9E)) keyboard_init () =
     (0, keyboard_init\<lparr>readKey := True, scancode := 0x9E\<rparr>, ())"
  by (subst keyboard_int_handler_spec [where st = "0x1D" and v = "0x9E" and ?w1.0 = "()" and ?w2.0 = "()"])
    (simp_all add: table_kernel_def STAT_REG_def OUT_BUF_def)

end
