(* ===== verification/Mouse.thy ===== *)
theory Mouse
  imports Keyboard
begin

text \<open>
  \<open>proj/src/mouse.c\<close>: assembling three-byte PS/2 packets in the interrupt handler, and
  the command exchange with the keyboard controller. The packet index is the global
  \<open>i\<close>; storing outside the three bytes of \<open>pp.bytes\<close> is undefined behaviour and has no
  successor state (\<open>None\<close>).
\<close>

section \<open>Registers, masks, packets (mouse.h)\<close>

definition MOUSE_IRQ_LINE :: nat where "MOUSE_IRQ_LINE = 12"
definition IN_BUF :: nat where "IN_BUF = 0x60"
definition CTRL_REG :: nat where "CTRL_REG = 0x64"
definition IBF_FULL :: u8 where "IBF_FULL = BIT 1"
definition FIRST_BYTE :: u8 where "FIRST_BYTE = BIT 3"
definition LEFT_BUTTON :: u8 where "LEFT_BUTTON = BIT 0"
definition MIDDLE_BUTTON :: u8 where "MIDDLE_BUTTON = BIT 2"
definition RIGHT_BUTTON :: u8 where "RIGHT_BUTTON = BIT 1"
definition X_SIGN :: u8 where "X_SIGN = BIT 4"
definition Y_SIGN :: u8 where "Y_SIGN = BIT 5"
definition X_OVFL :: u8 where "X_OVFL = BIT 6"
definition Y_OVFL :: u8 where "Y_OVFL = BIT 7"
definition SIGN_EXTENSION :: u16 where "SIGN_EXTENSION = 0xFF00"
definition BYTE_TO_MOUSE :: u8 where "BYTE_TO_MOUSE = 0xD4"
definition DIS_DATA_REPORTING :: u8 where "DIS_DATA_REPORTING = 0xF5"

lemmas packet_masks =
  FIRST_BYTE_def LEFT_BUTTON_def MIDDLE_BUTTON_def RIGHT_BUTTON_def X_SIGN_def Y_SIGN_def
  X_OVFL_def Y_OVFL_def

text \<open>The displacements are \<open>int16_t\<close>: 16-bit words read with \<^const>\<open>sint\<close>.\<close>

record packet =
  bytes :: "u8 list"
  rb :: bool
  mb :: bool
  lb :: bool
  delta_x :: u16
  delta_y :: u16
  x_ov :: bool
  y_ov :: bool

record MouseState =
  mouse_hook_id :: int
  pp :: packet
  updateMouse :: bool
  idx :: int
  valid_packet :: bool

definition mouse_init :: MouseState where
  "mouse_init =
     \<lparr>mouse_hook_id = int MOUSE_IRQ_LINE,
      pp = \<lparr>bytes = [0, 0, 0], rb = False, mb = False, lb = False, delta_x = 0, delta_y = 0,
            x_ov = False, y_ov = False\<rparr>,
      updateMouse = False, idx = 0, valid_packet = True\<rparr>"

definition mouse_subscribe_int ::
  "'w kernel \<Rightarrow> MouseState \<Rightarrow> 'w \<Rightarrow> (int \<times> u8) \<times> MouseState \<times> 'w" where
  "mouse_subscribe_int K m w =
     (let bit_no = word_of_int (mouse_hook_id m)
      in case sys_irqsetpolicy K MOUSE_IRQ_LINE (IRQ_REENABLE OR IRQ_EXCLUSIVE) (mouse_hook_id m) w of
           (r, hook', w') \<Rightarrow> ((r, bit_no), m\<lparr>mouse_hook_id := hook'\<rparr>, w'))"

definition mouse_unsubscribe_int :: "'w kernel \<Rightarrow> MouseState \<Rightarrow> 'w \<Rightarrow> int \<times> 'w" where
  "mouse_unsubscribe_int K m w = sys_irqrmpolicy K (mouse_hook_id m) w"

section \<open>The interrupt handler\<close>

text \<open>\<open>pp.bytes[i]=byte\<close>.\<close>

definition store_byte :: "u8 \<Rightarrow> MouseState \<Rightarrow> MouseState option" where
  "store_byte byte m =
     (if 0 \<le> idx m \<and> idx m < int (length (bytes (pp m)))
      then Some (m\<lparr>pp := (pp m)\<lparr>bytes := (bytes (pp m))[nat (idx m) := byte]\<rparr>\<rparr>)
      else None)"

text \<open>The fields of a full packet.\<close>

definition decode_packet :: "packet \<Rightarrow> packet" where
  "decode_packet p =
     (let b0 = bytes p ! 0;
          dx = ucast (bytes p ! 1) :: u16; dy = ucast (bytes p ! 2) :: u16;
          dx' = (if has b0 X_SIGN then dx OR SIGN_EXTENSION else dx);
          dy' = (if has b0 Y_SIGN then dy OR SIGN_EXTENSION else dy)
      in p\<lparr>lb := has b0 LEFT_BUTTON, mb := has b0 MIDDLE_BUTTON, rb := has b0 RIGHT_BUTTON,
           x_ov := has b0 X_OVFL, y_ov := has b0 Y_OVFL, delta_x := dx', delta_y := dy'\<rparr>)"

text \<open>The handler once the byte has been read (the body of the outer \<open>if\<close>).\<close>

definition mouse_byte :: "u8 \<Rightarrow> u8 \<Rightarrow> MouseState \<Rightarrow> MouseState option" where
  "mouse_byte status byte m =
     (if \<not> has status (TIMEOUT_ERR OR PAR_ERR) then
        do {
          m1 \<leftarrow> (if idx m = 0 \<and> \<not> has byte FIRST_BYTE then Some (m\<lparr>idx := idx m - 1\<rparr>)
                 else store_byte byte m);
          let m2 =
            (if idx m1 = 2 then
               if \<not> valid_packet m1 then m1\<lparr>valid_packet := True\<rparr>
               else m1\<lparr>pp := decode_packet (pp m1), idx := -1, updateMouse := True\<rparr>
             else m1);
          Some (m2\<lparr>idx := idx m2 + 1\<rparr>)
        }
      else Some (m\<lparr>valid_packet := False, idx := idx m + 1\<rparr>))"

text \<open>
  \<open>st\<close> and \<open>by\<close> are the initial values of the uninitialised locals \<open>status\<close> and \<open>byte\<close>,
  which the code uses when a port read fails.
\<close>

definition mouse_ih ::
  "'w kernel \<Rightarrow> u8 \<Rightarrow> u8 \<Rightarrow> MouseState \<Rightarrow> 'w \<Rightarrow> (MouseState \<times> 'w) option" where
  "mouse_ih K st by m w =
     (case util_sys_inb K STAT_REG st w of
        (r, status, w1) \<Rightarrow>
          if has status AUX \<and> has status OBF_FULL then
            (case util_sys_inb K OUT_BUF by w1 of
               (r, byte, w2) \<Rightarrow> map_option (\<lambda>m'. (m', w2)) (mouse_byte status byte m))
          else Some (m, w1))"

section \<open>Commands to the controller\<close>

text \<open>
  The loops test a counter that their bodies never change, so they are modelled as
  loops that may not return. \<open>st\<close> is again the uninitialised \<open>status\<close>.
\<close>

definition wait_ticks :: "nat" where "wait_ticks = 25000"

partial_function (option) write_kbc_command ::
  "'w kernel \<Rightarrow> u8 \<Rightarrow> u8 \<Rightarrow> int \<Rightarrow> 'w \<Rightarrow> (int \<times> 'w) option" where
  "write_kbc_command K st command counter w =
     (if counter > 0 then
        (case util_sys_inb K STAT_REG st w of
           (r, status, w1) \<Rightarrow>
             if \<not> has status IBF_FULL then Some (sys_outb K CTRL_REG (ucast command) w1)
             else write_kbc_command K st command counter (tickdelay K wait_ticks w1))
      else Some (-1, w))"

partial_function (option) read_kbc_return ::
  "'w kernel \<Rightarrow> u8 \<Rightarrow> u8 \<Rightarrow> int \<Rightarrow> 'w \<Rightarrow> ((int \<times> u8) \<times> 'w) option" where
  "read_kbc_return K st ret counter w =
     (if counter > 0 then
        (case util_sys_inb K STAT_REG st w of
           (r, status, w1) \<Rightarrow>
             if has status OBF_FULL then
               (case util_sys_inb K OUT_BUF ret w1 of (r, v, w2) \<Rightarrow> Some ((r, v), w2))
             else read_kbc_return K st ret counter (tickdelay K wait_ticks w1))
      else Some ((-1, ret), w))"

partial_function (option) write_kbc_arg ::
  "'w kernel \<Rightarrow> u8 \<Rightarrow> u8 \<Rightarrow> int \<Rightarrow> 'w \<Rightarrow> (int \<times> 'w) option" where
  "write_kbc_arg K st arg counter w =
     (if counter > 0 then
        (case util_sys_inb K STAT_REG st w of
           (r, status, w1) \<Rightarrow>
             if \<not> has status IBF_FULL then Some (sys_outb K IN_BUF (ucast arg) w1)
             else write_kbc_arg K st arg counter (tickdelay K wait_ticks w1))
      else Some (-1, w))"

definition mouse_disable_data_reporting ::
  "'w kernel \<Rightarrow> u8 \<Rightarrow> u8 \<Rightarrow> 'w \<Rightarrow> (int \<times> 'w) option" where
  "mouse_disable_data_reporting K st ret w =
     do {
       (r1, w1) \<leftarrow> write_kbc_command K st BYTE_TO_MOUSE 3 w;
       (r2, w2) \<leftarrow> write_kbc_arg K st DIS_DATA_REPORTING 3 w1;
       ((r3, ret'), w3) \<leftarrow> read_kbc_return K st ret 3 w2;
       Some (if ret' = 0xFA then 0 else -1, w3)
     }"

section \<open>Assembling packets\<close>

text \<open>A run of bytes, each with the status the controller shows for it.\<close>

primrec mouse_run :: "(u8 \<times> u8) list \<Rightarrow> MouseState \<Rightarrow> MouseState option" where
  "mouse_run [] m = Some m"
| "mouse_run (b # bs) m =
     (case mouse_byte (fst b) (snd b) m of None \<Rightarrow> None | Some m' \<Rightarrow> mouse_run bs m')"

definition error_free :: "u8 \<Rightarrow> bool" where
  "error_free status \<longleftrightarrow> \<not> has status (TIMEOUT_ERR OR PAR_ERR)"

text \<open>In step with the device: within a packet, nothing lost so far.\<close>

definition in_step :: "MouseState \<Rightarrow> bool" where
  "in_step m \<longleftrightarrow> length (bytes (pp m)) = 3 \<and> idx m \<in> {0, 1, 2} \<and> valid_packet m"

lemma in_step_init: "in_step mouse_init"
  by (simp add: in_step_def mouse_init_def)

lemma in_step_byte:
  assumes "in_step m" and "error_free status"
  shows "\<exists>m'. mouse_byte status byte m = Some m' \<and> in_step m'"
  using assms
  by (auto simp: in_step_def mouse_byte_def error_free_def store_byte_def decode_packet_def Let_def)

lemma in_step_run:
  "in_step m \<Longrightarrow> \<forall>b\<in>set bs. error_free (fst b) \<Longrightarrow> \<exists>m'. mouse_run bs m = Some m' \<and> in_step m'"
proof (induction bs arbitrary: m)
  case (Cons b bs)
  then obtain m' where "mouse_byte (fst b) (snd b) m = Some m'" and "in_step m'"
    using in_step_byte [of m "fst b" "snd b"] by auto
  with Cons show ?case by simp
qed simp

text \<open>After an error nothing can be completed any more.\<close>

definition lost :: "MouseState \<Rightarrow> bool" where
  "lost m \<longleftrightarrow> length (bytes (pp m)) = 3 \<and>
     (\<not> valid_packet m \<and> idx m \<in> {1, 2} \<or> 3 \<le> idx m)"

lemma lost_byte:
  assumes "lost m" and "mouse_byte status byte m = Some m'"
  shows "lost m'" "updateMouse m' = updateMouse m"
  using assms
  by (auto simp: lost_def mouse_byte_def store_byte_def Let_def split: if_splits)

lemma lost_run:
  "lost m \<Longrightarrow> mouse_run bs m = Some m' \<Longrightarrow> lost m' \<and> updateMouse m' = updateMouse m"
proof (induction bs arbitrary: m)
  case (Cons b bs)
  then obtain m1 where m1: "mouse_byte (fst b) (snd b) m = Some m1" and "mouse_run bs m1 = Some m'"
    by (auto split: option.splits)
  with Cons.IH [of m1] lost_byte [OF Cons.prems(1) m1] show ?case by simp
qed simp

lemma in_step_error:
  assumes "in_step m" and "\<not> error_free status"
  shows "\<exists>m'. mouse_byte status byte m = Some m' \<and> lost m' \<and> updateMouse m' = updateMouse m"
  using assms by (auto simp: in_step_def mouse_byte_def error_free_def lost_def)

lemma lost_three_bytes:
  assumes "lost m" and "error_free s1" and "error_free s2" and "error_free s3"
  shows "mouse_run [(s1, b1), (s2, b2), (s3, b3)] m = None"
  using assms
  by (auto simp: lost_def mouse_byte_def error_free_def store_byte_def Let_def split: option.split)

text \<open>Sign extension of a nine-bit displacement.\<close>

lemma sint_extended: "sint ((ucast (b :: u8) :: u16) OR 0xFF00) = uint b - 256"
proof -
  have e: "(0xFF00 :: u16) = push_bit 8 (mask 8)" by (simp add: mask_eq_exp_minus_1)
  have "(ucast b :: u16) OR 0xFF00 = ucast b + 0xFF00"
    unfolding e by (rule disjunctive_add [symmetric]) (auto simp: bit_simps dest: bit_imp_le_length)
  also have "\<dots> = word_of_int (uint b) + word_of_int (- 256)"
    by simp
  finally have w: "(ucast b :: u16) OR 0xFF00 = word_of_int (uint b - 256)"
    by (simp del: word_of_int_uint)
  show ?thesis
    unfolding w using uint_u8 [of b] by (intro sint_u16_small) linarith+
qed

lemma sint_not_extended: "sint (ucast (b :: u8) :: u16) = uint b"
proof -
  have "(ucast b :: u16) = word_of_int (uint b)" by simp
  moreover have "sint (word_of_int (uint b) :: u16) = uint b"
    using uint_u8 [of b] by (intro sint_u16_small) linarith+
  ultimately show ?thesis by (simp only:)
qed

section \<open>Properties\<close>

text \<open>C13: From a packet boundary, three bytes read without a timeout or parity flag, the first
  with bit 3 set, complete a packet: it is reported once, the buttons and overflow flags
  are the bits of the first byte, and the displacements are the nine-bit two's
  complement numbers formed by the sign bits and the second and third byte. The driver is
  again at a packet boundary.\<close>
theorem mouse_decodes_packet:
  assumes "in_step m" and "idx m = 0" and "bit b0 3"
    and "error_free s0" and "error_free s1" and "error_free s2"
  shows "\<exists>m'. mouse_run [(s0, b0), (s1, b1), (s2, b2)] m = Some m' \<and>
     in_step m' \<and> idx m' = 0 \<and> updateMouse m' \<and>
     lb (pp m') = bit b0 0 \<and> rb (pp m') = bit b0 1 \<and> mb (pp m') = bit b0 2 \<and>
     x_ov (pp m') = bit b0 6 \<and> y_ov (pp m') = bit b0 7 \<and>
     sint (delta_x (pp m')) = uint b1 - (if bit b0 4 then 256 else 0) \<and>
     sint (delta_y (pp m')) = uint b2 - (if bit b0 5 then 256 else 0)"
proof -
  obtain x y z where b: "bytes (pp m) = [x, y, z]"
    using assms(1) by (auto simp: in_step_def numeral_eq_Suc length_Suc_conv)
  show ?thesis
    using assms
    by (simp add: mouse_byte_def store_byte_def decode_packet_def error_free_def in_step_def b
        packet_masks has_BIT SIGN_EXTENSION_def sint_extended sint_not_extended Let_def)
qed

theorem mouse_decodes_packet_witness:
  "\<exists>m'. mouse_run [(0x21, 0x19), (0x21, 0xFE), (0x21, 0x03)] mouse_init = Some m' \<and>
     updateMouse m' \<and> lb (pp m') \<and> sint (delta_x (pp m')) = -2 \<and> sint (delta_y (pp m')) = 3"
proof -
  have "error_free 0x21"
    by (simp add: error_free_def has_OR has_BIT TIMEOUT_ERR_def PAR_ERR_def)
  then have "\<exists>m'. mouse_run [(0x21, 0x19), (0x21, 0xFE), (0x21, 0x03)] mouse_init = Some m' \<and>
     in_step m' \<and> idx m' = 0 \<and> updateMouse m' \<and>
     lb (pp m') = bit (0x19 :: u8) 0 \<and> rb (pp m') = bit (0x19 :: u8) 1 \<and>
     mb (pp m') = bit (0x19 :: u8) 2 \<and>
     x_ov (pp m') = bit (0x19 :: u8) 6 \<and> y_ov (pp m') = bit (0x19 :: u8) 7 \<and>
     sint (delta_x (pp m')) = uint (0xFE :: u8) - (if bit (0x19 :: u8) 4 then 256 else 0) \<and>
     sint (delta_y (pp m')) = uint (0x03 :: u8) - (if bit (0x19 :: u8) 5 then 256 else 0)"
    by (intro mouse_decodes_packet in_step_init) (simp_all add: mouse_init_def)
  then show ?thesis by auto
qed

text \<open>C18: Error-free operation is safe and self-synchronising: from any in-step state, any run of
  bytes without error flags keeps the packet index inside the three-byte buffer and the
  driver in step, and at a packet boundary a byte without bit 3 is skipped without any
  effect.\<close>
theorem mouse_in_step_safe:
  assumes "in_step m" and "\<forall>b\<in>set bs. error_free (fst b)"
  shows "(\<exists>m'. mouse_run bs m = Some m' \<and> in_step m') \<and>
    (idx m = 0 \<longrightarrow> error_free s \<longrightarrow> \<not> bit b 3 \<longrightarrow> mouse_byte s b m = Some m)"
proof -
  have "mouse_byte s b m = Some m" if "idx m = 0" "error_free s" "\<not> bit b 3"
    using that by (simp add: mouse_byte_def error_free_def FIRST_BYTE_def has_BIT)
  with in_step_run [OF assms] show ?thesis by blast
qed

theorem mouse_in_step_safe_witness:
  "(\<exists>m'. mouse_run [(0x21, 0x00), (0x21, 0x08), (0x21, 0x01)] mouse_init = Some m' \<and> in_step m') \<and>
   mouse_byte 0x21 0 mouse_init = Some mouse_init"
proof -
  have e: "error_free 0x21"
    by (simp add: error_free_def has_OR has_BIT TIMEOUT_ERR_def PAR_ERR_def)
  have i: "idx mouse_init = 0" by (simp add: mouse_init_def)
  show ?thesis
    using mouse_in_step_safe [OF in_step_init,
        of "[(0x21, 0x00), (0x21, 0x08), (0x21, 0x01)]" "0x21" 0] e i
    by (simp del: mouse_run.simps)
qed

text \<open>One transmission error ruins the mouse driver for good. After an error byte no packet
  is ever reported again, whatever the device sends, and the third error-free byte after
  it at the latest is stored outside the three-byte buffer (undefined behaviour).\<close>
lemma mouse_error_never_recovers:
  assumes "in_step m" and "\<not> error_free s"
  shows "\<exists>m1. mouse_byte s b m = Some m1 \<and> updateMouse m1 = updateMouse m \<and>
    (\<forall>bs m2. mouse_run bs m1 = Some m2 \<longrightarrow> updateMouse m2 = updateMouse m) \<and>
    (error_free s1 \<and> error_free s2 \<and> error_free s3 \<longrightarrow>
       mouse_run [(s1, b1), (s2, b2), (s3, b3)] m1 = None)"
proof -
  obtain m1 where m1: "mouse_byte s b m = Some m1" "lost m1" "updateMouse m1 = updateMouse m"
    using in_step_error [OF assms] by blast
  with lost_run [OF m1(2)] lost_three_bytes [OF m1(2)] show ?thesis by metis
qed

lemma mouse_error_never_recovers_example:
  "mouse_run [(0xA1, 0x08), (0x21, 0x08), (0x21, 0x01), (0x21, 0x01)] mouse_init = None"
proof -
  have e: "error_free 0x21" and ne: "\<not> error_free 0xA1"
    by (simp_all add: error_free_def has_OR has_BIT TIMEOUT_ERR_def PAR_ERR_def)
  show ?thesis
    using mouse_error_never_recovers [OF in_step_init ne, where b = "0x08" and ?s1.0 = "0x21"
        and ?s2.0 = "0x21" and ?s3.0 = "0x21" and ?b1.0 = "0x08" and ?b2.0 = "0x01" and ?b3.0 = "0x01"] e
    by auto
qed

text \<open>The three attempts of write_kbc_command and write_kbc_arg are never counted down: while
  the controller keeps reporting a full input buffer, neither call returns, instead of
  giving up with -1.\<close>
lemma kbc_write_never_gives_up:
  assumes "\<And>w. fst (sys_inb K STAT_REG w) = 0 \<and> bit (fst (snd (sys_inb K STAT_REG w))) 1"
  shows "write_kbc_command K st command 3 w = None \<and> write_kbc_arg K st arg 3 w = None"
proof -
  have full: "\<exists>w'. util_sys_inb K STAT_REG st w = (0, ucast v, w') \<and> has (ucast v :: u8) IBF_FULL"
    if "sys_inb K STAT_REG w = (r, v, w1)" for w r v w1
    using assms [of w] that
    by (auto simp: util_sys_inb_def IBF_FULL_def has_BIT bit_simps)
  have busy: "\<exists>v w'. util_sys_inb K STAT_REG st w = (0, v, w') \<and> has v IBF_FULL" for w
    using full by (metis prod_cases3)
  have "write_kbc_command K st command 3 w \<noteq> Some r" for r
  proof
    assume ret: "write_kbc_command K st command 3 w = Some r"
    have "K = K \<and> st = st \<and> (0 :: int) < 3 \<longrightarrow> False"
    proof (rule write_kbc_command.raw_induct
        [where P = "\<lambda>K' st' cmd c w r. K' = K \<and> st' = st \<and> 0 < c \<longrightarrow> False", OF _ ret])
      fix f K' st' cmd c w r
      assume "\<And>K' st' cmd c w r. f K' st' cmd c w = Some r \<Longrightarrow> K' = K \<and> st' = st \<and> 0 < c \<longrightarrow> False"
        and "(if 0 < c then
          case util_sys_inb K' STAT_REG st' w of (r, status, w1) \<Rightarrow>
            if \<not> has status IBF_FULL then Some (sys_outb K' CTRL_REG (ucast cmd) w1)
            else f K' st' cmd c (tickdelay K' wait_ticks w1)
          else Some (- 1, w)) = Some r"
      with busy [of w] show "K' = K \<and> st' = st \<and> 0 < c \<longrightarrow> False" by fastforce
    qed
    then show False by simp
  qed
  moreover have "write_kbc_arg K st arg 3 w \<noteq> Some r" for r
  proof
    assume ret: "write_kbc_arg K st arg 3 w = Some r"
    have "K = K \<and> st = st \<and> (0 :: int) < 3 \<longrightarrow> False"
    proof (rule write_kbc_arg.raw_induct
        [where P = "\<lambda>K' st' cmd c w r. K' = K \<and> st' = st \<and> 0 < c \<longrightarrow> False", OF _ ret])
      fix f K' st' cmd c w r
      assume "\<And>K' st' cmd c w r. f K' st' cmd c w = Some r \<Longrightarrow> K' = K \<and> st' = st \<and> 0 < c \<longrightarrow> False"
        and "(if 0 < c then
          case util_sys_inb K' STAT_REG st' w of (r, status, w1) \<Rightarrow>
            if \<not> has status IBF_FULL then Some (sys_outb K' IN_BUF (ucast cmd) w1)
            else f K' st' cmd c (tickdelay K' wait_ticks w1)
          else Some (- 1, w)) = Some r"
      with busy [of w] show "K' = K \<and> st' = st \<and> 0 < c \<longrightarrow> False" by fastforce
    qed
    then show False by simp
  qed
  ultimately show ?thesis by (metis not_None_eq)
qed

lemma kbc_write_never_gives_up_example:
  "write_kbc_command (table_kernel (\<lambda>_. 2)) 0 0xD4 3 () = None"
  using kbc_write_never_gives_up [where K = "table_kernel (\<lambda>_. 2)" and st = 0 and command = "0xD4"]
  by (simp add: table_kernel_def)

end
