(* ===== verification/Cursor.thy ===== *)
theory Cursor
  imports Pixels Mouse
begin

text \<open>
  \<open>proj/src/cursor.c\<close>: the mouse cursor. Every packet moves it inside the screen and
  turns the level of the left button into the two flags the game reads: \<open>pressed\<close> while
  the button is down and \<open>released\<close> for the one packet in which it went up.
\<close>

record Cursor =
  cursor_x :: u16
  cursor_y :: u16
  pressed :: bool
  released :: bool
  cursor_image :: xpm_image

definition initCursor :: "xpm_loader \<Rightarrow> Cursor \<Rightarrow> Cursor" where
  "initCursor load c =
     c\<lparr>cursor_x := 0, cursor_y := 0, cursor_image := snd (create_image load arrow (cursor_image c))\<rparr>"

definition drawCursor :: "Screen \<Rightarrow> mem \<Rightarrow> Cursor option \<Rightarrow> mem option" where
  "drawCursor s m cursor =
     (case cursor of
        None \<Rightarrow> Some m
      | Some c \<Rightarrow> draw_image s m (cursor_image c) (cursor_x c) (cursor_y c))"

text \<open>
  The displacements are \<open>int16_t\<close> and widened to \<open>int\<close>, so the comparisons do not wrap;
  the two results assigned from \<open>get_h_res()\<close> and \<open>get_v_res()\<close> are unsigned.
\<close>

definition move_x :: "Screen \<Rightarrow> u16 \<Rightarrow> int \<Rightarrow> u16" where
  "move_x s cx dx =
     (if uint cx < - dx then 0
      else if uint cx + dx + 11 \<ge> i32_of (get_h_res s) then ucast (get_h_res s - 12)
      else u16_of (uint cx + dx))"

definition move_y :: "Screen \<Rightarrow> u16 \<Rightarrow> int \<Rightarrow> u16" where
  "move_y s cy dy =
     (if uint cy < dy then 0
      else if uint cy - dy + 19 \<ge> i32_of (get_v_res s) then ucast (get_v_res s - 20)
      else u16_of (uint cy - dy))"

definition updateCursor :: "Screen \<Rightarrow> Cursor \<Rightarrow> packet \<Rightarrow> Cursor" where
  "updateCursor s cursor pkt =
     (let dx = sint (delta_x pkt); dy = sint (delta_y pkt);
          c1 = cursor\<lparr>released := False\<rparr>;
          c2 = c1\<lparr>cursor_x := move_x s (cursor_x c1) dx\<rparr>;
          c3 = c2\<lparr>cursor_y := move_y s (cursor_y c2) dy\<rparr>
      in if lb pkt \<and> \<not> pressed c3 then c3\<lparr>pressed := True\<rparr>
         else if \<not> lb pkt \<and> pressed c3 then c3\<lparr>pressed := False, released := True\<rparr>
         else c3)"

section \<open>Clamping\<close>

text \<open>The coordinate kept between 0 and the last one at which the arrow fits.\<close>

definition clamp :: "int \<Rightarrow> int \<Rightarrow> int" where
  "clamp hi v = max 0 (min hi v)"

lemma i32_res:
  "i32_of (get_h_res s) = int (hres s)" "i32_of (get_v_res s) = int (vres s)"
proof -
  have "unat (get_h_res s) < 2 ^ 31" "unat (get_v_res s) < 2 ^ 31"
    using unat_u16_bound [of "XResolution (vmi_p s)"] unat_u16_bound [of "YResolution (vmi_p s)"]
    by (simp_all add: get_h_res_def get_v_res_def)
  then show "i32_of (get_h_res s) = int (hres s)" "i32_of (get_v_res s) = int (vres s)"
    by (simp_all add: i32_of_small get_h_res_def get_v_res_def hres_def vres_def)
qed

lemma uint_u16_of: "0 \<le> k \<Longrightarrow> k < 65536 \<Longrightarrow> uint (u16_of k) = k"
  by (simp add: u16_of_def uint_word_of_int)

lemma uint_ucast_minus:
  fixes r :: u16
  assumes "k \<le> uint r" and "0 \<le> k"
  shows "uint (ucast (ucast r - (word_of_int k :: u32)) :: u16) = uint r - k"
proof -
  have k: "k < 65536" using assms uint_u16(2) [of r] by linarith
  have r: "uint (ucast r :: u32) = uint r"
    using uint_u16 [of r] by (simp add: unsigned_ucast_eq take_bit_int_eq_self)
  have wk: "uint (word_of_int k :: u32) = k"
    using k assms(2) by (simp add: uint_word_of_int)
  have d: "uint (ucast r - word_of_int k :: u32) = uint r - k"
    using assms k uint_u16 [of r] by (simp add: uint_word_ariths(2) r wk)
  have "uint (ucast (ucast r - (word_of_int k :: u32)) :: u16) = take_bit 16 (uint r - k)"
    by (subst unsigned_ucast_eq) (simp add: d)
  then show ?thesis using assms uint_u16 [of r] by (simp add: take_bit_int_eq_self)
qed

lemma move_x_clamp:
  assumes "12 \<le> hres s" and "- 32768 \<le> dx" and "dx < 32768"
  shows "uint (move_x s cx dx) = clamp (int (hres s) - 12) (uint cx + dx)"
proof -
  have k: "12 \<le> uint (XResolution (vmi_p s))"
    using assms(1) by (simp add: hres_def flip: of_nat_le_iff [where 'a = int])
  have r: "uint (ucast (get_h_res s - 12) :: u16) = int (hres s) - 12"
    using uint_ucast_minus [of 12 "XResolution (vmi_p s)"] k
    by (simp add: get_h_res_def hres_def)
  have b: "int (hres s) < 65536" using unat_u16_bound [of "XResolution (vmi_p s)"] by (simp only: hres_def)
  show ?thesis
    using assms(1) b by (simp add: move_x_def i32_res r uint_u16_of clamp_def)
qed

lemma move_y_clamp:
  assumes "20 \<le> vres s" and "- 32768 \<le> dy" and "dy < 32768"
  shows "uint (move_y s cy dy) = clamp (int (vres s) - 20) (uint cy - dy)"
proof -
  have k: "20 \<le> uint (YResolution (vmi_p s))"
    using assms(1) by (simp add: vres_def flip: of_nat_le_iff [where 'a = int])
  have r: "uint (ucast (get_v_res s - 20) :: u16) = int (vres s) - 20"
    using uint_ucast_minus [of 20 "YResolution (vmi_p s)"] k
    by (simp add: get_v_res_def vres_def)
  have b: "int (vres s) < 65536" using unat_u16_bound [of "YResolution (vmi_p s)"] by (simp only: vres_def)
  show ?thesis
    using assms(1) b by (simp add: move_y_def i32_res r uint_u16_of clamp_def)
qed

lemma sint_u16_bounds: "- 32768 \<le> sint (w :: u16)" "sint w < 32768"
  using sint_ge [of w] sint_lt [of w] by simp_all

lemma updateCursor_fields:
  "cursor_x (updateCursor s c p) = move_x s (cursor_x c) (sint (delta_x p))"
  "cursor_y (updateCursor s c p) = move_y s (cursor_y c) (sint (delta_y p))"
  "pressed (updateCursor s c p) = lb p"
  "released (updateCursor s c p) \<longleftrightarrow> pressed c \<and> \<not> lb p"
  "cursor_image (updateCursor s c p) = cursor_image c"
  by (auto simp: updateCursor_def Let_def)

text \<open>The cursor lies where its whole picture fits on the screen.\<close>

definition cursor_inside :: "Screen \<Rightarrow> Cursor \<Rightarrow> bool" where
  "cursor_inside s c \<longleftrightarrow> int (unat (cursor_x c)) \<le> int (hres s) - 12 \<and>
     int (unat (cursor_y c)) \<le> int (vres s) - 20"

lemma updateCursor_inside:
  assumes "12 \<le> hres s" and "20 \<le> vres s"
  shows "cursor_inside s (updateCursor s c p)"
proof -
  have "uint (cursor_x (updateCursor s c p)) \<le> int (hres s) - 12"
    using assms(1) sint_u16_bounds [of "delta_x p"]
    by (simp add: updateCursor_fields move_x_clamp clamp_def)
  moreover have "uint (cursor_y (updateCursor s c p)) \<le> int (vres s) - 20"
    using assms(2) sint_u16_bounds [of "delta_y p"]
    by (simp add: updateCursor_fields move_y_clamp clamp_def)
  ultimately show ?thesis by (simp add: cursor_inside_def)
qed

section \<open>Properties\<close>

text \<open>C21: A mouse packet moves the cursor exactly. On any screen of at least 12 by 20 pixels and
  from any state of the cursor, each coordinate becomes the old one plus the displacement
  (upwards for y), clamped so that the 12 by 20 arrow stays on the screen, whatever the
  displacement; pressed follows the button and released is set exactly when the button
  goes up.\<close>
theorem updateCursor_exact:
  assumes "12 \<le> hres s" and "20 \<le> vres s"
  shows "uint (cursor_x (updateCursor s c p)) =
      clamp (int (hres s) - 12) (uint (cursor_x c) + sint (delta_x p)) \<and>
    uint (cursor_y (updateCursor s c p)) =
      clamp (int (vres s) - 20) (uint (cursor_y c) - sint (delta_y p)) \<and>
    cursor_inside s (updateCursor s c p) \<and>
    pressed (updateCursor s c p) = lb p \<and>
    released (updateCursor s c p) = (pressed c \<and> \<not> lb p)"
  using assms updateCursor_inside [OF assms]
    move_x_clamp [OF assms(1) sint_u16_bounds] move_y_clamp [OF assms(2) sint_u16_bounds]
  by (simp only: updateCursor_fields simp_thms)

definition sample_packet :: packet where
  "sample_packet = \<lparr>bytes = [0x29, 5, 0xFE], rb = False, mb = False, lb = True, delta_x = 5,
     delta_y = 0xFFFE, x_ov = False, y_ov = False\<rparr>"

definition sample_cursor :: Cursor where
  "sample_cursor = \<lparr>cursor_x = 785, cursor_y = 100, pressed = False, released = False,
     cursor_image = \<lparr>img_width = 0, img_height = 0, img_bytes = []\<rparr>\<rparr>"

theorem updateCursor_exact_witness:
  "uint (cursor_x (updateCursor screen_115 sample_cursor sample_packet)) = 788 \<and>
   uint (cursor_y (updateCursor screen_115 sample_cursor sample_packet)) = 102 \<and>
   pressed (updateCursor screen_115 sample_cursor sample_packet)"
proof -
  note f = mode_115_facts [OF conjunct1 [OF screen_115 [unfolded squares_115_def]]]
  have "12 \<le> hres screen_115" "20 \<le> vres screen_115" using f by simp_all
  from updateCursor_exact [OF this, of sample_cursor sample_packet] show ?thesis
    by (simp add: f clamp_def sample_cursor_def sample_packet_def)
qed

end
