(* ===== verification/Letter.thy ===== *)
theory Letter
  imports Pixels
begin

text \<open>
  \<open>proj/src/letter.c\<close>: the pictures of the letters and the drawing of a name. A name is
  stored as the break codes of its keys, ended by a zero byte.
\<close>

section \<open>Key codes (letter.h)\<close>

definition BACK_SPACE :: u8 where "BACK_SPACE = 0x8e"
definition ENTER :: u8 where "ENTER = 0x9c"

text \<open>\<open>LETTER_A\<close> to \<open>LETTER_Z\<close>, in order.\<close>

definition LETTERS :: "u8 list" where
  "LETTERS = [0x1e, 0x30, 0x2e, 0x20, 0x12, 0x21, 0x22, 0x23, 0x17, 0x24, 0x25, 0x26, 0x32,
              0x31, 0x18, 0x19, 0x10, 0x13, 0x1f, 0x14, 0x16, 0x2f, 0x11, 0x2d, 0x15, 0x2c]"

text \<open>\<open>letters\<close> is the global array of 26 pictures before the call.\<close>

definition initLetter :: "xpm_loader \<Rightarrow> xpm_image list \<Rightarrow> xpm_image list" where
  "initLetter load letters =
     map (\<lambda>k. snd (create_image load (letter_xpm k) (letters ! k))) [0..<26]"

text \<open>The switch: the index of the first case that matches, \<open>None\<close> for \<open>default\<close>.\<close>

fun find_case :: "u8 \<Rightarrow> u8 list \<Rightarrow> nat \<Rightarrow> nat option" where
  "find_case byte [] k = None"
| "find_case byte (c # cs) k = (if byte = c OR BIT 7 then Some k else find_case byte cs (k + 1))"

definition getLetter :: "u8 \<Rightarrow> nat option" where
  "getLetter byte = find_case byte LETTERS 0"

text \<open>
  The loop of \<open>draw_name\<close>; the list is what is left of the array at \<open>p\<close>, and running off
  its end has no result.
\<close>

primrec draw_letters ::
  "Screen \<Rightarrow> xpm_image list \<Rightarrow> int \<Rightarrow> int \<Rightarrow> int \<Rightarrow> int \<Rightarrow> u8 list \<Rightarrow> mem \<Rightarrow> mem option" where
  "draw_letters s letters base_x base_y spacing c [] m = None"
| "draw_letters s letters base_x base_y spacing c (b # bs) m =
     (if b = 0 then Some m
      else
        let px = base_x + spacing * c
        in case (case getLetter b of
                   Some k \<Rightarrow> draw_image s m (letters ! k) (u16_of px) (u16_of base_y)
                 | None \<Rightarrow> Some m) of
             None \<Rightarrow> None
           | Some m' \<Rightarrow> draw_letters s letters base_x base_y spacing (c + 1) bs m')"

definition draw_name ::
  "Screen \<Rightarrow> xpm_image list \<Rightarrow> mem \<Rightarrow> u8 list \<Rightarrow> int \<Rightarrow> int \<Rightarrow> int \<Rightarrow> mem option" where
  "draw_name s letters m make_code base_x base_y spacing =
     draw_letters s letters base_x base_y spacing 0 make_code m"

section \<open>The codes\<close>

lemma find_case_Some:
  "find_case b cs k = Some i \<Longrightarrow> k \<le> i \<and> i - k < length cs \<and> b = cs ! (i - k) OR BIT 7"
  by (induction b cs k rule: find_case.induct)
     (auto split: if_splits simp: nth_Cons' Suc_diff_le Suc_le_eq)

lemma find_case_nth:
  "distinct (map (\<lambda>c. c OR BIT 7) cs) \<Longrightarrow> j < length cs \<Longrightarrow>
   find_case (cs ! j OR BIT 7) cs k = Some (k + j)"
proof (induction cs arbitrary: j k)
  case Nil
  then show ?case by simp
next
  case (Cons c cs)
  show ?case
  proof (cases j)
    case 0
    then show ?thesis by simp
  next
    case (Suc i)
    then have i: "i < length cs" using Cons.prems(2) by simp
    have "cs ! i OR BIT 7 \<noteq> c OR BIT 7"
    proof
      assume e: "cs ! i OR BIT 7 = c OR BIT 7"
      have "cs ! i OR BIT 7 \<in> set (map (\<lambda>c. c OR BIT 7) cs)"
        using i by auto
      with e Cons.prems(1) show False by (simp only: e list.map distinct.simps)
    qed
    with Suc i Cons show ?thesis by simp
  qed
qed

lemma letters_codes:
  "length LETTERS = 26" "distinct (map (\<lambda>c. c OR BIT 7 :: u8) LETTERS)"
  by (simp_all add: LETTERS_def BIT_def)

lemma getLetter_nth: "k < 26 \<Longrightarrow> getLetter (LETTERS ! k OR BIT 7) = Some k"
  using find_case_nth [OF letters_codes(2), of k 0] by (simp add: getLetter_def letters_codes(1))

lemma getLetter_Some: "getLetter b = Some k \<Longrightarrow> k < 26 \<and> b = LETTERS ! k OR BIT 7"
  using find_case_Some [of b LETTERS 0 k] by (simp add: getLetter_def letters_codes(1))

section \<open>Drawing a name\<close>

definition letters_ok :: "Screen \<Rightarrow> xpm_image list \<Rightarrow> bool" where
  "letters_ok s letters \<longleftrightarrow> length letters = 26 \<and> (\<forall>img\<in>set letters. image_ok s img)"

lemma draw_image_wf:
  assumes "fb_wf s m" and "image_ok s img"
  shows "\<exists>m'. draw_image s m img x y = Some m' \<and> fb_wf s m'"
  using draw_image_painted [OF assms, of x y] unfolding fb.painted_def by blast

lemma draw_letters_wf:
  assumes "letters_ok s letters" and "0 \<in> set bs" and "fb_wf s m"
  shows "\<exists>m'. draw_letters s letters px py spacing c bs m = Some m' \<and> fb_wf s m'"
  using assms(2,3)
proof (induction bs arbitrary: c m)
  case Nil
  then show ?case by simp
next
  case (Cons b bs)
  show ?case
  proof (cases "b = 0")
    case True
    then show ?thesis using Cons.prems by simp
  next
    case False
    then have z: "0 \<in> set bs" using Cons.prems(1) by simp
    show ?thesis
    proof (cases "getLetter b")
      case None
      then show ?thesis using False Cons.IH [OF z Cons.prems(2)] by simp
    next
      case (Some k)
      then have "image_ok s (letters ! k)"
        using assms(1) getLetter_Some [OF Some] by (simp add: letters_ok_def)
      then obtain m1 where "draw_image s m (letters ! k) (u16_of (px + spacing * c)) (u16_of py) = Some m1"
        and "fb_wf s m1"
        using draw_image_wf [OF Cons.prems(2)] by blast
      then show ?thesis using False Some Cons.IH [OF z, of m1 "c + 1"] by simp
    qed
  qed
qed

section \<open>Properties\<close>

text \<open>The letters and the break codes match one to one: a byte selects the picture of the k-th
  letter exactly when it is that letter's make code with bit 7 set, and neither the codes
  of BACK_SPACE and ENTER nor the end mark select a picture.\<close>
lemma getLetter_roundtrip:
  "(getLetter b = Some k \<longleftrightarrow> k < 26 \<and> b = LETTERS ! k OR BIT 7) \<and>
   getLetter BACK_SPACE = None \<and> getLetter ENTER = None \<and> getLetter 0 = None"
proof -
  have "getLetter BACK_SPACE = None \<and> getLetter ENTER = None \<and> getLetter 0 = None"
    by (simp add: getLetter_def LETTERS_def BACK_SPACE_def ENTER_def BIT_def)
  then show ?thesis using getLetter_nth getLetter_Some by blast
qed

text \<open>Drawing a name ends and is memory safe exactly when the array holds its end mark: with
  a zero byte in it the call returns a buffer of the same mode for every position and
  spacing, clipped where it leaves the screen, and without one the loop leaves the array.\<close>
lemma draw_name_terminates:
  assumes "letters_ok s letters" and "fb_wf s m"
  shows "if 0 \<in> set bs then \<exists>m'. draw_name s letters m bs px py spacing = Some m' \<and> fb_wf s m'
         else draw_name s letters m bs px py spacing = None"
proof -
  have "draw_letters s letters px py spacing c bs m = None" if "0 \<notin> set bs" for c m
    using that
    by (induction bs arbitrary: c m) (auto simp: Let_def split: option.split)
  with draw_letters_wf [OF assms(1) _ assms(2)] show ?thesis
    by (simp add: draw_name_def)
qed

lemma draw_name_terminates_example:
  "\<exists>m'. draw_name screen_115 (replicate 26 \<lparr>img_width = 0, img_height = 0, img_bytes = []\<rparr>)
      (replicate 1440000 0) [0x9e, 0xa1, 0, 0, 0, 0, 0, 0, 0] 142 312 68 = Some m' \<and>
    fb_wf screen_115 m'"
proof -
  let ?l = "replicate 26 \<lparr>img_width = 0, img_height = 0, img_bytes = []\<rparr> :: xpm_image list"
  note f = mode_115_facts [OF conjunct1 [OF screen_115 [unfolded squares_115_def]]]
  have l: "letters_ok screen_115 ?l" by (simp add: letters_ok_def image_ok_def)
  have w: "fb_wf screen_115 (replicate 1440000 0)" using f by (simp add: fb_wf_def)
  show ?thesis
    using draw_name_terminates [OF l w, of "[0x9e, 0xa1, 0, 0, 0, 0, 0, 0, 0]" 142 312 68]
    by simp
qed

end
