(* ===== verification/ByteQueue.thy ===== *)
theory ByteQueue
  imports Kernel
begin

text \<open>
  \<open>proj/src/queue.c\<close>: the circular byte queue between the game and the serial port.
  The fields keep their C widths: front, rear and size are bytes while the capacity is
  an \<open>unsigned\<close>. The contract is a bounded first-in first-out list, stated as the
  locale \<open>bounded_fifo\<close>; the ring buffer is shown to provide it for every capacity a
  byte can count.
\<close>

section \<open>The ring buffer\<close>

record Queue =
  q_front :: u8
  q_rear :: u8
  q_size :: u8
  q_capacity :: u32
  q_array :: "u8 list"

text \<open>
  \<open>mem\<close> is the block \<open>malloc\<close> returned for the array, with whatever bytes it holds.
\<close>

definition createQueue :: "u32 \<Rightarrow> u8 list \<Rightarrow> Queue" where
  "createQueue capacity mem =
     \<lparr>q_front = 0x00, q_rear = ucast (capacity - 1), q_size = 0, q_capacity = capacity,
      q_array = mem\<rparr>"

definition queueIsFull :: "Queue \<Rightarrow> bool" where
  "queueIsFull q \<longleftrightarrow> ucast (q_size q) = q_capacity q"

definition queueIsEmpty :: "Queue \<Rightarrow> bool" where
  "queueIsEmpty q \<longleftrightarrow> q_size q = 0"

definition addToQueue :: "Queue \<Rightarrow> u8 \<Rightarrow> Queue" where
  "addToQueue q item =
     (if queueIsFull q then q
      else
        let rear = ucast ((ucast (q_rear q) + 1) mod q_capacity q)
        in q\<lparr>q_rear := rear, q_array := (q_array q)[unat rear := item],
             q_size := q_size q + 1\<rparr>)"

definition removeFromQueue :: "Queue \<Rightarrow> u8 \<times> Queue" where
  "removeFromQueue q =
     (if queueIsEmpty q then (0, q)
      else
        let item = q_array q ! unat (q_front q)
        in (item, q\<lparr>q_front := ucast ((ucast (q_front q) + 1) mod q_capacity q),
                    q_size := q_size q - 1\<rparr>))"

definition queueFront :: "Queue \<Rightarrow> int" where
  "queueFront q = (if queueIsEmpty q then 0 else uint (q_array q ! unat (q_front q)))"

definition queueRear :: "Queue \<Rightarrow> int" where
  "queueRear q = (if queueIsEmpty q then 0 else uint (q_array q ! unat (q_rear q)))"

section \<open>The contract: a bounded FIFO list\<close>

text \<open>
  A run of operations and what it returns, over any implementation and over the list it
  should behave as.
\<close>

datatype 'a qop = Enq 'a | Deq

primrec fifo_run ::
  "('q \<Rightarrow> 'a \<Rightarrow> 'q) \<Rightarrow> ('q \<Rightarrow> 'a \<times> 'q) \<Rightarrow> 'a qop list \<Rightarrow> 'q \<Rightarrow> 'a list \<times> 'q" where
  "fifo_run e d [] q = ([], q)"
| "fifo_run e d (p # ps) q =
     (case p of
        Enq x \<Rightarrow> fifo_run e d ps (e q x)
      | Deq \<Rightarrow> (case d q of (x, q') \<Rightarrow>
                 case fifo_run e d ps q' of (xs, q'') \<Rightarrow> (x # xs, q'')))"

definition list_enq :: "nat \<Rightarrow> 'a list \<Rightarrow> 'a \<Rightarrow> 'a list" where
  "list_enq n xs x = (if length xs < n then xs @ [x] else xs)"

definition list_deq :: "'a \<Rightarrow> 'a list \<Rightarrow> 'a \<times> 'a list" where
  "list_deq z xs = (case xs of [] \<Rightarrow> (z, []) | x # ys \<Rightarrow> (x, ys))"

locale bounded_fifo =
  fixes enq :: "'q \<Rightarrow> 'a \<Rightarrow> 'q"
    and deq :: "'q \<Rightarrow> 'a \<times> 'q"
    and contents :: "'q \<Rightarrow> 'a list"
    and room :: "'q \<Rightarrow> nat"
    and invar :: "'q \<Rightarrow> bool"
    and dflt :: 'a
  assumes enq_invar: "invar q \<Longrightarrow> invar (enq q x)"
    and deq_invar: "invar q \<Longrightarrow> invar (snd (deq q))"
    and enq_room: "room (enq q x) = room q"
    and deq_room: "room (snd (deq q)) = room q"
    and bounded: "invar q \<Longrightarrow> length (contents q) \<le> room q"
    and enq_contents: "invar q \<Longrightarrow> contents (enq q x) =
          (if length (contents q) < room q then contents q @ [x] else contents q)"
    and deq_contents: "invar q \<Longrightarrow> contents (snd (deq q)) = tl (contents q)"
    and deq_value: "invar q \<Longrightarrow> fst (deq q) = (case contents q of [] \<Rightarrow> dflt | x # _ \<Rightarrow> x)"
begin

text \<open>A burst of \<open>enq\<close>s keeps the prefix that fits and drops the rest.\<close>

lemma enq_all:
  assumes "invar q"
  shows "invar (foldl enq q xs)" "room (foldl enq q xs) = room q"
    "contents (foldl enq q xs) = take (room q) (contents q @ xs)"
proof -
  have "invar (foldl enq q xs) \<and> room (foldl enq q xs) = room q \<and>
        contents (foldl enq q xs) = take (room q) (contents q @ xs)"
    using assms
  proof (induction xs arbitrary: q)
    case Nil
    then show ?case using bounded by simp
  next
    case (Cons x xs)
    from Cons.IH [OF enq_invar [OF Cons.prems]] show ?case
      using bounded [OF Cons.prems] by (auto simp: enq_room enq_contents Cons.prems take_Cons')
  qed
  then show "invar (foldl enq q xs)" "room (foldl enq q xs) = room q"
    "contents (foldl enq q xs) = take (room q) (contents q @ xs)" by simp_all
qed

text \<open>Every run of operations is a run of the bounded list.\<close>

lemma run_simulates:
  "invar q \<Longrightarrow>
   fst (fifo_run enq deq ps q) = fst (fifo_run (list_enq (room q)) (list_deq dflt) ps (contents q)) \<and>
   contents (snd (fifo_run enq deq ps q)) =
     snd (fifo_run (list_enq (room q)) (list_deq dflt) ps (contents q)) \<and>
   invar (snd (fifo_run enq deq ps q))"
proof (induction ps arbitrary: q)
  case Nil
  then show ?case by simp
next
  case (Cons p ps)
  show ?case
  proof (cases p)
    case (Enq x)
    then show ?thesis
      using Cons.IH [OF enq_invar [OF Cons.prems, of x]] Cons.prems
      by (simp add: enq_room enq_contents list_enq_def split: if_splits)
  next
    case Deq
    obtain x q' where d: "deq q = (x, q')" by force
    have "list_deq dflt (contents q) = (x, contents q')"
      using deq_value [OF Cons.prems] deq_contents [OF Cons.prems]
      by (cases "contents q") (simp_all add: d list_deq_def)
    with Deq Cons.IH [OF deq_invar [OF Cons.prems]] deq_room [of q] show ?thesis
      by (simp add: d split: prod.split) (metis fst_conv snd_conv)
  qed
qed

end

section \<open>The ring buffer implements it\<close>

definition q_contents :: "Queue \<Rightarrow> u8 list" where
  "q_contents q = map (\<lambda>k. q_array q ! ((unat (q_front q) + k) mod unat (q_capacity q)))
                      [0..<unat (q_size q)]"

text \<open>
  The invariant: a capacity a byte can count, an array of that length, indices inside it,
  and rear one position before where the next element goes.
\<close>

definition q_invar :: "Queue \<Rightarrow> bool" where
  "q_invar q \<longleftrightarrow>
     0 < unat (q_capacity q) \<and> unat (q_capacity q) \<le> 255 \<and>
     length (q_array q) = unat (q_capacity q) \<and>
     unat (q_front q) < unat (q_capacity q) \<and> unat (q_rear q) < unat (q_capacity q) \<and>
     unat (q_size q) \<le> unat (q_capacity q) \<and>
     (unat (q_rear q) + 1) mod unat (q_capacity q) =
       (unat (q_front q) + unat (q_size q)) mod unat (q_capacity q)"

definition q_room :: "Queue \<Rightarrow> nat" where
  "q_room q = unat (q_capacity q)"

lemma q_full_iff: "queueIsFull q \<longleftrightarrow> unat (q_size q) = unat (q_capacity q)"
  by (simp add: queueIsFull_def word_unat_eq_iff)

lemma q_empty_iff: "queueIsEmpty q \<longleftrightarrow> q_contents q = []"
  by (simp add: queueIsEmpty_def q_contents_def unat_eq_zero)

lemma length_q_contents [simp]: "length (q_contents q) = unat (q_size q)"
  by (simp add: q_contents_def)

text \<open>The index step \<open>(i + 1) % capacity\<close>, truncated to a byte.\<close>

lemma unat_step:
  assumes "0 < unat (c :: u32)" and "unat c \<le> 255"
  shows "unat (ucast ((ucast (i :: u8) + 1) mod c) :: u8) = (unat i + 1) mod unat c"
proof -
  have s: "unat (ucast i + 1 :: u32) = unat i + 1"
    using unat_u8_bound [of i] by (simp add: unat_word_ariths)
  have "unat ((ucast i + 1) mod c) = (unat i + 1) mod unat c"
    by (simp add: unat_mod_distrib s)
  moreover have "(unat i + 1) mod unat c < 256"
    using assms mod_less_divisor [of "unat c" "unat i + 1"] by linarith
  ultimately show ?thesis
    by (simp only: unsigned_ucast_eq) (simp add: take_bit_nat_eq_self)
qed

lemma createQueue_invar:
  assumes "0 < unat capacity" and "unat capacity \<le> 255" and "length mem = unat capacity"
  shows "q_invar (createQueue capacity mem)" "q_contents (createQueue capacity mem) = []"
proof -
  have "unat (capacity - 1) = unat capacity - 1"
    using assms(1) by (simp add: unat_minus_one unat_gt_0)
  then have "unat (ucast (capacity - 1) :: u8) = unat capacity - 1"
    using assms by (simp only: unsigned_ucast_eq) (simp add: take_bit_nat_eq_self)
  with assms show "q_invar (createQueue capacity mem)"
    by (simp add: q_invar_def createQueue_def)
  show "q_contents (createQueue capacity mem) = []"
    by (simp add: q_contents_def createQueue_def)
qed

lemma add_fields:
  assumes "q_invar q" and "\<not> queueIsFull q"
  shows "unat (q_rear (addToQueue q x)) =
           (unat (q_front q) + unat (q_size q)) mod unat (q_capacity q)"
    "unat (q_size (addToQueue q x)) = unat (q_size q) + 1"
    "q_front (addToQueue q x) = q_front q" "q_capacity (addToQueue q x) = q_capacity q"
    "q_array (addToQueue q x) =
       (q_array q)[(unat (q_front q) + unat (q_size q)) mod unat (q_capacity q) := x]"
proof -
  have c: "0 < unat (q_capacity q)" "unat (q_capacity q) \<le> 255"
    and r: "(unat (q_rear q) + 1) mod unat (q_capacity q) =
         (unat (q_front q) + unat (q_size q)) mod unat (q_capacity q)"
    and sz: "unat (q_size q) < unat (q_capacity q)"
    using assms by (auto simp: q_invar_def q_full_iff)
  note st = unat_step [OF c, of "q_rear q", unfolded r]
  show "unat (q_rear (addToQueue q x)) =
           (unat (q_front q) + unat (q_size q)) mod unat (q_capacity q)"
    "q_array (addToQueue q x) =
       (q_array q)[(unat (q_front q) + unat (q_size q)) mod unat (q_capacity q) := x]"
    "q_front (addToQueue q x) = q_front q" "q_capacity (addToQueue q x) = q_capacity q"
    using assms(2) by (simp_all add: addToQueue_def Let_def st)
  have "unat (q_size q + 1) = unat (q_size q) + 1"
    using sz c(2) by (simp add: unat_word_ariths)
  then show "unat (q_size (addToQueue q x)) = unat (q_size q) + 1"
    using assms(2) by (simp add: addToQueue_def Let_def)
qed

lemma mod_offset_inj:
  assumes "(f + a) mod c = (f + b) mod c" and "a < c" and "b < (c :: nat)"
  shows "a = b"
proof -
  have "int (f + a) mod int c = int (f + b) mod int c"
    using assms(1) by (metis of_nat_mod)
  then have "int c dvd int a - int b"
    by (simp add: mod_eq_dvd_iff)
  with assms(2,3) show ?thesis
    using dvd_imp_le_int [of "int a - int b" "int c"] by (cases "a = b") auto
qed

lemma addToQueue_invar: "q_invar q \<Longrightarrow> q_invar (addToQueue q x)"
proof (cases "queueIsFull q")
  case True
  then show "q_invar q \<Longrightarrow> ?thesis" by (simp add: addToQueue_def)
next
  case False
  assume h: "q_invar q"
  from h False have "unat (q_size q) < unat (q_capacity q)"
    by (auto simp: q_invar_def q_full_iff)
  with h add_fields [OF h False, of x] show ?thesis
    by (simp add: q_invar_def mod_Suc_eq)
qed

lemma addToQueue_contents:
  assumes "q_invar q"
  shows "q_contents (addToQueue q x) =
     (if length (q_contents q) < q_room q then q_contents q @ [x] else q_contents q)"
proof (cases "queueIsFull q")
  case True
  then show ?thesis by (simp add: addToQueue_def q_full_iff q_room_def)
next
  case False
  let ?c = "unat (q_capacity q)" and ?f = "unat (q_front q)" and ?n = "unat (q_size q)"
  have lt: "?n < ?c" and len: "length (q_array q) = ?c" and c: "0 < ?c"
    using assms False by (auto simp: q_invar_def q_full_iff)
  have "q_contents (addToQueue q x) =
      map (\<lambda>k. (q_array q)[(?f + ?n) mod ?c := x] ! ((?f + k) mod ?c)) ([0..<?n] @ [?n])"
    unfolding q_contents_def using add_fields [OF assms False, of x] by simp
  moreover have "(?f + ?n) mod ?c \<noteq> (?f + k) mod ?c" if "k < ?n" for k
    using mod_offset_inj [of ?f k ?c ?n] that lt by auto
  ultimately show ?thesis
    using lt c len by (simp add: q_room_def q_contents_def)
qed

lemma remove_fields:
  assumes "q_invar q" and "\<not> queueIsEmpty q"
  shows "unat (q_front (snd (removeFromQueue q))) = (unat (q_front q) + 1) mod unat (q_capacity q)"
    "unat (q_size (snd (removeFromQueue q))) = unat (q_size q) - 1"
    "q_rear (snd (removeFromQueue q)) = q_rear q"
    "q_capacity (snd (removeFromQueue q)) = q_capacity q"
    "q_array (snd (removeFromQueue q)) = q_array q"
    "0 < unat (q_size q)"
proof -
  have c: "0 < unat (q_capacity q)" "unat (q_capacity q) \<le> 255"
    using assms(1) by (auto simp: q_invar_def)
  show pos: "0 < unat (q_size q)"
    using assms(2) by (simp add: queueIsEmpty_def unat_gt_0)
  have "unat (q_size q - 1) = unat (q_size q) - 1"
    using assms(2) by (simp add: queueIsEmpty_def unat_minus_one)
  then show "unat (q_front (snd (removeFromQueue q))) =
      (unat (q_front q) + 1) mod unat (q_capacity q)"
    "unat (q_size (snd (removeFromQueue q))) = unat (q_size q) - 1"
    "q_rear (snd (removeFromQueue q)) = q_rear q"
    "q_capacity (snd (removeFromQueue q)) = q_capacity q"
    "q_array (snd (removeFromQueue q)) = q_array q"
    using assms(2) unat_step [OF c] by (simp_all add: removeFromQueue_def Let_def)
qed

lemma removeFromQueue_invar: "q_invar q \<Longrightarrow> q_invar (snd (removeFromQueue q))"
proof (cases "queueIsEmpty q")
  case True
  then show "q_invar q \<Longrightarrow> ?thesis" by (simp add: removeFromQueue_def)
next
  case False
  assume h: "q_invar q"
  note r = remove_fields [OF h False]
  have "((f + 1) mod c + (n - 1)) mod c = (f + n) mod c" if "0 < n" for f n c :: nat
    using that by (simp only: mod_add_left_eq) simp
  with h r show ?thesis
    by (auto simp: q_invar_def)
qed

lemma removeFromQueue_contents:
  assumes "q_invar q"
  shows "q_contents (snd (removeFromQueue q)) = tl (q_contents q)"
    "fst (removeFromQueue q) = (case q_contents q of [] \<Rightarrow> 0 | x # _ \<Rightarrow> x)"
proof -
  let ?c = "unat (q_capacity q)" and ?f = "unat (q_front q)" and ?n = "unat (q_size q)"
  have "q_contents (snd (removeFromQueue q)) = tl (q_contents q) \<and>
        fst (removeFromQueue q) = (case q_contents q of [] \<Rightarrow> 0 | x # _ \<Rightarrow> x)"
  proof (cases "queueIsEmpty q")
    case True
    then show ?thesis
      by (simp add: removeFromQueue_def) (simp add: q_empty_iff)
  next
    case False
    note r = remove_fields [OF assms False]
    from r(6) obtain m where m: "?n = Suc m" by (cases ?n) auto
    have "[0..<Suc m] = 0 # map Suc [0..<m]"
      by (simp add: map_Suc_upt upt_conv_Cons del: upt_Suc)
    then have "q_contents q = map (\<lambda>k. q_array q ! ((?f + k) mod ?c)) (0 # map Suc [0..<m])"
      by (simp only: q_contents_def m)
    then have c: "q_contents q =
        q_array q ! ?f # map (\<lambda>k. q_array q ! ((?f + Suc k) mod ?c)) [0..<m]"
      using assms by (simp add: q_invar_def)
    have "q_contents (snd (removeFromQueue q)) =
        map (\<lambda>k. q_array q ! ((?f + Suc k) mod ?c)) [0..<m]"
      unfolding q_contents_def r m by (simp add: mod_add_left_eq)
    then show ?thesis
      using False c by (simp add: removeFromQueue_def Let_def)
  qed
  then show "q_contents (snd (removeFromQueue q)) = tl (q_contents q)"
    "fst (removeFromQueue q) = (case q_contents q of [] \<Rightarrow> 0 | x # _ \<Rightarrow> x)" by simp_all
qed

lemma capacity_add [simp]: "q_capacity (addToQueue q x) = q_capacity q"
  by (simp add: addToQueue_def Let_def)

lemma capacity_remove [simp]: "q_capacity (snd (removeFromQueue q)) = q_capacity q"
  by (simp add: removeFromQueue_def Let_def)

interpretation fifo: bounded_fifo addToQueue removeFromQueue q_contents q_room q_invar "0 :: u8"
proof unfold_locales
  show "q_invar q \<Longrightarrow> length (q_contents q) \<le> q_room q" for q
    by (simp add: q_invar_def q_room_def)
qed (simp_all add: addToQueue_invar removeFromQueue_invar addToQueue_contents
    removeFromQueue_contents, simp_all add: q_room_def)

lemmas queue_facts =
  addToQueue_invar removeFromQueue_invar addToQueue_contents removeFromQueue_contents
  createQueue_invar q_empty_iff

section \<open>Properties\<close>

text \<open>C12: For every capacity from 1 to 255, any interleaving of addToQueue and
  removeFromQueue on a freshly created queue returns exactly what the same operations
  return on a first-in first-out list that drops additions when it holds capacity
  elements and yields 0 when it is empty, and in the end the queue holds the elements of the
  list, in their order.\<close>
theorem queue_run_refines_fifo:
  assumes "0 < unat capacity" and "unat capacity \<le> 255" and "length mem = unat capacity"
  shows "fst (fifo_run addToQueue removeFromQueue ps (createQueue capacity mem)) =
         fst (fifo_run (list_enq (unat capacity)) (list_deq 0) ps []) \<and>
    q_contents (snd (fifo_run addToQueue removeFromQueue ps (createQueue capacity mem))) =
      snd (fifo_run (list_enq (unat capacity)) (list_deq 0) ps [])"
proof -
  note c = createQueue_invar [OF assms]
  have "q_room (createQueue capacity mem) = unat capacity"
    by (simp add: q_room_def createQueue_def)
  then show ?thesis
    using fifo.run_simulates [OF c(1), of ps] c(2) by simp
qed

theorem queue_run_refines_fifo_witness:
  "fst (fifo_run addToQueue removeFromQueue [Enq 5, Enq 6, Enq 7, Deq, Deq, Deq]
          (createQueue 2 [9, 9])) = [5, 6, 0] \<and>
   q_contents (snd (fifo_run addToQueue removeFromQueue [Enq 5, Enq 6, Enq 7, Deq, Enq 8]
          (createQueue 2 [9, 9]))) = [6, 8]"
proof -
  have c: "0 < unat (2 :: u32)" "unat (2 :: u32) \<le> 255" "length [9, 9 :: u8] = unat (2 :: u32)" by simp_all
  show ?thesis
    using queue_run_refines_fifo [OF c, of "[Enq 5, Enq 6, Enq 7, Deq, Deq, Deq]"]
      queue_run_refines_fifo [OF c, of "[Enq 5, Enq 6, Enq 7, Deq, Enq 8]"]
    by (simp add: list_enq_def list_deq_def)
qed

text \<open>The eight-bit element count makes a queue of capacity 256 (or more) useless as a
  FIFO: it never reports full, and after exactly 256 additions it reports empty and
  removeFromQueue returns the no-data value 0 although no element was ever removed.\<close>
lemma queue_size_wraps_at_256:
  assumes "length xs = 256" and "256 \<le> unat capacity"
  shows "queueIsEmpty (foldl addToQueue (createQueue capacity mem) xs) \<and>
    fst (removeFromQueue (foldl addToQueue (createQueue capacity mem) xs)) = 0"
proof -
  have never_full: "\<not> queueIsFull q" if "q_capacity q = capacity" for q
    using that assms(2) unat_u8_bound [of "q_size q"] by (simp add: q_full_iff)
  have "q_size (foldl addToQueue q xs) = q_size q + of_nat (length xs) \<and>
        q_capacity (foldl addToQueue q xs) = capacity" if "q_capacity q = capacity" for q xs
    using that
  proof (induction xs arbitrary: q)
    case (Cons x xs)
    have "q_size (addToQueue q x) = q_size q + 1"
      using never_full [OF Cons.prems] by (simp add: addToQueue_def Let_def)
    with Cons.IH [of "addToQueue q x"] Cons.prems show ?case by simp
  qed simp
  from this [of "createQueue capacity mem" xs] assms(1)
  have "queueIsEmpty (foldl addToQueue (createQueue capacity mem) xs)"
    by (simp add: createQueue_def queueIsEmpty_def)
  then show ?thesis
    by (simp add: removeFromQueue_def)
qed

lemma queue_size_wraps_at_256_example:
  "queueIsEmpty (foldl addToQueue (createQueue 300 (replicate 300 0)) (replicate 256 7))"
  using queue_size_wraps_at_256 [of "replicate 256 7" 300 "replicate 300 0"] by simp

end
