(* ===== verification/SerialPort.thy ===== *)
theory SerialPort
  imports ByteQueue Timer
begin

text \<open>
  \<open>proj/src/serialPort.c\<close>: the UART driver. Bytes to send wait in the transmit queue and
  received bytes in the receive queue, both ring buffers of the byte queue theory. The
  operations take the kernel interface and the world, and return the C return value, the
  driver state and the world.
\<close>

section \<open>Registers and bits (serialConst.h)\<close>

definition SP_COM :: nat where "SP_COM = 0x3F8"
definition SP_IRQ :: nat where "SP_IRQ = 4"
definition SP_RBR :: nat where "SP_RBR = 0"
definition SP_THR :: nat where "SP_THR = 0"
definition SP_DLL :: nat where "SP_DLL = 0"
definition SP_DLM :: nat where "SP_DLM = 1"
definition SP_IER :: nat where "SP_IER = 1"
definition SP_IIR :: nat where "SP_IIR = 2"
definition SP_FCR :: nat where "SP_FCR = 2"
definition SP_LCR :: nat where "SP_LCR = 3"
definition SP_LSR :: nat where "SP_LSR = 5"

definition SP_8BITS :: u8 where "SP_8BITS = BIT 0 AND BIT 1"
definition SP_DLAB :: u32 where "SP_DLAB = BIT 7"
definition SP_RECEIVER :: u32 where "SP_RECEIVER = BIT 0"
definition SP_TRANSMITTER_HOLDING_EMPTY :: u32 where "SP_TRANSMITTER_HOLDING_EMPTY = BIT 5"
definition SP_RECEIVED_INTERRUPT :: u8 where "SP_RECEIVED_INTERRUPT = BIT 0"
definition SP_TRANSMITTER_INTERRUPT :: u8 where "SP_TRANSMITTER_INTERRUPT = BIT 1"
definition SP_RECEIVER_LINE_INTERRUPT :: u8 where "SP_RECEIVER_LINE_INTERRUPT = BIT 2"
definition SP_NO_PENDING_INTERRUPT :: u32 where "SP_NO_PENDING_INTERRUPT = BIT 0"
definition SP_RECEIVED_DATA :: u32 where
  "SP_RECEIVED_DATA = NOT (BIT 1) AND BIT 2 AND NOT (BIT 3)"
definition SP_TRANSMITTER_HOLDING :: u32 where
  "SP_TRANSMITTER_HOLDING = BIT 1 AND NOT (BIT 2) AND NOT (BIT 3)"
definition SP_ENABLE_FIFO :: u8 where "SP_ENABLE_FIFO = BIT 0"
definition SP_CLEAR_RECEIVER_FIFO :: u8 where "SP_CLEAR_RECEIVER_FIFO = BIT 1"
definition SP_CLEAR_TRASMITTER_FIFO :: u8 where "SP_CLEAR_TRASMITTER_FIFO = BIT 2"

record SerialPort =
  hook_id_sp :: int
  transmitQueue :: Queue
  receiveQueue :: Queue

section \<open>Configuration\<close>

definition sp_set_number_of_bits_per_char :: "'w kernel \<Rightarrow> u8 \<Rightarrow> 'w \<Rightarrow> int \<times> 'w" where
  "sp_set_number_of_bits_per_char K number_of_bits w =
     (case sys_inb K (SP_COM + SP_LCR) w of
        (r, lcr, w1) \<Rightarrow>
          if r \<noteq> 0 then (1, w1)
          else
            let lcr' = (lcr AND 0xFC) OR ucast number_of_bits
            in case sys_outb K (SP_COM + SP_LCR) lcr' w1 of
                 (r, w2) \<Rightarrow> if r \<noteq> 0 then (1, w2) else (0, w2))"

text \<open>Integer division of C; dividing by zero is undefined (\<open>None\<close>).\<close>

definition c_div :: "int \<Rightarrow> int \<Rightarrow> int option" where
  "c_div a b = (if b = 0 then None else Some (sgn a * sgn b * (\<bar>a\<bar> div \<bar>b\<bar>)))"

definition sp_set_bitrate :: "'w kernel \<Rightarrow> int \<Rightarrow> 'w \<Rightarrow> (int \<times> 'w) option" where
  "sp_set_bitrate K bitrate w =
     (case c_div 115200 bitrate of
        None \<Rightarrow> None
      | Some q \<Rightarrow>
          let actualRate = u16_of q;
              actualRatelsb = snd (util_get_LSB actualRate);
              actualRatemsb = snd (util_get_MSB actualRate)
          in Some
            (case sys_inb K (SP_COM + SP_LCR) w of
              (r, lcr, w1) \<Rightarrow> if r \<noteq> 0 then (-1, w1) else
             (case sys_outb K (SP_COM + SP_LCR) (lcr OR SP_DLAB) w1 of
              (r, w2) \<Rightarrow> if r \<noteq> 0 then (-1, w2) else
             (case sys_outb K (SP_COM + SP_DLL) (ucast actualRatelsb) w2 of
              (r, w3) \<Rightarrow> if r \<noteq> 0 then (-1, w3) else
             (case sys_outb K (SP_COM + SP_DLM) (ucast actualRatemsb) w3 of
              (r, w4) \<Rightarrow> if r \<noteq> 0 then (-1, w4) else
             (case sys_inb K (SP_COM + SP_LCR) w4 of
              (r, lcr, w5) \<Rightarrow> if r \<noteq> 0 then (-1, w5) else
             (case sys_outb K (SP_COM + SP_LCR) (lcr AND NOT SP_DLAB) w5 of
              (r, w6) \<Rightarrow> if r \<noteq> 0 then (-1, w6) else (0, w6))))))))"

definition sp_enable :: "'w kernel \<Rightarrow> nat \<Rightarrow> u8 \<Rightarrow> bool \<Rightarrow> 'w \<Rightarrow> int \<times> 'w" where
  "sp_enable K port b enable w =
     (case sys_inb K (SP_COM + port) w of
        (r, aux, w1) \<Rightarrow>
          if r \<noteq> 0 then (-1, w1)
          else
            let aux' = (if enable then aux OR ucast b else aux AND NOT (ucast b))
            in case sys_outb K (SP_COM + port) aux' w1 of
                 (r, w2) \<Rightarrow> if r \<noteq> 0 then (-1, w2) else (0, w2))"

text \<open>A list of \<open>sp_enable\<close> calls, each followed by \<open>if failed return -1\<close>.\<close>

primrec sp_enable_all :: "'w kernel \<Rightarrow> (nat \<times> u8 \<times> bool) list \<Rightarrow> 'w \<Rightarrow> int \<times> 'w" where
  "sp_enable_all K [] w = (0, w)"
| "sp_enable_all K (c # cs) w =
     (case c of (port, b, en) \<Rightarrow>
        case sp_enable K port b en w of
          (r, w1) \<Rightarrow> if r \<noteq> 0 then (-1, w1) else sp_enable_all K cs w1)"

definition sp_configure_init :: "'w kernel \<Rightarrow> 'w \<Rightarrow> (int \<times> 'w) option" where
  "sp_configure_init K w =
     (case sp_set_number_of_bits_per_char K SP_8BITS w of
        (r, w1) \<Rightarrow> if r \<noteq> 0 then Some (-1, w1) else
       (case sp_set_bitrate K 115200 w1 of
          None \<Rightarrow> None
        | Some (r, w2) \<Rightarrow> if r \<noteq> 0 then Some (1, w2) else
            Some (sp_enable_all K
              [(SP_IER, SP_RECEIVED_INTERRUPT, True),
               (SP_IER, SP_TRANSMITTER_INTERRUPT, True),
               (SP_IER, SP_RECEIVER_LINE_INTERRUPT, True),
               (SP_FCR, SP_ENABLE_FIFO, True),
               (SP_FCR, SP_CLEAR_TRASMITTER_FIFO, True),
               (SP_FCR, SP_CLEAR_RECEIVER_FIFO, True)] w2)))"

definition sp_configure_end :: "'w kernel \<Rightarrow> 'w \<Rightarrow> int \<times> 'w" where
  "sp_configure_end K w =
     sp_enable_all K
       [(SP_FCR, SP_ENABLE_FIFO, False),
        (SP_FCR, SP_CLEAR_RECEIVER_FIFO, True),
        (SP_FCR, SP_CLEAR_TRASMITTER_FIFO, True),
        (SP_IER, SP_RECEIVER_LINE_INTERRUPT, False),
        (SP_IER, SP_TRANSMITTER_INTERRUPT, False),
        (SP_IER, SP_RECEIVED_INTERRUPT, False)] w"

text \<open>
  \<open>tmem\<close> and \<open>rmem\<close> are the blocks \<open>malloc\<close> returned for the two queue arrays. The first
  component pairs the return value with the bit number stored through the pointer.
\<close>

definition sp_subscribe_int ::
  "'w kernel \<Rightarrow> u8 list \<Rightarrow> u8 list \<Rightarrow> SerialPort \<Rightarrow> 'w \<Rightarrow> ((int \<times> u8) \<times> SerialPort \<times> 'w) option" where
  "sp_subscribe_int K tmem rmem sp w =
     (let bit_no = 4
      in case sys_irqsetpolicy K SP_IRQ (IRQ_REENABLE OR IRQ_EXCLUSIVE) 4 w of
           (r, hook', w1) \<Rightarrow>
             let sp1 = sp\<lparr>hook_id_sp := hook'\<rparr>
             in if r \<noteq> 0 then Some ((-1, bit_no), sp1, w1)
                else case sp_configure_init K w1 of
                       None \<Rightarrow> None
                     | Some (r, w2) \<Rightarrow>
                         if r \<noteq> 0 then Some ((-1, bit_no), sp1, w2)
                         else Some ((0, bit_no),
                                    sp1\<lparr>transmitQueue := createQueue 10 tmem,
                                        receiveQueue := createQueue 10 rmem\<rparr>, w2))"

section \<open>Moving bytes\<close>

text \<open>A failed read returns \<open>-1\<close>, which the return type \<open>bool\<close> turns into \<open>true\<close>.\<close>

definition sp_check_write :: "'w kernel \<Rightarrow> 'w \<Rightarrow> bool \<times> 'w" where
  "sp_check_write K w =
     (case sys_inb K (SP_COM + SP_LSR) w of
        (r, lsr, w1) \<Rightarrow>
          if r \<noteq> 0 then (True, w1)
          else (has lsr SP_TRANSMITTER_HOLDING_EMPTY \<and> NOT (lsr AND SP_RECEIVER) \<noteq> 0, w1))"

definition sp_check_read :: "'w kernel \<Rightarrow> 'w \<Rightarrow> bool \<times> 'w" where
  "sp_check_read K w =
     (case sys_inb K (SP_COM + SP_LSR) w of
        (r, lsr, w1) \<Rightarrow> if r \<noteq> 0 then (False, w1) else (has lsr SP_RECEIVER, w1))"

definition sp_write :: "'w kernel \<Rightarrow> SerialPort \<Rightarrow> 'w \<Rightarrow> int \<times> SerialPort \<times> 'w" where
  "sp_write K sp w =
     (if \<not> queueIsEmpty (transmitQueue sp) then
        (case sp_check_write K w of
           (ready, w1) \<Rightarrow>
             if ready then
               (case removeFromQueue (transmitQueue sp) of
                  (data, tq) \<Rightarrow>
                    case sys_outb K (SP_COM + SP_THR) (ucast data) w1 of
                      (r, w2) \<Rightarrow> (if r \<noteq> 0 then -1 else 0, sp\<lparr>transmitQueue := tq\<rparr>, w2))
             else (-1, sp, w1))
      else (-1, sp, w))"

definition sp_read :: "'w kernel \<Rightarrow> SerialPort \<Rightarrow> 'w \<Rightarrow> int \<times> SerialPort \<times> 'w" where
  "sp_read K sp w =
     (case sp_check_read K w of
        (ready, w1) \<Rightarrow>
          if ready then
            (case sys_inb K (SP_COM + SP_RBR) w1 of
               (r, rbr, w2) \<Rightarrow>
                 if r \<noteq> 0 then (-1, sp, w2)
                 else (0, sp\<lparr>receiveQueue := addToQueue (receiveQueue sp) (ucast rbr)\<rparr>, w2))
          else (-1, sp, w1))"

definition sp_ih :: "'w kernel \<Rightarrow> SerialPort \<Rightarrow> 'w \<Rightarrow> u8 \<times> SerialPort \<times> 'w" where
  "sp_ih K sp w =
     (case sys_inb K (SP_COM + SP_IIR) w of
        (r, interruptType, w1) \<Rightarrow>
          if r \<noteq> 0 then (0, sp, w1)
          else if has interruptType SP_NO_PENDING_INTERRUPT then (0, sp, w1)
          else if has interruptType SP_RECEIVED_DATA then
            (case sp_read K sp w1 of (_, sp', w2) \<Rightarrow> (0, sp', w2))
          else if has interruptType SP_TRANSMITTER_HOLDING then
            (case sp_write K sp w1 of (_, sp', w2) \<Rightarrow> (0, sp', w2))
          else (0, sp, w1))"

definition readFromQueue :: "SerialPort \<Rightarrow> u8 \<times> SerialPort" where
  "readFromQueue sp =
     (if \<not> queueIsEmpty (receiveQueue sp)
      then (case removeFromQueue (receiveQueue sp) of (data, rq) \<Rightarrow> (data, sp\<lparr>receiveQueue := rq\<rparr>))
      else (0x00, sp))"

definition addToTransmitQueue :: "u8 \<Rightarrow> SerialPort \<Rightarrow> SerialPort" where
  "addToTransmitQueue data sp =
     (if \<not> queueIsFull (transmitQueue sp)
      then sp\<lparr>transmitQueue := addToQueue (transmitQueue sp) data\<rparr>
      else sp)"

section \<open>Draining loops\<close>

text \<open>
  How long these loops run is up to the device, so they may not return. The argument of
  \<^const>\<open>tickdelay\<close> is in microseconds (\<open>micros_to_ticks\<close> is part of the kernel side).
\<close>

partial_function (option) sp_clear_device ::
  "'w kernel \<Rightarrow> SerialPort \<Rightarrow> 'w \<Rightarrow> (SerialPort \<times> 'w) option" where
  "sp_clear_device K sp w =
     (case sp_check_read K w of
        (ready, w1) \<Rightarrow>
          if ready then
            (case sp_read K sp w1 of
               (r, sp', w2) \<Rightarrow> sp_clear_device K sp' (tickdelay K 30000 w2))
          else Some (sp, w1))"

function empty_queue :: "Queue \<Rightarrow> Queue" where
  "empty_queue q = (if \<not> queueIsEmpty q then empty_queue (snd (removeFromQueue q)) else q)"
  by pat_completeness auto
termination
  by (relation "measure (\<lambda>q. unat (q_size q))")
    (auto simp: queueIsEmpty_def removeFromQueue_def Let_def unat_minus_one unat_gt_0)

declare empty_queue.simps [simp del]

definition sp_clear :: "'w kernel \<Rightarrow> SerialPort \<Rightarrow> 'w \<Rightarrow> (SerialPort \<times> 'w) option" where
  "sp_clear K sp w =
     (case sp_clear_device K sp w of
        None \<Rightarrow> None
      | Some (sp', w') \<Rightarrow> Some (sp'\<lparr>receiveQueue := empty_queue (receiveQueue sp')\<rparr>, w'))"

partial_function (option) sp_flush ::
  "'w kernel \<Rightarrow> SerialPort \<Rightarrow> 'w \<Rightarrow> (SerialPort \<times> 'w) option" where
  "sp_flush K sp w =
     (if \<not> queueIsEmpty (transmitQueue sp)
      then (case sp_write K sp w of (r, sp', w') \<Rightarrow> sp_flush K sp' w')
      else Some (sp, w))"

definition sp_unsubscribe_int :: "'w kernel \<Rightarrow> SerialPort \<Rightarrow> 'w \<Rightarrow> (int \<times> SerialPort \<times> 'w) option" where
  "sp_unsubscribe_int K sp w =
     (case sp_configure_end K w of
        (r, w1) \<Rightarrow> if r \<noteq> 0 then Some (-1, sp, w1) else
       (case sys_irqrmpolicy K (hook_id_sp sp) w1 of
          (r, w2) \<Rightarrow> if r \<noteq> 0 then Some (-1, sp, w2) else
         (case sp_clear K sp w2 of
            None \<Rightarrow> None
          | Some (sp1, w3) \<Rightarrow>
              (case sp_flush K sp1 w3 of
                 None \<Rightarrow> None
               | Some (sp2, w4) \<Rightarrow> Some (0, sp2, w4)))))"

partial_function (option) sp_emptyTransmitQueue ::
  "'w kernel \<Rightarrow> SerialPort \<Rightarrow> 'w \<Rightarrow> (SerialPort \<times> 'w) option" where
  "sp_emptyTransmitQueue K sp w =
     (if queueIsEmpty (transmitQueue sp) then
        (case sp_check_write K w of
           (ready, w1) \<Rightarrow>
             if ready
             then (case sp_write K sp w1 of (r, sp', w2) \<Rightarrow> sp_emptyTransmitQueue K sp' w2)
             else sp_emptyTransmitQueue K sp w1)
      else Some (sp, w))"

section \<open>The driver's invariant\<close>

text \<open>Both queues are well formed and have the capacity the subscription gives them.\<close>

definition sp_invar :: "SerialPort \<Rightarrow> bool" where
  "sp_invar sp \<longleftrightarrow>
     q_invar (transmitQueue sp) \<and> q_room (transmitQueue sp) = 10 \<and>
     q_invar (receiveQueue sp) \<and> q_room (receiveQueue sp) = 10"

definition to_send :: "SerialPort \<Rightarrow> u8 list" where
  "to_send sp = q_contents (transmitQueue sp)"

definition received :: "SerialPort \<Rightarrow> u8 list" where
  "received sp = q_contents (receiveQueue sp)"

lemma room_add [simp]: "q_room (addToQueue q x) = q_room q"
  by (simp add: q_room_def)

lemma room_remove [simp]: "q_room (snd (removeFromQueue q)) = q_room q"
  by (simp add: q_room_def)

lemma createQueue_10:
  "length mem = 10 \<Longrightarrow> q_invar (createQueue 10 mem) \<and> q_contents (createQueue 10 mem) = [] \<and>
   q_room (createQueue 10 mem) = 10"
  using createQueue_invar [of 10 mem] by (simp add: q_room_def createQueue_def)

lemma readFromQueue_eq:
  assumes "sp_invar sp"
  shows "fst (readFromQueue sp) = (case received sp of [] \<Rightarrow> 0 | x # _ \<Rightarrow> x)"
    "received (snd (readFromQueue sp)) = tl (received sp)"
    "to_send (snd (readFromQueue sp)) = to_send sp" "sp_invar (snd (readFromQueue sp))"
proof -
  let ?q = "receiveQueue sp"
  have q: "q_invar ?q" using assms by (simp add: sp_invar_def)
  have "fst (readFromQueue sp) = (case received sp of [] \<Rightarrow> 0 | x # _ \<Rightarrow> x) \<and>
    received (snd (readFromQueue sp)) = tl (received sp) \<and>
    to_send (snd (readFromQueue sp)) = to_send sp \<and> sp_invar (snd (readFromQueue sp))"
  proof (cases "queueIsEmpty ?q")
    case True
    then show ?thesis using assms
      by (simp add: readFromQueue_def received_def) (simp add: q_empty_iff)
  next
    case False
    then show ?thesis using assms q
      by (simp add: readFromQueue_def received_def to_send_def sp_invar_def case_prod_beta
          removeFromQueue_invar removeFromQueue_contents)
  qed
  then show "fst (readFromQueue sp) = (case received sp of [] \<Rightarrow> 0 | x # _ \<Rightarrow> x)"
    "received (snd (readFromQueue sp)) = tl (received sp)"
    "to_send (snd (readFromQueue sp)) = to_send sp" "sp_invar (snd (readFromQueue sp))" by simp_all
qed

lemma addToTransmitQueue_eq:
  assumes "sp_invar sp"
  shows "to_send (addToTransmitQueue x sp) =
      (if length (to_send sp) < 10 then to_send sp @ [x] else to_send sp)"
    "received (addToTransmitQueue x sp) = received sp" "sp_invar (addToTransmitQueue x sp)"
  using assms addToQueue_contents [of "transmitQueue sp" x] addToQueue_invar [of "transmitQueue sp" x]
  by (auto simp: addToTransmitQueue_def to_send_def received_def sp_invar_def q_full_iff q_room_def)

lemma sp_read_invar: "sp_invar sp \<Longrightarrow> sp_invar (fst (snd (sp_read K sp w)))"
  by (simp add: sp_read_def sp_invar_def addToQueue_invar split: prod.split)

lemma sp_write_invar: "sp_invar sp \<Longrightarrow> sp_invar (fst (snd (sp_write K sp w)))"
  by (simp add: sp_write_def sp_invar_def case_prod_beta removeFromQueue_invar)

lemma sp_ih_invar: "sp_invar sp \<Longrightarrow> sp_invar (fst (snd (sp_ih K sp w)))"
  using sp_read_invar [of sp K] sp_write_invar [of sp K]
  by (auto simp: sp_ih_def split: prod.split) (metis fst_conv snd_conv)+

lemma empty_queue_eq:
  "q_invar q \<Longrightarrow> q_invar (empty_queue q) \<and> q_contents (empty_queue q) = [] \<and> q_room (empty_queue q) = q_room q"
proof (induction q rule: empty_queue.induct)
  case (1 q)
  then show ?case
    using removeFromQueue_invar [of q]
    by (cases "queueIsEmpty q") (auto simp: empty_queue.simps [of q] q_empty_iff)
qed

section \<open>What is assumed of the device\<close>

text \<open>
  A UART with \<open>pending\<close> bytes waiting and no further ones arriving: reading the line
  status succeeds, shows bit 0 exactly when a byte waits and consumes nothing; reading
  the receiver buffer takes one; waiting adds none.
\<close>

definition quiet_uart :: "'w kernel \<Rightarrow> ('w \<Rightarrow> nat) \<Rightarrow> bool" where
  "quiet_uart K pending \<longleftrightarrow>
     (\<forall>w r v w'. sys_inb K (SP_COM + SP_LSR) w = (r, v, w') \<longrightarrow>
        r = 0 \<and> (bit v 0 \<longleftrightarrow> 0 < pending w) \<and> pending w' = pending w) \<and>
     (\<forall>w r v w'. sys_inb K (SP_COM + SP_RBR) w = (r, v, w') \<longrightarrow> pending w' = pending w - 1) \<and>
     (\<forall>w us. pending (tickdelay K us w) \<le> pending w)"

text \<open>
  A UART whose transmitter is free: the line status shows bit 5 and reading it has no
  effect, and storing a byte in the holding register sends it (\<open>send\<close>).
\<close>

definition ready_uart :: "'w kernel \<Rightarrow> (u8 \<Rightarrow> 'w \<Rightarrow> 'w) \<Rightarrow> bool" where
  "ready_uart K send \<longleftrightarrow>
     (\<forall>w. \<exists>v. sys_inb K (SP_COM + SP_LSR) w = (0, v, w) \<and> bit v 5) \<and>
     (\<forall>w x. sys_outb K (SP_COM + SP_THR) (ucast x) w = (0, send x w))"

lemma vacuous_guard: "NOT (lsr AND SP_RECEIVER) \<noteq> 0"
proof
  assume "NOT (lsr AND SP_RECEIVER) = 0"
  then have "bit (NOT (lsr AND SP_RECEIVER)) 1 = False" by simp
  then show False by (simp add: SP_RECEIVER_def BIT_def bit_simps)
qed

lemmas vacuous = vacuous_guard vacuous_guard [simplified]

lemma sp_write_ready:
  assumes "ready_uart K send" and "sp_invar sp" and "to_send sp = x # xs"
  shows "\<exists>sp'. sp_write K sp w = (0, sp', send x w) \<and> sp_invar sp' \<and> to_send sp' = xs \<and>
           received sp' = received sp"
proof -
  let ?q = "transmitQueue sp"
  have q: "q_invar ?q" and ne: "\<not> queueIsEmpty ?q" and c: "q_contents ?q = x # xs"
    using assms(2,3) by (auto simp: sp_invar_def to_send_def q_empty_iff)
  obtain v where v: "sys_inb K (SP_COM + SP_LSR) w = (0, v, w)" "bit v 5"
    using assms(1) unfolding ready_uart_def by blast
  have "sp_check_write K w = (True, w)"
    using v by (simp add: sp_check_write_def vacuous SP_TRANSMITTER_HOLDING_EMPTY_def has_BIT)
  then have "sp_write K sp w = (0, sp\<lparr>transmitQueue := snd (removeFromQueue ?q)\<rparr>, send x w)"
    using ne assms(1) removeFromQueue_contents(2) [OF q] c
    by (simp add: sp_write_def case_prod_beta ready_uart_def)
  then show ?thesis
    using assms(2) removeFromQueue_contents(1) [OF q] removeFromQueue_invar [OF q] c
    by (simp add: sp_invar_def to_send_def received_def)
qed

lemma sp_flush_sends:
  assumes "ready_uart K send"
  shows "sp_invar sp \<Longrightarrow> \<exists>sp'. sp_flush K sp w = Some (sp', fold send (to_send sp) w) \<and>
    sp_invar sp' \<and> to_send sp' = [] \<and> received sp' = received sp"
proof (induction "to_send sp" arbitrary: sp w)
  case Nil
  then show ?case
    by (auto simp: sp_flush.simps [of K sp] q_empty_iff to_send_def)
next
  case (Cons x xs)
  obtain sp1 where w: "sp_write K sp w = (0, sp1, send x w)" and i: "sp_invar sp1"
    and t: "to_send sp1 = xs" and r: "received sp1 = received sp"
    using sp_write_ready [OF assms Cons.prems Cons.hyps(2) [symmetric]] by blast
  have "\<not> queueIsEmpty (transmitQueue sp)"
    using Cons.hyps(2) by (auto simp: q_empty_iff to_send_def)
  then have "sp_flush K sp w = sp_flush K sp1 (send x w)"
    by (simp add: sp_flush.simps [of K sp] w)
  with Cons.hyps(1) [OF t [symmetric] i, of "send x w"] show ?case
    using Cons.hyps(2) [symmetric] t r by simp
qed

lemma sp_clear_device_stops:
  assumes "quiet_uart K pending"
  shows "sp_invar sp \<Longrightarrow> \<exists>sp' w'. sp_clear_device K sp w = Some (sp', w') \<and> sp_invar sp' \<and>
    pending w' = 0 \<and> to_send sp' = to_send sp"
proof (induction "pending w" arbitrary: sp w rule: less_induct)
  case less
  obtain r v w1 where l: "sys_inb K (SP_COM + SP_LSR) w = (r, v, w1)" by (cases rule: prod_cases3)
  with assms have v: "r = 0" "bit v 0 \<longleftrightarrow> 0 < pending w" "pending w1 = pending w"
    unfolding quiet_uart_def by blast+
  have c: "sp_check_read K w = (bit v 0, w1)"
    using l v(1) by (simp add: sp_check_read_def SP_RECEIVER_def has_BIT)
  show ?case
  proof (cases "pending w = 0")
    case True
    with c v less.prems show ?thesis by (simp add: sp_clear_device.simps [of K sp w])
  next
    case False
    obtain r2 v2 w2 where l2: "sys_inb K (SP_COM + SP_LSR) w1 = (r2, v2, w2)"
      by (cases rule: prod_cases3)
    with assms have v2: "r2 = 0" "bit v2 0 \<longleftrightarrow> 0 < pending w1" "pending w2 = pending w1"
      unfolding quiet_uart_def by blast+
    obtain r3 v3 w3 where l3: "sys_inb K (SP_COM + SP_RBR) w2 = (r3, v3, w3)"
      by (cases rule: prod_cases3)
    with assms have v3: "pending w3 = pending w2 - 1"
      unfolding quiet_uart_def by blast
    have "sp_read K sp w1 = (if r3 \<noteq> 0 then (-1, sp, w3)
        else (0, sp\<lparr>receiveQueue := addToQueue (receiveQueue sp) (ucast v3)\<rparr>, w3))"
      using False v v2 l2 l3 by (simp add: sp_read_def sp_check_read_def SP_RECEIVER_def has_BIT)
    then obtain r4 sp' where rd: "sp_read K sp w1 = (r4, sp', w3)" and t: "to_send sp' = to_send sp"
      by (cases "r3 = 0") (simp_all add: to_send_def)
    have "pending (tickdelay K 30000 w3) \<le> pending w3"
      using assms unfolding quiet_uart_def by blast
    with False v v2 v3 have "pending (tickdelay K 30000 w3) < pending w" by simp
    moreover have "sp_invar sp'" using sp_read_invar [OF less.prems, of K w1] by (simp add: rd)
    ultimately obtain sp'' w' where "sp_clear_device K sp' (tickdelay K 30000 w3) = Some (sp'', w')"
      "sp_invar sp''" "pending w' = 0" "to_send sp'' = to_send sp'"
      using less.hyps by blast
    then show ?thesis
      using False v c t by (simp add: sp_clear_device.simps [of K sp w] rd)
  qed
qed

section \<open>Properties\<close>

text \<open>C16: With a free transmitter, the closing loop of sp_unsubscribe_int terminates and sends
  exactly the waiting bytes, each once and in the order they were queued; nothing is left
  in the transmit queue and the receive queue is untouched.\<close>
theorem sp_flush_sends_all:
  assumes "ready_uart K send" and "sp_invar sp"
  shows "\<exists>sp'. sp_flush K sp w = Some (sp', fold send (to_send sp) w) \<and>
    sp_invar sp' \<and> to_send sp' = [] \<and> received sp' = received sp"
  by (rule sp_flush_sends [OF assms])

text \<open>A kernel for concrete runs: the line status is constant and port writes are logged.\<close>

definition log_kernel :: "u32 \<Rightarrow> (nat \<times> u32) list kernel" where
  "log_kernel status =
     \<lparr>sys_inb = (\<lambda>port w. (0, status, w)), sys_outb = (\<lambda>port v w. (0, w @ [(port, v)])),
      tickdelay = (\<lambda>us w. w), sys_irqsetpolicy = (\<lambda>irq p h w. (0, h, w)),
      sys_irqrmpolicy = (\<lambda>h w. (0, w))\<rparr>"

definition fresh_sp :: SerialPort where
  "fresh_sp = \<lparr>hook_id_sp = 4, transmitQueue = createQueue 10 (replicate 10 0),
              receiveQueue = createQueue 10 (replicate 10 0)\<rparr>"

lemma fresh_sp_invar: "sp_invar fresh_sp" "to_send fresh_sp = []" "received fresh_sp = []"
  using createQueue_10 [of "replicate 10 0"]
  by (simp_all add: sp_invar_def fresh_sp_def to_send_def received_def)

lemma log_kernel_ready:
  "bit status 5 \<Longrightarrow> ready_uart (log_kernel status) (\<lambda>x w. w @ [(SP_COM + SP_THR, ucast x)])"
  by (simp add: ready_uart_def log_kernel_def)

theorem sp_flush_sends_all_witness:
  "\<exists>sp'. sp_flush (log_kernel 0x60) (addToTransmitQueue 7 (addToTransmitQueue 9 fresh_sp)) [] =
     Some (sp', [(0x3F8, 9), (0x3F8, 7)])"
proof -
  let ?sp = "addToTransmitQueue 7 (addToTransmitQueue 9 fresh_sp)"
  have "sp_invar ?sp" and "to_send ?sp = [9, 7]"
    using addToTransmitQueue_eq fresh_sp_invar by simp_all
  moreover have "ready_uart (log_kernel 0x60) (\<lambda>x w. w @ [(SP_COM + SP_THR, ucast x)])"
    by (rule log_kernel_ready) simp
  ultimately show ?thesis
    using sp_flush_sends_all [of "log_kernel 0x60" "\<lambda>x w. w @ [(SP_COM + SP_THR, ucast x)]" ?sp "[]"]
    by (auto simp: SP_COM_def SP_THR_def)
qed

text \<open>C17: sp_clear terminates on a device that delivers no new bytes, leaves no byte waiting in
  the device and an empty receive queue, and keeps what is queued for sending.\<close>
theorem sp_clear_empties:
  assumes "quiet_uart K pending" and "sp_invar sp"
  shows "\<exists>sp' w'. sp_clear K sp w = Some (sp', w') \<and> pending w' = 0 \<and>
    received sp' = [] \<and> to_send sp' = to_send sp \<and> sp_invar sp'"
proof -
  obtain sp' w' where c: "sp_clear_device K sp w = Some (sp', w')" and i: "sp_invar sp'"
    and p: "pending w' = 0" "to_send sp' = to_send sp"
    using sp_clear_device_stops [OF assms] by blast
  from i have "q_invar (receiveQueue sp')" by (simp add: sp_invar_def)
  with empty_queue_eq [of "receiveQueue sp'"] c i p show ?thesis
    by (simp add: sp_clear_def sp_invar_def received_def to_send_def)
qed

text \<open>A device holding a number of waiting bytes.\<close>

definition count_kernel :: "nat kernel" where
  "count_kernel =
     \<lparr>sys_inb = (\<lambda>port n. if port = SP_COM + SP_LSR then (0, if 0 < n then 0x61 else 0x60, n)
                         else (0, 0xF9, n - 1)),
      sys_outb = (\<lambda>port v n. (0, n)), tickdelay = (\<lambda>us n. n),
      sys_irqsetpolicy = (\<lambda>irq p h w. (0, h, w)), sys_irqrmpolicy = (\<lambda>h w. (0, w))\<rparr>"

theorem sp_clear_empties_witness:
  "\<exists>sp'. sp_clear count_kernel fresh_sp 25 = Some (sp', 0) \<and> received sp' = []"
proof -
  have "quiet_uart count_kernel (\<lambda>n. n)"
    by (auto simp: quiet_uart_def count_kernel_def SP_COM_def SP_LSR_def SP_RBR_def)
  from sp_clear_empties [OF this fresh_sp_invar(1), of 25] show ?thesis by auto
qed

text \<open>The loop of sp_emptyTransmitQueue, run after a win so that the winning move is surely
  sent, tests the wrong way round: with bytes still waiting it returns at once and sends
  nothing, and with an empty queue it never returns.\<close>
lemma sp_emptyTransmitQueue_inverted:
  assumes "sp_invar sp"
  shows "(to_send sp \<noteq> [] \<longrightarrow> sp_emptyTransmitQueue K sp w = Some (sp, w)) \<and>
         (to_send sp = [] \<longrightarrow> sp_emptyTransmitQueue K sp w = None)"
proof (intro conjI impI)
  assume "to_send sp \<noteq> []"
  then show "sp_emptyTransmitQueue K sp w = Some (sp, w)"
    by (simp add: sp_emptyTransmitQueue.simps [of K sp] to_send_def q_empty_iff)
next
  assume "to_send sp = []"
  then have e: "queueIsEmpty (transmitQueue sp)" by (simp add: to_send_def q_empty_iff)
  have "sp_emptyTransmitQueue K sp w \<noteq> Some r" for r
  proof
    assume ret: "sp_emptyTransmitQueue K sp w = Some r"
    have "queueIsEmpty (transmitQueue sp) \<longrightarrow> False"
    proof (rule sp_emptyTransmitQueue.raw_induct
        [where P = "\<lambda>K sp w r. queueIsEmpty (transmitQueue sp) \<longrightarrow> False", OF _ ret])
      fix f K' sp' w' r
      assume IH: "\<And>K sp w r. f K sp w = Some r \<Longrightarrow> queueIsEmpty (transmitQueue sp) \<longrightarrow> False"
        and eq: "(if queueIsEmpty (transmitQueue sp') then
          case sp_check_write K' w' of (ready, w1) \<Rightarrow>
            if ready then case sp_write K' sp' w1 of (r, sp'', w2) \<Rightarrow> f K' sp'' w2
            else f K' sp' w1
          else Some (sp', w')) = Some r"
      show "queueIsEmpty (transmitQueue sp') \<longrightarrow> False"
      proof
        assume e': "queueIsEmpty (transmitQueue sp')"
        then have "sp_write K' sp' w1 = (-1, sp', w1)" for w1 by (simp add: sp_write_def)
        obtain ready w1 where c: "sp_check_write K' w' = (ready, w1)" by force
        have "f K' sp' w1 = Some r"
          using eq e' \<open>\<And>w1. sp_write K' sp' w1 = (-1, sp', w1)\<close> by (simp add: c split: if_splits)
        with IH e' show False by blast
      qed
    qed
    with e show False by simp
  qed
  then show "sp_emptyTransmitQueue K sp w = None" by (metis not_None_eq)
qed

lemma sp_emptyTransmitQueue_inverted_example:
  "sp_emptyTransmitQueue (log_kernel 0x60) (addToTransmitQueue 7 fresh_sp) [] =
     Some (addToTransmitQueue 7 fresh_sp, []) \<and>
   sp_emptyTransmitQueue (log_kernel 0x60) fresh_sp [] = None"
  using sp_emptyTransmitQueue_inverted [OF fresh_sp_invar(1), of "log_kernel 0x60" "[]"]
    sp_emptyTransmitQueue_inverted [of "addToTransmitQueue 7 fresh_sp" "log_kernel 0x60" "[]"]
    addToTransmitQueue_eq [OF fresh_sp_invar(1), of 7] fresh_sp_invar(2) by simp

text \<open>On a UART whose ports always answer, sp_set_bitrate programs the divisor latch with
  the integer quotient 115200 div bitrate, low byte in DLL and high byte in DLM, between
  setting and clearing the divisor-latch bit of the line control register.\<close>
lemma sp_set_bitrate_divisor:
  assumes "\<And>p w. sys_inb K p w = (0, rd p w, w)" and "\<And>p v w. sys_outb K p v w = (0, wr p v w)"
    and "2 \<le> bitrate"
  shows "\<exists>(lsb :: u8) (msb :: u8). uint lsb + 256 * uint msb = 115200 div bitrate \<and>
    sp_set_bitrate K bitrate w =
      Some (0, let w1 = wr (SP_COM + SP_LCR) (rd (SP_COM + SP_LCR) w OR 0x80) w;
                   w2 = wr (SP_COM + SP_DLL) (ucast lsb) w1;
                   w3 = wr (SP_COM + SP_DLM) (ucast msb) w2
               in wr (SP_COM + SP_LCR) (rd (SP_COM + SP_LCR) w3 AND NOT 0x80) w3)"
proof -
  have q: "c_div 115200 bitrate = Some (115200 div bitrate)"
    using assms(3) by (simp add: c_div_def)
  define d where "d = nat (115200 div bitrate)"
  have "115200 div bitrate \<le> 115200 div 2"
    using assms(3) by (intro zdiv_mono2) simp_all
  then have d: "115200 div bitrate = int d" "d < 65536"
    using assms(3) by (simp_all add: d_def pos_imp_zdiv_nonneg_iff)
  let ?u = "u16_of (int d)"
  have u: "unat ?u = d"
    using d(2) by (simp add: u16_of_nat unat_of_nat_small)
  let ?l = "snd (util_get_LSB ?u)" and ?h = "snd (util_get_MSB ?u)"
  have "int (unat ?l + 256 * unat ?h) = int d"
    by (simp only: util_LSB_unat util_MSB_unat u) simp
  then have "uint ?l + 256 * uint ?h = 115200 div bitrate"
    by (simp add: d(1))
  moreover have "SP_DLAB = 0x80" by (simp add: SP_DLAB_def BIT_def)
  then have "sp_set_bitrate K bitrate w =
      Some (0, let w1 = wr (SP_COM + SP_LCR) (rd (SP_COM + SP_LCR) w OR 0x80) w;
                   w2 = wr (SP_COM + SP_DLL) (ucast ?l) w1;
                   w3 = wr (SP_COM + SP_DLM) (ucast ?h) w2
               in wr (SP_COM + SP_LCR) (rd (SP_COM + SP_LCR) w3 AND NOT 0x80) w3)"
    by (simp add: sp_set_bitrate_def q d(1) assms(1,2) Let_def)
  ultimately show ?thesis by blast
qed

lemma sp_set_bitrate_divisor_example:
  "\<exists>(lsb :: u8) (msb :: u8). uint lsb + 256 * uint msb = 300 \<and>
     sp_set_bitrate (log_kernel 3) 384 [] =
       Some (0, [(0x3FB, 0x83), (0x3F8, ucast lsb), (0x3F9, ucast msb), (0x3FB, 3)])"
proof -
  obtain lsb :: u8 and msb :: u8 where "uint lsb + 256 * uint msb = 115200 div 384"
    and "sp_set_bitrate (log_kernel 3) 384 [] =
      Some (0, let w1 = [] @ [(SP_COM + SP_LCR, 3 OR 0x80)];
                   w2 = w1 @ [(SP_COM + SP_DLL, ucast lsb)];
                   w3 = w2 @ [(SP_COM + SP_DLM, ucast msb)]
               in w3 @ [(SP_COM + SP_LCR, 3 AND NOT 0x80)])"
    using sp_set_bitrate_divisor [of "log_kernel 3" "\<lambda>p w. 3" "\<lambda>p v w. w @ [(p, v)]" 384 "[]"]
    by (auto simp: log_kernel_def)
  then have "uint lsb + 256 * uint msb = 300 \<and> sp_set_bitrate (log_kernel 3) 384 [] =
      Some (0, [(0x3FB, 0x83), (0x3F8, ucast lsb), (0x3F9, ucast msb), (0x3FB, 3)])"
    by (simp add: SP_COM_def SP_LCR_def SP_DLL_def SP_DLM_def Let_def)
  then show ?thesis by blast
qed

text \<open>The word length is misconfigured: SP_8BITS combines its two bits with a bitwise and, so
  it is 0 rather than 3, and sp_set_number_of_bits_per_char writes a line control value
  whose word-length field is 0 (five data bits on a 16550) for the intended eight.\<close>
lemma sp_word_length_is_five_bits:
  assumes "sys_inb K (SP_COM + SP_LCR) w = (0, lcr, w1)"
  shows "SP_8BITS = 0 \<and>
    (\<exists>v. v AND 3 = 0 \<and>
       sp_set_number_of_bits_per_char K SP_8BITS w =
         (case sys_outb K (SP_COM + SP_LCR) v w1 of (r, w2) \<Rightarrow> (if r \<noteq> 0 then 1 else 0, w2)))"
proof -
  have z: "SP_8BITS = 0" by (simp add: SP_8BITS_def BIT_def)
  have "(lcr AND 0xFC) AND 3 = 0"
    by (simp add: and.assoc)
  moreover have "sp_set_number_of_bits_per_char K SP_8BITS w =
      (case sys_outb K (SP_COM + SP_LCR) (lcr AND 0xFC) w1 of (r, w2) \<Rightarrow> (if r \<noteq> 0 then 1 else 0, w2))"
    using assms by (simp add: sp_set_number_of_bits_per_char_def z split: prod.split)
  ultimately show ?thesis using z by blast
qed

lemma sp_word_length_is_five_bits_example:
  "\<exists>v. v AND 3 = 0 \<and>
     sp_set_number_of_bits_per_char (log_kernel 0x1B) SP_8BITS [] = (0, [(0x3FB, v)])"
  using sp_word_length_is_five_bits [of "log_kernel 0x1B" "[]" "0x1B" "[]"]
  by (auto simp: log_kernel_def SP_COM_def SP_LCR_def)

text \<open>The second guard of sp_check_write is vacuous: after a successful read of the line
  status the answer is the transmitter-holding bit alone, whether or not a received byte
  waits, and after a failed read the answer is "ready".\<close>
lemma sp_check_write_ignores_receiver:
  assumes "sys_inb K (SP_COM + SP_LSR) w = (r, lsr, w1)"
  shows "sp_check_write K w = (r \<noteq> 0 \<or> bit lsr 5, w1)"
  using assms by (simp add: sp_check_write_def vacuous SP_TRANSMITTER_HOLDING_EMPTY_def has_BIT)

end
