(* ===== verification/EventQueue.thy ===== *)
theory EventQueue
  imports Mouse
begin

text \<open>
  \<open>proj/src/event_queue.c\<close>: the queue between the interrupt handlers and the game. The
  code adds and removes at the same end, so its contract is a bounded stack (locale
  \<open>bounded_lifo\<close>), whatever its name says.
\<close>

section \<open>Events\<close>

datatype EventType = MOUSE | NEW_FRAME | KEYBOARD | NO_EVENT

text \<open>
  The union \<open>EventData\<close> with the member last written; \<open>Indeterminate\<close> is a union no
  member of which was written.
\<close>

datatype EventData = MousePacket packet | ScanCode u8 | Indeterminate

record Event =
  ev_type :: EventType
  ev_data :: EventData

text \<open>
  Reading \<open>data.scanCode\<close>: the first byte of the union, which is the first raw byte of a
  packet when that is the member written. The code reads it for keyboard events only.
\<close>

definition ev_scanCode :: "Event \<Rightarrow> u8" where
  "ev_scanCode e =
     (case ev_data e of ScanCode c \<Rightarrow> c | MousePacket p \<Rightarrow> bytes p ! 0 | Indeterminate \<Rightarrow> 0)"

section \<open>The queue\<close>

record EventQueue =
  eq_size :: u32
  eq_capacity :: u32
  eq_array :: "Event list"

text \<open>\<open>mem\<close> is the block \<open>malloc\<close> returned for the array.\<close>

definition createEventQueue :: "u32 \<Rightarrow> Event list \<Rightarrow> EventQueue" where
  "createEventQueue capacity mem = \<lparr>eq_size = 0, eq_capacity = capacity, eq_array = mem\<rparr>"

definition eventQueueIsFull :: "EventQueue \<Rightarrow> bool" where
  "eventQueueIsFull q \<longleftrightarrow> eq_size q = eq_capacity q"

definition eventQueueIsEmpty :: "EventQueue \<Rightarrow> bool" where
  "eventQueueIsEmpty q \<longleftrightarrow> eq_size q = 0"

definition pushEvent :: "EventQueue \<Rightarrow> Event \<Rightarrow> EventQueue" where
  "pushEvent q event =
     (if eventQueueIsFull q then q
      else q\<lparr>eq_array := (eq_array q)[unat (eq_size q) := event], eq_size := eq_size q + 1\<rparr>)"

definition no_event :: Event where
  "no_event = \<lparr>ev_type = NO_EVENT, ev_data = Indeterminate\<rparr>"

definition popEvent :: "EventQueue \<Rightarrow> Event \<times> EventQueue" where
  "popEvent q =
     (if eventQueueIsEmpty q then (no_event, q)
      else let size = eq_size q - 1 in (eq_array q ! unat size, q\<lparr>eq_size := size\<rparr>))"

section \<open>The contract: a bounded stack\<close>

locale bounded_lifo =
  fixes push :: "'q \<Rightarrow> 'a \<Rightarrow> 'q"
    and pop :: "'q \<Rightarrow> 'a \<times> 'q"
    and stack :: "'q \<Rightarrow> 'a list"
    and room :: "'q \<Rightarrow> nat"
    and invar :: "'q \<Rightarrow> bool"
  assumes push_invar: "invar q \<Longrightarrow> invar (push q x)"
    and pop_invar: "invar q \<Longrightarrow> invar (snd (pop q))"
    and push_room: "room (push q x) = room q"
    and push_stack: "invar q \<Longrightarrow> stack (push q x) =
          (if length (stack q) < room q then x # stack q else stack q)"
    and pop_stack: "invar q \<Longrightarrow> stack (snd (pop q)) = tl (stack q)"
    and pop_value: "invar q \<Longrightarrow> stack q \<noteq> [] \<Longrightarrow> fst (pop q) = hd (stack q)"
begin

text \<open>A burst of pushes that fits ends up reversed on the stack.\<close>

lemma push_all:
  "invar q \<Longrightarrow> length (stack q) + length xs \<le> room q \<Longrightarrow>
   invar (foldl push q xs) \<and> stack (foldl push q xs) = rev xs @ stack q"
proof (induction xs arbitrary: q)
  case (Cons x xs)
  with Cons.IH [OF push_invar [OF Cons.prems(1)]] show ?case
    by (simp add: push_stack push_room)
qed simp

end

section \<open>The array implements it\<close>

definition eq_stack :: "EventQueue \<Rightarrow> Event list" where
  "eq_stack q = rev (take (unat (eq_size q)) (eq_array q))"

definition eq_room :: "EventQueue \<Rightarrow> nat" where
  "eq_room q = unat (eq_capacity q)"

definition eq_invar :: "EventQueue \<Rightarrow> bool" where
  "eq_invar q \<longleftrightarrow> length (eq_array q) = unat (eq_capacity q) \<and> eq_size q \<le> eq_capacity q"

lemma createEventQueue_invar:
  "length mem = unat capacity \<Longrightarrow> eq_invar (createEventQueue capacity mem)"
  "eq_stack (createEventQueue capacity mem) = []"
  by (simp_all add: eq_invar_def eq_stack_def createEventQueue_def)

lemma push_size:
  assumes "eq_invar q" and "\<not> eventQueueIsFull q"
  shows "unat (eq_size q) < unat (eq_capacity q)" "unat (eq_size q + 1) = Suc (unat (eq_size q))"
proof -
  show lt: "unat (eq_size q) < unat (eq_capacity q)"
    using assms by (auto simp: eq_invar_def eventQueueIsFull_def word_le_nat_alt word_unat_eq_iff)
  then have "unat (eq_size q) + 1 < 2 ^ 32"
    using unat_u32_bound [of "eq_capacity q"] by linarith
  then show "unat (eq_size q + 1) = Suc (unat (eq_size q))"
    by (simp add: unat_word_ariths)
qed

lemma pushEvent_invar: "eq_invar q \<Longrightarrow> eq_invar (pushEvent q e)"
  using push_size [of q]
  by (cases "eventQueueIsFull q") (auto simp: eq_invar_def pushEvent_def word_le_nat_alt)

lemma pushEvent_stack:
  assumes "eq_invar q"
  shows "eq_stack (pushEvent q e) =
    (if length (eq_stack q) < eq_room q then e # eq_stack q else eq_stack q)"
proof (cases "eventQueueIsFull q")
  case True
  with assms show ?thesis
    by (simp add: pushEvent_def eq_stack_def eq_room_def eventQueueIsFull_def eq_invar_def)
next
  case False
  with push_size [OF assms False] assms show ?thesis
    by (simp add: pushEvent_def eq_stack_def eq_room_def eq_invar_def take_Suc_conv_app_nth)
qed

lemma pop_size:
  assumes "eq_invar q" and "\<not> eventQueueIsEmpty q"
  shows "unat (eq_size q) = Suc (unat (eq_size q - 1))" "unat (eq_size q - 1) < length (eq_array q)"
proof -
  have "0 < unat (eq_size q)"
    using assms(2) by (simp add: eventQueueIsEmpty_def unat_gt_0)
  moreover have "unat (eq_size q - 1) = unat (eq_size q) - 1"
    using assms(2) by (simp add: eventQueueIsEmpty_def unat_minus_one)
  ultimately show "unat (eq_size q) = Suc (unat (eq_size q - 1))"
    "unat (eq_size q - 1) < length (eq_array q)"
    using assms(1) by (auto simp: eq_invar_def word_le_nat_alt)
qed

lemma popEvent_invar: "eq_invar q \<Longrightarrow> eq_invar (snd (popEvent q))"
  using pop_size [of q]
  by (cases "eventQueueIsEmpty q") (auto simp: eq_invar_def popEvent_def Let_def word_le_nat_alt)

lemma eq_stack_empty_iff: "eq_invar q \<Longrightarrow> eventQueueIsEmpty q \<longleftrightarrow> eq_stack q = []"
  by (auto simp: eq_stack_def eventQueueIsEmpty_def eq_invar_def word_le_nat_alt unat_eq_zero)

lemma popEvent_stack:
  assumes "eq_invar q"
  shows "eq_stack (snd (popEvent q)) = tl (eq_stack q)"
    "eq_stack q \<noteq> [] \<Longrightarrow> fst (popEvent q) = hd (eq_stack q)"
proof -
  have "eq_stack (snd (popEvent q)) = tl (eq_stack q) \<and>
    (eq_stack q \<noteq> [] \<longrightarrow> fst (popEvent q) = hd (eq_stack q))"
  proof (cases "eventQueueIsEmpty q")
    case True
    with eq_stack_empty_iff [OF assms] show ?thesis by (simp add: popEvent_def)
  next
    case False
    with pop_size [OF assms False] show ?thesis
      by (simp add: popEvent_def eq_stack_def Let_def take_Suc_conv_app_nth)
  qed
  then show "eq_stack (snd (popEvent q)) = tl (eq_stack q)"
    "eq_stack q \<noteq> [] \<Longrightarrow> fst (popEvent q) = hd (eq_stack q)" by simp_all
qed

interpretation lifo: bounded_lifo pushEvent popEvent eq_stack eq_room eq_invar
  by unfold_locales
    (simp_all add: pushEvent_invar popEvent_invar pushEvent_stack popEvent_stack,
     simp_all add: pushEvent_def eq_room_def)

text \<open>Popping until the queue is empty, as the main loop does.\<close>

function drain :: "EventQueue \<Rightarrow> Event list" where
  "drain q = (if eventQueueIsEmpty q then []
              else case popEvent q of (e, q') \<Rightarrow> e # drain q')"
  by pat_completeness auto
termination
  by (relation "measure (\<lambda>q. unat (eq_size q))")
    (auto simp: eventQueueIsEmpty_def popEvent_def Let_def unat_minus_one unat_gt_0)

declare drain.simps [simp del]

lemma drain_eq: "eq_invar q \<Longrightarrow> drain q = eq_stack q"
proof (induction q rule: drain.induct)
  case (1 q)
  obtain e q' where p: "popEvent q = (e, q')" by force
  show ?case
  proof (cases "eventQueueIsEmpty q")
    case True
    with eq_stack_empty_iff [OF "1.prems"] show ?thesis by (simp add: drain.simps)
  next
    case False
    have "eq_stack q' = tl (eq_stack q)" "e = hd (eq_stack q)" "eq_stack q \<noteq> []" "eq_invar q'"
      using popEvent_stack [OF "1.prems"] eq_stack_empty_iff [OF "1.prems"] False
        popEvent_invar [OF "1.prems"] by (simp_all add: p)
    with False "1.IH" [OF False p [symmetric]] p show ?thesis
      by (simp add: drain.simps [of q])
  qed
qed

section \<open>Properties\<close>

text \<open>C19: The event queue is a stack: events pushed during one notification (as many as fit)
  are popped in the reverse of their order of arrival, and popEvent returns the most
  recent event, not the first element its documentation promises.\<close>
theorem event_queue_is_lifo:
  assumes "length mem = unat capacity" and "length evs \<le> unat capacity"
  shows "drain (foldl pushEvent (createEventQueue capacity mem) evs) = rev evs \<and>
    (evs \<noteq> [] \<longrightarrow>
       fst (popEvent (foldl pushEvent (createEventQueue capacity mem) evs)) = last evs)"
proof -
  let ?q = "createEventQueue capacity mem"
  have "eq_invar ?q" "eq_stack ?q = []" "eq_room ?q = unat capacity"
    using createEventQueue_invar assms(1) by (simp_all add: eq_room_def createEventQueue_def)
  with lifo.push_all [of ?q evs] assms(2)
  have p: "eq_invar (foldl pushEvent ?q evs)" "eq_stack (foldl pushEvent ?q evs) = rev evs"
    by simp_all
  then show ?thesis
    using drain_eq [OF p(1)] popEvent_stack(2) [OF p(1)] by (simp add: hd_rev)
qed

theorem event_queue_is_lifo_witness:
  "drain (foldl pushEvent (createEventQueue 100 (replicate 100 no_event))
     [\<lparr>ev_type = NEW_FRAME, ev_data = Indeterminate\<rparr>, \<lparr>ev_type = KEYBOARD, ev_data = ScanCode 0x9E\<rparr>])
   = [\<lparr>ev_type = KEYBOARD, ev_data = ScanCode 0x9E\<rparr>, \<lparr>ev_type = NEW_FRAME, ev_data = Indeterminate\<rparr>]"
  using event_queue_is_lifo [of "replicate 100 no_event" 100
    "[\<lparr>ev_type = NEW_FRAME, ev_data = Indeterminate\<rparr>,
      \<lparr>ev_type = KEYBOARD, ev_data = ScanCode 0x9E\<rparr>]"] by simp

text \<open>A full event queue silently drops: once capacity events are waiting, a further push
  changes nothing.\<close>
lemma event_queue_drops_when_full:
  assumes "eq_invar q" and "length (eq_stack q) = unat (eq_capacity q)"
  shows "pushEvent q e = q"
proof -
  have "unat (eq_size q) = unat (eq_capacity q)"
    using assms by (simp add: eq_stack_def eq_invar_def word_le_nat_alt)
  then show ?thesis
    by (simp add: pushEvent_def eventQueueIsFull_def word_unat_eq_iff)
qed

end
