(* ===== verification/Game.thy ===== *)
theory Game
  imports Setup Cursor Letter SerialPort EventQueue
begin

text \<open>
  The game of \<open>proj/src/main.c\<close>: its globals and the statics of its handlers as one
  record, and one definition per handler. A handler takes the event, the game and the
  world and returns both changed; \<open>None\<close> is undefined behaviour of the C program (a null
  or out-of-range access), a panic, or a serial line that never falls silent.
\<close>

section \<open>Constants and types\<close>

definition MAX_NAME_SIZE :: int where "MAX_NAME_SIZE = 8"
definition YOUR_TURN :: u8 where "YOUR_TURN = 0xF8"
definition BEGIN_MESSAGE :: u8 where "BEGIN_MESSAGE = 0xF9"
definition COL_MASK :: u8 where "COL_MASK = 0x38"
definition ROW_MASK :: u8 where "ROW_MASK = 0x07"
definition VM_CONNECTED :: u8 where "VM_CONNECTED = 0xFA"
definition RECEIVE_VM_CONNECTED :: u8 where "RECEIVE_VM_CONNECTED = 0xFD"

record chessMove =
  old_row :: u8
  old_col :: u8
  new_row :: u8
  new_col :: u8

datatype GameState = START | WAITING | PLAYING | CHOOSING_PLAYER | WAIT_CHOOSING_PLAYER | EXIT

datatype Player = NOT_DECIDED | BLACK | WHITE

text \<open>The value of an enumerator as the byte sent for it.\<close>

primrec player_num :: "Player \<Rightarrow> u8" where
  "player_num NOT_DECIDED = 0" | "player_num BLACK = 1" | "player_num WHITE = 2"

section \<open>State\<close>

text \<open>
  What the code calls but does not contain: the kernel, the video BIOS, the XPM decoder,
  and the contents of freshly mapped and freshly allocated memory. The last two fields are
  what a machine does where the C standard leaves the program's behaviour undefined and the
  program goes there all the same: whether a word beside the board array is not null
  (\<open>None\<close> when reading it has no result), and whether \<open>free\<close> returns, leaving the program's
  objects alone, when it is handed a page of video memory that it never allocated.
\<close>

record 'w env =
  e_kernel :: "'w kernel"
  e_video :: "'w video_kernel"
  e_load :: xpm_loader
  e_mapped :: "u32 \<Rightarrow> mem"
  e_fresh :: "nat \<Rightarrow> Piece"
  e_block :: Board
  e_junk :: "int \<Rightarrow> bool option"
  e_free :: bool

text \<open>
  A screen with a background: its picture, whether it was created, and the buffer it is
  drawn in (\<open>None\<close> is the null pointer). \<open>name_choice_ih\<close>, \<open>waiting_ih\<close>, \<open>choosing_ih\<close>
  and \<open>waiting_choosing_ih\<close> each have one among their statics.
\<close>

record Background =
  bg_image :: xpm_image
  bg_created :: bool
  bg_mem :: "mem option"

text \<open>The statics of \<open>playing_ih\<close>.\<close>

record Playing =
  p_move :: chessMove
  p_board :: "Board option"
  p_toggle :: xpm_image
  byteOfMove :: int
  dragging_piece :: "nat option"
  inicialPieceRow :: u32
  inicialPieceCol :: u32

record Game =
  g_state :: GameState
  g_cursor :: Cursor
  g_player :: Player
  g_name :: "u8 list"
  g_animation :: bool
  g_myTurn :: bool
  g_endGame :: bool
  g_won :: bool
  g_letters :: "xpm_image list"
  g_screen :: Screen
  g_video_mem :: mem
  g_buffer :: mem
  g_sp :: SerialPort
  name_size :: int
  name_redraw :: bool
  g_naming :: Background
  g_waiting :: Background
  g_choosing :: Background
  g_player_choosed :: bool
  g_wait_choosing :: Background
  g_playing :: Playing

section \<open>Choosing a name\<close>

text \<open>\<open>name[i] = v\<close> in an array of \<open>MAX_NAME_SIZE + 1\<close> bytes.\<close>

definition set_name :: "int \<Rightarrow> u8 \<Rightarrow> Game \<Rightarrow> Game option" where
  "set_name i v g =
     (if 0 \<le> i \<and> i < int (length (g_name g)) then Some (g\<lparr>g_name := (g_name g)[nat i := v]\<rparr>) else None)"

definition draw_name_screen :: "Game \<Rightarrow> mem \<Rightarrow> mem option" where
  "draw_name_screen g m =
     do {
       m1 \<leftarrow> vg_clear (g_screen g) m;
       m2 \<leftarrow> draw_image (g_screen g) m1 (bg_image (g_naming g)) 95 15;
       draw_name (g_screen g) (g_letters g) m2 (g_name g) 142 312 68
     }"

definition name_screen_setup :: "'w env \<Rightarrow> Game \<Rightarrow> 'w \<Rightarrow> (Game \<times> 'w) option" where
  "name_screen_setup E g w =
     do {
       let g1 = (if \<not> bg_created (g_naming g)
                 then g\<lparr>g_naming := (g_naming g)
                        \<lparr>bg_image := snd (create_image (e_load E) name_choice_xpm (bg_image (g_naming g))),
                         bg_created := True\<rparr>\<rparr>
                 else g);
       if bg_mem (g_naming g1) = None then do {
         (m, s1, w1) \<leftarrow> map_page (e_video E) (e_mapped E) 2 0x115 (g_screen g1) w;
         let g2 = g1\<lparr>g_screen := s1\<rparr>;
         m' \<leftarrow> draw_name_screen g2 m;
         Some (g2\<lparr>g_naming := (g_naming g2)\<lparr>bg_mem := Some m'\<rparr>, name_redraw := False\<rparr>, w1)
       } else Some (g1, w)
     }"

text \<open>
  \<open>free(background_video_mem)\<close>. The null pointer may be freed; any other background is a
  page mapped by \<open>vm_map_phys\<close>.
\<close>

definition free_background :: "'w env \<Rightarrow> mem option \<Rightarrow> unit option" where
  "free_background E m = (if m = None \<or> e_free E then Some () else None)"

text \<open>The keyboard branch. A confirmed name frees the background and clears the pointer.\<close>

definition name_key :: "'w env \<Rightarrow> u8 \<Rightarrow> Game \<Rightarrow> 'w \<Rightarrow> (Game \<times> 'w) option" where
  "name_key E code g w =
     (if code = BACK_SPACE \<and> name_size g > 0 then do {
        let g1 = g\<lparr>name_size := name_size g - 1\<rparr>;
        g2 \<leftarrow> set_name (name_size g1) 0 g1;
        Some (g2, w)
      }
      else if code = ENTER \<and> name_size g > 0 then do {
        g1 \<leftarrow> set_name (name_size g) 0 g;
        (sp1, w1) \<leftarrow> sp_clear (e_kernel E) (g_sp g1) w;
        free_background E (bg_mem (g_naming g1));
        Some (g1\<lparr>g_sp := addToTransmitQueue VM_CONNECTED sp1, g_state := WAITING,
                 g_naming := (g_naming g1)\<lparr>bg_mem := None\<rparr>\<rparr>, w1)
      }
      else if code \<noteq> BACK_SPACE \<and> name_size g < MAX_NAME_SIZE then do {
        g1 \<leftarrow> set_name (name_size g) code g;
        Some (g1\<lparr>name_size := name_size g1 + 1\<rparr>, w)
      }
      else Some (g, w))"

definition name_choice_ih :: "'w env \<Rightarrow> Event \<Rightarrow> Game \<Rightarrow> 'w \<Rightarrow> (Game \<times> 'w) option" where
  "name_choice_ih E event g w =
     do {
       (g1, w1) \<leftarrow> name_screen_setup E g w;
       case ev_type event of
         NEW_FRAME \<Rightarrow> do {
           bg \<leftarrow> bg_mem (g_naming g1);
           g2 \<leftarrow> (if name_redraw g1
                 then do {
                   m \<leftarrow> draw_name_screen g1 bg;
                   Some (g1\<lparr>g_naming := (g_naming g1)\<lparr>bg_mem := Some m\<rparr>, name_redraw := False\<rparr>)
                 }
                 else Some g1);
           bg2 \<leftarrow> bg_mem (g_naming g2);
           v \<leftarrow> copy_buffers (g_screen g2) (g_buffer g2) bg2;
           Some (g2\<lparr>g_buffer := v\<rparr>, w1)
         }
       | KEYBOARD \<Rightarrow>
           (if has (ev_scanCode event) (BIT 7)
            then name_key E (ev_scanCode event) (g1\<lparr>name_redraw := True\<rparr>) w1
            else Some (g1, w1))
       | _ \<Rightarrow> Some (g1, w1)
     }"

section \<open>Waiting for the other player\<close>

text \<open>Mapping page 2, clearing it and drawing a picture into it.\<close>

definition map_background ::
  "'w env \<Rightarrow> xpm_image \<Rightarrow> u16 \<Rightarrow> u16 \<Rightarrow> Game \<Rightarrow> 'w \<Rightarrow> (mem \<times> Game \<times> 'w) option" where
  "map_background E img x y g w =
     do {
       (m, s1, w1) \<leftarrow> map_page (e_video E) (e_mapped E) 2 0x115 (g_screen g) w;
       m1 \<leftarrow> vg_clear s1 m;
       m2 \<leftarrow> draw_image s1 m1 img x y;
       Some (m2, g\<lparr>g_screen := s1\<rparr>, w1)
     }"

definition show_background :: "mem option \<Rightarrow> Game \<Rightarrow> Game option" where
  "show_background bg g =
     do {
       m \<leftarrow> bg;
       v \<leftarrow> copy_buffers (g_screen g) (g_buffer g) m;
       Some (g\<lparr>g_buffer := v\<rparr>)
     }"

definition waiting_ih :: "'w env \<Rightarrow> Event \<Rightarrow> Game \<Rightarrow> 'w \<Rightarrow> (Game \<times> 'w) option" where
  "waiting_ih E event g w =
     do {
       let g1 = (if \<not> bg_created (g_waiting g)
                 then g\<lparr>g_waiting := (g_waiting g)
                        \<lparr>bg_image := snd (create_image (e_load E) waiting_xpm (bg_image (g_waiting g))),
                         bg_created := True\<rparr>\<rparr>
                 else g);
       (g2, w2) \<leftarrow>
         (if bg_mem (g_waiting g1) = None then do {
            (m, g', w') \<leftarrow> map_background E (bg_image (g_waiting g1)) 0 0 g1 w;
            Some (g'\<lparr>g_waiting := (g_waiting g')\<lparr>bg_mem := Some m\<rparr>\<rparr>, w')
          } else Some (g1, w));
       case ev_type event of
         NEW_FRAME \<Rightarrow> do {
           g3 \<leftarrow> show_background (bg_mem (g_waiting g2)) g2;
           let (received_byte, sp1) = readFromQueue (g_sp g3);
           let g4 = g3\<lparr>g_sp := sp1\<rparr>;
           Some
             (if received_byte = VM_CONNECTED
              then g4\<lparr>g_state := CHOOSING_PLAYER, g_sp := addToTransmitQueue RECEIVE_VM_CONNECTED (g_sp g4)\<rparr>
              else if received_byte = RECEIVE_VM_CONNECTED then g4\<lparr>g_state := WAIT_CHOOSING_PLAYER\<rparr>
              else g4, w2)
         }
       | _ \<Rightarrow> Some (g2, w2)
     }"

text \<open>
  \<open>waiting_choosing_ih\<close> maps its background together with creating the picture.
\<close>

definition waiting_choosing_ih :: "'w env \<Rightarrow> Event \<Rightarrow> Game \<Rightarrow> 'w \<Rightarrow> (Game \<times> 'w) option" where
  "waiting_choosing_ih E event g w =
     do {
       (g1, w1) \<leftarrow>
         (if \<not> bg_created (g_wait_choosing g) then do {
            let img = snd (create_image (e_load E) waiting_xpm (bg_image (g_wait_choosing g)));
            (m, g', w') \<leftarrow> map_background E img 0 0 g w;
            Some (g'\<lparr>g_wait_choosing := \<lparr>bg_image = img, bg_created = True, bg_mem = Some m\<rparr>\<rparr>, w')
          } else Some (g, w));
       case ev_type event of
         NEW_FRAME \<Rightarrow> do {
           g2 \<leftarrow> show_background (bg_mem (g_wait_choosing g1)) g1;
           let (r, sp1, w2) = sp_read (e_kernel E) (g_sp g2) w1;
           let (received_byte, sp2) = readFromQueue sp1;
           let g3 = g2\<lparr>g_sp := sp2\<rparr>;
           if received_byte \<noteq> 0 then do {
             free_background E (bg_mem (g_wait_choosing g3));
             Some
               ((if received_byte = player_num WHITE then g3\<lparr>g_myTurn := True, g_player := WHITE\<rparr>
                 else g3\<lparr>g_myTurn := False, g_player := BLACK\<rparr>)
                \<lparr>g_state := PLAYING, g_wait_choosing := (g_wait_choosing g3)\<lparr>bg_mem := None\<rparr>\<rparr>, w2)
           }
           else Some (g3, w2)
         }
       | _ \<Rightarrow> Some (g1, w1)
     }"

section \<open>Choosing a colour\<close>

definition cursorClickPlayer :: "Game \<Rightarrow> bool \<times> Game" where
  "cursorClickPlayer g =
     (let x = unat (cursor_x (g_cursor g)); y = unat (cursor_y (g_cursor g))
      in if (x > 307 \<and> x < 466 \<and> y > 62 \<and> y < 104) \<and> pressed (g_cursor g)
         then (True, g\<lparr>g_player := BLACK\<rparr>)
         else if (x > 307 \<and> x < 466 \<and> y > 517 \<and> y < 558) \<and> pressed (g_cursor g)
         then (True, g\<lparr>g_player := WHITE\<rparr>)
         else (False, g))"

definition choosing_ih :: "'w env \<Rightarrow> Event \<Rightarrow> Game \<Rightarrow> 'w \<Rightarrow> (Game \<times> 'w) option" where
  "choosing_ih E event g w =
     do {
       let g1 = (if \<not> bg_created (g_choosing g)
                 then g\<lparr>g_choosing := (g_choosing g)
                        \<lparr>bg_image := snd (create_image (e_load E) player_choice_xpm (bg_image (g_choosing g))),
                         bg_created := True\<rparr>\<rparr>
                 else g);
       (g2, w2) \<leftarrow>
         (if bg_mem (g_choosing g1) = None then do {
            (m, g', w') \<leftarrow> map_background E (bg_image (g_choosing g1)) 95 15 g1 w;
            Some (g'\<lparr>g_choosing := (g_choosing g')\<lparr>bg_mem := Some m\<rparr>\<rparr>, w')
          } else Some (g1, w));
       case ev_type event of
         NEW_FRAME \<Rightarrow> do {
           g3 \<leftarrow> show_background (bg_mem (g_choosing g2)) g2;
           Some (g3, w2)
         }
       | MOUSE \<Rightarrow>
           (case cursorClickPlayer g2 of
              (clicked, g3) \<Rightarrow>
                if clicked then do {
                  free_background E (bg_mem (g_choosing g3));
                  Some (g3\<lparr>g_player_choosed := True, g_state := PLAYING,
                           g_sp := addToTransmitQueue
                             (player_num (if g_player g3 = WHITE then BLACK else WHITE)) (g_sp g3),
                           g_myTurn := (g_player g3 = WHITE),
                           g_choosing := (g_choosing g3)\<lparr>bg_mem := None\<rparr>\<rparr>, w2)
                }
                else Some (g3, w2))
       | _ \<Rightarrow> Some (g2, w2)
     }"

end
