(* ===== verification/Play.thy ===== *)
theory Play
  imports Game
begin

text \<open>
  The handler of the game proper, \<open>playing_ih\<close> of \<open>proj/src/main.c\<close>, and the dispatcher
  \<open>inputHandler\<close>: receiving the opponent's move byte by byte, picking up, dragging and
  dropping a piece, and sending the move.
\<close>

section \<open>Receiving a move\<close>

definition col_of :: "u8 \<Rightarrow> u8" where
  "col_of b = drop_bit 3 (b AND COL_MASK)"

definition row_of :: "u8 \<Rightarrow> u8" where
  "row_of b = b AND ROW_MASK"

definition index_of :: "u8 \<Rightarrow> u8 \<Rightarrow> int" where
  "index_of row col = uint row * 8 + uint col"

text \<open>
  The second byte of a move: a king on the destination ends the game, the piece is sent on
  its way (a null reference is followed when the origin is empty), and the references move.
\<close>

definition opponent_moves :: "Screen \<Rightarrow> chessMove \<Rightarrow> Board \<Rightarrow> (bool \<times> Board) option" where
  "opponent_moves s mv b =
     do {
       let dst = index_of (new_row mv) (new_col mv);
       let src = index_of (old_row mv) (old_col mv);
       taken \<leftarrow> square_at b dst;
       king \<leftarrow> (case taken of
                None \<Rightarrow> Some False
              | Some ref \<Rightarrow> map_option (\<lambda>p. ptype p = b_king \<or> ptype p = w_king) (piece_of b ref));
       mover \<leftarrow> square_at b src;
       ref \<leftarrow> mover;
       p \<leftarrow> piece_of b ref;
       b1 \<leftarrow> set_piece b ref
         (movePiece p (getScreenX s (uint (new_col mv))) (getScreenY s (uint (new_row mv))));
       b2 \<leftarrow> set_square b1 dst mover;
       b3 \<leftarrow> set_square b2 src None;
       Some (king, b3)
     }"

definition receive_byte :: "u8 \<Rightarrow> Board \<Rightarrow> Game \<Rightarrow> (Board \<times> Game) option" where
  "receive_byte received_byte b g =
     (let P = g_playing g
      in if received_byte = BEGIN_MESSAGE then Some (b, g\<lparr>g_playing := P\<lparr>byteOfMove := 0\<rparr>\<rparr>)
         else if received_byte = YOUR_TURN then Some (b, g\<lparr>g_myTurn := True\<rparr>)
         else if received_byte \<noteq> 0 then
           (if byteOfMove P = 0 then
              Some (b, g\<lparr>g_playing := P\<lparr>p_move := (p_move P)\<lparr>old_col := col_of received_byte,
                                                          old_row := row_of received_byte\<rparr>,
                                      byteOfMove := byteOfMove P + 1\<rparr>\<rparr>)
            else do {
              let mv = (p_move P)\<lparr>new_col := col_of received_byte, new_row := row_of received_byte\<rparr>;
              let g1 = g\<lparr>g_playing := P\<lparr>p_move := mv\<rparr>\<rparr>;
              (king, b1) \<leftarrow> opponent_moves (g_screen g) mv b;
              Some (b1, if king then g1\<lparr>g_won := False, g_state := EXIT\<rparr> else g1)
            })
         else Some (b, g))"

definition playing_frame :: "Board \<Rightarrow> Game \<Rightarrow> (Board \<times> Game) option" where
  "playing_frame b g =
     do {
       b1 \<leftarrow> updateBoard (g_animation g) b;
       (v, b2) \<leftarrow> drawBoardPieces (g_screen g) (g_buffer g) b1;
       v' \<leftarrow> (if g_player g = WHITE
             then draw_name (g_screen g) (g_letters g) v (g_name g) 63 560 20
             else draw_name (g_screen g) (g_letters g) v (g_name g) 63 23 20);
       let g1 = g\<lparr>g_buffer := v'\<rparr>;
       let (received_byte, sp1) = readFromQueue (g_sp g1);
       receive_byte received_byte b2 (g1\<lparr>g_sp := sp1\<rparr>)
     }"

section \<open>Making a move\<close>

text \<open>Picking up a piece under the cursor.\<close>

definition may_press :: "Player \<Rightarrow> PieceType \<Rightarrow> bool" where
  "may_press who t \<longleftrightarrow> type_num t > 5 \<and> who = WHITE \<or> type_num t \<le> 5 \<and> who = BLACK"

definition press :: "'w env \<Rightarrow> Board \<Rightarrow> Game \<Rightarrow> (Board \<times> Game) option" where
  "press E b g =
     (let s = g_screen g; y = getBoardY s (uint (cursor_y (g_cursor g)));
          x = getBoardX s (uint (cursor_x (g_cursor g)))
      in if y \<ge> 0 \<and> y < 8 \<and> x \<ge> 0 \<and> x < 8 then
           do {
             sq \<leftarrow> square_at b (y * 8 + x);
             case sq of
               None \<Rightarrow> Some (b, g)
             | Some ref \<Rightarrow> do {
                 p \<leftarrow> piece_of b ref;
                 if may_press (g_player g) (ptype p) then do {
                   b1 \<leftarrow> set_piece b ref (changePiecePriority p True);
                   let g1 = g\<lparr>g_playing := (g_playing g)\<lparr>dragging_piece := Some ref,
                               inicialPieceCol := u32_of x, inicialPieceRow := u32_of y\<rparr>\<rparr>;
                   p1 \<leftarrow> piece_of b1 ref;
                   (v, b2) \<leftarrow> possiblePosition (e_junk E) s (g_buffer g1) b1 p1
                     (i32_of (inicialPieceCol (g_playing g1))) (i32_of (inicialPieceRow (g_playing g1)));
                   Some (b2, g1\<lparr>g_buffer := v\<rparr>)
                 }
                 else Some (b, g)
               }
           }
         else Some (b, g))"

text \<open>
  The pixel that tells a possible destination: byte offset \<open>3*(getScreenY(y)*get_h_res() +
  getScreenX(x))\<close> of the layer of the squares, computed without sign in 32 bits.
\<close>

definition probe_offset :: "Screen \<Rightarrow> int \<Rightarrow> int \<Rightarrow> u32" where
  "probe_offset s x y = 3 * (u32_of (getScreenY s y) * get_h_res s + u32_of (getScreenX s x))"

definition is_orange :: "Screen \<Rightarrow> mem \<Rightarrow> int \<Rightarrow> int \<Rightarrow> bool option" where
  "is_orange s m x y =
     do {
       bs \<leftarrow> block_bytes m (probe_offset s x y) 3;
       os \<leftarrow> object_bytes orange 3;
       Some (bs = os)
     }"

definition pos_byte :: "u32 \<Rightarrow> u32 \<Rightarrow> u8" where
  "pos_byte col row = ucast (push_bit 3 col OR row)"

definition send_move :: "u8 \<Rightarrow> u8 \<Rightarrow> SerialPort \<Rightarrow> SerialPort" where
  "send_move old_pos new_pos sp =
     addToTransmitQueue YOUR_TURN (addToTransmitQueue new_pos (addToTransmitQueue old_pos
       (addToTransmitQueue BEGIN_MESSAGE sp)))"

text \<open>Putting the dragged piece back on the square it came from.\<close>

definition put_back :: "Screen \<Rightarrow> Playing \<Rightarrow> nat \<Rightarrow> Board \<Rightarrow> Board option" where
  "put_back s P ref b =
     do {
       p \<leftarrow> piece_of b ref;
       set_piece b ref (setPiecePosition p (getScreenX s (i32_of (inicialPieceCol P)))
         (getScreenY s (i32_of (inicialPieceRow P))))
     }"

text \<open>
  The move itself, the same statements in both branches that make one: the piece starts
  from its old square, the references move, the four bytes are queued, the turn is over.
\<close>

definition commit_move :: "nat \<Rightarrow> int \<Rightarrow> int \<Rightarrow> Board \<Rightarrow> Game \<Rightarrow> (Board \<times> Game) option" where
  "commit_move ref x y b g =
     do {
       let s = g_screen g;
       let P = g_playing g;
       b1 \<leftarrow> put_back s P ref b;
       p \<leftarrow> piece_of b1 ref;
       b2 \<leftarrow> set_piece b1 ref (movePiece p (getScreenX s x) (getScreenY s y));
       b3 \<leftarrow> set_square b2 (uint (inicialPieceRow P * 8 + inicialPieceCol P)) None;
       b4 \<leftarrow> set_square b3 (y * 8 + x) (Some ref);
       Some (b4, g\<lparr>g_sp := send_move (pos_byte (inicialPieceCol P) (inicialPieceRow P))
                            (pos_byte (u32_of x) (u32_of y)) (g_sp g),
                   g_myTurn := False\<rparr>)
     }"

definition same_team :: "PieceType \<Rightarrow> PieceType \<Rightarrow> bool" where
  "same_team t u \<longleftrightarrow> type_num t > 5 \<and> type_num u > 5 \<or> type_num t \<le> 5 \<and> type_num u \<le> 5"

text \<open>The move or the return, once it is known whether the square is marked.\<close>

definition settle :: "bool \<Rightarrow> nat \<Rightarrow> int \<Rightarrow> int \<Rightarrow> Board \<Rightarrow> Game \<Rightarrow> (Board \<times> Game) option" where
  "settle legal ref x y b g =
     (if legal then do {
        newPosition \<leftarrow> square_at b (y * 8 + x);
        case newPosition of
          Some other \<Rightarrow> do {
            p \<leftarrow> piece_of b ref;
            q \<leftarrow> piece_of b other;
            if \<not> same_team (ptype p) (ptype q)
            then commit_move ref x y b
                   (if ptype q = b_king \<or> ptype q = w_king then g\<lparr>g_endGame := True\<rparr> else g)
            else map_option (\<lambda>b'. (b', g)) (put_back (g_screen g) (g_playing g) ref b)
          }
        | None \<Rightarrow> commit_move ref x y b g
      }
      else map_option (\<lambda>b'. (b', g)) (put_back (g_screen g) (g_playing g) ref b))"

text \<open>
  Dropping the piece. The pixel is read once before the bounds are tested, for a
  diagnostic message, and once after.
\<close>

definition release :: "nat \<Rightarrow> Board \<Rightarrow> Game \<Rightarrow> (Board \<times> Game) option" where
  "release ref b g =
     do {
       p0 \<leftarrow> piece_of b ref;
       b1 \<leftarrow> set_piece b ref (changePiecePriority p0 False);
       let s = g_screen g;
       let y = getBoardY s (uint (cursor_y (g_cursor g)));
       let x = getBoardX s (uint (cursor_x (g_cursor g)));
       printed \<leftarrow> block_bytes (mem_board b1) (probe_offset s x y) 1;
       legal \<leftarrow> (if y \<ge> 0 \<and> y < 8 \<and> x \<ge> 0 \<and> x < 8 then is_orange s (mem_board b1) x y else Some False);
       (b2, g2) \<leftarrow> settle legal ref x y b1 g;
       b3 \<leftarrow> drawBoard s b2;
       Some (b3, g2\<lparr>g_playing := (g_playing g2)\<lparr>dragging_piece := None\<rparr>\<rparr>)
     }"

definition playing_mouse :: "'w env \<Rightarrow> Board \<Rightarrow> Game \<Rightarrow> (Board \<times> Game) option" where
  "playing_mouse E b g =
     do {
       (b1, g1) \<leftarrow>
         (case dragging_piece (g_playing g) of
            Some ref \<Rightarrow> do {
              p \<leftarrow> piece_of b ref;
              b' \<leftarrow> set_piece b ref (setPiecePosition p (uint (cursor_x (g_cursor g)) - 29)
                     (uint (cursor_y (g_cursor g)) - 29));
              Some (b', g)
            }
          | None \<Rightarrow> if pressed (g_cursor g) \<and> g_myTurn g then press E b g else Some (b, g));
       case dragging_piece (g_playing g1) of
         Some ref \<Rightarrow> if released (g_cursor g1) then release ref b1 g1 else Some (b1, g1)
       | None \<Rightarrow> Some (b1, g1)
     }"

section \<open>The handler\<close>

definition playing_setup :: "'w env \<Rightarrow> Game \<Rightarrow> 'w \<Rightarrow> (Board \<times> Game \<times> 'w) option" where
  "playing_setup E g w =
     (case p_board (g_playing g) of
        Some b \<Rightarrow> Some (b, g, w)
      | None \<Rightarrow> do {
          let img = snd (create_image (e_load E) toggle_animation_xpm (p_toggle (g_playing g)));
          (s1, w1, b1) \<leftarrow> initBoard (e_video E) (e_mapped E) (e_load E) (e_fresh E) (g_screen g) w (e_block E);
          b2 \<leftarrow> drawBoard s1 b1;
          m \<leftarrow> draw_image s1 (mem_board b2) img 538 185;
          Some (b2\<lparr>mem_board := m\<rparr>,
                g\<lparr>g_screen := s1, g_playing := (g_playing g)\<lparr>p_toggle := img\<rparr>\<rparr>, w1)
        })"

definition playing_ih :: "'w env \<Rightarrow> Event \<Rightarrow> Game \<Rightarrow> 'w \<Rightarrow> (Game \<times> 'w) option" where
  "playing_ih E event g w =
     do {
       (b, g1, w1) \<leftarrow> playing_setup E g w;
       let g2 = (if g_endGame g1 then g1\<lparr>g_won := True, g_state := EXIT\<rparr> else g1);
       (b3, g3) \<leftarrow>
         (case ev_type event of
            NEW_FRAME \<Rightarrow> playing_frame b g2
          | KEYBOARD \<Rightarrow>
              Some (b, if has (ev_scanCode event) (BIT 7) \<and> ev_scanCode event = 0xac
                       then g2\<lparr>g_animation := \<not> g_animation g2\<rparr> else g2)
          | MOUSE \<Rightarrow> playing_mouse E b g2
          | NO_EVENT \<Rightarrow> Some (b, g2));
       Some (g3\<lparr>g_playing := (g_playing g3)\<lparr>p_board := Some b3\<rparr>\<rparr>, w1)
     }"

definition inputHandler :: "'w env \<Rightarrow> Event \<Rightarrow> Game \<Rightarrow> 'w \<Rightarrow> (Game \<times> 'w) option" where
  "inputHandler E event g w =
     (case g_state g of
        START \<Rightarrow> name_choice_ih E event g w
      | WAITING \<Rightarrow> waiting_ih E event g w
      | PLAYING \<Rightarrow> playing_ih E event g w
      | CHOOSING_PLAYER \<Rightarrow> choosing_ih E event g w
      | WAIT_CHOOSING_PLAYER \<Rightarrow> waiting_choosing_ih E event g w
      | EXIT \<Rightarrow> Some (g, w))"

end
