(* ===== verification/Receive.thy ===== *)
theory Receive
  imports Kernel
begin

text \<open>
  The message loop all programs of the repository share: \<open>driver_receive\<close> blocks for a
  message, a failed call is reported and tried again, and a notification of the hardware
  carries the interrupt bits. The loop may wait for ever, so its result is an option.
\<close>

text \<open>
  A message: the return value of \<open>driver_receive\<close>, whether it is a notification, whether
  its source is the hardware, and the interrupt bits.
\<close>

record message =
  msg_r :: int
  msg_notify :: bool
  msg_hardware :: bool
  msg_interrupts :: u32

text \<open>A hardware notification with an interrupt of the set.\<close>

definition raised :: "message \<Rightarrow> u32 \<Rightarrow> bool" where
  "raised msg irq_set \<longleftrightarrow> msg_notify msg \<and> msg_hardware msg \<and> has (msg_interrupts msg) irq_set"

text \<open>
  \<open>while (go) { receive; step }\<close>; \<open>step\<close> is the rest of the body and may fail.
\<close>

partial_function (option) receive_loop ::
  "('w \<Rightarrow> message \<times> 'w) \<Rightarrow> ('s \<Rightarrow> bool) \<Rightarrow> (message \<Rightarrow> 's \<Rightarrow> 'w \<Rightarrow> ('s \<times> 'w) option) \<Rightarrow> 's \<Rightarrow> 'w \<Rightarrow> ('s \<times> 'w) option"
where
  "receive_loop recv go step s w =
     (if go s then
        (case recv w of (msg, w1) \<Rightarrow>
           if msg_r msg \<noteq> 0 then receive_loop recv go step s w1
           else (case step msg s w1 of
                   None \<Rightarrow> None
                 | Some (s', w2) \<Rightarrow> receive_loop recv go step s' w2))
      else Some (s, w))"

text \<open>What the loop leaves behind when it returns.\<close>

lemma receive_loop_invariant:
  assumes "receive_loop recv go step s w = Some (s', w')" and "I s w"
    and skip: "\<And>s w msg w1. I s w \<Longrightarrow> go s \<Longrightarrow> recv w = (msg, w1) \<Longrightarrow> msg_r msg \<noteq> 0 \<Longrightarrow> I s w1"
    and step: "\<And>s w msg w1 s2 w2. I s w \<Longrightarrow> go s \<Longrightarrow> recv w = (msg, w1) \<Longrightarrow> msg_r msg = 0 \<Longrightarrow>
        step msg s w1 = Some (s2, w2) \<Longrightarrow> I s2 w2"
  shows "I s' w' \<and> \<not> go s'"
proof -
  let ?P = "\<lambda>rc g st s w r. rc = recv \<longrightarrow> g = go \<longrightarrow> st = step \<longrightarrow> I s w \<longrightarrow>
    I (fst r) (snd r) \<and> \<not> go (fst r)"
  have "?P recv go step s w (s', w')"
  proof (rule receive_loop.raw_induct [where P = ?P, OF _ assms(1)], intro impI)
    fix f :: "('b \<Rightarrow> message \<times> 'b) \<Rightarrow> ('a \<Rightarrow> bool) \<Rightarrow> (message \<Rightarrow> 'a \<Rightarrow> 'b \<Rightarrow> ('a \<times> 'b) option) \<Rightarrow> 'a \<Rightarrow> 'b \<Rightarrow> ('a \<times> 'b) option"
      and rc g st s w r
    assume IH: "\<And>rc g st s w r. f rc g st s w = Some r \<Longrightarrow> ?P rc g st s w r"
      and e: "(if g s then case rc w of (msg, w1) \<Rightarrow>
           if msg_r msg \<noteq> 0 then f rc g st s w1
           else (case st msg s w1 of None \<Rightarrow> None | Some (s', w2) \<Rightarrow> f rc g st s' w2)
         else Some (s, w)) = Some r"
      and p: "rc = recv" "g = go" "st = step" and i: "I s w"
    obtain msg w1 where m: "recv w = (msg, w1)" by force
    show "I (fst r) (snd r) \<and> \<not> go (fst r)"
    proof (cases "go s")
      case False
      then show ?thesis using e i by (auto simp: p)
    next
      case go: True
      show ?thesis
      proof (cases "msg_r msg = 0")
        case False
        then have "f recv go step s w1 = Some r" "I s w1" using e go m skip [OF i go m] by (simp_all add: p)
        then show ?thesis using IH by blast
      next
        case True
        then obtain s2 w2 where "step msg s w1 = Some (s2, w2)" "f recv go step s2 w2 = Some r"
          using e go m by (auto simp: p split: option.splits)
        then show ?thesis using IH step [OF i go m True] by blast
      qed
    qed
  qed
  with assms(2) show ?thesis by simp
qed

text \<open>It returns when every iteration is defined and makes progress.\<close>

lemma receive_loop_returns:
  assumes "I s w" and "wf R"
    and skip: "\<And>s w msg w1. I s w \<Longrightarrow> go s \<Longrightarrow> recv w = (msg, w1) \<Longrightarrow> msg_r msg \<noteq> 0 \<Longrightarrow>
        I s w1 \<and> ((s, w1), (s, w)) \<in> R"
    and step: "\<And>s w msg w1. I s w \<Longrightarrow> go s \<Longrightarrow> recv w = (msg, w1) \<Longrightarrow> msg_r msg = 0 \<Longrightarrow>
        \<exists>s2 w2. step msg s w1 = Some (s2, w2) \<and> I s2 w2 \<and> ((s2, w2), (s, w)) \<in> R"
  shows "\<exists>s' w'. receive_loop recv go step s w = Some (s', w') \<and> I s' w' \<and> \<not> go s'"
proof -
  have "\<forall>s w. x = (s, w) \<longrightarrow> I s w \<longrightarrow>
      (\<exists>s' w'. receive_loop recv go step s w = Some (s', w') \<and> I s' w' \<and> \<not> go s')" for x
    using assms(2)
  proof (induction x rule: wf_induct_rule)
    case (less x)
    { fix s w assume x: "x = (s, w)" and i: "I s w"
      have "\<exists>s' w'. receive_loop recv go step s w = Some (s', w') \<and> I s' w' \<and> \<not> go s'"
      proof (cases "go s")
        case False
        with i show ?thesis by (simp add: receive_loop.simps)
      next
        case go: True
        obtain msg w1 where m: "recv w = (msg, w1)" by force
        show ?thesis
        proof (cases "msg_r msg = 0")
          case False
          with skip [OF i go m] less.IH [of "(s, w1)"] go m x show ?thesis
            by (subst receive_loop.simps) simp
        next
          case True
          then obtain s2 w2 where s2: "step msg s w1 = Some (s2, w2)" "I s2 w2" "((s2, w2), (s, w)) \<in> R"
            using step [OF i go m] by blast
          with less.IH [of "(s2, w2)"] go m True x show ?thesis
            by (subst receive_loop.simps) simp
        qed
      qed
    }
    then show ?case by blast
  qed
  with assms(1) show ?thesis by blast
qed

text \<open>
  The machine raises an interrupt of the set again and again: \<open>pending\<close> bounds the
  messages that come before the next one.
\<close>

definition fair_irq :: "('w \<Rightarrow> message \<times> 'w) \<Rightarrow> u32 \<Rightarrow> ('w \<Rightarrow> nat) \<Rightarrow> bool" where
  "fair_irq recv irq_set pending \<longleftrightarrow>
     (\<forall>w. case recv w of (m, w') \<Rightarrow> (msg_r m = 0 \<and> raised m irq_set) \<or> pending w' < pending w)"

lemma fair_irqD:
  "fair_irq recv irq_set pending \<Longrightarrow> recv w = (m, w') \<Longrightarrow>
   (msg_r m = 0 \<and> raised m irq_set) \<or> pending w' < pending w"
  unfolding fair_irq_def by (drule spec [of _ w]) simp

end
