(* ===== verification/MainLoop.thy ===== *)
theory MainLoop
  imports Play Receive
begin

text \<open>
  \<open>proj_main_loop\<close> of \<open>proj/src/main.c\<close>: bringing the devices up, the message loop and
  the shutdown. One iteration turns a notification of the kernel into events, moves at
  most one byte in each direction over the serial line, and hands all queued events to the
  game.
\<close>

section \<open>State and parameters\<close>

text \<open>
  The locals of the function and the globals of the drivers. The game holds the rest.
\<close>

record MainState =
  m_game :: Game
  m_timer :: TimerState
  m_kb :: KeyboardState
  m_mouse :: MouseState
  m_events :: EventQueue
  scancode_bytes :: "u8 list"
  counter :: u8
  irq_set_kb :: u8
  irq_set_mouse :: u32
  irq_set_sp :: u32
  irq_set_timer :: u8

text \<open>
  Calls of the LCOM library and the contents of uninitialised memory are parameters.
\<close>

record 'w main_env = "'w env" +
  e_receive :: "'w \<Rightarrow> message \<times> 'w"
  e_mouse_enable :: "'w \<Rightarrow> 'w"
  e_sleep :: "nat \<Rightarrow> 'w \<Rightarrow> 'w"
  e_status :: u8
  e_byte :: u8
  e_queue_mem :: "u8 list"
  e_event_mem :: "Event list"
  e_image :: xpm_image

abbreviation base_env :: "'w main_env \<Rightarrow> 'w env" where
  "base_env E \<equiv> env.truncate E"

section \<open>Bringing the devices up\<close>

text \<open>The result is the return value 1 when the serial port cannot be subscribed.\<close>

definition main_init :: "'w main_env \<Rightarrow> MainState \<Rightarrow> 'w \<Rightarrow> ((int + MainState) \<times> 'w) option" where
  "main_init E ms w =
     do {
       let K = e_kernel E;
       let g = m_game ms;
       ((r, vmp, vbp), s1, w1) \<leftarrow> init_graphics_mode (e_video E) 0x115 (g_screen g) w;
       let letters = initLetter (e_load E) (g_letters g);
       let ((r, bit_kb), kb1, w2) = keyboard_subscribe_int K (m_kb ms) w1;
       let w3 = e_mouse_enable E w2;
       let ((r, bit_mouse), mouse1, w4) = mouse_subscribe_int K (m_mouse ms) w3;
       ((r_sp, sp_bit), sp1, w5) \<leftarrow> sp_subscribe_int K (e_queue_mem E) (e_queue_mem E) (g_sp g) w4;
       if r_sp \<noteq> 0 then Some (Inl 1, w5)
       else do {
         let ((r, bit_timer), timer1, w6) = timer_subscribe_int K (m_timer ms) w5;
         let menu = snd (create_image (e_load E) menu_xpm (e_image E));
         (sp2, w7) \<leftarrow> sp_clear K sp1 w6;
         vm \<leftarrow> vmp;
         vb \<leftarrow> vbp;
         v1 \<leftarrow> vg_clear s1 (e_mapped E vm);
         v2 \<leftarrow> draw_image s1 v1 menu 95 50;
         let w8 = e_sleep E 2 w7;
         let g1 = g\<lparr>g_screen := s1, g_letters := letters, g_sp := sp2, g_video_mem := v2,
                    g_buffer := e_mapped E vb, g_state := START,
                    g_cursor := initCursor (e_load E) (g_cursor g)\<rparr>;
         Some (Inr (ms\<lparr>m_game := g1, m_kb := kb1, m_mouse := mouse1, m_timer := timer1,
                       m_events := createEventQueue 100 (e_event_mem E), counter := 0,
                       irq_set_kb := BIT (unat bit_kb), irq_set_mouse := BIT (unat bit_mouse),
                       irq_set_sp := BIT SP_IRQ, irq_set_timer := BIT (unat bit_timer)\<rparr>), w8)
       }
     }"

section \<open>One notification\<close>

definition on_timer :: "MainState \<Rightarrow> MainState" where
  "on_timer ms =
     ms\<lparr>m_timer := timer_int_handler (m_timer ms),
        m_events := pushEvent (m_events ms) \<lparr>ev_type = NEW_FRAME, ev_data = Indeterminate\<rparr>\<rparr>"

definition on_serial :: "'w main_env \<Rightarrow> MainState \<Rightarrow> 'w \<Rightarrow> MainState \<times> 'w" where
  "on_serial E ms w =
     (case sp_ih (e_kernel E) (g_sp (m_game ms)) w of
        (_, sp1, w1) \<Rightarrow> (ms\<lparr>m_game := (m_game ms)\<lparr>g_sp := sp1\<rparr>\<rparr>, w1))"

definition on_mouse :: "'w main_env \<Rightarrow> MainState \<Rightarrow> 'w \<Rightarrow> (MainState \<times> 'w) option" where
  "on_mouse E ms w =
     do {
       (m1, w1) \<leftarrow> mouse_ih (e_kernel E) (e_status E) (e_byte E) (m_mouse ms) w;
       let ms1 = ms\<lparr>m_mouse := m1\<rparr>;
       Some (if updateMouse m1
             then ms1\<lparr>m_events := pushEvent (m_events ms1) \<lparr>ev_type = MOUSE, ev_data = MousePacket (pp m1)\<rparr>,
                      m_mouse := m1\<lparr>updateMouse := False\<rparr>\<rparr>
             else ms1, w1)
     }"

text \<open>
  \<open>scancode_bytes[counter++] = scancode\<close> in an array of two bytes; the counter starts
  again after a byte other than the prefix 0xE0.
\<close>

definition store_scancode :: "u8 \<Rightarrow> MainState \<Rightarrow> MainState option" where
  "store_scancode code ms =
     (if unat (counter ms) < length (scancode_bytes ms)
      then Some (ms\<lparr>scancode_bytes := (scancode_bytes ms)[unat (counter ms) := code],
                    counter := counter ms + 1\<rparr>)
      else None)"

definition take_scancode :: "u8 \<Rightarrow> MainState \<Rightarrow> MainState option" where
  "take_scancode code ms =
     do {
       ms1 \<leftarrow> store_scancode code ms;
       Some (if code \<noteq> TWO_BYTES
             then ms1\<lparr>counter := 0,
                      m_events := pushEvent (m_events ms1) \<lparr>ev_type = KEYBOARD, ev_data = ScanCode code\<rparr>\<rparr>
             else ms1)
     }"

definition on_keyboard :: "'w main_env \<Rightarrow> MainState \<Rightarrow> 'w \<Rightarrow> (MainState \<times> 'w) option" where
  "on_keyboard E ms w =
     (case keyboard_int_handler (e_kernel E) (m_kb ms) w of
        (r, kb1, w1) \<Rightarrow>
          let ms1 = ms\<lparr>m_kb := kb1\<rparr>
          in if readKey kb1 then map_option (\<lambda>ms2. (ms2, w1)) (take_scancode (scancode kb1) ms1)
             else Some (ms1, w1))"

definition on_notify :: "'w main_env \<Rightarrow> u32 \<Rightarrow> MainState \<Rightarrow> 'w \<Rightarrow> (MainState \<times> 'w) option" where
  "on_notify E interrupts ms w =
     do {
       let ms1 = (if has interrupts (ucast (irq_set_timer ms)) then on_timer ms else ms);
       let (ms2, w2) = (if has interrupts (irq_set_sp ms) then on_serial E ms1 w else (ms1, w));
       (ms3, w3) \<leftarrow> (if has interrupts (irq_set_mouse ms) then on_mouse E ms2 w2 else Some (ms2, w2));
       if has interrupts (ucast (irq_set_kb ms)) then on_keyboard E ms3 w3 else Some (ms3, w3)
     }"

section \<open>Handling the events\<close>

definition handle_event :: "'w main_env \<Rightarrow> Event \<Rightarrow> Game \<Rightarrow> 'w \<Rightarrow> (Game \<times> 'w) option" where
  "handle_event E event g w =
     (case ev_type event of
        MOUSE \<Rightarrow>
          (case ev_data event of
             MousePacket p \<Rightarrow>
               inputHandler (base_env E) event (g\<lparr>g_cursor := updateCursor (g_screen g) (g_cursor g) p\<rparr>) w
           | _ \<Rightarrow> None)
      | NEW_FRAME \<Rightarrow> do {
          (g1, w1) \<leftarrow> inputHandler (base_env E) event g w;
          v \<leftarrow> drawCursor (g_screen g1) (g_buffer g1) (Some (g_cursor g1));
          vm \<leftarrow> copy_from_buffer (g_screen g1) (g_video_mem g1) v;
          Some (g1\<lparr>g_buffer := v, g_video_mem := vm\<rparr>, w1)
        }
      | KEYBOARD \<Rightarrow> inputHandler (base_env E) event g w
      | NO_EVENT \<Rightarrow> Some (g, w))"

function drain_events :: "'w main_env \<Rightarrow> EventQueue \<Rightarrow> Game \<Rightarrow> 'w \<Rightarrow> (EventQueue \<times> Game \<times> 'w) option" where
  "drain_events E q g w =
     (if eventQueueIsEmpty q then Some (q, g, w)
      else case popEvent q of (event, q') \<Rightarrow>
        (case handle_event E event g w of
           None \<Rightarrow> None
         | Some (g', w') \<Rightarrow> drain_events E q' g' w'))"
  by pat_completeness auto
termination
  by (relation "measure (\<lambda>(E, q, g, w). unat (eq_size q))")
    (auto simp: eventQueueIsEmpty_def popEvent_def Let_def unat_minus_one unat_gt_0)

declare drain_events.simps [simp del]

text \<open>One iteration of the loop; a failed \<open>driver_receive\<close> starts the next one at once.\<close>

definition main_step :: "'w main_env \<Rightarrow> MainState \<Rightarrow> 'w \<Rightarrow> (MainState \<times> 'w) option" where
  "main_step E ms w =
     (case e_receive E w of
        (msg, w1) \<Rightarrow>
          if msg_r msg \<noteq> 0 then Some (ms, w1)
          else do {
            (ms1, w2) \<leftarrow> (if msg_notify msg \<and> msg_hardware msg
                         then on_notify E (msg_interrupts msg) ms w1 else Some (ms, w1));
            let (r, sp1, w3) = sp_write (e_kernel E) (g_sp (m_game ms1)) w2;
            let (r, sp2, w4) = sp_read (e_kernel E) sp1 w3;
            (q, g, w5) \<leftarrow> drain_events E (m_events ms1) ((m_game ms1)\<lparr>g_sp := sp2\<rparr>) w4;
            Some (ms1\<lparr>m_game := g, m_events := q\<rparr>, w5)
          })"

partial_function (option) main_loop :: "'w main_env \<Rightarrow> MainState \<Rightarrow> 'w \<Rightarrow> (MainState \<times> 'w) option" where
  "main_loop E ms w =
     (if g_state (m_game ms) \<noteq> EXIT
      then (case main_step E ms w of None \<Rightarrow> None | Some (ms', w') \<Rightarrow> main_loop E ms' w')
      else Some (ms, w))"

section \<open>Shutting down\<close>

definition main_shutdown :: "'w main_env \<Rightarrow> MainState \<Rightarrow> 'w \<Rightarrow> (MainState \<times> 'w) option" where
  "main_shutdown E ms w =
     do {
       let K = e_kernel E;
       (sp1, w1) \<leftarrow> (if g_won (m_game ms) then sp_emptyTransmitQueue K (g_sp (m_game ms)) w
                    else Some (g_sp (m_game ms), w));
       let (r, w2) = timer_unsubscribe_int K (m_timer ms) w1;
       let (r, w3) = keyboard_unsubscribe_int K (m_kb ms) w2;
       (r, sp2, w4) \<leftarrow> sp_unsubscribe_int K sp1 w3;
       (r, w5) \<leftarrow> mouse_disable_data_reporting K (e_status E) (e_byte E) w4;
       let (r, w6) = mouse_unsubscribe_int K (m_mouse ms) w5;
       let (r, w7) = return_text_mode (e_video E) w6;
       Some (ms\<lparr>m_game := (m_game ms)\<lparr>g_sp := sp2\<rparr>\<rparr>, w7)
     }"

definition proj_main_loop :: "'w main_env \<Rightarrow> MainState \<Rightarrow> 'w \<Rightarrow> (int \<times> 'w) option" where
  "proj_main_loop E ms w =
     do {
       (start, w1) \<leftarrow> main_init E ms w;
       case start of
         Inl code \<Rightarrow> Some (code, w1)
       | Inr ms1 \<Rightarrow> do {
           (ms2, w2) \<leftarrow> main_loop E ms1 w1;
           (ms3, w3) \<leftarrow> main_shutdown E ms2 w2;
           Some (0, w3)
         }
     }"

end
