(* ===== verification/Exchange.thy ===== *)
theory Exchange
  imports Play
begin

text \<open>
  A move and its transmission. The position is abstracted to the list of the types on the
  64 squares; a move of the player at one end, the four bytes it queues, and their
  reception at the other end act on it in the same way, except for the square whose code
  is the zero byte.
\<close>

section \<open>Codes of squares\<close>

lemma col_cases:
  assumes "on_sq c r"
  shows "c = 0 \<or> c = 1 \<or> c = 2 \<or> c = 3 \<or> c = 4 \<or> c = 5 \<or> c = 6 \<or> c = 7"
    "r = 0 \<or> r = 1 \<or> r = 2 \<or> r = 3 \<or> r = 4 \<or> r = 5 \<or> r = 6 \<or> r = 7"
  using assms by (auto simp: on_sq_def)

definition square_code :: "int \<Rightarrow> int \<Rightarrow> u8" where
  "square_code c r = pos_byte (u32_of c) (u32_of r)"

lemma square_code_value:
  assumes "on_sq c r"
  shows "square_code c r = word_of_int (8 * c + r)"
  using col_cases [OF assms]
  by (elim disjE; simp add: square_code_def pos_byte_def u32_of_def)

lemma square_code_decode:
  assumes "on_sq c r"
  shows "uint (col_of (square_code c r)) = c \<and> uint (row_of (square_code c r)) = r"
  unfolding square_code_value [OF assms] using col_cases [OF assms]
  by (elim disjE; simp add: col_of_def row_of_def COL_MASK_def ROW_MASK_def)

lemma square_code_cases:
  assumes "on_sq c r"
  shows "square_code c r = 0 \<longleftrightarrow> c = 0 \<and> r = 0"
    "square_code c r \<noteq> BEGIN_MESSAGE" "square_code c r \<noteq> YOUR_TURN"
proof -
  have u: "uint (square_code c r) = 8 * c + r"
    unfolding square_code_value [OF assms]
    by (subst uint_word_of_int) (use assms in \<open>simp add: on_sq_def\<close>)
  have "square_code c r = 0 \<longleftrightarrow> 8 * c + r = 0" by (simp add: word_uint_eq_iff u)
  also have "\<dots> \<longleftrightarrow> c = 0 \<and> r = 0" using assms unfolding on_sq_def by arith
  finally show "square_code c r = 0 \<longleftrightarrow> c = 0 \<and> r = 0" .
  show "square_code c r \<noteq> BEGIN_MESSAGE" "square_code c r \<noteq> YOUR_TURN"
    using u assms by (auto simp: word_uint_eq_iff on_sq_def BEGIN_MESSAGE_def YOUR_TURN_def)
qed

section \<open>Positions\<close>

definition types :: "Board \<Rightarrow> PieceType option list" where
  "types b = map (map_option (\<lambda>ref. ptype (heap b ! ref))) (squares b)"

text \<open>What a move does to a position.\<close>

definition shift :: "nat \<Rightarrow> nat \<Rightarrow> 'a option list \<Rightarrow> 'a option list" where
  "shift src dst ts = ts[dst := ts ! src, src := None]"

definition sq_index :: "int \<Rightarrow> int \<Rightarrow> nat" where
  "sq_index c r = nat (r * 8 + c)"

lemma sq_index_less: "on_sq c r \<Longrightarrow> sq_index c r < 64"
  by (auto simp: sq_index_def on_sq_def)

lemma sq_index_inj: "on_sq c r \<Longrightarrow> on_sq c' r' \<Longrightarrow> sq_index c r = sq_index c' r' \<Longrightarrow> c = c' \<and> r = r'"
  using pos_of_inj [of c r c' r'] by (simp add: sq_index_def pos_of_def)

lemma types_length [simp]: "length (types b) = length (squares b)"
  by (simp add: types_def)

lemma types_nth: "i < length (squares b) \<Longrightarrow>
    types b ! i = map_option (\<lambda>ref. ptype (heap b ! ref)) (squares b ! i)"
  by (simp add: types_def)

lemma types_piece_at:
  "board_ok b \<Longrightarrow> on_sq c r \<Longrightarrow> types b ! sq_index c r = map_option ptype (piece_at b c r)"
  using sq_index_less [of c r]
  by (simp add: types_nth board_ok_def piece_at_def sq_index_def option.map_comp o_def)

text \<open>Changing a piece but not its type changes no position.\<close>

lemma types_set_piece:
  assumes "ptype p = ptype (heap b ! ref)"
  shows "types (b\<lparr>heap := (heap b)[ref := p], squares := sqs\<rparr>) = types (b\<lparr>squares := sqs\<rparr>)"
proof -
  have "ptype ((heap b)[ref := p] ! k) = ptype (heap b ! k)" for k
    using assms by (cases "k = ref"; cases "ref < length (heap b)") (simp_all add: list_update_beyond)
  then show ?thesis by (simp add: types_def)
qed

section \<open>References\<close>

lemma ref_ok:
  assumes "board_ok b" and "on_sq c r" and "squares b ! sq_index c r = Some ref"
  shows "ref < length (heap b)"
  using assms sq_index_less [OF assms(2)] by (metis board_ok_def nth_mem)

lemma deref [simp]:
  "ref < length (heap b) \<Longrightarrow> piece_of b ref = Some (heap b ! ref)"
  "ref < length (heap b) \<Longrightarrow> set_piece b ref p = Some (b\<lparr>heap := (heap b)[ref := p]\<rparr>)"
  by (simp_all add: piece_of_def set_piece_def)

lemma at_index:
  assumes "length (squares b) = 64" and "on_sq c r"
  shows "square_at b (r * 8 + c) = Some (squares b ! sq_index c r)"
    "set_square b (r * 8 + c) v = Some (b\<lparr>squares := (squares b)[sq_index c r := v]\<rparr>)"
  using assms by (auto simp: square_at_def set_square_def sq_index_def on_sq_def)


text \<open>The probed pixel is the corner of the square.\<close>

lemma is_orange_lit:
  assumes s: "squares_115 s" and wf: "fb_wf s m" and o: "on_sq x y"
  shows "is_orange s m x y = Some (lit s m x y)"
    "block_bytes m (probe_offset s x y) 1 \<noteq> None"
proof -
  note f = mode_115_facts [OF squares_115D(1) [OF s]]
  have len: "length m = 1440000" using wf f(5) by (simp add: fb_wf_def)
  have h: "get_h_res s = 800"
    using squares_115D(1) [OF s] by (simp add: get_h_res_def mode_115_def)
  have xy: "0 \<le> x" "x \<le> 7" "0 \<le> y" "y \<le> 7" using o by (simp_all add: on_sq_def)
  have e: "getScreenX s x = 59 * x + 65" "getScreenY s y = 59 * y + 64"
    using s xy by (simp_all add: getScreenX_115 getScreenY_115)
  let ?k = "3 * ((59 * y + 64) * 800 + (59 * x + 65))"
  have "probe_offset s x y = word_of_int ?k"
    unfolding probe_offset_def h e u32_of_def by (simp add: wi_hom_syms)
  moreover have "uint (word_of_int ?k :: u32) = ?k"
    by (subst uint_word_of_int) (use xy in simp)
  ultimately have u: "unat (probe_offset s x y) = nat ?k" by (simp flip: nat_uint_eq)
  have k: "nat ?k = pix s (col_px x) (row_px y) * 3"
    using xy by (simp add: pix_def f col_px_def row_px_def nat_add_distrib nat_mult_distrib)
  have b: "nat ?k + 3 \<le> 1440000" using xy by simp
  have "object_bytes orange 3 = Some (colour_bytes s orange)"
    by (simp add: object_bytes_def colour_bytes_def f(3))
  moreover have "block_bytes m (probe_offset s x y) 3 = Some (corner s m x y)"
    unfolding block_bytes_def u k using b [unfolded k] by (simp add: len corner_def fb_get_def f(3))
  ultimately show "is_orange s m x y = Some (lit s m x y)" by (simp add: is_orange_def lit_def)
  show "block_bytes m (probe_offset s x y) 1 \<noteq> None"
    unfolding block_bytes_def u using b len by simp
qed

section \<open>Making a move\<close>

text \<open>
  What a player holds while dragging: a piece that came from the square (c0, r0) and is
  still referenced there.
\<close>

definition drags :: "Game \<Rightarrow> Board \<Rightarrow> nat \<Rightarrow> int \<Rightarrow> int \<Rightarrow> bool" where
  "drags g b ref c0 r0 \<longleftrightarrow> dragging_piece (g_playing g) = Some ref \<and>
     on_sq c0 r0 \<and> squares b ! sq_index c0 r0 = Some ref \<and>
     inicialPieceCol (g_playing g) = u32_of c0 \<and> inicialPieceRow (g_playing g) = u32_of r0"

text \<open>The board and the screen a handler can work on, and the square under the cursor.\<close>

definition play_ok :: "Game \<Rightarrow> Board \<Rightarrow> bool" where
  "play_ok g b \<longleftrightarrow> squares_115 (g_screen g) \<and> board_ok b \<and> fb_wf (g_screen g) (mem_board b)"

definition cursor_at :: "Game \<Rightarrow> int \<Rightarrow> int \<Rightarrow> bool" where
  "cursor_at g x y \<longleftrightarrow> getBoardX (g_screen g) (uint (cursor_x (g_cursor g))) = x \<and>
     getBoardY (g_screen g) (uint (cursor_y (g_cursor g))) = y"

lemma send_move_eq:
  assumes "sp_invar sp" and "length (to_send sp) \<le> 6"
  shows "to_send (send_move old_pos new_pos sp) =
      to_send sp @ [BEGIN_MESSAGE, old_pos, new_pos, YOUR_TURN]"
    and "sp_invar (send_move old_pos new_pos sp)"
    and "received (send_move old_pos new_pos sp) = received sp"
  using assms by (simp_all add: send_move_def addToTransmitQueue_eq)

lemma back_coords:
  assumes "on_sq c r"
  shows "i32_of (u32_of c) = c" "i32_of (u32_of r) = r" "uint (u32_of r * 8 + u32_of c) = r * 8 + c"
proof -
  show "i32_of (u32_of c) = c" "i32_of (u32_of r) = r"
    using assms by (simp_all add: u32_of_def i32_of_small_int on_sq_def)
  have "u32_of r * 8 + u32_of c = word_of_int (r * 8 + c)" by (simp add: u32_of_def)
  then show "uint (u32_of r * 8 + u32_of c) = r * 8 + c"
    using assms by (simp only:) (subst uint_word_of_int, simp add: on_sq_def)
qed

text \<open>The piece a committed move leaves: back on its square, heading for the new one.\<close>

definition sent_off :: "Screen \<Rightarrow> int \<Rightarrow> int \<Rightarrow> int \<Rightarrow> int \<Rightarrow> Piece \<Rightarrow> Piece" where
  "sent_off s c0 r0 x y p =
     movePiece (setPiecePosition p (getScreenX s c0) (getScreenY s r0)) (getScreenX s x) (getScreenY s y)"

lemma commit_move_eq:
  assumes ok: "board_ok b" and d: "drags g b ref c0 r0" and o: "on_sq x y"
  shows "commit_move ref x y b g =
    Some (b\<lparr>heap := (heap b)[ref := sent_off (g_screen g) c0 r0 x y (heap b ! ref)],
            squares := (squares b)[sq_index c0 r0 := None, sq_index x y := Some ref]\<rparr>,
          g\<lparr>g_sp := send_move (square_code c0 r0) (square_code x y) (g_sp g), g_myTurn := False\<rparr>)"
proof -
  have len: "length (squares b) = 64" using ok by (simp add: board_ok_def)
  have o0: "on_sq c0 r0" and at: "squares b ! sq_index c0 r0 = Some ref"
    and ini: "inicialPieceCol (g_playing g) = u32_of c0" "inicialPieceRow (g_playing g) = u32_of r0"
    using d by (simp_all add: drags_def)
  have ref: "ref < length (heap b)" by (rule ref_ok [OF ok o0 at])
  show ?thesis
    unfolding commit_move_def put_back_def ini back_coords [OF o0] Let_def
    using ref len at_index(2) [OF _ o0] at_index(2) [OF _ o]
    by (simp add: sent_off_def square_code_def)
qed

lemma put_back_eq:
  assumes "board_ok b" and "drags g b ref c0 r0"
  shows "put_back s (g_playing g) ref b =
    Some (b\<lparr>heap := (heap b)[ref := setPiecePosition (heap b ! ref) (getScreenX s c0) (getScreenY s r0)]\<rparr>)"
proof -
  have o0: "on_sq c0 r0" using assms(2) by (simp add: drags_def)
  have "ref < length (heap b)" using ref_ok [OF assms(1) o0] assms(2) by (simp add: drags_def)
  then show ?thesis
    using assms(2) unfolding put_back_def drags_def by (simp add: back_coords [OF o0])
qed


text \<open>
  Dropping a piece, up to the final redraw: the decision and its effect. \<open>b1\<close> is the board
  once the piece has lost its drawing priority.
\<close>

definition lowered :: "Board \<Rightarrow> nat \<Rightarrow> Board" where
  "lowered b ref = b\<lparr>heap := (heap b)[ref := changePiecePriority (heap b ! ref) False]\<rparr>"

lemma lowered_same:
  assumes "board_ok b"
  shows "board_ok (lowered b ref)" "types (lowered b ref) = types b" "squares (lowered b ref) = squares b"
    "mem_board (lowered b ref) = mem_board b" "length (heap (lowered b ref)) = length (heap b)"
proof -
  show "board_ok (lowered b ref)" using assms by (simp add: board_ok_def lowered_def)
  show "types (lowered b ref) = types b"
    using types_set_piece [of "changePiecePriority (heap b ! ref) False" b ref "squares b"]
    by (simp add: lowered_def changePiecePriority_def)
qed (simp_all add: lowered_def)

text \<open>A drop that makes a move: a marked square that is free or holds the other colour.\<close>

definition accepts :: "Game \<Rightarrow> Board \<Rightarrow> nat \<Rightarrow> int \<Rightarrow> int \<Rightarrow> bool" where
  "accepts g b ref x y \<longleftrightarrow> lit (g_screen g) (mem_board b) x y \<and>
     (case piece_at b x y of None \<Rightarrow> True
      | Some q \<Rightarrow> is_white (ptype q) \<noteq> is_white (ptype (heap b ! ref)))"

definition king_at :: "Board \<Rightarrow> int \<Rightarrow> int \<Rightarrow> bool" where
  "king_at b x y \<longleftrightarrow> (case piece_at b x y of None \<Rightarrow> False | Some q \<Rightarrow> ptype q = b_king \<or> ptype q = w_king)"

lemma same_team_white: "same_team t u \<longleftrightarrow> is_white t = is_white u"
  by (auto simp: same_team_def is_white_num)

lemma ptype_lowered: "ref < length (heap b) \<Longrightarrow> ptype (heap (lowered b ref) ! k) = ptype (heap b ! k)"
  by (cases "k = ref") (simp_all add: lowered_def changePiecePriority_def)

lemma release_eq:
  assumes ok: "play_ok g b" and d: "drags g b ref c0 r0" and c: "cursor_at g x y" and o: "on_sq x y"
  shows "release ref b g =
    do {
      (b2, g2) \<leftarrow>
        (if accepts g b ref x y
         then commit_move ref x y (lowered b ref) (if king_at b x y then g\<lparr>g_endGame := True\<rparr> else g)
         else map_option (\<lambda>b'. (b', g)) (put_back (g_screen g) (g_playing g) ref (lowered b ref)));
      b3 \<leftarrow> drawBoard (g_screen g) b2;
      Some (b3, g2\<lparr>g_playing := (g_playing g2)\<lparr>dragging_piece := None\<rparr>\<rparr>)
    }"
proof -
  let ?s = "g_screen g" and ?b = "lowered b ref"
  have s: "squares_115 ?s" and bok: "board_ok b" and wf: "fb_wf ?s (mem_board b)"
    using ok by (simp_all add: play_ok_def)
  have ref: "ref < length (heap b)" using ref_ok [OF bok, of c0 r0 ref] d by (simp add: drags_def)
  note low = lowered_same [OF bok, of ref]
  have set: "piece_of b ref = Some (heap b ! ref)"
    "set_piece b ref (changePiecePriority (heap b ! ref) False) = Some ?b"
    using ref by (simp_all add: lowered_def)
  have lx: "is_orange ?s (mem_board ?b) x y = Some (lit ?s (mem_board b) x y)"
    using is_orange_lit(1) [OF s wf o] by (simp add: low)
  obtain pr where pr: "block_bytes (mem_board ?b) (probe_offset ?s x y) 1 = Some pr"
    using is_orange_lit(2) [OF s wf o] by (auto simp: low)
  have sq: "square_at ?b (y * 8 + x) = Some (squares b ! sq_index x y)"
    using at_index(1) [OF _ o, of ?b] bok by (simp add: low board_ok_def)
  have xy: "y \<ge> 0 \<and> y < 8 \<and> x \<ge> 0 \<and> x < 8" using o by (simp add: on_sq_def)
  have cur: "getBoardY ?s (uint (cursor_y (g_cursor g))) = y" "getBoardX ?s (uint (cursor_x (g_cursor g))) = x"
    using c by (simp_all add: cursor_at_def)
  have at: "piece_at b x y = map_option (\<lambda>k. heap b ! k) (squares b ! sq_index x y)"
    by (simp add: piece_at_def sq_index_def)
  show ?thesis
  proof (cases "squares b ! sq_index x y")
    case None
    then show ?thesis
      unfolding release_def settle_def by (simp add: set cur pr [unfolded One_nat_def] xy lx sq accepts_def king_at_def at Let_def)
  next
    case (Some other)
    then have ot: "other < length (heap b)" by (rule ref_ok [OF bok o])
    have q: "piece_of ?b ref = Some (heap ?b ! ref)" "piece_of ?b other = Some (heap ?b ! other)"
      using ref ot by (simp_all add: low)
    show ?thesis
      unfolding release_def settle_def
      using Some by (simp add: set cur pr [unfolded One_nat_def] xy lx sq q accepts_def king_at_def at Let_def
          same_team_white ptype_lowered [OF ref])
  qed
qed


text \<open>What a drop leaves behind, in both cases.\<close>

text \<open>The types on the squares after a piece has moved to another square.\<close>

lemma moved_types:
  assumes bok: "board_ok b" and o: "on_sq x y" and o0: "on_sq c0 r0" and at: "squares b ! sq_index c0 r0 = Some ref"
    and ne: "sq_index x y \<noteq> sq_index c0 r0"
    and sq: "squares b' = (squares b)[sq_index c0 r0 := None, sq_index x y := Some ref]"
    and pt: "\<And>k. ptype (heap b' ! k) = ptype (heap b ! k)"
  shows "types b' = shift (sq_index c0 r0) (sq_index x y) (types b)"
proof (rule nth_equalityI)
  show "length (types b') = length (shift (sq_index c0 r0) (sq_index x y) (types b))"
    by (simp add: sq shift_def)
next
  fix i assume i: "i < length (types b')"
  have len: "length (squares b) = 64" using bok by (simp add: board_ok_def)
  have i64: "i < 64" using i unfolding types_length sq by (simp add: len)
  show "types b' ! i = shift (sq_index c0 r0) (sq_index x y) (types b) ! i"
    using i64 len ne at sq_index_less [OF o] sq_index_less [OF o0] pt
    unfolding shift_def
    by (subst types_nth) (simp_all only: sq length_list_update, auto simp: nth_list_update types_nth)
qed

lemma release_move:
  assumes ok: "play_ok g b" and d: "drags g b ref c0 r0" and c: "cursor_at g x y" and o: "on_sq x y"
    and a: "accepts g b ref x y"
  shows "\<exists>b' g'. release ref b g = Some (b', g') \<and>
    squares b' = (squares b)[sq_index c0 r0 := None, sq_index x y := Some ref] \<and>
    heap b' = (heap b)[ref := sent_off (g_screen g) c0 r0 x y (changePiecePriority (heap b ! ref) False)] \<and>
    types b' = shift (sq_index c0 r0) (sq_index x y) (types b) \<and>
    g' = g\<lparr>g_sp := send_move (square_code c0 r0) (square_code x y) (g_sp g), g_myTurn := False,
           g_endGame := g_endGame g \<or> king_at b x y,
           g_playing := (g_playing g)\<lparr>dragging_piece := None\<rparr>\<rparr> \<and>
    play_ok g' b' \<and> (\<forall>c r. on_sq c r \<longrightarrow> \<not> lit (g_screen g') (mem_board b') c r)"
proof -
  let ?s = "g_screen g" and ?low = "lowered b ref"
  have s: "squares_115 ?s" and bok: "board_ok b" and wf: "fb_wf ?s (mem_board b)"
    using ok by (simp_all add: play_ok_def)
  have o0: "on_sq c0 r0" and at: "squares b ! sq_index c0 r0 = Some ref"
    using d by (simp_all add: drags_def)
  have ref: "ref < length (heap b)" by (rule ref_ok [OF bok o0 at])
  note low = lowered_same [OF bok, of ref]
  let ?g = "if king_at b x y then g\<lparr>g_endGame := True\<rparr> else g"
  have d': "drags ?g ?low ref c0 r0" using d by (simp add: drags_def low)
  let ?p = "sent_off ?s c0 r0 x y (heap ?low ! ref)"
  let ?b2 = "?low\<lparr>heap := (heap ?low)[ref := ?p],
      squares := (squares ?low)[sq_index c0 r0 := None, sq_index x y := Some ref]\<rparr>"
  let ?g2 = "?g\<lparr>g_sp := send_move (square_code c0 r0) (square_code x y) (g_sp ?g), g_myTurn := False\<rparr>"
  have cm: "commit_move ref x y ?low ?g = Some (?b2, ?g2)"
    using commit_move_eq [OF low(1) d' o] by simp
  have wf2: "fb_wf ?s (mem_board ?b2)" using wf by (simp add: low)
  obtain m where dr: "drawBoard ?s ?b2 = Some (?b2\<lparr>redrawPieces := True, mem_board := m\<rparr>)"
    and m: "fb_wf ?s m" "\<forall>c r. on_sq c r \<longrightarrow> \<not> lit ?s m c r"
    using drawBoard_unlit [OF s wf2] by blast
  let ?b3 = "?b2\<lparr>redrawPieces := True, mem_board := m\<rparr>"
  have r: "release ref b g =
      Some (?b3, ?g2\<lparr>g_playing := (g_playing ?g2)\<lparr>dragging_piece := None\<rparr>\<rparr>)"
    unfolding release_eq [OF ok d c o] using a cm dr by simp
  have sq3: "squares ?b3 = (squares b)[sq_index c0 r0 := None, sq_index x y := Some ref]"
    by (simp add: low)
  have hp3: "heap ?b3 = (heap b)[ref := sent_off ?s c0 r0 x y (changePiecePriority (heap b ! ref) False)]"
    using ref by (simp add: lowered_def)
  have ne: "sq_index x y \<noteq> sq_index c0 r0"
    using a at by (auto simp: accepts_def piece_at_def sq_index_def)
  have pt: "ptype (heap ?b3 ! k) = ptype (heap b ! k)" for k
    unfolding hp3 using ref
    by (cases "k = ref") (simp_all add: sent_off_def movePiece_def setPiecePosition_def changePiecePriority_def)
  have ty: "types ?b3 = shift (sq_index c0 r0) (sq_index x y) (types b)"
    by (rule moved_types [OF bok o o0 at ne sq3 pt])
  have bok3: "board_ok ?b3"
    unfolding board_ok_def sq3 hp3
    using bok ref by (auto simp: board_ok_def dest!: subsetD [OF set_update_subset_insert])
  have "?g2\<lparr>g_playing := (g_playing ?g2)\<lparr>dragging_piece := None\<rparr>\<rparr> =
     g\<lparr>g_sp := send_move (square_code c0 r0) (square_code x y) (g_sp g), g_myTurn := False,
       g_endGame := g_endGame g \<or> king_at b x y,
       g_playing := (g_playing g)\<lparr>dragging_piece := None\<rparr>\<rparr>" (is "?gl = ?gr")
    by simp
  moreover have "play_ok ?gr ?b3" using s bok3 m(1) by (simp add: play_ok_def)
  moreover have "\<forall>c r. on_sq c r \<longrightarrow> \<not> lit (g_screen ?gr) (mem_board ?b3) c r" using m(2) by simp
  ultimately show ?thesis using r sq3 hp3 ty by metis
qed


lemma release_reject:
  assumes ok: "play_ok g b" and d: "drags g b ref c0 r0" and c: "cursor_at g x y" and o: "on_sq x y"
    and a: "\<not> accepts g b ref x y"
  shows "\<exists>b'. release ref b g = Some (b', g\<lparr>g_playing := (g_playing g)\<lparr>dragging_piece := None\<rparr>\<rparr>) \<and>
    squares b' = squares b \<and>
    heap b' = (heap b)[ref := setPiecePosition (changePiecePriority (heap b ! ref) False)
                 (getScreenX (g_screen g) c0) (getScreenY (g_screen g) r0)] \<and>
    (\<forall>c r. on_sq c r \<longrightarrow> \<not> lit (g_screen g) (mem_board b') c r)"
proof -
  let ?s = "g_screen g" and ?low = "lowered b ref"
  have s: "squares_115 ?s" and bok: "board_ok b" and wf: "fb_wf ?s (mem_board b)"
    using ok by (simp_all add: play_ok_def)
  have ref: "ref < length (heap b)" using ref_ok [OF bok, of c0 r0 ref] d by (simp add: drags_def)
  note low = lowered_same [OF bok, of ref]
  have d': "drags g ?low ref c0 r0" using d by (simp add: drags_def low)
  let ?b2 = "?low\<lparr>heap := (heap ?low)[ref := setPiecePosition (heap ?low ! ref) (getScreenX ?s c0) (getScreenY ?s r0)]\<rparr>"
  have pb: "put_back ?s (g_playing g) ref ?low = Some ?b2" by (rule put_back_eq [OF low(1) d'])
  have wf2: "fb_wf ?s (mem_board ?b2)" using wf by (simp add: low)
  obtain m where dr: "drawBoard ?s ?b2 = Some (?b2\<lparr>redrawPieces := True, mem_board := m\<rparr>)"
    and m: "fb_wf ?s m" "\<forall>c r. on_sq c r \<longrightarrow> \<not> lit ?s m c r"
    using drawBoard_unlit [OF s wf2] by blast
  have "release ref b g = Some (?b2\<lparr>redrawPieces := True, mem_board := m\<rparr>,
      g\<lparr>g_playing := (g_playing g)\<lparr>dragging_piece := None\<rparr>\<rparr>)"
    unfolding release_eq [OF ok d c o] using a pb dr by simp
  moreover have "heap ?b2 = (heap b)[ref := setPiecePosition (changePiecePriority (heap b ! ref) False)
                 (getScreenX ?s c0) (getScreenY ?s r0)]"
    using ref by (simp add: lowered_def)
  ultimately show ?thesis using m(2) low(3) by auto
qed

section \<open>Receiving a move\<close>

text \<open>The bytes a peer takes from its queue, one per frame, in order.\<close>

definition feed :: "u8 list \<Rightarrow> Board \<times> Game \<Rightarrow> (Board \<times> Game) option" where
  "feed bs bg = foldM (\<lambda>byte (b, g). receive_byte byte b g) bs bg"

lemma feed_simps [simp]:
  "feed [] bg = Some bg"
  "feed (x # xs) (b, g) = (case receive_byte x b g of None \<Rightarrow> None | Some bg' \<Rightarrow> feed xs bg')"
  by (simp_all add: feed_def split: option.split)

lemma opponent_moves_eq:
  assumes ok: "board_ok b" and o0: "on_sq c0 r0" and o: "on_sq x y"
    and mv: "uint (old_col mv) = c0" "uint (old_row mv) = r0" "uint (new_col mv) = x" "uint (new_row mv) = y"
    and at: "squares b ! sq_index c0 r0 = Some ref"
  shows "opponent_moves s mv b =
    Some (king_at b x y,
      b\<lparr>heap := (heap b)[ref := movePiece (heap b ! ref) (getScreenX s x) (getScreenY s y)],
        squares := shift (sq_index c0 r0) (sq_index x y) (squares b)\<rparr>)"
proof -
  have len: "length (squares b) = 64" using ok by (simp add: board_ok_def)
  have ref: "ref < length (heap b)" by (rule ref_ok [OF ok o0 at])
  have i: "index_of (new_row mv) (new_col mv) = y * 8 + x" "index_of (old_row mv) (old_col mv) = r0 * 8 + c0"
    by (simp_all add: index_of_def mv)
  have king: "(case squares b ! sq_index x y of None \<Rightarrow> Some False
      | Some ref \<Rightarrow> map_option (\<lambda>p. ptype p = b_king \<or> ptype p = w_king) (piece_of b ref)) =
      Some (king_at b x y)"
  proof (cases "squares b ! sq_index x y")
    case None
    then show ?thesis by (simp add: king_at_def piece_at_def sq_index_def)
  next
    case (Some other)
    then have "other < length (heap b)" by (rule ref_ok [OF ok o])
    then show ?thesis using Some by (simp add: king_at_def piece_at_def sq_index_def)
  qed
  show ?thesis
    unfolding opponent_moves_def Let_def i
    using at_index [OF len o] at_index [OF len o0] king ref at len
      at_index(2) [OF _ o0, of "b\<lparr>heap := (heap b)[ref := movePiece (heap b ! ref) (getScreenX s x) (getScreenY s y)],
          squares := (squares b)[sq_index x y := Some ref]\<rparr>" None]
      at_index(2) [OF _ o, of "b\<lparr>heap := (heap b)[ref := movePiece (heap b ! ref) (getScreenX s x) (getScreenY s y)]\<rparr>" "Some ref"]
    by (simp add: mv shift_def)
qed

lemma types_shift:
  assumes ok: "board_ok b" and o0: "on_sq c0 r0" and o: "on_sq x y" and ty: "ptype p = ptype (heap b ! ref)"
  shows "types (b\<lparr>heap := (heap b)[ref := p], squares := shift (sq_index c0 r0) (sq_index x y) (squares b)\<rparr>) =
    shift (sq_index c0 r0) (sq_index x y) (types b)"
  unfolding types_set_piece [OF ty]
  using ok sq_index_less [OF o0] sq_index_less [OF o]
  by (simp add: types_def shift_def map_update board_ok_def)

text \<open>A message whose two squares have codes other than zero is a move.\<close>

lemma feed_message:
  assumes ok: "board_ok b" and o0: "on_sq c0 r0" and o: "on_sq x y"
    and nz: "(c0, r0) \<noteq> (0, 0)" "(x, y) \<noteq> (0, 0)"
    and at: "squares b ! sq_index c0 r0 = Some ref"
  shows "\<exists>b' g'. feed [BEGIN_MESSAGE, square_code c0 r0, square_code x y, YOUR_TURN] (b, g) = Some (b', g') \<and>
    b' = b\<lparr>heap := (heap b)[ref := movePiece (heap b ! ref) (getScreenX (g_screen g) x) (getScreenY (g_screen g) y)],
           squares := shift (sq_index c0 r0) (sq_index x y) (squares b)\<rparr> \<and>
    g_myTurn g' \<and> g_screen g' = g_screen g \<and>
    g_state g' = (if king_at b x y then EXIT else g_state g) \<and>
    g_won g' = (g_won g \<and> \<not> king_at b x y)"
proof -
  note n0 = square_code_cases [OF o0] and n1 = square_code_cases [OF o]
  note d0 = square_code_decode [OF o0] and d1 = square_code_decode [OF o]
  define P where "P = g_playing g"
  let ?mv = "(p_move P)\<lparr>old_col := col_of (square_code c0 r0), old_row := row_of (square_code c0 r0),
      new_col := col_of (square_code x y), new_row := row_of (square_code x y)\<rparr>"
  have om: "opponent_moves (g_screen g) ?mv b =
    Some (king_at b x y,
      b\<lparr>heap := (heap b)[ref := movePiece (heap b ! ref) (getScreenX (g_screen g) x) (getScreenY (g_screen g) y)],
        squares := shift (sq_index c0 r0) (sq_index x y) (squares b)\<rparr>)"
    using d0 d1 by (intro opponent_moves_eq [OF ok o0 o _ _ _ _ at]) simp_all
  have bt: "YOUR_TURN \<noteq> BEGIN_MESSAGE" by (simp add: YOUR_TURN_def BEGIN_MESSAGE_def)
  show ?thesis
    using n0 n1 nz om bt by (simp add: receive_byte_def Let_def P_def [symmetric])
qed


section \<open>Dropping a piece beside the board\<close>

text \<open>Back and forth between pixels and squares, on either side of the margin.\<close>

lemma i32_of_int:
  assumes "- (2 ^ 31) \<le> k" and "k < 2 ^ 31"
  shows "i32_of (word_of_int k) = k"
proof -
  have "sint (word_of_int k :: u32) = signed_take_bit 31 k" by (simp add: sint_sbintrunc')
  then show ?thesis using assms by (simp add: i32_of_def signed_take_bit_int_eq_self)
qed

lemma snap_wrap:
  assumes "0 \<le> v" and "v < 65536"
  shows "i32_of (word_of_int (59 * ((v + d) div 59) + (4294967296 - d))) = v - (v + d) mod 59"
proof -
  have "59 * ((v + d) div 59) = (v + d) - (v + d) mod 59"
    by (simp add: minus_mod_eq_mult_div)
  then have e: "59 * ((v + d) div 59) + (4294967296 - d) = v - (v + d) mod 59 + 4294967296" by simp
  have "(word_of_int (59 * ((v + d) div 59) + (4294967296 - d)) :: u32) = word_of_int (v - (v + d) mod 59)"
    unfolding e by (rule word_uint_eqI) (simp only: uint_word_of_int, simp)
  moreover have "0 \<le> (v + d) mod 59" "(v + d) mod 59 < 59" by simp_all
  then have "i32_of (word_of_int (v - (v + d) mod 59)) = v - (v + d) mod 59"
    using assms by (intro i32_of_int) simp_all
  ultimately show ?thesis by (simp only:)
qed

lemma snap_plain:
  assumes "d \<le> v" and "v < 65536" and "0 \<le> d"
  shows "59 * ((v - d) div 59) + d = v - (v - d) mod (59 :: int)"
  using minus_mod_eq_mult_div [of "v - d" 59] by simp

lemma snap_X:
  assumes s: "squares_115 s" and v: "0 \<le> v" "v < 65536"
  shows "getScreenX s (getBoardX s v) = v - (if 65 \<le> v then (v - 65) mod 59 else (v + 45) mod 59)"
proof (cases "65 \<le> v")
  case True
  then have "0 \<le> (v - 65) div 59" "(v - 65) div 59 < 2000" using v by auto
  then have "getScreenX s ((v - 65) div 59) = 59 * ((v - 65) div 59) + 65"
    unfolding getScreenX_word [OF s] by (intro i32_of_int) simp_all
  then show ?thesis using snap_plain [OF True v(2)] True by (simp add: getBoardX_115 [OF s v])
next
  case False
  have "(v + 4294967231) mod 59 = (v + 45 + 59 * 72796054) mod 59" by (rule arg_cong) simp
  also have "\<dots> = (v + 45) mod 59" by (rule mod_mult_self2)
  finally have m: "(v + 4294967231) mod 59 = (v + 45) mod 59" .
  show ?thesis
    unfolding getBoardX_115 [OF s v] if_not_P [OF False] getScreenX_word [OF s] m [symmetric]
    using snap_wrap [OF v, of 4294967231] by (simp only: diff_numeral_simps) simp
qed

lemma snap_Y:
  assumes s: "squares_115 s" and v: "0 \<le> v" "v < 65536"
  shows "getScreenY s (getBoardY s v) = v - (if 64 \<le> v then (v - 64) mod 59 else (v + 46) mod 59)"
proof (cases "64 \<le> v")
  case True
  then have "0 \<le> (v - 64) div 59" "(v - 64) div 59 < 2000" using v by auto
  then have "getScreenY s ((v - 64) div 59) = 59 * ((v - 64) div 59) + 64"
    unfolding getScreenY_word [OF s] by (intro i32_of_int) simp_all
  then show ?thesis using snap_plain [OF True v(2)] True by (simp add: getBoardY_115 [OF s v])
next
  case False
  have "(v + 4294967232) mod 59 = (v + 46 + 59 * 72796054) mod 59" by (rule arg_cong) simp
  also have "\<dots> = (v + 46) mod 59" by (rule mod_mult_self2)
  finally have m: "(v + 4294967232) mod 59 = (v + 46) mod 59" .
  show ?thesis
    unfolding getBoardY_115 [OF s v] if_not_P [OF False] getScreenY_word [OF s] m [symmetric]
    using snap_wrap [OF v, of 4294967232] by (simp only: diff_numeral_simps) simp
qed

lemma snapped_X_bounds:
  assumes s: "squares_115 s" and c: "0 \<le> cx" "cx \<le> 788"
  shows "- 45 \<le> getScreenX s (getBoardX s cx) \<and> getScreenX s (getBoardX s cx) \<le> 788"
proof -
  consider "cx < 14" | "14 \<le> cx \<and> cx < 65" | "65 \<le> cx" by linarith
  then show ?thesis
  proof cases
    case 1
    then show ?thesis using c snap_X [OF s, of cx] by simp
  next
    case 2
    then show ?thesis using c snap_X [OF s, of cx] by simp (smt (verit) pos_mod_bound pos_mod_sign)
  next
    case 3
    have "(cx - 65) mod 59 \<le> cx - 65" using 3 by (simp add: zmod_le_nonneg_dividend)
    then show ?thesis using 3 c snap_X [OF s, of cx] by simp
  qed
qed

lemma snapped_Y_bounds:
  assumes s: "squares_115 s" and c: "0 \<le> cy" "cy \<le> 580"
  shows "if 13 \<le> cy then 13 \<le> getScreenY s (getBoardY s cy) \<and> getScreenY s (getBoardY s cy) \<le> 580
    else getScreenY s (getBoardY s cy) = - 46"
proof -
  consider "cy < 13" | "13 \<le> cy \<and> cy < 64" | "64 \<le> cy" by linarith
  then show ?thesis
  proof cases
    case 1
    then show ?thesis using c snap_Y [OF s, of cy] by simp
  next
    case 2
    have "(cy + 46) mod 59 = (cy - 13 + 59) mod 59" by (simp add: add.commute)
    also have "\<dots> = cy - 13" using 2 by (simp only: mod_add_self2) simp
    finally show ?thesis using 2 c snap_Y [OF s, of cy] by simp
  next
    case 3
    have "(cy - 64) mod 59 \<le> cy - 64" using 3 by (simp add: zmod_le_nonneg_dividend)
    then show ?thesis using 3 c snap_Y [OF s, of cy] by simp
  qed
qed

lemma probe_inside_iff:
  assumes s: "squares_115 s" and len: "length m = 1440000"
    and c: "0 \<le> cx" "cx \<le> 788" "0 \<le> cy" "cy \<le> 580"
  shows "block_bytes m (probe_offset s (getBoardX s cx) (getBoardY s cy)) 1 \<noteq> None \<longleftrightarrow> 13 \<le> cy"
proof -
  define X where "X = getScreenX s (getBoardX s cx)"
  define Y where "Y = getScreenY s (getBoardY s cy)"
  have X: "- 45 \<le> X" "X \<le> 788" using snapped_X_bounds [OF s c(1,2)] by (simp_all add: X_def)
  have Y: "if 13 \<le> cy then 13 \<le> Y \<and> Y \<le> 580 else Y = - 46"
    unfolding Y_def by (rule snapped_Y_bounds [OF s c(3,4)])
  let ?k = "3 * (Y * 800 + X)"
  have "probe_offset s (getBoardX s cx) (getBoardY s cy) = word_of_int ?k"
    using squares_115D(1) [OF s]
    by (simp add: probe_offset_def X_def [symmetric] Y_def [symmetric] u32_of_def get_h_res_def mode_115_def)
  then have u: "uint (probe_offset s (getBoardX s cx) (getBoardY s cy)) = ?k mod 4294967296"
    by (simp only: uint_word_of_int) simp
  have b: "block_bytes m (probe_offset s (getBoardX s cx) (getBoardY s cy)) 1 \<noteq> None \<longleftrightarrow>
      ?k mod 4294967296 < 1440000"
    unfolding block_bytes_def len u [symmetric] by (simp add: Suc_le_eq unat_less_uint)
  show ?thesis
  proof (cases "13 \<le> cy")
    case True
    then have "0 \<le> ?k" "?k < 1440000" using X Y by auto
    then show ?thesis using b True by simp
  next
    case False
    then have "- 4294967296 \<le> ?k" "?k < 0" using X Y by auto
    then have "?k mod 4294967296 = ?k + 4294967296" by (rule mod_below_zero)
    then show ?thesis using b False X Y by simp
  qed
qed


lemma release_beside:
  assumes ok: "play_ok g b" and d: "drags g b ref c0 r0"
    and cur: "cursor_inside (g_screen g) (g_cursor g)" and c: "cursor_at g x y" and o: "\<not> on_sq x y"
  shows "if unat (cursor_y (g_cursor g)) < 13 then release ref b g = None
    else \<exists>b'. release ref b g = Some (b', g\<lparr>g_playing := (g_playing g)\<lparr>dragging_piece := None\<rparr>\<rparr>) \<and>
      squares b' = squares b \<and>
      heap b' = (heap b)[ref := setPiecePosition (changePiecePriority (heap b ! ref) False)
                   (getScreenX (g_screen g) c0) (getScreenY (g_screen g) r0)] \<and>
      (\<forall>c r. on_sq c r \<longrightarrow> \<not> lit (g_screen g) (mem_board b') c r)"
proof -
  let ?s = "g_screen g" and ?low = "lowered b ref"
  let ?cx = "uint (cursor_x (g_cursor g))" and ?cy = "uint (cursor_y (g_cursor g))"
  have s: "squares_115 ?s" and bok: "board_ok b" and wf: "fb_wf ?s (mem_board b)"
    using ok by (simp_all add: play_ok_def)
  note f = mode_115_facts [OF squares_115D(1) [OF s]]
  have ref: "ref < length (heap b)" using ref_ok [OF bok, of c0 r0 ref] d by (simp add: drags_def)
  note low = lowered_same [OF bok, of ref]
  have len: "length (mem_board ?low) = 1440000" using wf f(5) by (simp add: fb_wf_def low)
  have set: "piece_of b ref = Some (heap b ! ref)"
    "set_piece b ref (changePiecePriority (heap b ! ref) False) = Some ?low"
    using ref by (simp_all add: lowered_def)
  have cc: "getBoardX ?s ?cx = x" "getBoardY ?s ?cy = y" using c by (simp_all add: cursor_at_def)
  have pr: "block_bytes (mem_board ?low) (probe_offset ?s x y) 1 \<noteq> None \<longleftrightarrow> 13 \<le> ?cy"
    using probe_inside_iff [OF s len, of ?cx ?cy] cur uint_u16 [of "cursor_x (g_cursor g)"]
      uint_u16 [of "cursor_y (g_cursor g)"] by (simp add: cc cursor_inside_def f)
  have no: "\<not> (y \<ge> 0 \<and> y < 8 \<and> x \<ge> 0 \<and> x < 8)" using o by (auto simp: on_sq_def)
  have d': "drags g ?low ref c0 r0" using d by (simp add: drags_def low)
  note pb = put_back_eq [OF low(1) d', of ?s]
  show ?thesis
  proof (cases "unat (cursor_y (g_cursor g)) < 13")
    case True
    then have "block_bytes (mem_board ?low) (probe_offset ?s x y) 1 = None"
      using pr by (auto simp: unat_less_uint)
    then show ?thesis
      using True unfolding release_def by (simp add: set cc Let_def)
  next
    case False
    then obtain v where v: "block_bytes (mem_board ?low) (probe_offset ?s x y) 1 = Some v"
      using pr by (auto simp: unat_less_uint)
    let ?b2 = "?low\<lparr>heap := (heap ?low)[ref := setPiecePosition (heap ?low ! ref) (getScreenX ?s c0) (getScreenY ?s r0)]\<rparr>"
    have wf2: "fb_wf ?s (mem_board ?b2)" using wf by (simp add: low)
    obtain m where dr: "drawBoard ?s ?b2 = Some (?b2\<lparr>redrawPieces := True, mem_board := m\<rparr>)"
      and m: "\<forall>c r. on_sq c r \<longrightarrow> \<not> lit ?s m c r"
      using drawBoard_unlit [OF s wf2] by blast
    have "release ref b g = Some (?b2\<lparr>redrawPieces := True, mem_board := m\<rparr>,
        g\<lparr>g_playing := (g_playing g)\<lparr>dragging_piece := None\<rparr>\<rparr>)"
      unfolding release_def settle_def Let_def cc if_not_P [OF no]
      using pb dr v [unfolded One_nat_def] by (simp add: set)
    moreover have "heap ?b2 = (heap b)[ref := setPiecePosition (changePiecePriority (heap b ! ref) False)
        (getScreenX ?s c0) (getScreenY ?s r0)]"
      using ref by (simp add: lowered_def)
    ultimately show ?thesis using False low(3) m by auto
  qed
qed

text \<open>A player about to drop the rook of \<^const>\<open>rook_board\<close> on the black pawn.\<close>

definition sample_game :: Game where
  "sample_game = \<lparr>g_state = PLAYING, g_cursor = sample_cursor\<lparr>cursor_x := 193, cursor_y := 310\<rparr>,
     g_player = WHITE, g_name = replicate 9 0, g_animation = True, g_myTurn = True, g_endGame = False,
     g_won = False, g_letters = [], g_screen = screen_115, g_video_mem = [], g_buffer = [],
     g_sp = fresh_sp, name_size = 0, name_redraw = True,
     g_naming = \<lparr>bg_image = piece_image sample_piece, bg_created = False, bg_mem = None\<rparr>,
     g_waiting = \<lparr>bg_image = piece_image sample_piece, bg_created = False, bg_mem = None\<rparr>,
     g_choosing = \<lparr>bg_image = piece_image sample_piece, bg_created = False, bg_mem = None\<rparr>,
     g_player_choosed = False,
     g_wait_choosing = \<lparr>bg_image = piece_image sample_piece, bg_created = False, bg_mem = None\<rparr>,
     g_playing = \<lparr>p_move = \<lparr>old_row = 0, old_col = 0, new_row = 0, new_col = 0\<rparr>, p_board = None,
       p_toggle = piece_image sample_piece, byteOfMove = 0, dragging_piece = Some 0,
       inicialPieceRow = 2, inicialPieceCol = 2\<rparr>\<rparr>"

lemma sample_game_ok:
  "play_ok sample_game rook_board" "drags sample_game rook_board 0 2 2" "cursor_at sample_game 2 4"
  using blank_board_wf(1) rook_board_ok screen_115
  by (simp_all add: play_ok_def drags_def cursor_at_def sample_game_def rook_board_def on_sq_def
      sq_index_def u32_of_def getBoardX_115 [OF screen_115] getBoardY_115 [OF screen_115])

lemma sample_drag:
  "\<exists>b. play_ok sample_game b \<and> drags sample_game b 0 2 2 \<and> types b = types rook_board \<and>
     accepts sample_game b 0 2 4"
proof -
  let ?p = "sample_piece\<lparr>ptype := w_rook\<rparr>"
  have wf: "fb_wf screen_115 (mem_board rook_board)" "fb_wf screen_115 (replicate 1440000 0)"
    using blank_board_wf by (simp_all add: rook_board_def blank_board_def)
  have o: "on_sq 2 2" "on_sq 2 4" by (simp_all add: on_sq_def)
  obtain b1 :: Board and m' where r: "squares b1 = squares rook_board" "heap b1 = heap rook_board" "fb_wf screen_115 m'"
    and g: "\<forall>c r. on_sq c r \<longrightarrow> lit screen_115 m' c r = may_go rook_board ?p 2 2 c r"
    using marks_on_fresh_board [OF screen_115 wf rook_board_ok o(1), of "\<lambda>_. Some True" ?p]
      readable_total [of "\<lambda>_. Some True" rook_board ?p 2 2] by auto
  let ?b = "b1\<lparr>mem_board := m'\<rparr>"
  have "lit screen_115 m' 2 4" using g o(2) rook_reaches by blast
  then have "accepts sample_game ?b 0 2 4"
    using rook_board_at(2) r
    by (simp add: accepts_def sample_game_def piece_at_def is_white_num)
       (simp add: rook_board_def sample_piece_def is_white_num)
  moreover have "play_ok sample_game ?b" "drags sample_game ?b 0 2 2" "types ?b = types rook_board"
    using sample_game_ok r by (simp_all add: play_ok_def drags_def sample_game_def board_ok_def types_def)
  ultimately show ?thesis by blast
qed

section \<open>Properties\<close>

text \<open>Dropping a piece on the board makes the move exactly when the square is marked and not
  held by the player's own colour. Then the position changes by that move, the piece
  starts from its old square towards the new one, the four bytes of the move are queued
  for the peer, the turn ends and taking a king ends the game; otherwise nothing is sent,
  the position and the turn are kept and the piece is put back. In both cases the drag
  ends and no square stays marked.\<close>
lemma release_moves_or_returns:
  assumes "play_ok g b" and "drags g b ref c0 r0" and "cursor_at g x y" and "on_sq x y"
    and "sp_invar (g_sp g)" and "length (to_send (g_sp g)) \<le> 6"
  shows "\<exists>b' g'. release ref b g = Some (b', g') \<and> dragging_piece (g_playing g') = None \<and>
    (\<forall>c r. on_sq c r \<longrightarrow> \<not> lit (g_screen g') (mem_board b') c r) \<and>
    (if accepts g b ref x y
     then types b' = shift (sq_index c0 r0) (sq_index x y) (types b) \<and>
       heap b' ! ref = sent_off (g_screen g) c0 r0 x y (changePiecePriority (heap b ! ref) False) \<and>
       to_send (g_sp g') = to_send (g_sp g) @
         [BEGIN_MESSAGE, square_code c0 r0, square_code x y, YOUR_TURN] \<and>
       \<not> g_myTurn g' \<and> g_endGame g' = (g_endGame g \<or> king_at b x y)
     else types b' = types b \<and> g_sp g' = g_sp g \<and> g_myTurn g' = g_myTurn g \<and>
       g_endGame g' = g_endGame g \<and>
       uint (absolute_x (heap b' ! ref)) = 59 * c0 + 65 \<and>
       uint (absolute_y (heap b' ! ref)) = 59 * r0 + 64)"
proof -
  have bok: "board_ok b" and s: "squares_115 (g_screen g)" and o0: "on_sq c0 r0"
    using assms(1,2) by (simp_all add: play_ok_def drags_def)
  have ref: "ref < length (heap b)" using ref_ok [OF bok, of c0 r0 ref] assms(2) by (simp add: drags_def)
  show ?thesis
  proof (cases "accepts g b ref x y")
    case True
    show ?thesis
      using release_move [OF assms(1-4) True] True send_move_eq(1) [OF assms(5,6)] ref
      by fastforce
  next
    case False
    obtain b' where r: "release ref b g = Some (b', g\<lparr>g_playing := (g_playing g)\<lparr>dragging_piece := None\<rparr>\<rparr>)"
      and sq: "squares b' = squares b"
      and hp: "heap b' = (heap b)[ref := setPiecePosition (changePiecePriority (heap b ! ref) False)
                 (getScreenX (g_screen g) c0) (getScreenY (g_screen g) r0)]"
      and l: "\<forall>c r. on_sq c r \<longrightarrow> \<not> lit (g_screen g) (mem_board b') c r"
      using release_reject [OF assms(1-4) False] by blast
    have "ptype (heap b' ! k) = ptype (heap b ! k)" for k
      unfolding hp using ref
      by (cases "k = ref") (simp_all add: setPiecePosition_def changePiecePriority_def)
    then have "types b' = types b" by (simp add: types_def sq)
    moreover have "uint (absolute_x (heap b' ! ref)) = 59 * c0 + 65 \<and>
        uint (absolute_y (heap b' ! ref)) = 59 * r0 + 64"
      using ref o0 s by (simp add: hp setPiecePosition_def square_corner on_sq_def)
    ultimately show ?thesis using r l False by simp
  qed
qed

lemma release_moves_or_returns_example:
  "\<exists>b b' g'. types b = types rook_board \<and> release 0 b sample_game = Some (b', g') \<and>
     types b' = shift 18 34 (types rook_board) \<and> to_send (g_sp g') = [0xF9, 18, 20, 0xF8] \<and> \<not> g_myTurn g'"
proof -
  obtain b where b: "play_ok sample_game b" "drags sample_game b 0 2 2" "types b = types rook_board"
    "accepts sample_game b 0 2 4"
    using sample_drag by blast
  have o: "on_sq 2 2" "on_sq 2 4" by (simp_all add: on_sq_def)
  have sp: "sp_invar (g_sp sample_game)" "to_send (g_sp sample_game) = []"
    by (simp_all add: sample_game_def fresh_sp_invar)
  have "square_code 2 2 = 18" "square_code 2 4 = 20"
    by (simp_all add: square_code_value [OF o(1)] square_code_value [OF o(2)])
  moreover have "sq_index 2 2 = 18" "sq_index 2 4 = 34" by (simp_all add: sq_index_def)
  ultimately show ?thesis
    using release_moves_or_returns [OF b(1,2) sample_game_ok(3) o(2) sp(1)] b(3,4) sp(2)
    by (auto simp: BEGIN_MESSAGE_def YOUR_TURN_def)
qed

text \<open>C2: A move and its transmission keep the two boards in step. Whatever move one player makes
  by dropping a piece, when the other player's board shows the same position and neither
  square is the corner (0, 0), the bytes this queues, handed to the other player one per
  frame, are accepted, bring that board to the same new position, pass the turn and end
  the other player's game as lost exactly when a king was taken.\<close>
theorem move_exchange_synchronises:
  assumes "play_ok g b" and "drags g b ref c0 r0" and "cursor_at g x y" and "on_sq x y"
    and "sp_invar (g_sp g)" and "to_send (g_sp g) = []" and "accepts g b ref x y"
    and "(c0, r0) \<noteq> (0, 0)" and "(x, y) \<noteq> (0, 0)"
    and "board_ok b2" and "types b2 = types b"
  shows "\<exists>b' g' b2' g2'. release ref b g = Some (b', g') \<and>
    feed (to_send (g_sp g')) (b2, g2) = Some (b2', g2') \<and>
    types b2' = types b' \<and> types b' = shift (sq_index c0 r0) (sq_index x y) (types b) \<and>
    \<not> g_myTurn g' \<and> g_myTurn g2' \<and>
    g_state g2' = (if king_at b x y then EXIT else g_state g2) \<and>
    g_endGame g' = (g_endGame g \<or> king_at b x y)"
proof -
  have bok: "board_ok b" and o0: "on_sq c0 r0" and at: "squares b ! sq_index c0 r0 = Some ref"
    using assms(1,2) by (simp_all add: play_ok_def drags_def)
  obtain b' g' where r: "release ref b g = Some (b', g')"
    and t: "types b' = shift (sq_index c0 r0) (sq_index x y) (types b)"
    and g': "g' = g\<lparr>g_sp := send_move (square_code c0 r0) (square_code x y) (g_sp g), g_myTurn := False,
           g_endGame := g_endGame g \<or> king_at b x y,
           g_playing := (g_playing g)\<lparr>dragging_piece := None\<rparr>\<rparr>"
    using release_move [OF assms(1-4,7)] by blast
  have q: "to_send (g_sp g') = [BEGIN_MESSAGE, square_code c0 r0, square_code x y, YOUR_TURN]"
    using send_move_eq(1) [OF assms(5)] by (simp add: g' assms(6))
  have len: "length (squares b) = 64" "length (squares b2) = 64"
    using bok assms(10) by (simp_all add: board_ok_def)
  have eq: "types b2 ! i = types b ! i" for i using assms(11) by simp
  obtain ref2 where at2: "squares b2 ! sq_index c0 r0 = Some ref2"
    using eq [of "sq_index c0 r0"] at len sq_index_less [OF o0] by (auto simp: types_nth)
  have king: "king_at b2 x y = king_at b x y"
    using types_piece_at [OF bok assms(4)] types_piece_at [OF assms(10,4)] assms(11)
    by (cases "piece_at b x y"; cases "piece_at b2 x y") (auto simp: king_at_def)
  obtain b2' g2' where f: "feed (to_send (g_sp g')) (b2, g2) = Some (b2', g2')"
    and b2': "b2' = b2\<lparr>heap := (heap b2)[ref2 := movePiece (heap b2 ! ref2)
               (getScreenX (g_screen g2) x) (getScreenY (g_screen g2) y)],
           squares := shift (sq_index c0 r0) (sq_index x y) (squares b2)\<rparr>"
    and e: "g_myTurn g2'" "g_state g2' = (if king_at b2 x y then EXIT else g_state g2)"
    unfolding q using feed_message [OF assms(10) o0 assms(4,8,9) at2] by blast
  have "types b2' = shift (sq_index c0 r0) (sq_index x y) (types b2)"
    unfolding b2' by (rule types_shift [OF assms(10) o0 assms(4)]) (simp add: movePiece_def)
  then show ?thesis using r f t e g' king assms(11) by auto
qed

theorem move_exchange_synchronises_witness:
  "\<exists>b b' g' b2' g2'. release 0 b sample_game = Some (b', g') \<and>
     feed (to_send (g_sp g')) (rook_board, sample_game) = Some (b2', g2') \<and>
     types b2' = types b' \<and> types b' ! 34 = Some w_rook \<and> g_state g2' = PLAYING"
proof -
  obtain b where b: "play_ok sample_game b" "drags sample_game b 0 2 2" "types b = types rook_board"
    "accepts sample_game b 0 2 4"
    using sample_drag by blast
  have o: "on_sq 2 4" by (simp add: on_sq_def)
  have sp: "sp_invar (g_sp sample_game)" "to_send (g_sp sample_game) = []"
    by (simp_all add: sample_game_def fresh_sp_invar)
  have ty: "types rook_board ! 18 = Some w_rook" "types rook_board ! 34 = Some b_pawn"
    "length (types rook_board) = 64"
    by (simp_all add: types_def rook_board_def nth_list_update)
  have bok: "board_ok b" using b(1) by (simp add: play_ok_def)
  have "map_option ptype (piece_at b 2 4) = Some b_pawn"
    using types_piece_at [OF bok o] b(3) ty by (simp add: sq_index_def)
  then have k: "\<not> king_at b 2 4" by (auto simp: king_at_def)
  have "sq_index 2 2 = 18" "sq_index 2 4 = 34" by (simp_all add: sq_index_def)
  then show ?thesis
    using move_exchange_synchronises [OF b(1,2) sample_game_ok(3) o sp b(4) _ _ rook_board_ok b(3)[symmetric],
        of sample_game] k ty b(3)
    by (fastforce simp: shift_def sample_game_def)
qed

text \<open>C24: A move from or to the corner (0, 0) is lost. Its code is the zero byte, which the
  receiver takes for an empty queue, so the message leaves the receiver's board untouched
  and still hands it the turn: the two boards disagree from then on.\<close>
theorem corner_square_lost:
  assumes "on_sq c r"
  shows "(\<exists>g1. feed [BEGIN_MESSAGE, square_code 0 0, square_code c r, YOUR_TURN] (b, g) = Some (b, g1) \<and>
      g_myTurn g1) \<and>
    (\<exists>g2. feed [BEGIN_MESSAGE, square_code c r, square_code 0 0, YOUR_TURN] (b, g) = Some (b, g2) \<and>
      g_myTurn g2)"
proof -
  have z: "square_code 0 0 = 0" using square_code_cases(1) [of 0 0] by (simp add: on_sq_def)
  have n: "YOUR_TURN \<noteq> BEGIN_MESSAGE" "BEGIN_MESSAGE \<noteq> 0" "YOUR_TURN \<noteq> 0"
    by (simp_all add: YOUR_TURN_def BEGIN_MESSAGE_def)
  show ?thesis
    using square_code_cases(2,3) [OF assms] n by (simp add: z receive_byte_def Let_def)
qed


theorem corner_square_lost_witness:
  "\<exists>g1. feed [BEGIN_MESSAGE, 0, square_code 0 2, YOUR_TURN] (rook_board, sample_game) = Some (rook_board, g1) \<and>
     g_myTurn g1"
proof -
  have o: "on_sq 0 2" "on_sq 0 0" by (simp_all add: on_sq_def)
  have "square_code 0 0 = 0" using square_code_cases(1) [OF o(2)] by simp
  then show ?thesis using corner_square_lost [OF o(1), of rook_board sample_game] by simp
qed

text \<open>C26: Dropping a piece beside the board puts it back: no reference moves, the piece is drawn at
  the square it came from and below the others again, the marks are wiped out, nothing is
  sent, the turn is kept and the drag is over. The exception are the top thirteen rows of
  the screen, where the row computed for the cursor is negative and the pixel read for the
  diagnostic message, before the bounds are tested, lies outside the buffer.\<close>
theorem release_beside_board:
  assumes "play_ok g b" and "drags g b ref c0 r0" and "cursor_inside (g_screen g) (g_cursor g)"
    and "cursor_at g x y" and "\<not> on_sq x y"
  shows "if unat (cursor_y (g_cursor g)) < 13 then release ref b g = None
    else \<exists>b'. release ref b g = Some (b', g\<lparr>g_playing := (g_playing g)\<lparr>dragging_piece := None\<rparr>\<rparr>) \<and>
      squares b' = squares b \<and>
      heap b' = (heap b)[ref := setPiecePosition (changePiecePriority (heap b ! ref) False)
                   (getScreenX (g_screen g) c0) (getScreenY (g_screen g) r0)] \<and>
      (\<forall>c r. on_sq c r \<longrightarrow> \<not> lit (g_screen g) (mem_board b') c r)"
  by (rule release_beside [OF assms])

theorem release_beside_board_witness:
  "release 0 rook_board (sample_game\<lparr>g_cursor := sample_cursor\<lparr>cursor_x := 400, cursor_y := 5\<rparr>\<rparr>) = None \<and>
   (\<exists>b' g'. release 0 rook_board (sample_game\<lparr>g_cursor := sample_cursor\<lparr>cursor_x := 600, cursor_y := 100\<rparr>\<rparr>) =
      Some (b', g') \<and> squares b' = squares rook_board \<and> absolute_x (heap b' ! 0) = 183 \<and> g_myTurn g')"
proof -
  let ?g = "sample_game\<lparr>g_cursor := sample_cursor\<lparr>cursor_x := 400, cursor_y := 5\<rparr>\<rparr>"
  let ?h = "sample_game\<lparr>g_cursor := sample_cursor\<lparr>cursor_x := 600, cursor_y := 100\<rparr>\<rparr>"
  note f = mode_115_facts [OF squares_115D(1) [OF screen_115]]
  note ats = cursor_at_def getBoardX_115 [OF screen_115] getBoardY_115 [OF screen_115] sample_game_def
  have at: "cursor_at ?g 5 72796054" "cursor_at ?h 9 0" by (simp_all add: ats)
  have off: "\<not> on_sq 5 72796054" "\<not> on_sq 9 0" by (simp_all add: on_sq_def)
  have inside: "cursor_inside (g_screen ?g) (g_cursor ?g)" "cursor_inside (g_screen ?h) (g_cursor ?h)"
    by (simp_all add: cursor_inside_def sample_game_def f)
  have ok: "play_ok ?g rook_board" "play_ok ?h rook_board" "drags ?g rook_board 0 2 2" "drags ?h rook_board 0 2 2"
    using sample_game_ok(1,2) by (simp_all add: play_ok_def drags_def)
  have "release 0 rook_board ?g = None"
    using release_beside_board [OF ok(1,3) inside(1) at(1) off(1)] by simp
  moreover obtain b' where b': "release 0 rook_board ?h =
      Some (b', ?h\<lparr>g_playing := (g_playing ?h)\<lparr>dragging_piece := None\<rparr>\<rparr>)"
    "squares b' = squares rook_board"
    "heap b' = (heap rook_board)[0 := setPiecePosition (changePiecePriority (heap rook_board ! 0) False)
       (getScreenX (g_screen ?h) 2) (getScreenY (g_screen ?h) 2)]"
    using release_beside_board [OF ok(2,4) inside(2) at(2) off(2)] by auto
  moreover have "absolute_x (heap b' ! 0) = 183"
    using b'(3) by (simp add: rook_board_def setPiecePosition_def getScreenX_115 [OF screen_115] sample_game_def u16_of_def)
  moreover have "g_myTurn ?h" by (simp add: sample_game_def)
  ultimately show ?thesis by auto
qed

end
