(* ===== verification/Control.thy ===== *)
theory Control
  imports MainLoop Exchange
begin

text \<open>
  The control flow of the game: the state machine the handlers follow, and the invariant
  of the name and of the serial queues that every handler, every event and every iteration
  of the main loop keeps.
\<close>

section \<open>The state machine\<close>

inductive edge :: "GameState \<Rightarrow> GameState \<Rightarrow> bool" where
  stay: "edge s s"
| named: "edge START WAITING"
| invited: "edge WAITING CHOOSING_PLAYER"
| joined: "edge WAITING WAIT_CHOOSING_PLAYER"
| chosen: "edge CHOOSING_PLAYER PLAYING"
| told: "edge WAIT_CHOOSING_PLAYER PLAYING"
| over: "edge PLAYING EXIT"

inductive_cases edge_from_EXIT: "edge EXIT s"

text \<open>How far a game has come.\<close>

primrec stage :: "GameState \<Rightarrow> nat" where
  "stage START = 0" | "stage WAITING = 1" | "stage CHOOSING_PLAYER = 2"
| "stage WAIT_CHOOSING_PLAYER = 2" | "stage PLAYING = 3" | "stage EXIT = 4"

lemma edge_stage: "edge s t \<Longrightarrow> t = s \<or> stage t = Suc (stage s)"
  by (induction rule: edge.induct) simp_all

section \<open>The name and the queues\<close>

text \<open>
  The name holds at most eight break codes followed by zeros; its array has nine bytes.
\<close>

definition name_ok :: "u8 list \<Rightarrow> int \<Rightarrow> bool" where
  "name_ok nm n \<longleftrightarrow> length nm = 9 \<and> 0 \<le> n \<and> n \<le> 8 \<and>
     (\<forall>i<9. if int i < n then bit (nm ! i) 7 \<and> nm ! i \<noteq> BACK_SPACE else nm ! i = 0)"

definition ginv :: "Game \<Rightarrow> bool" where
  "ginv g \<longleftrightarrow> name_ok (g_name g) (name_size g) \<and> sp_invar (g_sp g)"

lemma name_ok_terminated: "name_ok nm n \<Longrightarrow> 0 \<in> set nm"
  unfolding name_ok_def by (metis (no_types, opaque_lifting) in_set_conv_nth lessI not_le
      numeral_nat(7) of_nat_numeral eval_nat_numeral(3) int_ops(3) linorder_not_less)

lemma name_ok_append:
  assumes "name_ok nm n" and "n < 8" and "bit c 7" and "c \<noteq> BACK_SPACE"
  shows "name_ok (nm[nat n := c]) (n + 1)"
  using assms unfolding name_ok_def by (auto simp: nth_list_update split: if_splits)

lemma name_ok_delete:
  assumes "name_ok nm n" and "0 < n"
  shows "name_ok (nm[nat (n - 1) := 0]) (n - 1)"
  using assms unfolding name_ok_def by (auto simp: nth_list_update split: if_splits)

lemma name_ok_end:
  assumes "name_ok nm n"
  shows "name_ok (nm[nat n := 0]) n"
  using assms unfolding name_ok_def by (auto simp: nth_list_update split: if_splits)

text \<open>What most statements leave alone.\<close>

definition keeps :: "Game \<Rightarrow> Game \<Rightarrow> bool" where
  "keeps g g' \<longleftrightarrow> g_name g' = g_name g \<and> name_size g' = name_size g"

lemma keeps_ginv: "keeps g g' \<Longrightarrow> ginv g \<Longrightarrow> sp_invar (g_sp g') \<Longrightarrow> ginv g'"
  by (simp add: keeps_def ginv_def)

lemma add_invar: "sp_invar sp \<Longrightarrow> sp_invar (addToTransmitQueue x sp)"
  by (rule addToTransmitQueue_eq(3))

lemma send_invar: "sp_invar sp \<Longrightarrow> sp_invar (send_move a b sp)"
  by (simp add: send_move_def add_invar)

lemma read_invar: "sp_invar sp \<Longrightarrow> readFromQueue sp = (x, sp') \<Longrightarrow> sp_invar sp'"
  using readFromQueue_eq(4) [of sp] by simp

lemma sp_clear_device_invar:
  assumes "sp_clear_device K sp w = Some r" and "sp_invar sp"
  shows "sp_invar (fst r)"
proof -
  have "sp_invar sp \<longrightarrow> sp_invar (fst r)"
  proof (rule sp_clear_device.raw_induct [where P = "\<lambda>K sp w r. sp_invar sp \<longrightarrow> sp_invar (fst r)", OF _ assms(1)])
    fix f :: "'a kernel \<Rightarrow> SerialPort \<Rightarrow> 'a \<Rightarrow> (SerialPort \<times> 'a) option" and K sp w r
    assume IH: "\<And>K sp w r. f K sp w = Some r \<Longrightarrow> sp_invar sp \<longrightarrow> sp_invar (fst r)"
      and e: "(case sp_check_read K w of (ready, w1) \<Rightarrow>
          if ready then case sp_read K sp w1 of (r, sp', w2) \<Rightarrow> f K sp' (tickdelay K 30000 w2)
          else Some (sp, w1)) = Some r"
    obtain ready w1 where c: "sp_check_read K w = (ready, w1)" by force
    obtain q sp' w2 where d: "sp_read K sp w1 = (q, sp', w2)" by (metis prod_cases3)
    have "sp_invar sp \<Longrightarrow> sp_invar sp'" using sp_read_invar [of sp K w1] by (simp add: d)
    with IH e c d show "sp_invar sp \<longrightarrow> sp_invar (fst r)" by (auto split: if_splits)
  qed
  with assms(2) show ?thesis by simp
qed

lemma sp_clear_invar:
  assumes "sp_clear K sp w = Some (sp', w')" and "sp_invar sp"
  shows "sp_invar sp'"
proof -
  obtain sp1 where d: "sp_clear_device K sp w = Some (sp1, w')"
    and e: "sp' = sp1\<lparr>receiveQueue := empty_queue (receiveQueue sp1)\<rparr>"
    using assms(1) by (auto simp: sp_clear_def split: option.splits)
  have "sp_invar sp1" using sp_clear_device_invar [OF d assms(2)] by simp
  then show ?thesis using empty_queue_eq [of "receiveQueue sp1"] by (simp add: e sp_invar_def)
qed

lemmas bind_splits = Option.bind_split_asm Option.bind_split

section \<open>Handlers\<close>

lemma show_background_keeps: "show_background bg g = Some g' \<Longrightarrow> \<exists>v. g' = g\<lparr>g_buffer := v\<rparr>"
  by (auto simp: show_background_def split: bind_splits)

lemma map_background_keeps: "map_background E img x y g w = Some (m, g', w') \<Longrightarrow> \<exists>s. g' = g\<lparr>g_screen := s\<rparr>"
  by (auto simp: map_background_def split: bind_splits)

lemma set_name_eq: "set_name i v g = Some g' \<Longrightarrow> g' = g\<lparr>g_name := (g_name g)[nat i := v]\<rparr>"
  by (auto simp: set_name_def split: if_splits)

lemma name_screen_setup_keeps:
  "name_screen_setup E g w = Some (g', w') \<Longrightarrow>
   keeps g g' \<and> g_sp g' = g_sp g \<and> g_state g' = g_state g"
  by (auto simp: name_screen_setup_def keeps_def Let_def split: bind_splits if_splits)

lemma name_key_ok:
  assumes k: "name_key E code g w = Some (g', w')" and i: "ginv g" and c: "bit code 7"
  shows "ginv g' \<and> (g_state g' = g_state g \<or> g_state g' = WAITING)"
proof (cases "code = BACK_SPACE \<and> name_size g > 0")
  case True
  then show ?thesis
    using k i name_ok_delete by (auto simp: name_key_def ginv_def Let_def split: bind_splits dest!: set_name_eq)
next
  case b: False
  show ?thesis
  proof (cases "code = ENTER \<and> name_size g > 0")
    case True
    then show ?thesis
      using k b i name_ok_end
      by (auto simp: name_key_def ginv_def split: bind_splits dest!: set_name_eq)
        (metis add_invar sp_clear_invar)
  next
    case False
    then have "g' = g \<or> (name_size g < 8 \<and> code \<noteq> BACK_SPACE \<and>
        g' = g\<lparr>g_name := (g_name g)[nat (name_size g) := code], name_size := name_size g + 1\<rparr>)"
      using k b unfolding name_key_def if_not_P [OF b] if_not_P [OF False]
      by (auto simp: MAX_NAME_SIZE_def split: bind_splits if_splits dest!: set_name_eq)
    then show ?thesis
      using i c name_ok_append [of "g_name g" "name_size g" code] by (auto simp: ginv_def)
  qed
qed

lemma name_choice_ok:
  assumes k: "name_choice_ih E ev g w = Some (g', w')" and i: "ginv g"
  shows "ginv g' \<and> (g_state g' = g_state g \<or> g_state g' = WAITING)"
proof -
  obtain g1 w1 where s: "name_screen_setup E g w = Some (g1, w1)"
    using k by (auto simp: name_choice_ih_def split: bind_splits)
  have g1: "ginv g1" "g_state g1 = g_state g"
    using name_screen_setup_keeps [OF s] i by (simp_all add: keeps_def ginv_def)
  show ?thesis
  proof (cases "ev_type ev = KEYBOARD \<and> has (ev_scanCode ev) (BIT 7)")
    case True
    then have "name_key E (ev_scanCode ev) (g1\<lparr>name_redraw := True\<rparr>) w1 = Some (g', w')"
      using k by (simp add: name_choice_ih_def s)
    from name_key_ok [OF this] True g1 show ?thesis by (simp add: ginv_def has_BIT)
  next
    case False
    then have "keeps g1 g' \<and> g_sp g' = g_sp g1 \<and> g_state g' = g_state g1"
      using k by (auto simp: name_choice_ih_def s keeps_def split: EventType.splits bind_splits if_splits)
    then show ?thesis using g1 by (simp add: keeps_def ginv_def)
  qed
qed


lemma waiting_ok:
  assumes k: "waiting_ih E ev g w = Some (g', w')" and i: "ginv g"
  shows "ginv g' \<and> (g_state g' = g_state g \<or> g_state g' = CHOOSING_PLAYER \<or> g_state g' = WAIT_CHOOSING_PLAYER)"
proof -
  obtain sp1 x where r: "readFromQueue (g_sp g) = (x, sp1)" by force
  have "sp_invar sp1" using read_invar [OF _ r] i by (simp add: ginv_def)
  then show ?thesis
    using k i r
    by (auto simp: waiting_ih_def ginv_def Let_def add_invar split: bind_splits if_splits EventType.splits
        dest!: map_background_keeps show_background_keeps)
qed

lemma waiting_choosing_ok:
  assumes k: "waiting_choosing_ih E ev g w = Some (g', w')" and i: "ginv g"
  shows "ginv g' \<and> (g_state g' = g_state g \<or> g_state g' = PLAYING)"
proof -
  obtain g1 w1 where g1: "(if \<not> bg_created (g_wait_choosing g) then do {
            let img = snd (create_image (e_load E) waiting_xpm (bg_image (g_wait_choosing g)));
            (m, g', w') \<leftarrow> map_background E img 0 0 g w;
            Some (g'\<lparr>g_wait_choosing := \<lparr>bg_image = img, bg_created = True, bg_mem = Some m\<rparr>\<rparr>, w')
          } else Some (g, w)) = Some (g1, w1)" (is "?setup = _")
    using k by (auto simp: waiting_choosing_ih_def split: bind_splits)
  have keep: "keeps g g1" "g_sp g1 = g_sp g" "g_state g1 = g_state g"
    using g1 by (auto simp: keeps_def Let_def split: if_splits bind_splits dest!: map_background_keeps)
  obtain q sp1 w2 where rd: "sp_read (e_kernel E) (g_sp g) w1 = (q, sp1, w2)" by (metis prod_cases3)
  obtain x sp2 where r: "readFromQueue sp1 = (x, sp2)" by force
  have "sp_invar sp1" using sp_read_invar [of "g_sp g" "e_kernel E" w1] i by (simp add: rd ginv_def)
  then have sp2: "sp_invar sp2" using read_invar [OF _ r] by simp
  show ?thesis
  proof (cases "ev_type ev = NEW_FRAME")
    case True
    then show ?thesis
      using k sp2 keep i
      unfolding waiting_choosing_ih_def g1
      by (auto simp: ginv_def keeps_def rd r Let_def split: bind_splits if_splits dest!: show_background_keeps)
  next
    case False
    then have "g' = g1"
      using k unfolding waiting_choosing_ih_def g1 by (auto split: EventType.splits)
    then show ?thesis using keep i by (simp add: ginv_def keeps_def)
  qed
qed

lemma choosing_ok:
  assumes k: "choosing_ih E ev g w = Some (g', w')" and i: "ginv g"
  shows "ginv g' \<and> (g_state g' = g_state g \<or> g_state g' = PLAYING)"
  using k i
  by (auto simp: choosing_ih_def cursorClickPlayer_def ginv_def Let_def add_invar
      split: bind_splits if_splits EventType.splits
      dest!: map_background_keeps show_background_keeps)

subsection \<open>Playing\<close>

definition play_keeps :: "Game \<Rightarrow> Game \<Rightarrow> bool" where
  "play_keeps g g' \<longleftrightarrow> keeps g g' \<and> (sp_invar (g_sp g) \<longrightarrow> sp_invar (g_sp g')) \<and>
     (g_state g' = g_state g \<or> g_state g' = EXIT) \<and> g_cursor g' = g_cursor g \<and> g_player g' = g_player g"

lemma play_keeps_refl [simp]: "play_keeps g g"
  by (simp add: play_keeps_def keeps_def)

lemma play_keeps_trans: "play_keeps a b \<Longrightarrow> play_keeps b c \<Longrightarrow> play_keeps a c"
  by (auto simp: play_keeps_def keeps_def)

lemma receive_byte_keeps: "receive_byte x b g = Some (b', g') \<Longrightarrow> play_keeps g g'"
  by (auto simp: receive_byte_def Let_def play_keeps_def keeps_def split: if_splits bind_splits)

lemma playing_frame_keeps:
  assumes "playing_frame b g = Some (b', g')"
  shows "play_keeps g g'"
proof -
  obtain v x sp1 b2 where r: "readFromQueue (g_sp g) = (x, sp1)"
    and e: "receive_byte x b2 (g\<lparr>g_buffer := v, g_sp := sp1\<rparr>) = Some (b', g')"
    using assms by (auto simp: playing_frame_def split: bind_splits prod.splits)
  have "play_keeps g (g\<lparr>g_buffer := v, g_sp := sp1\<rparr>)"
    using read_invar [OF _ r] by (simp add: play_keeps_def keeps_def)
  then show ?thesis using receive_byte_keeps [OF e] by (rule play_keeps_trans)
qed

lemma press_keeps: "press E b g = Some (b', g') \<Longrightarrow> play_keeps g g'"
  by (auto simp: press_def Let_def play_keeps_def keeps_def split: if_splits bind_splits option.splits)

lemma commit_move_keeps: "commit_move ref x y b g = Some (b', g') \<Longrightarrow> play_keeps g g'"
  by (auto simp: commit_move_def Let_def play_keeps_def keeps_def send_invar split: bind_splits)

lemma settle_keeps:
  assumes "settle legal ref x y b g = Some (b', g')"
  shows "play_keeps g g'"
proof -
  have end_game: "play_keeps g (g\<lparr>g_endGame := True\<rparr>)" by (simp add: play_keeps_def keeps_def)
  show ?thesis
    using assms commit_move_keeps [of ref x y b g b' g']
      commit_move_keeps [of ref x y b "g\<lparr>g_endGame := True\<rparr>" b' g'] play_keeps_trans [OF end_game]
    by (auto simp: settle_def split: bind_splits if_splits option.splits)
qed

lemma release_keeps:
  assumes "release ref b g = Some (b', g')"
  shows "play_keeps g g'"
proof -
  obtain legal x y b1 b2 g2 where "settle legal ref x y b1 g = Some (b2, g2)"
    and "g' = g2\<lparr>g_playing := (g_playing g2)\<lparr>dragging_piece := None\<rparr>\<rparr>"
    using assms unfolding release_def Let_def by (auto split: bind_splits)
  then show ?thesis using settle_keeps by (fastforce simp: play_keeps_def keeps_def)
qed

lemma playing_mouse_keeps:
  assumes "playing_mouse E b g = Some (b', g')"
  shows "play_keeps g g'"
proof -
  define F where "F =
         (case dragging_piece (g_playing g) of
            Some ref \<Rightarrow> do {
              p \<leftarrow> piece_of b ref;
              b' \<leftarrow> set_piece b ref (setPiecePosition p (uint (cursor_x (g_cursor g)) - 29)
                     (uint (cursor_y (g_cursor g)) - 29));
              Some (b', g)
            }
          | None \<Rightarrow> if pressed (g_cursor g) \<and> g_myTurn g then press E b g else Some (b, g))"
  obtain b1 g1 where f: "F = Some (b1, g1)"
    using assms by (cases F) (auto simp: playing_mouse_def F_def)
  have "(case dragging_piece (g_playing g1) of
         Some ref \<Rightarrow> if released (g_cursor g1) then release ref b1 g1 else Some (b1, g1)
       | None \<Rightarrow> Some (b1, g1)) = Some (b', g')"
    using assms f unfolding playing_mouse_def F_def [symmetric] by simp
  then have "play_keeps g1 g'" using release_keeps by (auto split: option.splits if_splits)
  moreover have "play_keeps g g1"
    using f press_keeps [of E b g b1 g1] unfolding F_def
    by (auto split: bind_splits option.splits if_splits)
  ultimately show ?thesis by (blast intro: play_keeps_trans)
qed

text \<open>The handler of a game in progress: set-up, the end of the game, the event.\<close>

definition ended :: "Game \<Rightarrow> Game" where
  "ended g = (if g_endGame g then g\<lparr>g_won := True, g_state := EXIT\<rparr> else g)"

definition play_event :: "'w env \<Rightarrow> Event \<Rightarrow> Board \<Rightarrow> Game \<Rightarrow> (Board \<times> Game) option" where
  "play_event E ev b g =
     (case ev_type ev of
        NEW_FRAME \<Rightarrow> playing_frame b g
      | KEYBOARD \<Rightarrow>
          Some (b, if has (ev_scanCode ev) (BIT 7) \<and> ev_scanCode ev = 0xac
                   then g\<lparr>g_animation := \<not> g_animation g\<rparr> else g)
      | MOUSE \<Rightarrow> playing_mouse E b g
      | NO_EVENT \<Rightarrow> Some (b, g))"

lemma playing_ih_eq:
  "playing_ih E ev g w = do {
     (b, g1, w1) \<leftarrow> playing_setup E g w;
     (b3, g3) \<leftarrow> play_event E ev b (ended g1);
     Some (g3\<lparr>g_playing := (g_playing g3)\<lparr>p_board := Some b3\<rparr>\<rparr>, w1) }"
  unfolding playing_ih_def play_event_def ended_def Let_def by simp

lemma playing_ihE:
  assumes "playing_ih E ev g w = Some (g', w')"
  obtains b g1 b3 g3 where "playing_setup E g w = Some (b, g1, w')" "play_event E ev b (ended g1) = Some (b3, g3)"
    "g' = g3\<lparr>g_playing := (g_playing g3)\<lparr>p_board := Some b3\<rparr>\<rparr>"
  using assms by (auto simp: playing_ih_eq split: bind_splits)

lemma playing_keeps:
  assumes k: "playing_ih E ev g w = Some (g', w')"
  shows "play_keeps g g'"
proof -
  obtain b g1 b3 g3 where s: "playing_setup E g w = Some (b, g1, w')" and f: "play_event E ev b (ended g1) = Some (b3, g3)"
    and g': "g' = g3\<lparr>g_playing := (g_playing g3)\<lparr>p_board := Some b3\<rparr>\<rparr>"
    by (rule playing_ihE [OF k])
  have "play_keeps g g1"
    using s by (auto simp: playing_setup_def Let_def play_keeps_def keeps_def split: option.splits bind_splits)
  moreover have "play_keeps g1 (ended g1)" by (simp add: ended_def play_keeps_def keeps_def)
  moreover have "play_keeps h (h\<lparr>g_animation := \<not> g_animation h\<rparr>)" for h by (simp add: play_keeps_def keeps_def)
  then have "play_keeps (ended g1) g3"
    using f playing_frame_keeps [of b "ended g1" b3 g3] playing_mouse_keeps [of E b "ended g1" b3 g3]
    unfolding play_event_def by (auto split: EventType.splits if_splits)
  ultimately have "play_keeps g g3" by (blast intro: play_keeps_trans)
  then show ?thesis by (auto simp: play_keeps_def keeps_def g')
qed

lemma playing_ok:
  "playing_ih E ev g w = Some (g', w') \<Longrightarrow> ginv g \<Longrightarrow> ginv g' \<and> (g_state g' = g_state g \<or> g_state g' = EXIT)"
  using playing_keeps [of E ev g w g' w'] by (auto simp: play_keeps_def keeps_def ginv_def)

lemma inputHandler_ok:
  assumes "inputHandler E ev g w = Some (g', w')" and "ginv g"
  shows "ginv g' \<and> edge (g_state g) (g_state g')"
  using assms name_choice_ok [of E ev g w g' w'] waiting_ok [of E ev g w g' w'] playing_ok [of E ev g w g' w']
    choosing_ok [of E ev g w g' w'] waiting_choosing_ok [of E ev g w g' w']
  by (cases "g_state g") (auto simp: inputHandler_def intro: edge.intros)

lemma handle_event_ok:
  assumes "handle_event E ev g w = Some (g', w')" and "ginv g"
  shows "ginv g' \<and> edge (g_state g) (g_state g')"
proof (cases "ev_type ev")
  case MOUSE
  then obtain p where
    "inputHandler (base_env E) ev (g\<lparr>g_cursor := updateCursor (g_screen g) (g_cursor g) p\<rparr>) w = Some (g', w')"
    using assms(1) by (auto simp: handle_event_def split: EventData.splits)
  from inputHandler_ok [OF this] assms(2) show ?thesis by (simp add: ginv_def)
next
  case NEW_FRAME
  then obtain g1 v vm where "inputHandler (base_env E) ev g w = Some (g1, w')"
    and "g' = g1\<lparr>g_buffer := v, g_video_mem := vm\<rparr>"
    using assms(1) by (auto simp: handle_event_def split: bind_splits)
  with inputHandler_ok assms(2) show ?thesis by (fastforce simp: ginv_def)
next
  case KEYBOARD
  then show ?thesis using assms inputHandler_ok by (simp add: handle_event_def)
next
  case NO_EVENT
  then show ?thesis using assms by (simp add: handle_event_def edge.stay)
qed

lemma drain_events_ok:
  assumes "drain_events E q g w = Some (q', g', w')" and "ginv g" and "eq_invar q"
  shows "ginv g' \<and> eq_invar q' \<and> edge\<^sup>*\<^sup>* (g_state g) (g_state g')"
  using assms
proof (induction E q g w rule: drain_events.induct)
  case (1 E q g w)
  show ?case
  proof (cases "eventQueueIsEmpty q")
    case True
    then show ?thesis using 1(2-4) by (simp add: drain_events.simps [of E q])
  next
    case False
    obtain ev q1 where p: "popEvent q = (ev, q1)" by force
    obtain g1 w1 where h: "handle_event E ev g w = Some (g1, w1)"
      and d: "drain_events E q1 g1 w1 = Some (q', g', w')"
      using 1(2) False by (auto simp: drain_events.simps [of E q] p split: option.splits)
    have "eq_invar q1" using popEvent_invar [OF 1(4)] by (simp add: p)
    moreover note h1 = handle_event_ok [OF h 1(3)]
    ultimately have "ginv g' \<and> eq_invar q' \<and> edge\<^sup>*\<^sup>* (g_state g1) (g_state g')"
      using 1(1) [OF False p [symmetric] h refl d] by simp
    with h1 show ?thesis by (auto intro: converse_rtranclp_into_rtranclp)
  qed
qed

definition main_invar :: "MainState \<Rightarrow> bool" where
  "main_invar ms \<longleftrightarrow> ginv (m_game ms) \<and> eq_invar (m_events ms) \<and>
     length (scancode_bytes ms) = 2 \<and> unat (counter ms) \<le> 2"

definition kept_main :: "MainState \<Rightarrow> MainState \<Rightarrow> bool" where
  "kept_main ms ms' \<longleftrightarrow> (main_invar ms \<longrightarrow> main_invar ms') \<and> g_state (m_game ms') = g_state (m_game ms)"

lemma kept_main_trans: "kept_main a b \<Longrightarrow> kept_main b c \<Longrightarrow> kept_main a c"
  by (simp add: kept_main_def)

lemma on_timer_kept: "kept_main ms (on_timer ms)"
  by (simp add: kept_main_def main_invar_def on_timer_def pushEvent_invar)

lemma on_serial_kept: "kept_main ms (fst (on_serial E ms w))"
proof -
  obtain x sp1 w1 where e: "sp_ih (e_kernel E) (g_sp (m_game ms)) w = (x, sp1, w1)"
    by (metis prod_cases3)
  show ?thesis
    using sp_ih_invar [of "g_sp (m_game ms)" "e_kernel E" w]
    by (simp add: kept_main_def main_invar_def on_serial_def ginv_def e)
qed

lemma on_mouse_kept: "on_mouse E ms w = Some (ms', w') \<Longrightarrow> kept_main ms ms'"
  by (auto simp: kept_main_def main_invar_def on_mouse_def Let_def pushEvent_invar split: bind_splits if_splits)

lemma take_scancode_kept:
  assumes "take_scancode code ms = Some ms'"
  shows "kept_main ms ms'"
proof -
  have c: "unat (counter ms) < length (scancode_bytes ms)"
    using assms by (auto simp: take_scancode_def store_scancode_def split: if_splits bind_splits)
  have "unat (counter ms + 1) \<le> 2" if "length (scancode_bytes ms) = 2"
    using c that unat_plus_simple [of "counter ms" 1] by (simp add: unat_word_ariths)
  then show ?thesis
    using assms c
    by (auto simp: kept_main_def main_invar_def take_scancode_def store_scancode_def pushEvent_invar)
qed

lemma on_keyboard_kept:
  assumes "on_keyboard E ms w = Some (ms', w')"
  shows "kept_main ms ms'"
proof -
  obtain r kb1 w1 where k: "keyboard_int_handler (e_kernel E) (m_kb ms) w = (r, kb1, w1)"
    by (metis prod_cases3)
  have "kept_main ms (ms\<lparr>m_kb := kb1\<rparr>)" by (simp add: kept_main_def main_invar_def)
  then show ?thesis
    using assms take_scancode_kept kept_main_trans
    by (auto simp: on_keyboard_def k Let_def split: if_splits)
qed

lemma on_notify_kept:
  assumes "on_notify E i ms w = Some (ms', w')"
  shows "kept_main ms ms'"
proof -
  define ms1 where "ms1 = (if has i (ucast (irq_set_timer ms)) then on_timer ms else ms)"
  have 1: "kept_main ms ms1" using on_timer_kept [of ms] by (simp add: ms1_def kept_main_def)
  obtain ms2 w2 where 2: "(if has i (irq_set_sp ms) then on_serial E ms1 w else (ms1, w)) = (ms2, w2)" by force
  then have 12: "kept_main ms1 ms2"
    using on_serial_kept [of ms1 E w] by (auto simp: kept_main_def split: if_splits)
  obtain ms3 w3 where 3: "(if has i (irq_set_mouse ms) then on_mouse E ms2 w2 else Some (ms2, w2)) = Some (ms3, w3)"
    and 4: "(if has i (ucast (irq_set_kb ms)) then on_keyboard E ms3 w3 else Some (ms3, w3)) = Some (ms', w')"
    using assms unfolding on_notify_def Let_def ms1_def [symmetric] 2 prod.case by (auto split: bind_splits)
  have "kept_main ms2 ms3" using 3 on_mouse_kept [of E ms2 w2 ms3 w3] by (auto simp: kept_main_def split: if_splits)
  moreover have "kept_main ms3 ms'"
    using 4 on_keyboard_kept [of E ms3 w3 ms' w'] by (auto simp: kept_main_def split: if_splits)
  ultimately show ?thesis using 1 12 by (blast intro: kept_main_trans)
qed

lemma main_step_ok:
  assumes "main_step E ms w = Some (ms', w')" and "main_invar ms"
  shows "main_invar ms' \<and> edge\<^sup>*\<^sup>* (g_state (m_game ms)) (g_state (m_game ms'))"
proof -
  obtain msg w1 where m: "e_receive E w = (msg, w1)" by force
  show ?thesis
  proof (cases "msg_r msg = 0")
    case False
    then show ?thesis using assms by (simp add: main_step_def m)
  next
    case True
    obtain ms1 w2 where n: "(if msg_notify msg \<and> msg_hardware msg
        then on_notify E (msg_interrupts msg) ms w1 else Some (ms, w1)) = Some (ms1, w2)"
      using assms(1) True by (auto simp: main_step_def m split: bind_splits)
    have k: "kept_main ms ms1"
      using n on_notify_kept [of E "msg_interrupts msg" ms w1 ms1 w2] by (auto simp: kept_main_def split: if_splits)
    obtain r3 sp1 w3 where wr: "sp_write (e_kernel E) (g_sp (m_game ms1)) w2 = (r3, sp1, w3)" by (metis prod_cases3)
    obtain r4 sp2 w4 where rd: "sp_read (e_kernel E) sp1 w3 = (r4, sp2, w4)" by (metis prod_cases3)
    have i1: "main_invar ms1" using k assms(2) by (simp add: kept_main_def)
    then have "sp_invar sp2"
      using sp_write_invar [of "g_sp (m_game ms1)" "e_kernel E" w2] sp_read_invar [of sp1 "e_kernel E" w3]
      by (simp add: main_invar_def ginv_def wr rd)
    then have gi: "ginv ((m_game ms1)\<lparr>g_sp := sp2\<rparr>)" using i1 by (simp add: main_invar_def ginv_def)
    have eqi: "eq_invar (m_events ms1)" using i1 by (simp add: main_invar_def)
    obtain q g' where d: "drain_events E (m_events ms1) ((m_game ms1)\<lparr>g_sp := sp2\<rparr>) w4 = Some (q, g', w')"
      and ms': "ms' = ms1\<lparr>m_game := g', m_events := q\<rparr>"
      using assms(1) True n by (auto simp: main_step_def m wr rd split: bind_splits)
    from drain_events_ok [OF d gi eqi] i1 k show ?thesis
      by (simp add: ms' main_invar_def kept_main_def)
  qed
qed

text \<open>The states the loop passes through.\<close>

inductive reachable :: "'w main_env \<Rightarrow> MainState \<Rightarrow> 'w \<Rightarrow> MainState \<Rightarrow> 'w \<Rightarrow> bool" for E ms0 w0 where
  start: "reachable E ms0 w0 ms0 w0"
| iterate: "reachable E ms0 w0 ms w \<Longrightarrow> g_state (m_game ms) \<noteq> EXIT \<Longrightarrow>
    main_step E ms w = Some (ms', w') \<Longrightarrow> reachable E ms0 w0 ms' w'"

lemma reachable_ok:
  assumes "reachable E ms0 w0 ms w" and "main_invar ms0"
  shows "main_invar ms \<and> edge\<^sup>*\<^sup>* (g_state (m_game ms0)) (g_state (m_game ms))"
  using assms
proof (induction rule: reachable.induct)
  case (iterate ms w ms' w')
  then show ?case using main_step_ok [OF iterate.hyps(3)] by (metis rtranclp_trans)
qed simp

lemma edges_stage: "edge\<^sup>*\<^sup>* s t \<Longrightarrow> stage s \<le> stage t"
  by (induction rule: rtranclp_induct) (use edge_stage in fastforce)+

section \<open>Typing the name\<close>

text \<open>
  The name as a list of at most eight codes, edited from the right, and its array of nine
  bytes filled up with zeros.
\<close>

definition edit_name :: "u8 list \<Rightarrow> u8 \<Rightarrow> u8 list" where
  "edit_name cs code =
     (if code = BACK_SPACE then butlast cs else if length cs < 8 then cs @ [code] else cs)"

definition named :: "u8 list \<Rightarrow> Game \<Rightarrow> bool" where
  "named cs g \<longleftrightarrow> length cs \<le> 8 \<and> name_size g = int (length cs) \<and>
     g_name g = cs @ replicate (9 - length cs) 0"

lemma update_after:
  "length cs \<le> 8 \<Longrightarrow> (cs @ replicate (9 - length cs) 0)[length cs := c] = cs @ c # replicate (8 - length cs) (0::u8)"
proof -
  assume "length cs \<le> 8"
  then have "9 - length cs = Suc (8 - length cs)" by simp
  then show ?thesis by (simp add: list_update_append)
qed

lemma update_last:
  assumes "cs \<noteq> []" and "length cs \<le> 8"
  shows "(cs @ replicate (9 - length cs) 0)[length cs - 1 := 0] =
    butlast cs @ replicate (9 - length (butlast cs)) (0::u8)"
proof -
  obtain bs x where c: "cs = bs @ [x]" using assms(1) by (metis rev_exhaust)
  have "9 - length bs = Suc (8 - length bs)" using assms(2) c by simp
  then show ?thesis using assms(2) by (simp add: c list_update_append)
qed

lemma name_key_edit:
  assumes n: "named cs g" and c: "code \<noteq> ENTER \<or> cs = []"
  shows "\<exists>g'. name_key E code g w = Some (g', w) \<and> named (edit_name cs code) g' \<and> g_state g' = g_state g"
proof (cases "code = BACK_SPACE")
  case True
  have e: "BACK_SPACE \<noteq> ENTER" by (simp add: BACK_SPACE_def ENTER_def)
  show ?thesis
  proof (cases "cs = []")
    case False
    then have "nat (int (length cs) - 1) = length cs - 1" by simp
    then show ?thesis
      using True False n update_last [OF False]
      by (auto simp: name_key_def named_def edit_name_def set_name_def Let_def of_nat_diff Suc_leI)
  qed (use True n e in \<open>auto simp: name_key_def named_def edit_name_def\<close>)
next
  case False
  then show ?thesis
    using n c update_after [of cs code]
    by (auto simp: name_key_def named_def edit_name_def set_name_def MAX_NAME_SIZE_def)
qed

text \<open>The keys typed one after the other.\<close>

primrec type_keys :: "'w env \<Rightarrow> u8 list \<Rightarrow> Game \<Rightarrow> 'w \<Rightarrow> (Game \<times> 'w) option" where
  "type_keys E [] g w = Some (g, w)"
| "type_keys E (k # ks) g w = Option.bind (name_key E k g w) (\<lambda>(g1, w1). type_keys E ks g1 w1)"

lemma type_keys_edit:
  "named cs g \<Longrightarrow> ENTER \<notin> set ks \<Longrightarrow>
   \<exists>g'. type_keys E ks g w = Some (g', w) \<and> named (foldl edit_name cs ks) g' \<and> g_state g' = g_state g"
proof (induction ks arbitrary: cs g)
  case (Cons k ks)
  then obtain g1 where "name_key E k g w = Some (g1, w)" "named (edit_name cs k) g1" "g_state g1 = g_state g"
    using name_key_edit [of cs g k E w] by auto
  then show ?case using Cons.IH [of "edit_name cs k" g1] Cons.prems by auto
qed auto

section \<open>The scan code buffer\<close>

primrec take_scancodes :: "u8 list \<Rightarrow> MainState \<Rightarrow> MainState option" where
  "take_scancodes [] ms = Some ms"
| "take_scancodes (c # cs) ms = Option.bind (take_scancode c ms) (take_scancodes cs)"

text \<open>Whether the buffer overruns when it holds \<open>n\<close> prefixes.\<close>

fun overruns :: "nat \<Rightarrow> u8 list \<Rightarrow> bool" where
  "overruns n [] = False"
| "overruns n (c # cs) = (2 \<le> n \<or> overruns (if c = TWO_BYTES then Suc n else 0) cs)"

lemma take_scancodes_None:
  "length (scancode_bytes ms) = 2 \<Longrightarrow> unat (counter ms) \<le> 2 \<Longrightarrow>
   take_scancodes cs ms = None \<longleftrightarrow> overruns (unat (counter ms)) cs"
proof (induction cs arbitrary: ms)
  case (Cons c cs)
  show ?case
  proof (cases "unat (counter ms) < 2")
    case False
    then show ?thesis using Cons.prems by (simp add: take_scancode_def store_scancode_def)
  next
    case True
    then have u: "unat (counter ms + 1) = Suc (unat (counter ms))"
      by (simp add: unat_word_ariths)
    define ms1 where "ms1 = ms\<lparr>scancode_bytes := (scancode_bytes ms)[unat (counter ms) := c], counter := counter ms + 1\<rparr>"
    define ms2 where "ms2 = (if c \<noteq> TWO_BYTES then ms1\<lparr>counter := 0,
        m_events := pushEvent (m_events ms1) \<lparr>ev_type = KEYBOARD, ev_data = ScanCode c\<rparr>\<rparr> else ms1)"
    have t: "take_scancode c ms = Some ms2"
      using True Cons.prems by (simp add: take_scancode_def store_scancode_def ms1_def ms2_def)
    have "unat (counter ms2) = (if c = TWO_BYTES then Suc (unat (counter ms)) else 0)"
      "length (scancode_bytes ms2) = 2" using u Cons.prems by (simp_all add: ms1_def ms2_def)
    then show ?thesis using Cons.IH [of ms2] True by (simp add: t)
  qed
qed simp

lemma overruns_0:
  "overruns 0 cs \<longleftrightarrow> (\<exists>i. i + 2 < length cs \<and> cs ! i = TWO_BYTES \<and> cs ! (i + 1) = TWO_BYTES)"
proof (induction cs)
  case (Cons c cs)
  have two: "overruns (Suc (Suc 0)) ds \<longleftrightarrow> ds \<noteq> []" for ds by (cases ds) simp_all
  have one: "overruns (Suc 0) cs \<longleftrightarrow> (1 < length cs \<and> cs ! 0 = TWO_BYTES) \<or> overruns 0 cs"
    by (cases cs) (auto simp: two)
  have "(\<exists>i. i + 2 < length (c # cs) \<and> (c # cs) ! i = TWO_BYTES \<and> (c # cs) ! (i + 1) = TWO_BYTES) \<longleftrightarrow>
    (1 < length cs \<and> c = TWO_BYTES \<and> cs ! 0 = TWO_BYTES) \<or> overruns 0 cs" (is "(\<exists>i. ?P i) \<longleftrightarrow> _")
  proof -
    have "(\<exists>i. ?P i) \<longleftrightarrow> ?P 0 \<or> (\<exists>i. ?P (Suc i))" by (metis not0_implies_Suc)
    then show ?thesis unfolding Cons.IH by simp
  qed
  then show ?case using one by auto
qed simp

section \<open>Properties\<close>

text \<open>C9: The main loop keeps the program's state well-formed and follows the state machine. In
  every state reached by iterations of the loop the name array is terminated and holds at
  most eight break codes, both serial queues and the event queue are consistent, and the
  game state has moved only along the documented edges, so it never goes back.\<close>
theorem main_loop_invariant:
  assumes "reachable E ms0 w0 ms w" and "main_invar ms0"
  shows "main_invar ms \<and> edge\<^sup>*\<^sup>* (g_state (m_game ms0)) (g_state (m_game ms)) \<and>
    stage (g_state (m_game ms0)) \<le> stage (g_state (m_game ms))"
  using reachable_ok [OF assms] edges_stage by blast

text \<open>A machine that delivers the break code 0xAC of the key C once per message.\<close>

definition sample_env :: "unit main_env" where
  "sample_env = \<lparr>e_kernel = table_kernel (\<lambda>p. if p = 0x64 then 0x1D else if p = 0x60 then 0xAC else 0),
     e_video = sample_video, e_load = (\<lambda>_. None), e_mapped = (\<lambda>_. []), e_fresh = (\<lambda>_. sample_piece),
     e_block = rook_board, e_junk = (\<lambda>_. Some False), e_free = True,
     e_receive = (\<lambda>w. (\<lparr>msg_r = 0, msg_notify = True, msg_hardware = True, msg_interrupts = 2\<rparr>, w)),
     e_mouse_enable = (\<lambda>w. w), e_sleep = (\<lambda>_ w. w), e_status = 0, e_byte = 0,
     e_queue_mem = replicate 10 0, e_event_mem = replicate 100 no_event, e_image = piece_image sample_piece\<rparr>"

definition sample_main :: MainState where
  "sample_main = \<lparr>m_game = sample_game\<lparr>g_playing := (g_playing sample_game)\<lparr>p_board := Some rook_board\<rparr>\<rparr>,
     m_timer = \<lparr>t_hook_id = 0, n_interrupts = 0\<rparr>, m_kb = keyboard_init, m_mouse = mouse_init,
     m_events = createEventQueue 100 (replicate 100 no_event), scancode_bytes = [0, 0], counter = 0,
     irq_set_kb = 2, irq_set_mouse = 4096, irq_set_sp = 16, irq_set_timer = 1\<rparr>"

lemma sample_main_invar: "main_invar sample_main"
proof -
  have "name_ok (replicate 9 0) 0" by (simp add: name_ok_def)
  then show ?thesis
    by (simp add: main_invar_def ginv_def sample_main_def sample_game_def fresh_sp_invar createEventQueue_invar)
qed

lemma sample_key:
  "\<exists>ms1. on_notify sample_env 2 sample_main () = Some (ms1, ()) \<and> m_game ms1 = m_game sample_main \<and>
     eq_size (m_events ms1) = 1 \<and>
     popEvent (m_events ms1) = (\<lparr>ev_type = KEYBOARD, ev_data = ScanCode 0xAC\<rparr>, (m_events ms1)\<lparr>eq_size := 0\<rparr>)"
  by (simp add: on_notify_def on_keyboard_def keyboard_int_handler_def util_sys_inb_def sample_env_def
      sample_main_def table_kernel_def take_scancode_def store_scancode_def has_def status_bits Let_def
      STAT_REG_def OUT_BUF_def TWO_BYTES_def pushEvent_def createEventQueue_def eventQueueIsFull_def
      popEvent_def eventQueueIsEmpty_def keyboard_init_def)

lemma sample_step:
  "\<exists>ms'. main_step sample_env sample_main () = Some (ms', ()) \<and> \<not> g_animation (m_game ms')"
proof -
  obtain ms1 where n: "on_notify sample_env 2 sample_main () = Some (ms1, ())"
    "m_game ms1 = m_game sample_main" "eq_size (m_events ms1) = 1"
    "popEvent (m_events ms1) = (\<lparr>ev_type = KEYBOARD, ev_data = ScanCode 0xAC\<rparr>, (m_events ms1)\<lparr>eq_size := 0\<rparr>)"
    using sample_key by blast
  let ?g = "m_game sample_main"
  have k: "handle_event sample_env \<lparr>ev_type = KEYBOARD, ev_data = ScanCode 0xAC\<rparr> ?g () =
      Some (?g\<lparr>g_animation := False\<rparr>, ())"
    by (simp add: handle_event_def inputHandler_def playing_ih_def playing_setup_def sample_main_def
        sample_game_def ev_scanCode_def has_def BIT_def)
  have d: "drain_events sample_env (m_events ms1) ?g () =
      Some ((m_events ms1)\<lparr>eq_size := 0\<rparr>, ?g\<lparr>g_animation := False\<rparr>, ())"
    by (subst drain_events.simps) (simp add: n eventQueueIsEmpty_def k drain_events.simps)
  have "sp_write (e_kernel sample_env) (g_sp ?g) () = (-1, g_sp ?g, ())"
    "sp_read (e_kernel sample_env) (g_sp ?g) () = (-1, g_sp ?g, ())"
    by (simp_all add: sp_write_def sp_read_def sample_main_def sample_game_def sample_env_def
        table_kernel_def fresh_sp_def queueIsEmpty_def sp_check_read_def sp_check_write_def
        has_def createQueue_def SP_COM_def SP_LSR_def)
  then show ?thesis using n d by (simp add: main_step_def sample_env_def)
qed

theorem main_loop_invariant_witness:
  "\<exists>ms. reachable sample_env sample_main () ms () \<and> \<not> g_animation (m_game ms) \<and> main_invar ms \<and>
     edge\<^sup>*\<^sup>* PLAYING (g_state (m_game ms))"
proof -
  obtain ms where m: "main_step sample_env sample_main () = Some (ms, ())" "\<not> g_animation (m_game ms)"
    using sample_step by blast
  have p: "g_state (m_game sample_main) = PLAYING" by (simp add: sample_main_def sample_game_def)
  then have "reachable sample_env sample_main () ms ()"
    using reachable.iterate [OF reachable.start, of sample_main sample_env "()" ms "()"] m by simp
  then show ?thesis using main_loop_invariant [OF _ sample_main_invar] m(2) p by metis
qed

text \<open>C29: The two-byte buffer for scan codes overruns exactly when the keyboard sends two prefix
  bytes 0xE0 in a row and then any further byte: the counter is only reset by a byte other
  than the prefix.\<close>
theorem scancode_buffer_overrun:
  assumes "length (scancode_bytes ms) = 2" and "counter ms = 0"
  shows "take_scancodes cs ms = None \<longleftrightarrow>
    (\<exists>i. i + 2 < length cs \<and> cs ! i = TWO_BYTES \<and> cs ! (i + 1) = TWO_BYTES)"
  using take_scancodes_None [of ms cs] assms overruns_0 by simp

theorem scancode_buffer_overrun_witness:
  "take_scancodes [0xE0, 0xE0, 0x1E] sample_main = None \<and> take_scancodes [0xE0, 0x1E, 0xE0, 0x9E] sample_main \<noteq> None"
proof -
  have s: "length (scancode_bytes sample_main) = 2" "counter sample_main = 0" by (simp_all add: sample_main_def)
  have no: "\<not> (i + 2 < length xs \<and> xs ! i = TWO_BYTES \<and> xs ! (i + 1) = TWO_BYTES)"
    if "xs = [0xE0, 0x1E, 0xE0, 0x9E]" for i and xs :: "u8 list"
  proof -
    have "i = 0 \<or> i = 1 \<or> 2 \<le> i" by arith
    then show ?thesis using that by (auto simp: TWO_BYTES_def)
  qed
  have "\<exists>i. i + 2 < length [0xE0, 0xE0, 0x1E :: u8] \<and> [0xE0, 0xE0, 0x1E :: u8] ! i = TWO_BYTES \<and>
      [0xE0, 0xE0, 0x1E :: u8] ! (i + 1) = TWO_BYTES"
    by (rule exI [of _ 0]) (simp add: TWO_BYTES_def)
  then show ?thesis
    using scancode_buffer_overrun [OF s, of "[0xE0, 0xE0, 0x1E]"]
      scancode_buffer_overrun [OF s, of "[0xE0, 0x1E, 0xE0, 0x9E]"] no [OF refl] by blast
qed

text \<open>C28: Typing a name edits a list of at most eight codes from the right: from an empty name any
  keys other than ENTER are accepted without leaving the screen or the array, BACKSPACE
  removes the last code, a further code is appended while there is room, and the array
  holds the codes followed by zeros only.\<close>
theorem name_typing_edits:
  assumes "g_name g = replicate 9 0" and "name_size g = 0" and "ENTER \<notin> set ks"
  shows "\<exists>g'. type_keys E ks g w = Some (g', w) \<and> g_state g' = g_state g \<and>
    (let cs = foldl edit_name [] ks
     in length cs \<le> 8 \<and> name_size g' = int (length cs) \<and> g_name g' = cs @ replicate (9 - length cs) 0)"
  using type_keys_edit [of "[]" g ks E w] assms by (auto simp: named_def)

theorem name_typing_edits_witness:
  "\<exists>g'. type_keys (base_env sample_env) [0x9E, 0xB0, BACK_SPACE] sample_game () = Some (g', ()) \<and>
     g_name g' = [0x9E, 0, 0, 0, 0, 0, 0, 0, 0]"
proof -
  have e: "foldl edit_name [] [0x9E, 0xB0, BACK_SPACE] = [0x9E]" "ENTER \<notin> set [0x9E, 0xB0, BACK_SPACE]"
    by (simp_all add: edit_name_def BACK_SPACE_def ENTER_def)
  have g: "g_name sample_game = replicate 9 0" "name_size sample_game = 0" by (simp_all add: sample_game_def)
  have z: "replicate 8 (0::u8) = [0, 0, 0, 0, 0, 0, 0, 0]" by (simp add: numeral_eq_Suc)
  show ?thesis
    using name_typing_edits [OF g e(2), of "base_env sample_env" "()"] unfolding e(1) Let_def
    by (auto simp del: type_keys.simps simp add: z)
qed

text \<open>ENTER confirms a name only when it is not empty. On an empty name its break code 0x9C
  falls through to the last branch and is stored as the first letter of the name, a code
  no letter picture belongs to, and the state does not change.\<close>
lemma enter_on_empty_name:
  assumes "name_size g = 0" and "length (g_name g) = 9"
  shows "name_key E ENTER g w = Some (g\<lparr>g_name := (g_name g)[0 := ENTER], name_size := 1\<rparr>, w) \<and>
    getLetter ENTER = None"
  using assms by (simp add: name_key_def set_name_def MAX_NAME_SIZE_def ENTER_def BACK_SPACE_def
      getLetter_def LETTERS_def BIT_def)

lemma enter_on_empty_name_example:
  "name_key (base_env sample_env) ENTER sample_game () =
     Some (sample_game\<lparr>g_name := ENTER # replicate 8 0, name_size := 1\<rparr>, ())"
proof -
  have g: "g_name sample_game = replicate 9 0" "name_size sample_game = 0" by (simp_all add: sample_game_def)
  have z: "(replicate 9 0)[0 := ENTER] = ENTER # replicate 8 0" by (simp add: numeral_eq_Suc)
  show ?thesis
    using enter_on_empty_name [OF g(2), of "base_env sample_env" "()"] unfolding g z by simp
qed

end
