(* ===== verification/Scene.thy ===== *)
theory Scene
  imports Control
begin

text \<open>
  What playing needs of the memory the program works on, and that every event keeps it:
  the handlers of \<open>proj/src/main.c\<close> for the PLAYING state run into undefined behaviour in
  three situations, and in no other.
\<close>

section \<open>Boards that can be drawn\<close>

definition board_fine :: "Screen \<Rightarrow> Board \<Rightarrow> bool" where
  "board_fine s b \<longleftrightarrow> board_ok b \<and> fb_wf s (mem_board b) \<and> fb_wf s (mem_pieces b) \<and>
     (\<forall>p\<in>set (heap b). image_ok s (piece_image p))"

lemma fine_piece: "board_fine s b \<Longrightarrow> ref < length (heap b) \<Longrightarrow> image_ok s (piece_image (heap b ! ref))"
  by (simp add: board_fine_def)

lemma fine_ref: "board_fine s b \<Longrightarrow> i < 64 \<Longrightarrow> squares b ! i = Some ref \<Longrightarrow> ref < length (heap b)"
  by (metis board_fine_def board_ok_def nth_mem)

lemma fine_set_piece:
  "board_fine s b \<Longrightarrow> image_ok s (piece_image p) \<Longrightarrow> board_fine s (b\<lparr>heap := (heap b)[ref := p]\<rparr>)"
  by (auto simp: board_fine_def board_ok_def dest!: subsetD [OF set_update_subset_insert])

lemma fine_set_square:
  "board_fine s b \<Longrightarrow> (\<forall>ref. v = Some ref \<longrightarrow> ref < length (heap b)) \<Longrightarrow>
   board_fine s (b\<lparr>squares := (squares b)[i := v]\<rparr>)"
  by (auto simp: board_fine_def board_ok_def dest!: subsetD [OF set_update_subset_insert])

lemma fine_redraw [simp]: "board_fine s (b\<lparr>redrawPieces := v\<rparr>) = board_fine s b"
  by (simp add: board_fine_def board_ok_def)

lemma fine_layers:
  "board_fine s b \<Longrightarrow> fb_wf s m \<Longrightarrow> board_fine s (b\<lparr>mem_board := m\<rparr>)"
  "board_fine s b \<Longrightarrow> fb_wf s m \<Longrightarrow> board_fine s (b\<lparr>mem_pieces := m\<rparr>)"
  by (auto simp: board_fine_def board_ok_def)

text \<open>
  A board that differs in the places of its pieces and in the drawing of them only; pawns may
  have begun to move.
\<close>

definition alike :: "Board \<Rightarrow> Board \<Rightarrow> bool" where
  "alike b b' \<longleftrightarrow> squares b' = squares b \<and> length (heap b') = length (heap b) \<and>
     (\<forall>k. ptype (heap b' ! k) = ptype (heap b ! k)) \<and>
     (\<forall>k. pawn_moved (heap b ! k) \<longrightarrow> pawn_moved (heap b' ! k)) \<and> mem_board b' = mem_board b"

lemma alike_refl [simp]: "alike b b"
  by (simp add: alike_def)

lemma alike_trans: "alike a b \<Longrightarrow> alike b c \<Longrightarrow> alike a c"
  by (simp add: alike_def)

lemma alike_set_piece:
  "ptype p = ptype (heap b ! ref) \<Longrightarrow> (pawn_moved (heap b ! ref) \<Longrightarrow> pawn_moved p) \<Longrightarrow>
   alike b (b\<lparr>heap := (heap b)[ref := p]\<rparr>)"
  by (cases "ref < length (heap b)") (auto simp: alike_def nth_list_update list_update_beyond)

lemma alike_drawn [simp]: "alike b (b\<lparr>mem_pieces := m, redrawPieces := v\<rparr>)" "alike b (b\<lparr>redrawPieces := v\<rparr>)"
  by (simp_all add: alike_def)

section \<open>Frames\<close>

text \<open>The animation of a square, of the board, and the drawing of the pieces are defined.\<close>

lemma update_square_fine:
  assumes f: "board_fine s b" and i: "i < 64"
  shows "\<exists>b'. update_square animation i b = Some b' \<and> board_fine s b' \<and> alike b b'"
proof (cases "squares b ! i")
  case None
  then show ?thesis using f i by (auto simp: update_square_def square_at_def board_fine_def board_ok_def)
next
  case (Some ref)
  have ref: "ref < length (heap b)" by (rule fine_ref [OF f i Some])
  define p1 where "p1 = (if is_moving (heap b ! ref)
     then snd (if animation then updatePiece (heap b ! ref) else updatePiece_no_animation (heap b ! ref))
     else heap b ! ref)"
  have p1: "piece_image p1 = piece_image (heap b ! ref)" "ptype p1 = ptype (heap b ! ref)"
      "pawn_moved (heap b ! ref) \<Longrightarrow> pawn_moved p1"
    by (simp_all add: p1_def updatePiece_def updatePiece_no_animation_def Let_def)
  have len: "length (squares b) = 64" using f by (simp add: board_fine_def board_ok_def)
  have img: "image_ok s (piece_image p1)" using fine_piece [OF f ref] p1(1) by simp
  let ?b1 = "b\<lparr>heap := (heap b)[ref := p1]\<rparr>"
  have u: "update_square animation i b =
     Some (if change p1 then ?b1\<lparr>redrawPieces := True, heap := (heap b)[ref := p1\<lparr>change := False\<rparr>]\<rparr> else ?b1)"
    using i ref len Some by (simp add: update_square_def square_at_def p1_def [symmetric] Let_def)
  have "board_fine s ?b1" "alike b ?b1" using fine_set_piece [OF f img] alike_set_piece [OF p1(2,3)] by simp_all
  moreover have "board_fine s (?b1\<lparr>redrawPieces := True, heap := (heap b)[ref := p1\<lparr>change := False\<rparr>]\<rparr>)"
    using fine_set_piece [OF f, of "p1\<lparr>change := False\<rparr>" ref] img by (simp add: board_fine_def board_ok_def)
  moreover have "alike b (?b1\<lparr>redrawPieces := True, heap := (heap b)[ref := p1\<lparr>change := False\<rparr>]\<rparr>)"
    using alike_set_piece [of "p1\<lparr>change := False\<rparr>" b ref] p1(2,3) by (simp add: alike_def)
  ultimately show ?thesis unfolding u by auto
qed

text \<open>A loop over the 64 squares whose body keeps a property.\<close>

lemma squares_loop:
  assumes "P s" and "\<And>col row t. col < 8 \<Longrightarrow> row < 8 \<Longrightarrow> P t \<Longrightarrow> \<exists>t'. f row col t = Some t' \<and> P t'"
  shows "\<exists>s'. foldM (\<lambda>row. foldM (f row) [0..<8::nat]) [0..<8::nat] s = Some s' \<and> P s'"
proof (rule foldM_keeps [where P = P, OF assms(1)])
  fix row t assume "row \<in> set [0..<8::nat]" "P t"
  then show "\<exists>t'. foldM (f row) [0..<8] t = Some t' \<and> P t'"
    by (intro foldM_keeps [where P = P]) (use assms(2) in auto)
qed

lemma updateBoard_fine:
  assumes "board_fine s b"
  shows "\<exists>b'. updateBoard animation b = Some b' \<and> board_fine s b' \<and> alike b b'"
  unfolding updateBoard_def
proof (rule squares_loop [where P = "\<lambda>b'. board_fine s b' \<and> alike b b'"])
  show "board_fine s b \<and> alike b b" using assms by simp
  fix col row :: nat and t
  assume "col < 8" "row < 8" and t: "board_fine s t \<and> alike b t"
  then have i: "nat (get_position (int col) (int row)) < 64" by (simp add: get_position_def)
  obtain t' where "update_square animation (nat (get_position (int col) (int row))) t = Some t'"
    "board_fine s t'" "alike t t'"
    using update_square_fine [OF conjunct1 [OF t] i, of animation] by blast
  then show "\<exists>t'. update_square animation (nat (get_position (int col) (int row))) t = Some t' \<and>
      board_fine s t' \<and> alike b t'"
    using alike_trans [OF conjunct2 [OF t]] by blast
qed

lemma draw_layer_wf:
  assumes f: "board_fine s b" and "fb_wf s m"
  shows "\<exists>m'. draw_layer s b prio m = Some m' \<and> fb_wf s m'"
  unfolding draw_layer_def
proof (rule squares_loop [where P = "fb_wf s"])
  show "fb_wf s m" by fact
  fix col row :: nat and t
  assume c: "col < 8" "row < 8" and t: "fb_wf s t"
  have len: "length (squares b) = 64" using f by (simp add: board_fine_def board_ok_def)
  let ?i = "get_position (int col) (int row)"
  have i: "nat ?i < 64" "square_at b ?i = Some (squares b ! nat ?i)"
    using c len by (simp_all add: get_position_def square_at_def)
  show "\<exists>t'. do {
       sq \<leftarrow> square_at b ?i;
       case sq of None \<Rightarrow> Some t
       | Some ref \<Rightarrow> do {
           p \<leftarrow> piece_of b ref;
           if priority_draw p = prio then drawPieces s t (Some p) else Some t } } = Some t' \<and> fb_wf s t'"
  proof (cases "squares b ! nat ?i")
    case None
    then show ?thesis using i(2) t by simp
  next
    case (Some ref)
    have ref: "ref < length (heap b)" by (rule fine_ref [OF f i(1) Some])
    then show ?thesis
      using i(2) Some t draw_image_wf [OF t fine_piece [OF f ref]] by (simp add: drawPieces_def)
  qed
qed

lemma drawBoardPieces_fine:
  assumes f: "board_fine s b" and v: "fb_wf s v"
  shows "\<exists>v' b'. drawBoardPieces s v b = Some (v', b') \<and> fb_wf s v' \<and> board_fine s b' \<and> alike b b' \<and> heap b' = heap b"
proof -
  have wf: "fb_wf s (mem_board b)" "fb_wf s (mem_pieces b)" using f by (simp_all add: board_fine_def)
  obtain mp where mp: "draw_layer s b False (mem_board b) = Some mp" "fb_wf s mp"
    using draw_layer_wf [OF f wf(1)] by blast
  define b1 where "b1 = (if redrawPieces b then b\<lparr>mem_pieces := mp, redrawPieces := False\<rparr> else b)"
  have b1: "board_fine s b1" "alike b b1" "heap b1 = heap b"
    using f fine_layers(2) [OF f mp(2)] by (simp_all add: b1_def)
  have wf1: "fb_wf s (mem_pieces b1)" using b1(1) by (simp add: board_fine_def)
  obtain v' where v': "draw_layer s b1 True (mem_pieces b1) = Some v'" "fb_wf s v'"
    using draw_layer_wf [OF b1(1) wf1] by blast
  have "drawBoardPieces s v b = Some (v', b1)"
    using mp(1) v'(1) copy_buffers_wf [OF wf(2,1)] copy_buffers_wf [OF v wf1]
    by (simp add: drawBoardPieces_def b1_def split: if_splits)
  then show ?thesis using v'(2) b1 by blast
qed

section \<open>The scene of a game\<close>

text \<open>
  Everything the PLAYING state uses: the board, the frame and the screen, the pictures, the
  name, the queues, the cursor, and the piece being dragged, if any.
\<close>

definition drag_ok :: "Playing \<Rightarrow> Board \<Rightarrow> bool" where
  "drag_ok P b \<longleftrightarrow> on_sq (uint (old_col (p_move P))) (uint (old_row (p_move P))) \<and>
     (\<forall>ref. dragging_piece P = Some ref \<longrightarrow> ref < length (heap b) \<and>
        on_sq (uint (inicialPieceCol P)) (uint (inicialPieceRow P)))"

definition scene :: "Game \<Rightarrow> Board \<Rightarrow> bool" where
  "scene g b \<longleftrightarrow> squares_115 (g_screen g) \<and> board_fine (g_screen g) b \<and> drag_ok (g_playing g) b \<and>
     fb_wf (g_screen g) (g_buffer g) \<and> fb_wf (g_screen g) (g_video_mem g) \<and>
     letters_ok (g_screen g) (g_letters g) \<and> 0 \<in> set (g_name g) \<and> sp_invar (g_sp g) \<and>
     cursor_inside (g_screen g) (g_cursor g) \<and> image_ok (g_screen g) (cursor_image (g_cursor g))"

lemma sceneD:
  assumes "scene g b"
  shows "squares_115 (g_screen g)" "board_fine (g_screen g) b" "drag_ok (g_playing g) b"
    "fb_wf (g_screen g) (g_buffer g)" "sp_invar (g_sp g)" "board_ok b" "fb_wf (g_screen g) (mem_board b)"
    "length (squares b) = 64"
  using assms by (simp_all add: scene_def board_fine_def board_ok_def)

text \<open>The scene stays when a board of the same size takes the place of the old one.\<close>

lemma scene_board:
  assumes "scene g b" and "board_fine (g_screen g) b'" and "length (heap b') = length (heap b)"
  shows "scene g b'"
  using assms by (simp add: scene_def drag_ok_def)

lemma scene_game:
  assumes "scene g b" and "g_screen g' = g_screen g" and "drag_ok (g_playing g') b"
    and "fb_wf (g_screen g) (g_buffer g')" and "g_video_mem g' = g_video_mem g"
    and "g_letters g' = g_letters g" and "g_name g' = g_name g" and "sp_invar (g_sp g')"
    and "g_cursor g' = g_cursor g"
  shows "scene g' b"
  using assms by (simp add: scene_def)

subsection \<open>A byte of the peer\<close>

text \<open>The second byte of a move whose origin is empty on this board.\<close>

definition move_from_nowhere :: "Game \<Rightarrow> Board \<Rightarrow> u8 \<Rightarrow> bool" where
  "move_from_nowhere g b x \<longleftrightarrow> x \<noteq> BEGIN_MESSAGE \<and> x \<noteq> YOUR_TURN \<and> x \<noteq> 0 \<and> byteOfMove (g_playing g) \<noteq> 0 \<and>
     squares b ! sq_index (uint (old_col (p_move (g_playing g)))) (uint (old_row (p_move (g_playing g)))) = None"

lemma byte_square: "on_sq (uint (col_of x)) (uint (row_of x))"
proof -
  have "uint (x AND 0x38) \<le> 56" "uint (x AND 7) \<le> 7"
    using AND_upper2 [of 56 "uint x"] AND_upper2 [of 7 "uint x"] by (simp_all add: uint_and and.commute)
  then show ?thesis
    using zdiv_mono1 [of "uint (x AND 0x38)" 56 8] pos_imp_zdiv_nonneg_iff [of 8 "uint (x AND 0x38)"]
    by (simp add: on_sq_def col_of_def row_of_def COL_MASK_def ROW_MASK_def unsigned_drop_bit_eq drop_bit_eq_div uint_div_distrib)
qed

lemma opponent_moves_fine:
  assumes f: "board_fine s b" and o0: "on_sq (uint (old_col mv)) (uint (old_row mv))"
    and o: "on_sq (uint (new_col mv)) (uint (new_row mv))"
  shows "if squares b ! sq_index (uint (old_col mv)) (uint (old_row mv)) = None then opponent_moves t mv b = None
    else \<exists>king b'. opponent_moves t mv b = Some (king, b') \<and> board_fine s b' \<and> length (heap b') = length (heap b)"
proof (cases "squares b ! sq_index (uint (old_col mv)) (uint (old_row mv))")
  case None
  have len: "length (squares b) = 64" using f by (simp add: board_fine_def board_ok_def)
  have "square_at b (index_of (old_row mv) (old_col mv)) = Some None"
    using at_index(1) [OF len o0] None by (simp add: index_of_def)
  then have "opponent_moves t mv b = None" by (simp add: opponent_moves_def Let_def split: Option.bind_split)
  then show ?thesis using None by simp
next
  case (Some ref)
  let ?p = "movePiece (heap b ! ref) (getScreenX t (uint (new_col mv))) (getScreenY t (uint (new_row mv)))"
  let ?i = "sq_index (uint (old_col mv)) (uint (old_row mv))" and ?j = "sq_index (uint (new_col mv)) (uint (new_row mv))"
  have ok: "board_ok b" using f by (simp add: board_fine_def)
  have ref: "ref < length (heap b)" by (rule ref_ok [OF ok o0 Some])
  have len: "length (squares b) = 64" using ok by (simp add: board_ok_def)
  let ?b1 = "b\<lparr>heap := (heap b)[ref := ?p]\<rparr>"
  have 1: "board_fine s ?b1" using fine_set_piece [OF f] fine_piece [OF f ref] by (simp add: movePiece_def)
  have "board_fine s (?b1\<lparr>squares := (squares ?b1)[?j := Some ref]\<rparr>)" by (rule fine_set_square [OF 1]) (use ref in simp)
  from fine_set_square [OF this, of None ?i]
  have "board_fine s (b\<lparr>heap := (heap b)[ref := ?p], squares := shift ?i ?j (squares b)\<rparr>)"
    by (simp add: shift_def Some)
  then show ?thesis
    using opponent_moves_eq [OF ok o0 o refl refl refl refl Some, of t] Some by auto
qed

lemma receive_fine:
  assumes sc: "scene g b"
  shows "if move_from_nowhere g b x then receive_byte x b g = None
    else \<exists>b' g'. receive_byte x b g = Some (b', g') \<and> scene g' b'"
proof -
  note d = sceneD [OF sc]
  let ?P = "g_playing g"
  let ?mv = "(p_move ?P)\<lparr>new_col := col_of x, new_row := row_of x\<rparr>"
  have o0: "on_sq (uint (old_col ?mv)) (uint (old_row ?mv))" using d(3) by (simp add: drag_ok_def)
  have o: "on_sq (uint (new_col ?mv)) (uint (new_row ?mv))" using byte_square [of x] by simp
  note om = opponent_moves_fine [OF d(2) o0 o, of "g_screen g"]
  consider (start) "x = BEGIN_MESSAGE" | (turn) "x \<noteq> BEGIN_MESSAGE" "x = YOUR_TURN" | (none) "x = 0"
    | (first) "x \<noteq> BEGIN_MESSAGE" "x \<noteq> YOUR_TURN" "x \<noteq> 0" "byteOfMove ?P = 0"
    | (second) "x \<noteq> BEGIN_MESSAGE" "x \<noteq> YOUR_TURN" "x \<noteq> 0" "byteOfMove ?P \<noteq> 0"
    by blast
  then show ?thesis
  proof cases
    case start
    then show ?thesis using sc by (simp add: receive_byte_def move_from_nowhere_def Let_def scene_def drag_ok_def)
  next
    case turn
    then show ?thesis using sc by (simp add: receive_byte_def move_from_nowhere_def Let_def scene_def)
  next
    case none
    then show ?thesis
      using sc by (simp add: receive_byte_def move_from_nowhere_def Let_def BEGIN_MESSAGE_def YOUR_TURN_def)
  next
    case first
    then show ?thesis
      using sc byte_square [of x] by (simp add: receive_byte_def move_from_nowhere_def Let_def scene_def drag_ok_def)
  next
    case second
    show ?thesis
    proof (cases "move_from_nowhere g b x")
      case True
      then show ?thesis using second om by (simp add: receive_byte_def move_from_nowhere_def Let_def)
    next
      case False
      then obtain king b' where b': "opponent_moves (g_screen g) ?mv b = Some (king, b')"
        "board_fine (g_screen g) b'" "length (heap b') = length (heap b)"
        using om second by (auto simp: move_from_nowhere_def)
      have "scene g b'" by (rule scene_board [OF sc b'(2,3)])
      then show ?thesis
        using False second b'(1) by (auto simp: receive_byte_def Let_def scene_def drag_ok_def)
    qed
  qed
qed

subsection \<open>A frame\<close>

definition next_byte :: "Game \<Rightarrow> u8" where
  "next_byte g = (case received (g_sp g) of [] \<Rightarrow> 0 | x # _ \<Rightarrow> x)"

text \<open>A frame animates and draws, then handles the next byte, if there is one.\<close>

lemma frame_draws:
  assumes sc: "scene g b"
  shows "\<exists>v b1 sp. playing_frame b g = receive_byte (next_byte g) b1 (g\<lparr>g_buffer := v, g_sp := sp\<rparr>) \<and>
    scene (g\<lparr>g_buffer := v, g_sp := sp\<rparr>) b1 \<and> alike b b1 \<and> received sp = tl (received (g_sp g)) \<and>
    to_send sp = to_send (g_sp g)"
proof -
  let ?s = "g_screen g"
  note d = sceneD [OF sc]
  have letters: "letters_ok ?s (g_letters g)" "0 \<in> set (g_name g)" using sc by (simp_all add: scene_def)
  obtain b1 where b1: "updateBoard (g_animation g) b = Some b1" "board_fine ?s b1" "alike b b1"
    using updateBoard_fine [OF d(2)] by blast
  obtain v b2 where b2: "drawBoardPieces ?s (g_buffer g) b1 = Some (v, b2)" "fb_wf ?s v" "board_fine ?s b2" "alike b1 b2"
    using drawBoardPieces_fine [OF b1(2) d(4)] by blast
  have "\<exists>v'. draw_name ?s (g_letters g) v (g_name g) px py 20 = Some v' \<and> fb_wf ?s v'" for px py
    using draw_name_terminates [OF letters(1) b2(2), of "g_name g" px py 20] letters(2) by simp
  then obtain v' where v': "(if g_player g = WHITE then draw_name ?s (g_letters g) v (g_name g) 63 560 20
      else draw_name ?s (g_letters g) v (g_name g) 63 23 20) = Some v'" "fb_wf ?s v'"
    by (cases "g_player g = WHITE") auto
  obtain x sp where r: "readFromQueue (g_sp g) = (x, sp)" by force
  note e = readFromQueue_eq [OF d(5), unfolded r fst_conv snd_conv]
  have al: "alike b b2" by (rule alike_trans [OF b1(3) b2(4)])
  have "playing_frame b g = receive_byte (next_byte g) b2 (g\<lparr>g_buffer := v', g_sp := sp\<rparr>)"
    using e(1) by (simp add: playing_frame_def b1(1) b2(1) v'(1) r next_byte_def Let_def)
  moreover have "scene (g\<lparr>g_buffer := v', g_sp := sp\<rparr>) b2"
    using scene_board [OF sc b2(3)] al v'(2) e(4) by (simp add: scene_def drag_ok_def alike_def)
  ultimately show ?thesis using al e(2,3) by blast
qed

lemma frame_fine:
  assumes sc: "scene g b"
  shows "if move_from_nowhere g b (next_byte g) then playing_frame b g = None
    else \<exists>b' g'. playing_frame b g = Some (b', g') \<and> scene g' b'"
proof -
  obtain v b1 sp where f: "playing_frame b g = receive_byte (next_byte g) b1 (g\<lparr>g_buffer := v, g_sp := sp\<rparr>)"
    "scene (g\<lparr>g_buffer := v, g_sp := sp\<rparr>) b1" "alike b b1"
    using frame_draws [OF sc] by blast
  have "move_from_nowhere (g\<lparr>g_buffer := v, g_sp := sp\<rparr>) b1 = move_from_nowhere g b"
    using f(3) by (auto simp: move_from_nowhere_def alike_def fun_eq_iff)
  then show ?thesis using receive_fine [OF f(2), of "next_byte g"] f(1) by simp
qed

subsection \<open>The mouse\<close>

definition board_x :: "Game \<Rightarrow> int" where
  "board_x g = getBoardX (g_screen g) (uint (cursor_x (g_cursor g)))"

definition board_y :: "Game \<Rightarrow> int" where
  "board_y g = getBoardY (g_screen g) (uint (cursor_y (g_cursor g)))"

lemma drag_ok_ini:
  "on_sq (uint c) (uint r) \<Longrightarrow> uint (r * 8 + c :: u32) = uint r * 8 + uint c"
proof -
  assume o: "on_sq (uint c) (uint r)"
  have "r * 8 + c = word_of_int (uint r * 8 + uint c)" by simp
  then show "uint (r * 8 + c) = uint r * 8 + uint c"
    using o by (simp only:) (subst uint_word_of_int, simp add: on_sq_def)
qed

lemma put_back_fine:
  assumes f: "board_fine s b" and ref: "ref < length (heap b)"
  shows "\<exists>b'. put_back t P ref b = Some b' \<and> board_fine s b' \<and> length (heap b') = length (heap b)"
  using fine_set_piece [OF f, where ref = ref] fine_piece [OF f ref] ref by (simp add: put_back_def setPiecePosition_def)

lemma commit_fine:
  assumes f: "board_fine s b" and ref: "ref < length (heap b)" and o: "on_sq x y"
    and o0: "on_sq (uint (inicialPieceCol (g_playing g))) (uint (inicialPieceRow (g_playing g)))"
  shows "\<exists>b' bs. commit_move ref x y b g = Some (b', g\<lparr>g_sp := bs, g_myTurn := False\<rparr>) \<and>
    board_fine s b' \<and> length (heap b') = length (heap b) \<and> (sp_invar (g_sp g) \<longrightarrow> sp_invar bs)"
proof -
  let ?P = "g_playing g" and ?t = "g_screen g"
  obtain b1 where b1: "put_back ?t ?P ref b = Some b1" "board_fine s b1" "length (heap b1) = length (heap b)"
    using put_back_fine [OF f ref] by blast
  let ?p = "movePiece (heap b1 ! ref) (getScreenX ?t x) (getScreenY ?t y)"
  let ?b2 = "b1\<lparr>heap := (heap b1)[ref := ?p]\<rparr>"
  have ref1: "ref < length (heap b1)" using ref b1(3) by simp
  have f2: "board_fine s ?b2"
    using fine_set_piece [OF b1(2)] fine_piece [OF b1(2) ref1] by (simp add: movePiece_def)
  let ?i = "sq_index (uint (inicialPieceCol ?P)) (uint (inicialPieceRow ?P))"
  let ?b3 = "?b2\<lparr>squares := (squares ?b2)[?i := None]\<rparr>"
  have f3: "board_fine s ?b3" by (rule fine_set_square [OF f2]) simp
  let ?b4 = "?b3\<lparr>squares := (squares ?b3)[sq_index x y := Some ref]\<rparr>"
  have f4: "board_fine s ?b4" by (rule fine_set_square [OF f3]) (use ref1 in simp)
  have len: "length (squares ?b2) = 64" "length (squares ?b3) = 64"
    using f2 f3 by (simp_all add: board_fine_def board_ok_def)
  note s3 = at_index(2) [OF len(1) o0, of None] and s4 = at_index(2) [OF len(2) o, of "Some ref"]
  let ?sp = "send_move (pos_byte (inicialPieceCol ?P) (inicialPieceRow ?P)) (pos_byte (u32_of x) (u32_of y)) (g_sp g)"
  have "commit_move ref x y b g = Some (?b4, g\<lparr>g_sp := ?sp, g_myTurn := False\<rparr>)"
    unfolding commit_move_def Let_def b1(1) drag_ok_ini [OF o0]
    using ref1 s3 s4 by simp
  moreover have "sp_invar (g_sp g) \<longrightarrow> sp_invar ?sp" by (simp add: send_invar)
  moreover have "length (heap ?b4) = length (heap b)" using b1(3) by simp
  ultimately show ?thesis using f4 by blast
qed

lemma settle_fine:
  assumes f: "board_fine s b" and ref: "ref < length (heap b)" and o: "legal \<Longrightarrow> on_sq x y"
    and o0: "on_sq (uint (inicialPieceCol (g_playing g))) (uint (inicialPieceRow (g_playing g)))" and i: "sp_invar (g_sp g)"
  shows "\<exists>b' bs t e. settle legal ref x y b g = Some (b', g\<lparr>g_sp := bs, g_myTurn := t, g_endGame := e\<rparr>) \<and>
    board_fine s b' \<and> length (heap b') = length (heap b) \<and> sp_invar bs"
proof -
  have commit: "\<exists>b' bs t e'. commit_move ref x y b (g\<lparr>g_endGame := e\<rparr>) =
      Some (b', g\<lparr>g_sp := bs, g_myTurn := t, g_endGame := e'\<rparr>) \<and> board_fine s b' \<and> length (heap b') = length (heap b) \<and>
      sp_invar bs" if legal for e
  proof -
    note here = o [OF that]
    obtain b' bs where "commit_move ref x y b (g\<lparr>g_endGame := e\<rparr>) =
        Some (b', g\<lparr>g_endGame := e, g_sp := bs, g_myTurn := False\<rparr>)"
      and "board_fine s b'" "length (heap b') = length (heap b)" "sp_invar bs"
      using commit_fine [OF f ref here, of "g\<lparr>g_endGame := e\<rparr>"] o0 i by auto
    then show ?thesis
      by (intro exI [of _ b'] exI [of _ bs] exI [of _ False] exI [of _ e]) simp
  qed
  have g: "g\<lparr>g_endGame := g_endGame g\<rparr> = g" "g\<lparr>g_sp := g_sp g, g_myTurn := g_myTurn g, g_endGame := g_endGame g\<rparr> = g"
    by simp_all
  have returned: "\<exists>b' bs t e. map_option (\<lambda>b'. (b', g)) (put_back (g_screen g) (g_playing g) ref b) =
      Some (b', g\<lparr>g_sp := bs, g_myTurn := t, g_endGame := e\<rparr>) \<and> board_fine s b' \<and> length (heap b') = length (heap b) \<and>
      sp_invar bs"
  proof -
    obtain b' where "put_back (g_screen g) (g_playing g) ref b = Some b'" "board_fine s b'" "length (heap b') = length (heap b)"
      using put_back_fine [OF f ref, of "g_screen g" "g_playing g"] by blast
    then show ?thesis
      using i by (intro exI [of _ b'] exI [of _ "g_sp g"] exI [of _ "g_myTurn g"] exI [of _ "g_endGame g"]) simp
  qed
  show ?thesis
  proof (cases legal)
    case False
    then show ?thesis using returned by (simp add: settle_def)
  next
    case True
    have len: "length (squares b) = 64" using f by (simp add: board_fine_def board_ok_def)
    note sq = at_index(1) [OF len o [OF True]]
    show ?thesis
    proof (cases "squares b ! sq_index x y")
      case None
      then show ?thesis using True sq commit [OF True, of "g_endGame g"] g(1) by (simp add: settle_def)
    next
      case (Some other)
      have "other < length (heap b)" by (rule fine_ref [OF f sq_index_less [OF o [OF True]] Some])
      then show ?thesis
        using True sq Some ref commit [OF True, of "g_endGame g"] commit [OF True, of True] returned g(1)
        by (simp add: settle_def)
    qed
  qed
qed

lemma release_fine:
  assumes sc: "scene g b" and dr: "dragging_piece (g_playing g) = Some ref"
  shows "if unat (cursor_y (g_cursor g)) < 13 then release ref b g = None
    else \<exists>b' g'. release ref b g = Some (b', g') \<and> scene g' b'"
proof -
  let ?s = "g_screen g" and ?cx = "uint (cursor_x (g_cursor g))" and ?cy = "uint (cursor_y (g_cursor g))"
  let ?x = "getBoardX ?s ?cx" and ?y = "getBoardY ?s ?cy" and ?low = "lowered b ref"
  note d = sceneD [OF sc]
  note f = mode_115_facts [OF squares_115D(1) [OF d(1)]]
  have cur: "cursor_inside ?s (g_cursor g)" using sc by (simp add: scene_def)
  have ref: "ref < length (heap b)" and o0: "on_sq (uint (inicialPieceCol (g_playing g))) (uint (inicialPieceRow (g_playing g)))"
    using d(3) dr by (simp_all add: drag_ok_def)
  have low: "board_fine ?s ?low" "length (heap ?low) = length (heap b)" "mem_board ?low = mem_board b"
    using fine_set_piece [OF d(2)] fine_piece [OF d(2) ref] by (simp_all add: lowered_def changePiecePriority_def)
  have set: "piece_of b ref = Some (heap b ! ref)"
    "set_piece b ref (changePiecePriority (heap b ! ref) False) = Some ?low"
    using ref by (simp_all add: lowered_def)
  have len: "length (mem_board ?low) = 1440000" using d(7) f(5) by (simp add: fb_wf_def low)
  have pr: "block_bytes (mem_board ?low) (probe_offset ?s ?x ?y) 1 \<noteq> None \<longleftrightarrow> 13 \<le> ?cy"
    using probe_inside_iff [OF d(1) len, of ?cx ?cy] cur uint_u16 [of "cursor_x (g_cursor g)"]
      uint_u16 [of "cursor_y (g_cursor g)"] by (simp add: cursor_inside_def f)
  have in_iff: "(?y \<ge> 0 \<and> ?y < 8 \<and> ?x \<ge> 0 \<and> ?x < 8) \<longleftrightarrow> on_sq ?x ?y" by (auto simp: on_sq_def)
  show ?thesis
  proof (cases "unat (cursor_y (g_cursor g)) < 13")
    case True
    then have "block_bytes (mem_board ?low) (probe_offset ?s ?x ?y) 1 = None"
      using pr by (auto simp: unat_less_uint)
    then show ?thesis using True unfolding release_def by (simp add: set Let_def)
  next
    case False
    then obtain v where v: "block_bytes (mem_board ?low) (probe_offset ?s ?x ?y) 1 = Some v"
      using pr by (auto simp: unat_less_uint)
    have "\<exists>legal. (if on_sq ?x ?y then is_orange ?s (mem_board ?low) ?x ?y else Some False) = Some legal \<and>
        (legal \<longrightarrow> on_sq ?x ?y)"
      using is_orange_lit(1) [OF d(1), of "mem_board ?low" ?x ?y] d(7) low(3)
      by (intro exI [of _ "on_sq ?x ?y \<and> lit ?s (mem_board ?low) ?x ?y"]) simp
    then obtain legal where l: "(if on_sq ?x ?y then is_orange ?s (mem_board ?low) ?x ?y else Some False) = Some legal"
      "legal \<longrightarrow> on_sq ?x ?y" by blast
    have "ref < length (heap ?low)" using ref low(2) by simp
    from settle_fine [OF low(1) this _ o0 d(5), of legal ?x ?y] l(2)
    obtain b2 bs t e where st: "settle legal ref ?x ?y ?low g = Some (b2, g\<lparr>g_sp := bs, g_myTurn := t, g_endGame := e\<rparr>)"
      "board_fine ?s b2" "length (heap b2) = length (heap b)" "sp_invar bs"
      using low(2) by auto
    have wf2: "fb_wf ?s (mem_board b2)" using st(2) by (simp add: board_fine_def)
    obtain m where m: "drawBoard ?s b2 = Some (b2\<lparr>redrawPieces := True, mem_board := m\<rparr>)" "fb_wf ?s m"
      using drawBoard_unlit [OF d(1) wf2] by blast
    have "release ref b g = Some (b2\<lparr>redrawPieces := True, mem_board := m\<rparr>,
        g\<lparr>g_sp := bs, g_myTurn := t, g_endGame := e, g_playing := (g_playing g)\<lparr>dragging_piece := None\<rparr>\<rparr>)"
      unfolding release_def Let_def in_iff using v l(1) st(1) m(1) by (simp add: set)
    moreover have "scene g (b2\<lparr>redrawPieces := True, mem_board := m\<rparr>)"
      using scene_board [OF sc, of "b2\<lparr>redrawPieces := True, mem_board := m\<rparr>"] fine_layers(1) [OF st(2) m(2)] st(3)
      by (simp add: board_fine_def board_ok_def)
    ultimately show ?thesis using False st(4) by (simp add: scene_def drag_ok_def)
  qed
qed

lemma press_board: "press E b g = (if on_sq (board_x g) (board_y g) then do {
       sq \<leftarrow> square_at b (board_y g * 8 + board_x g);
       case sq of None \<Rightarrow> Some (b, g)
       | Some ref \<Rightarrow> do {
           p \<leftarrow> piece_of b ref;
           if may_press (g_player g) (ptype p) then do {
             b1 \<leftarrow> set_piece b ref (changePiecePriority p True);
             p1 \<leftarrow> piece_of b1 ref;
             (v, b2) \<leftarrow> possiblePosition (e_junk E) (g_screen g) (g_buffer g) b1 p1
               (i32_of (u32_of (board_x g))) (i32_of (u32_of (board_y g)));
             Some (b2, g\<lparr>g_playing := (g_playing g)\<lparr>dragging_piece := Some ref,
               inicialPieceCol := u32_of (board_x g), inicialPieceRow := u32_of (board_y g)\<rparr>, g_buffer := v\<rparr>)
           } else Some (b, g) } } else Some (b, g))"
proof -
  have "(board_y g \<ge> 0 \<and> board_y g < 8 \<and> board_x g \<ge> 0 \<and> board_x g < 8) \<longleftrightarrow> on_sq (board_x g) (board_y g)"
    by (auto simp: on_sq_def)
  then show ?thesis unfolding press_def Let_def board_x_def board_y_def by (simp cong: option.case_cong if_cong)
qed

text \<open>A piece of the player is picked up and its moves are marked.\<close>

definition lifted :: "Board \<Rightarrow> nat \<Rightarrow> Board" where
  "lifted b ref = b\<lparr>heap := (heap b)[ref := changePiecePriority (heap b ! ref) True]\<rparr>"

lemma readable_lifted:
  "ref < length (heap b) \<Longrightarrow> readable junk (lifted b ref) (changePiecePriority (heap b ! ref) True) x y =
     readable junk b (heap b ! ref) x y"
  by (rule readable_cong) (simp_all add: lifted_def changePiecePriority_def)

text \<open>A press that lifts a piece whose marking reads a word beside the array that cannot be read.\<close>

definition unreadable_press :: "(int \<Rightarrow> bool option) \<Rightarrow> Game \<Rightarrow> Board \<Rightarrow> bool" where
  "unreadable_press junk g b \<longleftrightarrow> on_sq (board_x g) (board_y g) \<and>
     (case squares b ! sq_index (board_x g) (board_y g) of
        None \<Rightarrow> False
      | Some ref \<Rightarrow> may_press (g_player g) (ptype (heap b ! ref)) \<and>
          \<not> readable junk b (heap b ! ref) (board_x g) (board_y g))"

lemma press_piece:
  assumes sc: "scene g b" and o: "on_sq (board_x g) (board_y g)"
    and at: "squares b ! sq_index (board_x g) (board_y g) = Some ref" and mp: "may_press (g_player g) (ptype (heap b ! ref))"
    and rd: "readable (e_junk E) b (heap b ! ref) (board_x g) (board_y g)"
  shows "\<exists>m'. press E b g = Some ((lifted b ref)\<lparr>mem_board := m'\<rparr>, g\<lparr>g_playing := (g_playing g)\<lparr>dragging_piece := Some ref,
      inicialPieceCol := u32_of (board_x g), inicialPieceRow := u32_of (board_y g)\<rparr>, g_buffer := m'\<rparr>) \<and>
    fb_wf (g_screen g) m' \<and> board_fine (g_screen g) (lifted b ref) \<and>
    (\<forall>c r. on_sq c r \<longrightarrow> corner (g_screen g) m' c r =
       (if may_go (lifted b ref) (changePiecePriority (heap b ! ref) True) (board_x g) (board_y g) c r
        then colour_bytes (g_screen g) orange else corner (g_screen g) (mem_board b) c r))"
proof -
  let ?s = "g_screen g" and ?p1 = "changePiecePriority (heap b ! ref) True"
  note d = sceneD [OF sc]
  have ref: "ref < length (heap b)" by (rule fine_ref [OF d(2) sq_index_less [OF o] at])
  have f1: "board_fine ?s (lifted b ref)"
    using fine_set_piece [OF d(2)] fine_piece [OF d(2) ref] by (simp add: lifted_def changePiecePriority_def)
  then have ok1: "board_ok (lifted b ref)" "fb_wf ?s (mem_board (lifted b ref))" by (simp_all add: board_fine_def)
  obtain m' where m': "possiblePosition (e_junk E) ?s (g_buffer g) (lifted b ref) ?p1 (board_x g) (board_y g) =
      Some (m', (lifted b ref)\<lparr>mem_board := m'\<rparr>)" "fb_wf ?s m'"
    "\<forall>c r. on_sq c r \<longrightarrow> corner ?s m' c r = (if may_go (lifted b ref) ?p1 (board_x g) (board_y g) c r
       then colour_bytes ?s orange else corner ?s (mem_board (lifted b ref)) c r)"
    using possiblePosition_corners [OF d(1) ok1(2) d(4) ok1(1) o] rd readable_lifted [OF ref] by blast
  have "piece_of b ref = Some (heap b ! ref)" "set_piece b ref ?p1 = Some (lifted b ref)"
    "piece_of (lifted b ref) ref = Some ?p1"
    using ref by (simp_all add: lifted_def)
  then have "press E b g = Some ((lifted b ref)\<lparr>mem_board := m'\<rparr>, g\<lparr>g_playing := (g_playing g)\<lparr>dragging_piece := Some ref,
      inicialPieceCol := u32_of (board_x g), inicialPieceRow := u32_of (board_y g)\<rparr>, g_buffer := m'\<rparr>)"
    using o at_index(1) [OF d(8) o] at mp m'(1) back_coords(1,2) [OF o] by (simp add: press_board)
  moreover have "mem_board (lifted b ref) = mem_board b" by (simp add: lifted_def)
  ultimately show ?thesis using m' f1 by auto
qed

lemma press_unreadable:
  assumes sc: "scene g b" and u: "unreadable_press (e_junk E) g b"
  shows "press E b g = None"
proof -
  let ?s = "g_screen g"
  note d = sceneD [OF sc]
  obtain ref where o: "on_sq (board_x g) (board_y g)" and at: "squares b ! sq_index (board_x g) (board_y g) = Some ref"
    and mp: "may_press (g_player g) (ptype (heap b ! ref))"
    and nr: "\<not> readable (e_junk E) b (heap b ! ref) (board_x g) (board_y g)"
    using u by (auto simp: unreadable_press_def split: option.splits)
  let ?p1 = "changePiecePriority (heap b ! ref) True"
  have ref: "ref < length (heap b)" by (rule fine_ref [OF d(2) sq_index_less [OF o] at])
  have "board_fine ?s (lifted b ref)"
    using fine_set_piece [OF d(2)] fine_piece [OF d(2) ref] by (simp add: lifted_def changePiecePriority_def)
  then have "board_ok (lifted b ref)" by (simp add: board_fine_def)
  from painted_squares_read [OF this o, of "e_junk E" ?p1]
  have "possiblePosition (e_junk E) ?s (g_buffer g) (lifted b ref) ?p1 (board_x g) (board_y g) = None"
    using nr readable_lifted [OF ref] by (simp add: possiblePosition_def)
  moreover have "piece_of b ref = Some (heap b ! ref)" "set_piece b ref ?p1 = Some (lifted b ref)"
    "piece_of (lifted b ref) ref = Some ?p1"
    using ref by (simp_all add: lifted_def)
  ultimately show ?thesis
    using o at_index(1) [OF d(8) o] at mp back_coords(1,2) [OF o] by (simp add: press_board)
qed

lemma press_fine:
  assumes sc: "scene g b" and rd: "\<not> unreadable_press (e_junk E) g b"
  shows "\<exists>b' g'. press E b g = Some (b', g') \<and> scene g' b' \<and> g_cursor g' = g_cursor g \<and>
    (dragging_piece (g_playing g') = dragging_piece (g_playing g) \<or> on_sq (board_x g) (board_y g))"
proof -
  note d = sceneD [OF sc]
  show ?thesis
  proof (cases "\<exists>ref. on_sq (board_x g) (board_y g) \<and> squares b ! sq_index (board_x g) (board_y g) = Some ref \<and>
      may_press (g_player g) (ptype (heap b ! ref))")
    case False
    then have "press E b g = Some (b, g)"
      using at_index(1) [OF d(8)] fine_ref [OF d(2) sq_index_less] by (auto simp: press_board split: option.split)
    then show ?thesis using sc by simp
  next
    case True
    then obtain ref where o: "on_sq (board_x g) (board_y g)" and at: "squares b ! sq_index (board_x g) (board_y g) = Some ref"
      and mp: "may_press (g_player g) (ptype (heap b ! ref))" by blast
    have ref: "ref < length (heap b)" by (rule fine_ref [OF d(2) sq_index_less [OF o] at])
    let ?g1 = "\<lambda>m. g\<lparr>g_playing := (g_playing g)\<lparr>dragging_piece := Some ref,
      inicialPieceCol := u32_of (board_x g), inicialPieceRow := u32_of (board_y g)\<rparr>, g_buffer := m\<rparr>"
    obtain m' where m': "press E b g = Some ((lifted b ref)\<lparr>mem_board := m'\<rparr>, ?g1 m')"
      "fb_wf (g_screen g) m'" "board_fine (g_screen g) (lifted b ref)"
      using press_piece [OF sc o at mp, of E] rd o at mp by (auto simp: unreadable_press_def)
    have u: "uint (u32_of (board_x g)) = board_x g" "uint (u32_of (board_y g)) = board_y g"
      using o by (simp_all add: on_sq_def u32_of_def uint_word_of_int)
    have "scene g ((lifted b ref)\<lparr>mem_board := m'\<rparr>)"
      by (rule scene_board [OF sc fine_layers(1) [OF m'(3,2)]]) (simp add: lifted_def)
    then have "scene (?g1 m') ((lifted b ref)\<lparr>mem_board := m'\<rparr>)"
      using m'(2) ref o u by (simp add: scene_def drag_ok_def lifted_def)
    then show ?thesis using m'(1) o by simp
  qed
qed

lemma cursor_on_board:
  assumes "squares_115 (g_screen g)" and "on_sq (board_x g) (board_y g)"
  shows "\<not> unat (cursor_y (g_cursor g)) < 13"
  using assms getBoardY_range(2) [OF assms(1) uint_u16, of "cursor_y (g_cursor g)"]
  by (simp add: board_y_def on_sq_def unat_less_uint)

text \<open>
  A mouse event goes wrong when it drops a piece in the top thirteen rows of the screen, or
  picks up one whose marking goes wrong.
\<close>

definition mouse_fault :: "(int \<Rightarrow> bool option) \<Rightarrow> Game \<Rightarrow> Board \<Rightarrow> bool" where
  "mouse_fault junk g b \<longleftrightarrow>
     (if dragging_piece (g_playing g) \<noteq> None
      then released (g_cursor g) \<and> unat (cursor_y (g_cursor g)) < 13
      else pressed (g_cursor g) \<and> g_myTurn g \<and> unreadable_press junk g b)"

lemma playing_mouse_fine:
  assumes sc: "scene g b"
  shows "if mouse_fault (e_junk E) g b
    then playing_mouse E b g = None
    else \<exists>b' g'. playing_mouse E b g = Some (b', g') \<and> scene g' b'"
proof -
  note d = sceneD [OF sc]
  show ?thesis
  proof (cases "dragging_piece (g_playing g)")
    case (Some ref)
    then have ref: "ref < length (heap b)" using d(3) by (simp add: drag_ok_def)
    let ?p = "setPiecePosition (heap b ! ref) (uint (cursor_x (g_cursor g)) - 29) (uint (cursor_y (g_cursor g)) - 29)"
    let ?b1 = "b\<lparr>heap := (heap b)[ref := ?p]\<rparr>"
    have sc1: "scene g ?b1"
      using scene_board [OF sc fine_set_piece [OF d(2)]] fine_piece [OF d(2) ref] by (simp add: setPiecePosition_def)
    have "playing_mouse E b g = (if released (g_cursor g) then release ref ?b1 g else Some (?b1, g))"
      using Some ref by (simp add: playing_mouse_def)
    then show ?thesis using release_fine [OF sc1 Some] sc1 Some by (simp add: mouse_fault_def)
  next
    case None
    show ?thesis
    proof (cases "pressed (g_cursor g) \<and> g_myTurn g")
      case False
      then show ?thesis using None sc by (auto simp: playing_mouse_def mouse_fault_def)
    next
      case True
      show ?thesis
      proof (cases "unreadable_press (e_junk E) g b")
        case bad: True
        then show ?thesis using None True press_unreadable [OF sc bad] by (simp add: playing_mouse_def mouse_fault_def)
      next
        case good: False
        then have nf: "\<not> mouse_fault (e_junk E) g b" using None by (simp add: mouse_fault_def)
      obtain b1 g1 where p: "press E b g = Some (b1, g1)" "scene g1 b1" "g_cursor g1 = g_cursor g"
        "dragging_piece (g_playing g1) = None \<or> on_sq (board_x g) (board_y g)"
        using press_fine [OF sc good] None by auto
      have e: "playing_mouse E b g = (case dragging_piece (g_playing g1) of
         Some ref \<Rightarrow> if released (g_cursor g1) then release ref b1 g1 else Some (b1, g1)
       | None \<Rightarrow> Some (b1, g1))"
        using None True p(1) by (simp add: playing_mouse_def)
      show ?thesis
      proof (cases "dragging_piece (g_playing g1)")
        case None
        then show ?thesis using e p(2) nf by simp
      next
        case (Some ref)
        then have "\<not> unat (cursor_y (g_cursor g1)) < 13"
          using p(3,4) cursor_on_board [OF d(1)] by simp
        then show ?thesis
          using e Some p(2) release_fine [OF p(2) Some] nf by simp
      qed
      qed
    qed
  qed
qed

section \<open>Events\<close>

text \<open>
  The three situations in which an event of a game in progress has no defined result: the
  peer's move from an empty square, and the two faults of the mouse, at the place to which
  its packet moves the cursor. (The main loop queues a packet with every mouse event.)
\<close>

definition event_fault :: "(int \<Rightarrow> bool option) \<Rightarrow> Game \<Rightarrow> Board \<Rightarrow> Event \<Rightarrow> bool" where
  "event_fault junk g b ev \<longleftrightarrow>
     (case ev_type ev of
        NEW_FRAME \<Rightarrow> move_from_nowhere g b (next_byte g)
      | MOUSE \<Rightarrow> (case ev_data ev of
          MousePacket p \<Rightarrow> mouse_fault junk (g\<lparr>g_cursor := updateCursor (g_screen g) (g_cursor g) p\<rparr>) b
        | _ \<Rightarrow> True)
      | _ \<Rightarrow> False)"

definition in_play :: "Game \<Rightarrow> bool" where
  "in_play g \<longleftrightarrow> (\<exists>b. p_board (g_playing g) = Some b \<and> scene g b)"

lemma scene_state [simp]:
  "scene (g\<lparr>g_won := v, g_state := st\<rparr>) b = scene g b" "scene (g\<lparr>g_animation := a\<rparr>) b = scene g b"
  "scene (g\<lparr>g_playing := (g_playing g)\<lparr>p_board := x\<rparr>\<rparr>) b = scene g b"
  by (simp_all add: scene_def drag_ok_def)

lemma playing_ih_fine:
  fixes ev :: Event
  assumes su: "playing_setup E g0 w0 = Some (b, g, w)" and sc: "scene g b"
  defines "fault \<equiv> (case ev_type ev of NEW_FRAME \<Rightarrow> move_from_nowhere g b (next_byte g)
      | MOUSE \<Rightarrow> mouse_fault (e_junk E) g b
      | _ \<Rightarrow> False)"
  shows "if fault then playing_ih E ev g0 w0 = None else \<exists>g'. playing_ih E ev g0 w0 = Some (g', w) \<and> in_play g'"
proof -
  have same: "g_playing (ended g) = g_playing g" "g_cursor (ended g) = g_cursor g" "g_sp (ended g) = g_sp g"
      "g_screen (ended g) = g_screen g" "g_player (ended g) = g_player g" "g_myTurn (ended g) = g_myTurn g"
    and sc2: "scene (ended g) b"
    using sc by (simp_all add: ended_def)
  have mv: "move_from_nowhere (ended g) b (next_byte (ended g)) = move_from_nowhere g b (next_byte g)"
    by (simp add: move_from_nowhere_def next_byte_def same)
  have mf: "mouse_fault (e_junk E) (ended g) b = mouse_fault (e_junk E) g b"
    unfolding mouse_fault_def unreadable_press_def board_x_def board_y_def same ..
  have "if fault then play_event E ev b (ended g) = None
    else \<exists>b3 g3. play_event E ev b (ended g) = Some (b3, g3) \<and> scene g3 b3"
  proof (cases "ev_type ev")
    case NEW_FRAME
    then show ?thesis using frame_fine [OF sc2] by (simp add: play_event_def fault_def mv)
  next
    case MOUSE
    then show ?thesis using playing_mouse_fine [OF sc2, of E] by (simp add: play_event_def fault_def mf)
  qed (use sc2 in \<open>simp_all add: play_event_def fault_def\<close>)
  then show ?thesis unfolding playing_ih_eq su by (auto simp: in_play_def)
qed

text \<open>Around the handler: the cursor moves before it, the frame is shown after it.\<close>

lemma cursor_scene:
  assumes "squares_115 (g_screen g)" and "scene g b"
  shows "scene (g\<lparr>g_cursor := updateCursor (g_screen g) (g_cursor g) p\<rparr>) b"
proof -
  let ?c = "updateCursor (g_screen g) (g_cursor g) p"
  note f = mode_115_facts [OF squares_115D(1) [OF assms(1)]]
  have "cursor_inside (g_screen g) ?c" by (rule updateCursor_inside) (simp_all add: f)
  moreover have "cursor_image ?c = cursor_image (g_cursor g)" by (simp add: updateCursor_def Let_def)
  ultimately show ?thesis using assms(2) by (simp add: scene_def)
qed

lemma shown_frame:
  assumes "in_play g"
  shows "\<exists>v. drawCursor (g_screen g) (g_buffer g) (Some (g_cursor g)) = Some v \<and>
    copy_from_buffer (g_screen g) (g_video_mem g) v = Some v \<and> in_play (g\<lparr>g_buffer := v, g_video_mem := v\<rparr>)"
proof -
  let ?s = "g_screen g"
  obtain b where b: "p_board (g_playing g) = Some b" "scene g b" using assms by (auto simp: in_play_def)
  then have wf: "fb_wf ?s (g_buffer g)" "fb_wf ?s (g_video_mem g)" "image_ok ?s (cursor_image (g_cursor g))"
    by (simp_all add: scene_def)
  obtain v where v: "drawCursor ?s (g_buffer g) (Some (g_cursor g)) = Some v" "fb_wf ?s v"
    using draw_image_wf [OF wf(1,3)] by (auto simp: drawCursor_def)
  moreover have "copy_from_buffer ?s (g_video_mem g) v = Some v"
    using copy_buffers_wf [OF wf(2) v(2)] by (simp add: copy_from_buffer_def)
  moreover have "scene (g\<lparr>g_buffer := v, g_video_mem := v\<rparr>) b" using b(2) v(2) by (simp add: scene_def)
  ultimately show ?thesis using b(1) by (auto simp: in_play_def)
qed

lemma base_junk: "e_junk (base_env E) = e_junk E"
  by (simp add: env.truncate_def)

lemma handle_event_fine:
  assumes st: "g_state g = PLAYING" and sc: "scene g b" and pb: "p_board (g_playing g) = Some b"
  shows "if event_fault (e_junk E) g b ev then handle_event E ev g w = None
    else \<exists>g'. handle_event E ev g w = Some (g', w) \<and> in_play g'"
proof -
  have ih: "\<And>c. playing_setup (base_env E) (g\<lparr>g_cursor := c\<rparr>) w = Some (b, g\<lparr>g_cursor := c\<rparr>, w)"
    "playing_setup (base_env E) g w = Some (b, g, w)"
    by (simp_all add: playing_setup_def pb)
  note fine = playing_ih_fine [OF ih(2) sc, of ev, unfolded base_junk]
  show ?thesis
  proof (cases "ev_type ev")
    case NO_EVENT
    then show ?thesis using sc pb by (auto simp: event_fault_def handle_event_def in_play_def)
  next
    case KEYBOARD
    then show ?thesis using fine st by (simp add: event_fault_def handle_event_def inputHandler_def)
  next
    case MOUSE
    then show ?thesis
      using playing_ih_fine [OF ih(1) cursor_scene [OF sceneD(1) [OF sc] sc], of _ ev, unfolded base_junk] st
      by (simp add: event_fault_def handle_event_def inputHandler_def Let_def split: EventData.split)
  next
    case NEW_FRAME
    then show ?thesis
      using fine st shown_frame by (fastforce simp: event_fault_def handle_event_def inputHandler_def)
  qed
qed

section \<open>The first event of a game\<close>

text \<open>
  What the set-up relies on: the pictures of the pieces and of the switch for the animation
  can be decoded, and decode to pictures that the mode can show.
\<close>

definition pictures_ok :: "xpm_loader \<Rightarrow> bool" where
  "pictures_ok load \<longleftrightarrow> (\<forall>x\<in>insert toggle_animation_xpm (range piece_xpm).
     case load x of None \<Rightarrow> False | Some img \<Rightarrow> image_ok screen_115 img)"

lemma pictures_okD:
  assumes "pictures_ok load"
  shows "image_ok screen_115 (snd (create_image load toggle_animation_xpm img))"
    "image_ok screen_115 (snd (create_image load (piece_xpm t) img))"
proof -
  have "image_ok screen_115 (snd (create_image load x img))" if "x \<in> insert toggle_animation_xpm (range piece_xpm)" for x
    using assms [unfolded pictures_ok_def, rule_format, OF that] by (cases "load x") (simp_all add: create_image_def)
  then show "image_ok screen_115 (snd (create_image load toggle_animation_xpm img))"
    "image_ok screen_115 (snd (create_image load (piece_xpm t) img))" by blast+
qed

lemma image_ok_115: "mode_115 s \<Longrightarrow> image_ok s img = image_ok screen_115 img"
  using mode_115_facts(3) [of s] mode_115_facts(3) [OF squares_115D(1) [OF screen_115]] by (simp add: image_ok_def)

text \<open>A game whose board has not been created, as the handshake leaves it.\<close>

definition may_start :: "Game \<Rightarrow> bool" where
  "may_start g \<longleftrightarrow> p_board (g_playing g) = None \<and> mode_115 (g_screen g) \<and>
     byteOfMove (g_playing g) = 0 \<and> dragging_piece (g_playing g) = None \<and>
     on_sq (uint (old_col (p_move (g_playing g)))) (uint (old_row (p_move (g_playing g)))) \<and>
     length (g_buffer g) = 1440000 \<and> length (g_video_mem g) = 1440000 \<and>
     letters_ok (g_screen g) (g_letters g) \<and> 0 \<in> set (g_name g) \<and> sp_invar (g_sp g) \<and>
     cursor_inside (g_screen g) (g_cursor g) \<and> image_ok (g_screen g) (cursor_image (g_cursor g))"

lemma initBoard_fine:
  assumes V: "video_115 V mapped" and pics: "pictures_ok load"
  shows "\<exists>s' w' b'. initBoard V mapped load fresh s w b = Some (s', w', b') \<and> squares_115 s' \<and> board_fine s' b'"
proof -
  obtain s' w' b' where i: "initBoard V mapped load fresh s w b = Some (s', w', b')" "squares_115 s'"
    and p: "placed initial_pieces (\<lambda>k. made load s' (fresh k)) b'"
    and m: "mem_board b' = replicate 1440000 0" "mem_pieces b' = replicate 1440000 0"
    using initBoard_placed [OF V] by blast
  note mode = squares_115D(1) [OF i(2)]
  have "image_ok s' (piece_image q)" if "q \<in> set (heap b')" for q
  proof -
    obtain k where "k < length (heap b')" "q = heap b' ! k" using \<open>q \<in> set (heap b')\<close> by (metis in_set_conv_nth)
    then have "q = made load s' (fresh k) (initial_pieces ! k)" using p by (simp add: placed_def)
    then show ?thesis
      using pictures_okD [OF pics] by (auto simp: made_def initPiece_def Let_def image_ok_115 [OF mode] split: prod.split)
  qed
  then have "board_fine s' b'"
    using placed_board_ok [OF p] m by (simp add: board_fine_def mode_115_wf [OF mode])
  with i show ?thesis by blast
qed

lemma playing_setup_fine:
  assumes V: "video_115 (e_video E) (e_mapped E)" and pics: "pictures_ok (e_load E)" and ms: "may_start g"
  shows "\<exists>b g1 w1. playing_setup E g w = Some (b, g1, w1) \<and> scene g1 b \<and>
    byteOfMove (g_playing g1) = 0 \<and> dragging_piece (g_playing g1) = None"
proof -
  let ?img = "snd (create_image (e_load E) toggle_animation_xpm (p_toggle (g_playing g)))"
  obtain s1 w1 b1 where i: "initBoard (e_video E) (e_mapped E) (e_load E) (e_fresh E) (g_screen g) w (e_block E) = Some (s1, w1, b1)"
    "squares_115 s1" "board_fine s1 b1"
    using initBoard_fine [OF V pics] by blast
  note mode = squares_115D(1) [OF i(2)]
  have mode0: "mode_115 (g_screen g)" using ms by (simp add: may_start_def)
  have wf: "fb_wf s1 (mem_board b1)" using i(3) by (simp add: board_fine_def)
  obtain m where d: "drawBoard s1 b1 = Some (b1\<lparr>redrawPieces := True, mem_board := m\<rparr>)" "fb_wf s1 m"
    using drawBoard_unlit [OF i(2) wf] by blast
  have "image_ok s1 ?img" using pictures_okD [OF pics] by (simp add: image_ok_115 [OF mode])
  then obtain m2 where m2: "draw_image s1 m ?img 538 185 = Some m2" "fb_wf s1 m2"
    using draw_image_wf [OF d(2)] by blast
  let ?b = "b1\<lparr>redrawPieces := True, mem_board := m2\<rparr>"
  let ?g = "g\<lparr>g_screen := s1, g_playing := (g_playing g)\<lparr>p_toggle := ?img\<rparr>\<rparr>"
  have "playing_setup E g w = Some (?b, ?g, w1)"
    using ms i(1) d(1) m2(1) by (simp add: playing_setup_def may_start_def)
  moreover have "board_fine s1 ?b" using i(3) m2(2) by (simp add: board_fine_def board_ok_def)
  then have "scene ?g ?b"
    using ms i(2) mode_115_facts [OF mode] mode_115_facts [OF mode0]
    by (simp add: scene_def may_start_def drag_ok_def letters_ok_def image_ok_115 [OF mode] image_ok_115 [OF mode0]
        mode_115_wf [OF mode] cursor_inside_def)
  ultimately show ?thesis using ms by (auto simp: may_start_def)
qed

section \<open>Properties\<close>

definition playable :: "Game \<Rightarrow> bool" where
  "playable g \<longleftrightarrow> g_state g = PLAYING \<and> (in_play g \<or> may_start g)"

text \<open>Before the board exists, the only fault is a press on the board that the event itself sets up.\<close>

definition game_fault :: "'w main_env \<Rightarrow> 'w \<Rightarrow> Game \<Rightarrow> Event \<Rightarrow> bool" where
  "game_fault E w g ev \<longleftrightarrow>
     (case p_board (g_playing g) of
        Some b \<Rightarrow> event_fault (e_junk E) g b ev
      | None \<Rightarrow> ev_type ev = MOUSE \<and>
          (case ev_data ev of
             MousePacket p \<Rightarrow>
               (case playing_setup (base_env E) (g\<lparr>g_cursor := updateCursor (g_screen g) (g_cursor g) p\<rparr>) w of
                  None \<Rightarrow> False
                | Some (b, g1, w1) \<Rightarrow> mouse_fault (e_junk E) g1 b)
           | _ \<Rightarrow> True))"

lemma first_event:
  assumes V: "video_115 (e_video E) (e_mapped E)" and pics: "pictures_ok (e_load E)"
    and st: "g_state g = PLAYING" and ms: "may_start g"
  shows "if game_fault E w g ev then handle_event E ev g w = None
    else \<exists>g' w'. handle_event E ev g w = Some (g', w') \<and> (in_play g' \<or> g' = g)"
proof -
  have pb: "p_board (g_playing g) = None" using ms by (simp add: may_start_def)
  have ih: "\<exists>b h1 w1. playing_setup (base_env E) h w = Some (b, h1, w1) \<and>
      (if ev_type ev = MOUSE \<and> mouse_fault (e_junk E) h1 b then playing_ih (base_env E) ev h w = None
       else \<exists>h'. playing_ih (base_env E) ev h w = Some (h', w1) \<and> in_play h')" if h: "may_start h" for h
  proof -
    obtain b h1 w1 where s: "playing_setup (base_env E) h w = Some (b, h1, w1)" "scene h1 b"
      "byteOfMove (g_playing h1) = 0" "dragging_piece (g_playing h1) = None"
      using playing_setup_fine [of "base_env E" h w, OF _ _ h] V pics by (auto simp: env.defs)
    then show ?thesis
      using playing_ih_fine [OF s(1,2), of ev, unfolded base_junk]
      by (cases "ev_type ev") (simp_all add: move_from_nowhere_def split: if_splits)
  qed
  show ?thesis
  proof (cases "ev_type ev")
    case NO_EVENT
    then show ?thesis using ms pb by (auto simp: game_fault_def handle_event_def)
  next
    case KEYBOARD
    then show ?thesis using ih [OF ms] st pb by (auto simp: game_fault_def handle_event_def inputHandler_def)
  next
    case NEW_FRAME
    obtain h w' where h: "playing_ih (base_env E) ev g w = Some (h, w')" "in_play h"
      using ih [OF ms] NEW_FRAME by auto
    then show ?thesis
      using NEW_FRAME st pb shown_frame [OF h(2)] by (auto simp: game_fault_def handle_event_def inputHandler_def)
  next
    case MOUSE
    show ?thesis
    proof (cases "ev_data ev")
      case (MousePacket p)
      let ?c = "updateCursor (g_screen g) (g_cursor g) p"
      have mode: "mode_115 (g_screen g)" using ms by (simp add: may_start_def)
      have "cursor_inside (g_screen g) ?c" by (rule updateCursor_inside) (simp_all add: mode_115_facts [OF mode])
      moreover have "cursor_image ?c = cursor_image (g_cursor g)" by (simp add: updateCursor_def Let_def)
      ultimately have "may_start (g\<lparr>g_cursor := ?c\<rparr>)" using ms by (simp add: may_start_def)
      then obtain b h1 w1 where s: "playing_setup (base_env E) (g\<lparr>g_cursor := ?c\<rparr>) w = Some (b, h1, w1)"
        and r: "if mouse_fault (e_junk E) h1 b then playing_ih (base_env E) ev (g\<lparr>g_cursor := ?c\<rparr>) w = None
          else \<exists>h'. playing_ih (base_env E) ev (g\<lparr>g_cursor := ?c\<rparr>) w = Some (h', w1) \<and> in_play h'"
        using ih MOUSE by fastforce
      have "game_fault E w g ev = mouse_fault (e_junk E) h1 b"
        using MOUSE MousePacket pb s by (simp add: game_fault_def)
      moreover have "handle_event E ev g w = playing_ih (base_env E) ev (g\<lparr>g_cursor := ?c\<rparr>) w"
        using MOUSE MousePacket st by (simp add: handle_event_def inputHandler_def)
      ultimately show ?thesis using r by (cases "mouse_fault (e_junk E) h1 b") auto
    qed (use MOUSE pb in \<open>simp_all add: game_fault_def handle_event_def\<close>)
  qed
qed

lemma event_state:
  assumes "handle_event E ev g w = Some (g', w')" and "g_state g = PLAYING"
  shows "g_state g' = PLAYING \<or> g_state g' = EXIT"
proof -
  have "g_state h' = PLAYING \<or> g_state h' = EXIT"
    if "inputHandler (base_env E) ev h w = Some (h', w')" "g_state h = PLAYING" for h h'
    using that playing_keeps [of "base_env E" ev h w h' w'] by (auto simp: inputHandler_def play_keeps_def)
  then show ?thesis
    using assms unfolding handle_event_def
    by (auto split: EventType.splits EventData.splits bind_splits) (metis Game.select_convs(1))+
qed

text \<open>A game in progress does not go wrong. From a game whose board is not created yet, or whose
  board, layers, pictures, name, queues and drag are well-formed, every event has a defined
  result in which they are well-formed again, the setting up of the board included, except
  for exactly three kinds of events (and a mouse event without a packet): the frame in which the
  peer's move starts from a square that is empty here, which follows a null pointer, the
  release of a dragged piece in the top thirteen rows of the screen, which reads outside the
  layer of the squares, and the press on a piece whose marking reads a word beside the array
  of the squares that cannot be read.\<close>
lemma playing_does_not_go_wrong:
  assumes "video_115 (e_video E) (e_mapped E)" and "pictures_ok (e_load E)" and "playable g"
  shows "(handle_event E ev g w = None \<longleftrightarrow> game_fault E w g ev) \<and>
    (\<forall>g' w'. handle_event E ev g w = Some (g', w') \<longrightarrow> playable g' \<or> g_state g' = EXIT)"
proof -
  have st: "g_state g = PLAYING" using assms(3) by (simp add: playable_def)
  have "if game_fault E w g ev then handle_event E ev g w = None
    else \<exists>g' w'. handle_event E ev g w = Some (g', w') \<and> (in_play g' \<or> may_start g')"
  proof (cases "in_play g")
    case True
    then obtain b where "p_board (g_playing g) = Some b" "scene g b" by (auto simp: in_play_def)
    then show ?thesis using handle_event_fine [OF st, of b E ev w] by (auto simp: game_fault_def)
  next
    case False
    then have m: "may_start g" using assms(3) by (simp add: playable_def)
    show ?thesis using first_event [OF assms(1,2) st m, of w ev] m by (auto split: if_splits)
  qed
  then show ?thesis using event_state [OF _ st] by (fastforce simp: playable_def split: if_splits)
qed

text \<open>A game about to start, on a machine with empty pictures.\<close>

definition no_picture :: xpm_image where
  "no_picture = \<lparr>img_width = 0, img_height = 0, img_bytes = []\<rparr>"

definition starting_game :: Game where
  "starting_game = sample_game\<lparr>g_letters := replicate 26 no_picture, g_buffer := replicate 1440000 0,
     g_video_mem := replicate 1440000 0, g_playing := (g_playing sample_game)\<lparr>dragging_piece := None\<rparr>\<rparr>"

definition starting_env :: "unit main_env" where
  "starting_env = sample_env\<lparr>e_mapped := \<lambda>_. replicate 1440000 0, e_load := \<lambda>_. Some no_picture\<rparr>"

lemma starting_game: "playable starting_game" "pictures_ok (e_load starting_env)"
  "video_115 (e_video starting_env) (e_mapped starting_env)"
proof -
  have "image_ok screen_115 no_picture" by (simp add: image_ok_def no_picture_def)
  then show "pictures_ok (e_load starting_env)" by (simp add: pictures_ok_def starting_env_def)
  show "video_115 (e_video starting_env) (e_mapped starting_env)"
    using sample_video by (simp add: starting_env_def sample_env_def)
  note f = mode_115_facts [OF squares_115D(1) [OF screen_115]]
  have "may_start starting_game"
    using squares_115D(1) [OF screen_115] \<open>image_ok screen_115 no_picture\<close> fresh_sp_invar
    by (simp add: may_start_def starting_game_def sample_game_def letters_ok_def on_sq_def cursor_inside_def f
        sample_cursor_def no_picture_def image_ok_def)
  then show "playable starting_game" by (simp add: playable_def starting_game_def sample_game_def)
qed

lemma playing_does_not_go_wrong_example:
  "\<exists>g'. handle_event starting_env \<lparr>ev_type = NEW_FRAME, ev_data = Indeterminate\<rparr> starting_game () = Some (g', ()) \<and>
     (playable g' \<or> g_state g' = EXIT)"
proof -
  let ?ev = "\<lparr>ev_type = NEW_FRAME, ev_data = Indeterminate\<rparr>"
  have "\<not> game_fault starting_env () starting_game ?ev" by (simp add: game_fault_def starting_game_def sample_game_def)
  then obtain g' where "handle_event starting_env ?ev starting_game () = Some (g', ())"
    using playing_does_not_go_wrong [OF starting_game(3,2,1), of ?ev "()"] by auto
  then show ?thesis using playing_does_not_go_wrong [OF starting_game(3,2,1), of ?ev "()"] by blast
qed

end
