(* ===== verification/Turn.thy ===== *)
theory Turn
  imports Scene
begin

text \<open>
  A whole turn at one machine: the button goes down over a piece, any number of frames,
  movements and keys follow, the button goes up. The handlers of \<open>proj/src/main.c\<close>,
  \<open>proj/src/board.c\<close> and \<open>proj/src/cursor.c\<close> together make exactly the moves of the rules.
\<close>

section \<open>Boards with the same pieces\<close>

lemma alike_types: "alike b b' \<Longrightarrow> types b' = types b"
  by (simp add: alike_def types_def)

lemma alike_piece_at: "alike b b' \<Longrightarrow> map_option ptype (piece_at b' c r) = map_option ptype (piece_at b c r)"
  by (simp add: alike_def piece_at_def option.map_comp o_def)

text \<open>The squares of the pawns that have begun to move, and what a move does to them.\<close>

definition advanced :: "Board \<Rightarrow> nat set" where
  "advanced b = {i. i < length (squares b) \<and>
     (case squares b ! i of None \<Rightarrow> False | Some ref \<Rightarrow> pawn_moved (heap b ! ref))}"

definition carry :: "nat \<Rightarrow> nat \<Rightarrow> nat set \<Rightarrow> nat set" where
  "carry src dst A = (if src \<in> A then insert dst A else A - {dst}) - {src}"

lemma carry_mono: "A \<subseteq> B \<Longrightarrow> carry i j A \<subseteq> carry i j B"
  by (auto simp: carry_def)

lemma carry_empty [simp]: "carry i j {} = {}"
  by (simp add: carry_def)

lemma alike_advanced: "alike b b' \<Longrightarrow> advanced b \<subseteq> advanced b'"
  by (auto simp: alike_def advanced_def split: option.splits)

lemma advanced_cong:
  assumes "squares b' = squares b" and "\<And>k. pawn_moved (heap b' ! k) = pawn_moved (heap b ! k)"
  shows "advanced b' = advanced b"
  by (simp add: advanced_def assms cong: option.case_cong)

lemma moved_advanced:
  assumes at: "squares b ! i = Some ref" and l: "i < length (squares b)" "j < length (squares b)" and ne: "j \<noteq> i"
    and sq: "squares b' = (squares b)[i := None, j := Some ref]"
    and pm: "\<And>k. pawn_moved (heap b' ! k) = pawn_moved (heap b ! k)"
  shows "advanced b' = carry i j (advanced b)"
  using at l ne by (auto simp: advanced_def carry_def sq pm nth_list_update split: option.splits if_splits)

text \<open>The rules look at the types of the pieces, and at the mover's first move.\<close>

lemma may_go_types:
  assumes p: "\<And>c r. map_option ptype (piece_at b' c r) = map_option ptype (piece_at b c r)"
    and q: "ptype p' = ptype p" "pawn_moved p' = pawn_moved p"
  shows "may_go b' p' x y c r = may_go b p x y c r"
proof -
  have f: "free_at b' = free_at b"
    using p by (simp add: free_at_def fun_eq_iff) (metis option.map_disc_iff)
  then have sl: "slides b' = slides b" by (simp add: slides_def fun_eq_iff)
  then have 1: "straight b' = straight b" "diagonal b' = diagonal b"
    by (simp_all add: straight_def diagonal_def fun_eq_iff)
  have 2: "pawn_steps b' = pawn_steps b" using f by (simp add: pawn_steps_def fun_eq_iff)
  have "(case piece_at b' c r of None \<Rightarrow> False | Some q \<Rightarrow> e (ptype q)) =
      (case piece_at b c r of None \<Rightarrow> False | Some q \<Rightarrow> e (ptype q))" for e c r
    using p [of c r] by (cases "piece_at b' c r"; cases "piece_at b c r") auto
  then have "pawn_takes b' = pawn_takes b" by (simp add: pawn_takes_def fun_eq_iff)
  with 1 2 q show ?thesis by (simp only: may_go_def)
qed

section \<open>Holding a piece\<close>

text \<open>The state while a piece is held that came from (c0, r0): \<open>b0\<close> is the board just after it was picked up.\<close>

definition holding :: "Game \<Rightarrow> Board \<Rightarrow> nat \<Rightarrow> int \<Rightarrow> int \<Rightarrow> Game \<Rightarrow> Board \<Rightarrow> bool" where
  "holding g0 b0 ref c0 r0 g b \<longleftrightarrow> g_state g = PLAYING \<and> p_board (g_playing g) = Some b \<and> scene g b \<and>
     \<not> g_endGame g \<and> g_myTurn g \<and> received (g_sp g) = [] \<and> to_send (g_sp g) = to_send (g_sp g0) \<and>
     pressed (g_cursor g) \<and> drags g b ref c0 r0 \<and> alike b0 b \<and> g_screen g = g_screen g0"

lemma holdingD:
  assumes "holding g0 b0 ref c0 r0 g b"
  shows "g_state g = PLAYING" "p_board (g_playing g) = Some b" "scene g b" "\<not> g_endGame g" "g_myTurn g"
    "received (g_sp g) = []" "to_send (g_sp g) = to_send (g_sp g0)" "pressed (g_cursor g)" "drags g b ref c0 r0"
    "alike b0 b" "g_screen g = g_screen g0"
  using assms by (simp_all add: holding_def)

text \<open>What may happen meanwhile: frames, keys, and movements with the button down.\<close>

definition hold_event :: "Event \<Rightarrow> bool" where
  "hold_event ev \<longleftrightarrow> (ev_type ev = MOUSE \<longrightarrow> (\<exists>p. ev_data ev = MousePacket p \<and> lb p))"

lemma drags_alike:
  assumes "drags g b ref c0 r0" and "alike b b'" and "g_playing g' = g_playing g"
  shows "drags g' b' ref c0 r0"
  using assms by (simp add: drags_def alike_def)

lemma playing_setup_done: "p_board (g_playing g) = Some b \<Longrightarrow> playing_setup E g w = Some (b, g, w)"
  by (simp add: playing_setup_def)

lemma playing_ih_running:
  assumes "p_board (g_playing g) = Some b" and "\<not> g_endGame g" and "play_event E ev b g = Some (b', g')"
  shows "playing_ih E ev g w = Some (g'\<lparr>g_playing := (g_playing g')\<lparr>p_board := Some b'\<rparr>\<rparr>, w)"
  using assms by (simp add: playing_ih_eq playing_setup_done ended_def)

lemma hold_frame:
  assumes h: "holding g0 b0 ref c0 r0 g b"
  shows "\<exists>g' b'. playing_frame b g = Some (b', g') \<and> holding g0 b0 ref c0 r0 (g'\<lparr>g_playing := (g_playing g')\<lparr>p_board := Some b'\<rparr>\<rparr>) b'"
proof -
  note d = holdingD [OF h]
  obtain v b1 sp where f: "playing_frame b g = receive_byte (next_byte g) b1 (g\<lparr>g_buffer := v, g_sp := sp\<rparr>)"
    and s: "scene (g\<lparr>g_buffer := v, g_sp := sp\<rparr>) b1" "alike b b1" "received sp = tl (received (g_sp g))"
      "to_send sp = to_send (g_sp g)"
    using frame_draws [OF d(3)] by blast
  have "next_byte g = 0" by (simp add: next_byte_def d(6))
  then have "playing_frame b g = Some (b1, g\<lparr>g_buffer := v, g_sp := sp\<rparr>)"
    unfolding f by (simp add: receive_byte_def Let_def BEGIN_MESSAGE_def YOUR_TURN_def)
  moreover have "drags g b1 ref c0 r0" by (rule drags_alike [OF d(9) s(2) refl])
  ultimately show ?thesis
    using d s alike_trans [OF d(10) s(2)] by (auto simp: holding_def drags_def)
qed

lemma hold_motion:
  assumes h: "holding g0 b0 ref c0 r0 g b" and rel: "\<not> released (g_cursor g)"
  shows "\<exists>g' b'. playing_mouse E b g = Some (b', g') \<and> holding g0 b0 ref c0 r0 (g'\<lparr>g_playing := (g_playing g')\<lparr>p_board := Some b'\<rparr>\<rparr>) b'"
proof -
  note d = holdingD [OF h]
  note sc = sceneD [OF d(3)]
  have dr: "dragging_piece (g_playing g) = Some ref" using d(9) by (simp add: drags_def)
  then have ref: "ref < length (heap b)" using sc(3) by (simp add: drag_ok_def)
  let ?p = "setPiecePosition (heap b ! ref) (uint (cursor_x (g_cursor g)) - 29) (uint (cursor_y (g_cursor g)) - 29)"
  let ?b1 = "b\<lparr>heap := (heap b)[ref := ?p]\<rparr>"
  have al: "alike b ?b1" by (rule alike_set_piece) (simp_all add: setPiecePosition_def)
  have "scene g ?b1"
    using scene_board [OF d(3) fine_set_piece [OF sc(2)]] fine_piece [OF sc(2) ref] by (simp add: setPiecePosition_def)
  moreover have "playing_mouse E b g = Some (?b1, g)"
    using dr ref rel by (simp add: playing_mouse_def)
  moreover have "drags g ?b1 ref c0 r0" by (rule drags_alike [OF d(9) al refl])
  ultimately show ?thesis
    using d alike_trans [OF d(10) al] by (auto simp: holding_def drags_def)
qed

text \<open>A mouse packet with the button down keeps the button down.\<close>

lemma updateCursor_buttons:
  "lb p \<Longrightarrow> pressed (updateCursor s c p) \<and> \<not> released (updateCursor s c p)"
  "\<not> lb p \<Longrightarrow> \<not> pressed (updateCursor s c p) \<and> released (updateCursor s c p) = pressed c"
  by (simp_all add: updateCursor_fields)

lemma hold_step:
  assumes h: "holding g0 b0 ref c0 r0 g b" and e: "hold_event ev"
  shows "\<exists>g' b'. handle_event E ev g w = Some (g', w) \<and> holding g0 b0 ref c0 r0 g' b'"
proof -
  note d = holdingD [OF h]
  have play: "\<exists>g' b'. inputHandler (base_env E) ev k w = Some (g', w) \<and> holding g0 b0 ref c0 r0 g' b'"
    if k: "holding g0 b0 ref c0 r0 k b"
      and pe: "\<exists>k' b'. play_event (base_env E) ev b k = Some (b', k') \<and>
        holding g0 b0 ref c0 r0 (k'\<lparr>g_playing := (g_playing k')\<lparr>p_board := Some b'\<rparr>\<rparr>) b'" for k
    using pe playing_ih_running [OF holdingD(2,4) [OF k]] holdingD(1) [OF k] by (fastforce simp: inputHandler_def)
  show ?thesis
  proof (cases "ev_type ev")
    case NO_EVENT
    then show ?thesis using h by (auto simp: handle_event_def)
  next
    case KEYBOARD
    have "holding g0 b0 ref c0 r0 (k\<lparr>g_playing := (g_playing k)\<lparr>p_board := Some b\<rparr>\<rparr>) b"
      if "k = g \<or> k = g\<lparr>g_animation := \<not> g_animation g\<rparr>" for k
      using d that by (auto simp: holding_def drags_def)
    then have "\<exists>k' b'. play_event (base_env E) ev b g = Some (b', k') \<and>
        holding g0 b0 ref c0 r0 (k'\<lparr>g_playing := (g_playing k')\<lparr>p_board := Some b'\<rparr>\<rparr>) b'"
      using KEYBOARD by (simp add: play_event_def)
    from play [OF h this] show ?thesis using KEYBOARD by (simp add: handle_event_def)
  next
    case MOUSE
    then obtain p where p: "ev_data ev = MousePacket p" "lb p" using e by (auto simp: hold_event_def)
    let ?k = "g\<lparr>g_cursor := updateCursor (g_screen g) (g_cursor g) p\<rparr>"
    have k: "holding g0 b0 ref c0 r0 ?k b"
      using d cursor_scene [OF sceneD(1) [OF d(3)] d(3)] updateCursor_buttons(1) [OF p(2)]
      by (simp add: holding_def drags_def)
    have "\<not> released (g_cursor ?k)" using updateCursor_buttons(1) [OF p(2)] by simp
    then show ?thesis
      using play [OF k] hold_motion [OF k, of "base_env E"] MOUSE p(1) by (simp add: handle_event_def play_event_def)
  next
    case NEW_FRAME
    obtain g1 b1 where g1: "inputHandler (base_env E) ev g w = Some (g1, w)" "holding g0 b0 ref c0 r0 g1 b1"
      using play [OF h] hold_frame [OF h] NEW_FRAME by (auto simp: play_event_def)
    note d1 = holdingD [OF g1(2)]
    obtain v where v: "drawCursor (g_screen g1) (g_buffer g1) (Some (g_cursor g1)) = Some v"
      "copy_from_buffer (g_screen g1) (g_video_mem g1) v = Some v" "in_play (g1\<lparr>g_buffer := v, g_video_mem := v\<rparr>)"
      using shown_frame [of g1] d1(2,3) by (auto simp: in_play_def)
    then have "scene (g1\<lparr>g_buffer := v, g_video_mem := v\<rparr>) b1" using d1(2) by (simp add: in_play_def)
    then have "holding g0 b0 ref c0 r0 (g1\<lparr>g_buffer := v, g_video_mem := v\<rparr>) b1"
      using d1 by (simp add: holding_def drags_def)
    then show ?thesis using NEW_FRAME g1(1) v(1,2) by (auto simp: handle_event_def)
  qed
qed

text \<open>Events handled one after the other, as the loop of the program does.\<close>

definition handle_events :: "'w main_env \<Rightarrow> Event list \<Rightarrow> Game \<times> 'w \<Rightarrow> (Game \<times> 'w) option" where
  "handle_events E = foldM (\<lambda>ev (g, w). handle_event E ev g w)"

lemma hold_run:
  assumes "holding g0 b0 ref c0 r0 g b" and "\<forall>ev\<in>set evs. hold_event ev"
  shows "\<exists>g' b'. handle_events E evs (g, w) = Some (g', w) \<and> holding g0 b0 ref c0 r0 g' b'"
  using assms
proof (induction evs arbitrary: g b)
  case Nil
  then show ?case by (auto simp: handle_events_def)
next
  case (Cons ev evs)
  obtain g1 b1 where 1: "handle_event E ev g w = Some (g1, w)" "holding g0 b0 ref c0 r0 g1 b1"
    using hold_step [OF Cons.prems(1)] Cons.prems(2) by fastforce
  then show ?case using Cons.IH [OF 1(2)] Cons.prems(2) by (simp add: handle_events_def)
qed

text \<open>Only mouse packets move the cursor.\<close>

definition moved :: "Screen \<Rightarrow> Cursor \<Rightarrow> Event \<Rightarrow> Cursor" where
  "moved s c ev = (if ev_type ev = MOUSE
     then case ev_data ev of MousePacket p \<Rightarrow> updateCursor s c p | _ \<Rightarrow> c else c)"

definition track :: "Screen \<Rightarrow> Cursor \<Rightarrow> Event list \<Rightarrow> Cursor" where
  "track s = foldl (moved s)"

lemma playing_cursor:
  assumes "handle_event E ev g w = Some (g', w')" and "g_state g = PLAYING"
  shows "g_cursor g' = moved (g_screen g) (g_cursor g) ev \<and> g_player g' = g_player g"
proof -
  have ih: "g_cursor h' = g_cursor h \<and> g_player h' = g_player h" if "inputHandler (base_env E) ev h w = Some (h', w')" "g_state h = PLAYING" for h h'
    using that playing_keeps [of "base_env E" ev h w h' w'] by (simp add: inputHandler_def play_keeps_def)
  show ?thesis
  proof (cases "ev_type ev")
    case NEW_FRAME
    then obtain g1 where "inputHandler (base_env E) ev g w = Some (g1, w')" "g_cursor g' = g_cursor g1" "g_player g' = g_player g1"
      using assms(1) by (auto simp: handle_event_def split: bind_splits)
    then show ?thesis using ih assms(2) NEW_FRAME by (simp add: moved_def)
  next
    case MOUSE
    then show ?thesis using assms ih by (fastforce simp: handle_event_def moved_def split: EventData.splits)
  qed (use assms ih in \<open>auto simp: handle_event_def moved_def\<close>)
qed

lemma hold_track:
  assumes "holding g0 b0 ref c0 r0 g b" and "\<forall>ev\<in>set evs. hold_event ev"
    and "handle_events E evs (g, w) = Some (g', w')"
  shows "g_cursor g' = track (g_screen g0) (g_cursor g) evs \<and> g_player g' = g_player g"
  using assms
proof (induction evs arbitrary: g b)
  case (Cons ev evs)
  obtain g1 b1 where 1: "handle_event E ev g w = Some (g1, w)" "holding g0 b0 ref c0 r0 g1 b1"
    using hold_step [OF Cons.prems(1)] Cons.prems(2) by fastforce
  then have "handle_events E evs (g1, w) = Some (g', w')" using Cons.prems(3) by (simp add: handle_events_def)
  from Cons.IH [OF 1(2) _ this] Cons.prems(2) playing_cursor [OF 1(1) holdingD(1) [OF Cons.prems(1)]]
  show ?case using holdingD(11) [OF Cons.prems(1)] by (simp add: track_def)
qed (simp add: handle_events_def track_def)

section \<open>Picking up and putting down\<close>

text \<open>Between turns: nothing is held and no square is marked.\<close>

definition resting :: "Game \<Rightarrow> Board \<Rightarrow> bool" where
  "resting g b \<longleftrightarrow> g_state g = PLAYING \<and> p_board (g_playing g) = Some b \<and> scene g b \<and> \<not> g_endGame g \<and>
     dragging_piece (g_playing g) = None \<and> (\<forall>c r. on_sq c r \<longrightarrow> \<not> lit (g_screen g) (mem_board b) c r)"

definition my_turn :: "Game \<Rightarrow> Board \<Rightarrow> bool" where
  "my_turn g b \<longleftrightarrow> resting g b \<and> g_myTurn g \<and> received (g_sp g) = []"

definition mouse_event :: "packet \<Rightarrow> Event" where
  "mouse_event p = \<lparr>ev_type = MOUSE, ev_data = MousePacket p\<rparr>"

text \<open>The square the cursor reaches with a packet.\<close>

definition points_at :: "Game \<Rightarrow> packet \<Rightarrow> int \<Rightarrow> int \<Rightarrow> bool" where
  "points_at g p x y \<longleftrightarrow> on_sq x y \<and> cursor_at (g\<lparr>g_cursor := updateCursor (g_screen g) (g_cursor g) p\<rparr>) x y"

lemma ptype_raised: "ptype (heap (lifted b ref) ! k) = ptype (heap b ! k)"
    "pawn_moved (heap (lifted b ref) ! k) = pawn_moved (heap b ! k)"
  by (cases "k = ref"; cases "ref < length (heap b)";
    simp add: lifted_def changePiecePriority_def list_update_beyond)+

text \<open>A press on a piece whose marking reads what cannot be read goes wrong.\<close>

lemma pick_up_fails:
  assumes mt: "my_turn g b" and pt: "points_at g p c0 r0" and lb: "lb p"
    and at: "squares b ! sq_index c0 r0 = Some ref" and own: "may_press (g_player g) (ptype (heap b ! ref))"
    and nr: "\<not> readable (e_junk E) b (heap b ! ref) c0 r0"
  shows "handle_event E (mouse_event p) g w = None"
proof -
  let ?h = "g\<lparr>g_cursor := updateCursor (g_screen g) (g_cursor g) p\<rparr>"
  have m: "g_state g = PLAYING" "p_board (g_playing g) = Some b" "scene g b" "g_myTurn g" "dragging_piece (g_playing g) = None"
    using mt by (simp_all add: my_turn_def resting_def)
  have xy: "board_x ?h = c0" "board_y ?h = r0" "on_sq c0 r0"
    using pt by (simp_all add: points_at_def cursor_at_def board_x_def board_y_def)
  have "event_fault (e_junk E) g b (mouse_event p)"
    unfolding event_fault_def mouse_event_def
    using m xy at own nr updateCursor_buttons(1) [OF lb]
    by (simp add: mouse_fault_def unreadable_press_def)
  then show ?thesis using handle_event_fine [OF m(1,3,2), of E "mouse_event p" w] by simp
qed

lemma pick_up:
  assumes mt: "my_turn g b" and pt: "points_at g p c0 r0" and lb: "lb p"
    and at: "squares b ! sq_index c0 r0 = Some ref" and own: "may_press (g_player g) (ptype (heap b ! ref))"
    and rd: "readable (e_junk E) b (heap b ! ref) c0 r0"
  shows "\<exists>g1 b1. handle_event E (mouse_event p) g w = Some (g1, w) \<and> holding g b1 ref c0 r0 g1 b1 \<and>
    alike b (b1\<lparr>mem_board := mem_board b\<rparr>) \<and>
    (\<forall>c r. on_sq c r \<longrightarrow> lit (g_screen g) (mem_board b1) c r = may_go b (heap b ! ref) c0 r0 c r)"
proof -
  let ?s = "g_screen g"
  let ?h = "g\<lparr>g_cursor := updateCursor ?s (g_cursor g) p\<rparr>"
  have m: "g_state g = PLAYING" "p_board (g_playing g) = Some b" "scene g b" "\<not> g_endGame g" "g_myTurn g"
    "received (g_sp g) = []" "dragging_piece (g_playing g) = None"
    and unlit: "\<forall>c r. on_sq c r \<longrightarrow> \<not> lit ?s (mem_board b) c r"
    using mt by (simp_all add: my_turn_def resting_def)
  note d = sceneD [OF m(3)]
  have sc: "scene ?h b" by (rule cursor_scene [OF d(1) m(3)])
  have xy: "board_x ?h = c0" "board_y ?h = r0" and o: "on_sq c0 r0"
    using pt by (simp_all add: points_at_def cursor_at_def board_x_def board_y_def)
  note btn = updateCursor_buttons(1) [OF lb, of ?s "g_cursor g"]
  have ref: "ref < length (heap b)" by (rule fine_ref [OF d(2) sq_index_less [OF o] at])
  let ?b1 = "\<lambda>m. (lifted b ref)\<lparr>mem_board := m\<rparr>"
  let ?k = "\<lambda>m. ?h\<lparr>g_playing := (g_playing g)\<lparr>dragging_piece := Some ref,
      inicialPieceCol := u32_of c0, inicialPieceRow := u32_of r0\<rparr>, g_buffer := m\<rparr>"
  have o': "on_sq (board_x ?h) (board_y ?h)" and at': "squares b ! sq_index (board_x ?h) (board_y ?h) = Some ref"
    and own': "may_press (g_player ?h) (ptype (heap b ! ref))"
    using o at own xy by simp_all
  obtain m' where m': "press (base_env E) b ?h = Some (?b1 m', ?k m')" "fb_wf ?s m'" "board_fine ?s (lifted b ref)"
    and co: "\<forall>c r. on_sq c r \<longrightarrow> corner ?s m' c r =
       (if may_go (lifted b ref) (changePiecePriority (heap b ! ref) True) c0 r0 c r
        then colour_bytes ?s orange else corner ?s (mem_board b) c r)"
    using press_piece [OF sc o' at' own', of "base_env E"] rd unfolding xy base_junk by auto
  have pm: "playing_mouse (base_env E) b ?h = Some (?b1 m', ?k m')"
    using m(5,7) m'(1) btn by (simp add: playing_mouse_def)
  let ?g1 = "(?k m')\<lparr>g_playing := (g_playing (?k m'))\<lparr>p_board := Some (?b1 m')\<rparr>\<rparr>"
  have "handle_event E (mouse_event p) g w = Some (?g1, w)"
    using playing_ih_running [of ?h b "base_env E" "mouse_event p" "?b1 m'" "?k m'" w] m pm
    by (simp add: handle_event_def mouse_event_def inputHandler_def play_event_def)
  moreover have "holding g (?b1 m') ref c0 r0 ?g1 (?b1 m')"
  proof -
    have "scene ?h (?b1 m')" by (rule scene_board [OF sc]) (use fine_layers(1) [OF m'(3,2)] in \<open>simp_all add: lifted_def\<close>)
    moreover have "uint (u32_of c0) = c0" "uint (u32_of r0) = r0"
      using o by (simp_all add: on_sq_def u32_of_def uint_word_of_int)
    ultimately have "scene ?g1 (?b1 m')" using m'(2) ref o by (simp add: scene_def drag_ok_def lifted_def)
    then show ?thesis using m btn o at by (simp add: holding_def drags_def lifted_def)
  qed
  moreover have "alike b ((?b1 m')\<lparr>mem_board := mem_board b\<rparr>)"
    using ptype_raised [of b ref] by (simp add: alike_def) (simp add: lifted_def)
  moreover have "lit ?s (mem_board (?b1 m')) c r = may_go b (heap b ! ref) c0 r0 c r" if oc: "on_sq c r" for c r
  proof -
    have "may_go (lifted b ref) (changePiecePriority (heap b ! ref) True) c0 r0 c r = may_go b (heap b ! ref) c0 r0 c r"
      by (rule may_go_types) (use ptype_raised [of b ref] in \<open>simp_all add: piece_at_def option.map_comp o_def changePiecePriority_def\<close>,
        simp_all add: lifted_def)
    then show ?thesis using co [rule_format, OF oc] unlit [rule_format, OF oc] by (simp add: lit_def)
  qed
  ultimately show ?thesis by blast
qed

text \<open>The event that releases the button: the dragged piece follows the cursor and is dropped.\<close>

lemma drop_event:
  fixes g :: Game and p :: packet and b :: Board and ref :: nat
  defines "h \<equiv> g\<lparr>g_cursor := updateCursor (g_screen g) (g_cursor g) p\<rparr>"
  defines "b1 \<equiv> b\<lparr>heap := (heap b)[ref := setPiecePosition (heap b ! ref) (uint (cursor_x (g_cursor h)) - 29)
    (uint (cursor_y (g_cursor h)) - 29)]\<rparr>"
  assumes hd: "holding g0 b0 ref c0 r0 g b" and lb: "\<not> lb p"
  shows "play_ok h b1" "drags h b1 ref c0 r0" "alike b b1" "ref < length (heap b1)"
    "release ref b1 h = Some (b', k) \<Longrightarrow>
     handle_event E (mouse_event p) g w = Some (k\<lparr>g_playing := (g_playing k)\<lparr>p_board := Some b'\<rparr>\<rparr>, w)"
proof -
  note d = holdingD [OF hd]
  have sc: "scene h b" unfolding h_def by (rule cursor_scene [OF sceneD(1) [OF d(3)] d(3)])
  note scd = sceneD [OF sc]
  have dr: "dragging_piece (g_playing g) = Some ref" using d(9) by (simp add: drags_def)
  then have ref: "ref < length (heap b)" using scd(3) by (simp add: drag_ok_def h_def)
  then show "ref < length (heap b1)" by (simp add: b1_def)
  show al: "alike b b1" unfolding b1_def by (rule alike_set_piece) (simp_all add: setPiecePosition_def)
  have "scene h b1" unfolding b1_def
    using scene_board [OF sc fine_set_piece [OF scd(2)]] fine_piece [OF scd(2) ref] by (simp add: setPiecePosition_def)
  then show "play_ok h b1" using sceneD by (simp add: play_ok_def)
  show "drags h b1 ref c0 r0" unfolding h_def by (rule drags_alike [OF d(9) al]) simp
  have "playing_mouse (base_env E) b h = release ref b1 h"
    using dr ref updateCursor_buttons(2) [OF lb] d(8) by (simp add: playing_mouse_def h_def b1_def)
  then show "handle_event E (mouse_event p) g w = Some (k\<lparr>g_playing := (g_playing k)\<lparr>p_board := Some b'\<rparr>\<rparr>, w)"
    if "release ref b1 h = Some (b', k)"
    using playing_ih_running [of h b "base_env E" "mouse_event p" b' k w] d(1,2,4) that
    by (simp add: handle_event_def mouse_event_def inputHandler_def play_event_def h_def)
qed

lemma put_down:
  assumes h: "holding g0 b0 ref c0 r0 g b" and pt: "points_at g p x y" and lb: "\<not> lb p"
    and room: "length (to_send (g_sp g)) \<le> 6"
  shows "\<exists>g' b'. handle_event E (mouse_event p) g w = Some (g', w) \<and> p_board (g_playing g') = Some b' \<and>
    dragging_piece (g_playing g') = None \<and> (\<forall>c r. on_sq c r \<longrightarrow> \<not> lit (g_screen g) (mem_board b') c r) \<and>
    (if accepts g b ref x y then carry (sq_index c0 r0) (sq_index x y) (advanced b) else advanced b) \<subseteq> advanced b' \<and>
    types b' = (if accepts g b ref x y then shift (sq_index c0 r0) (sq_index x y) (types b) else types b) \<and>
    to_send (g_sp g') = to_send (g_sp g) @ (if accepts g b ref x y
      then [BEGIN_MESSAGE, square_code c0 r0, square_code x y, YOUR_TURN] else []) \<and>
    g_myTurn g' = (\<not> accepts g b ref x y) \<and> g_endGame g' = (accepts g b ref x y \<and> king_at b x y) \<and>
    resting (g'\<lparr>g_endGame := False\<rparr>) b' \<and> received (g_sp g') = [] \<and> g_player g' = g_player g"
proof -
  note d = holdingD [OF h]
  let ?h = "g\<lparr>g_cursor := updateCursor (g_screen g) (g_cursor g) p\<rparr>"
  let ?b1 = "b\<lparr>heap := (heap b)[ref := setPiecePosition (heap b ! ref) (uint (cursor_x (g_cursor ?h)) - 29)
      (uint (cursor_y (g_cursor ?h)) - 29)]\<rparr>"
  note ok = drop_event(1) [OF h lb] and dg = drop_event(2) [OF h lb] and al = drop_event(3) [OF h lb]
    and ref = drop_event(4) [OF h lb] and ev = drop_event(5) [OF h lb, of _ _ E w]
  have o: "on_sq x y" and cur: "cursor_at ?h x y" using pt by (simp_all add: points_at_def)
  have "map_option ptype (piece_at ?b1 x y) = map_option ptype (piece_at b x y)" by (rule alike_piece_at [OF al])
  moreover have "ptype (heap ?b1 ! ref) = ptype (heap b ! ref)" using al by (simp add: alike_def)
  ultimately have acc: "accepts ?h ?b1 ref x y = accepts g b ref x y" and king: "king_at ?b1 x y = king_at b x y"
    by (cases "piece_at b x y"; cases "piece_at ?b1 x y"; simp add: accepts_def king_at_def)+
  have ty: "types ?b1 = types b" by (rule alike_types [OF al])
  have av: "advanced b \<subseteq> advanced ?b1" by (rule alike_advanced [OF al])
  have rest: "resting (g'\<lparr>g_endGame := False\<rparr>) b'" if "handle_event E (mouse_event p) g w = Some (g', w)"
    "p_board (g_playing g') = Some b'" "g_state g' = PLAYING" "dragging_piece (g_playing g') = None"
    "\<forall>c r. on_sq c r \<longrightarrow> \<not> lit (g_screen g') (mem_board b') c r" for g' b'
    using handle_event_fine [OF d(1,3,2), of E "mouse_event p" w] that by (auto simp: resting_def in_play_def scene_def split: if_splits)
  show ?thesis
  proof (cases "accepts g b ref x y")
    case True
    then have a: "accepts ?h ?b1 ref x y" using acc by simp
    obtain b' k where sq: "squares b' = (squares ?b1)[sq_index c0 r0 := None, sq_index x y := Some ref]"
      and hp: "heap b' = (heap ?b1)[ref := sent_off (g_screen ?h) c0 r0 x y (changePiecePriority (heap ?b1 ! ref) False)]"
      and k: "release ref ?b1 ?h = Some (b', k)" "types b' = shift (sq_index c0 r0) (sq_index x y) (types ?b1)"
      "k = ?h\<lparr>g_sp := send_move (square_code c0 r0) (square_code x y) (g_sp ?h), g_myTurn := False,
           g_endGame := g_endGame ?h \<or> king_at ?b1 x y, g_playing := (g_playing ?h)\<lparr>dragging_piece := None\<rparr>\<rparr>"
      "\<forall>c r. on_sq c r \<longrightarrow> \<not> lit (g_screen k) (mem_board b') c r"
      using release_move [OF ok dg cur o a] by blast
    have o0: "on_sq c0 r0" and at: "squares ?b1 ! sq_index c0 r0 = Some ref" using dg by (simp_all add: drags_def)
    have "pawn_moved (heap b' ! k) = pawn_moved (heap ?b1 ! k)" for k
      unfolding hp using ref
      by (cases "k = ref") (simp_all add: sent_off_def movePiece_def setPiecePosition_def changePiecePriority_def)
    moreover have "length (squares ?b1) = 64" using ok by (simp add: play_ok_def board_ok_def)
    moreover have "sq_index x y \<noteq> sq_index c0 r0" using a at by (auto simp: accepts_def piece_at_def sq_index_def)
    ultimately have "advanced b' = carry (sq_index c0 r0) (sq_index x y) (advanced ?b1)"
      using moved_advanced [OF at _ _ _ sq] sq_index_less [OF o0] sq_index_less [OF o] by simp
    then have "carry (sq_index c0 r0) (sq_index x y) (advanced b) \<subseteq> advanced b'" using carry_mono [OF av] by simp
    moreover have "to_send (g_sp k) = to_send (g_sp g) @ [BEGIN_MESSAGE, square_code c0 r0, square_code x y, YOUR_TURN]"
      "received (g_sp k) = []"
      using send_move_eq [OF sceneD(5) [OF d(3)] room] d(6) by (simp_all add: k(3))
    ultimately show ?thesis using ev [OF k(1)] rest [OF ev [OF k(1)]] k(2-4) True d(1,4) king ty
      by (simp add: resting_def scene_def)
  next
    case False
    then have a: "\<not> accepts ?h ?b1 ref x y" using acc by simp
    obtain b' where r: "release ref ?b1 ?h = Some (b', ?h\<lparr>g_playing := (g_playing ?h)\<lparr>dragging_piece := None\<rparr>\<rparr>)"
      and sq: "squares b' = squares ?b1"
      and hp: "heap b' = (heap ?b1)[ref := setPiecePosition (changePiecePriority (heap ?b1 ! ref) False)
                 (getScreenX (g_screen ?h) c0) (getScreenY (g_screen ?h) r0)]"
      and l: "\<forall>c r. on_sq c r \<longrightarrow> \<not> lit (g_screen ?h) (mem_board b') c r"
      using release_reject [OF ok dg cur o a] by blast
    have same: "ptype (heap b' ! k) = ptype (heap ?b1 ! k)" "pawn_moved (heap b' ! k) = pawn_moved (heap ?b1 ! k)" for k
      unfolding hp by (cases "k = ref"; use ref in \<open>simp add: setPiecePosition_def changePiecePriority_def\<close>)+
    have "types b' = types ?b1" by (simp add: types_def sq same(1))
    moreover have "advanced b \<subseteq> advanced b'" using advanced_cong [OF sq same(2)] av by simp
    ultimately show ?thesis using ev [OF r] rest [OF ev [OF r]] l False d(1,4-6) ty by (simp add: resting_def scene_def)
  qed
qed

text \<open>A move of the rules that does not end on the player's own colour.\<close>

definition legal :: "Board \<Rightarrow> Piece \<Rightarrow> int \<Rightarrow> int \<Rightarrow> int \<Rightarrow> int \<Rightarrow> bool" where
  "legal b p c0 r0 x y \<longleftrightarrow> may_go b p c0 r0 x y \<and>
     (case piece_at b x y of None \<Rightarrow> True | Some q \<Rightarrow> is_white (ptype q) \<noteq> is_white (ptype p))"

lemma holding_legal:
  assumes h: "holding g b1 ref c0 r0 g2 b2" and al: "alike b (b1\<lparr>mem_board := mem_board b\<rparr>)"
    and l: "\<forall>c r. on_sq c r \<longrightarrow> lit (g_screen g) (mem_board b1) c r = may_go b (heap b ! ref) c0 r0 c r" and o: "on_sq x y"
  shows "accepts g2 b2 ref x y = legal b (heap b ! ref) c0 r0 x y" "king_at b2 x y = king_at b x y" "types b2 = types b"
    "advanced b \<subseteq> advanced b2"
proof -
  note d = holdingD [OF h]
  have "alike b (b2\<lparr>mem_board := mem_board b\<rparr>)" using al d(10) by (simp add: alike_def)
  moreover have "advanced (b2\<lparr>mem_board := mem_board b\<rparr>) = advanced b2" by (rule advanced_cong) simp_all
  ultimately show "advanced b \<subseteq> advanced b2" using alike_advanced by metis
  have same: "squares b2 = squares b" "ptype (heap b2 ! k) = ptype (heap b ! k)" for k
    using al d(10) by (simp_all add: alike_def)
  then show "types b2 = types b" by (simp add: types_def)
  have m: "lit (g_screen g2) (mem_board b2) x y = may_go b (heap b ! ref) c0 r0 x y"
    using l o d(10,11) by (simp add: alike_def)
  have "map_option ptype (piece_at b2 x y) = map_option ptype (piece_at b x y)"
    by (simp add: piece_at_def option.map_comp o_def same)
  then show "accepts g2 b2 ref x y = legal b (heap b ! ref) c0 r0 x y" "king_at b2 x y = king_at b x y"
    using m same(2) [of ref] by (cases "piece_at b x y"; cases "piece_at b2 x y"; simp add: accepts_def legal_def king_at_def)+
qed

text \<open>The whole turn, from press to release.\<close>

lemma turn_result:
  assumes "my_turn g b" and "points_at g p c0 r0" and "lb p"
    and "squares b ! sq_index c0 r0 = Some ref" and "may_press (g_player g) (ptype (heap b ! ref))"
    and "length (to_send (g_sp g)) \<le> 6" and "\<forall>ev\<in>set evs. hold_event ev"
    and "points_at (g\<lparr>g_cursor := track (g_screen g) (g_cursor g) (mouse_event p # evs)\<rparr>) q x y" and "\<not> lb q"
    and "readable (e_junk E) b (heap b ! ref) c0 r0"
  shows "\<exists>g' b'. handle_events E (mouse_event p # evs @ [mouse_event q]) (g, w) = Some (g', w) \<and>
    p_board (g_playing g') = Some b' \<and> dragging_piece (g_playing g') = None \<and>
    (let ok = legal b (heap b ! ref) c0 r0 x y
     in types b' = (if ok then shift (sq_index c0 r0) (sq_index x y) (types b) else types b) \<and>
        to_send (g_sp g') = to_send (g_sp g) @
          (if ok then [BEGIN_MESSAGE, square_code c0 r0, square_code x y, YOUR_TURN] else []) \<and>
        g_myTurn g' = (\<not> ok) \<and> g_endGame g' = (ok \<and> king_at b x y) \<and>
        (if ok then carry (sq_index c0 r0) (sq_index x y) (advanced b) else advanced b) \<subseteq> advanced b') \<and>
    resting (g'\<lparr>g_endGame := False\<rparr>) b' \<and> received (g_sp g') = [] \<and> g_player g' = g_player g"
proof -
  obtain g0 b1 where 1: "handle_event E (mouse_event p) g w = Some (g0, w)" "holding g b1 ref c0 r0 g0 b1"
    and al: "alike b (b1\<lparr>mem_board := mem_board b\<rparr>)"
    and l: "\<forall>c r. on_sq c r \<longrightarrow> lit (g_screen g) (mem_board b1) c r = may_go b (heap b ! ref) c0 r0 c r"
    using pick_up [OF assms(1-5,10), of w] by blast
  obtain g1 b2 where 2: "handle_events E evs (g0, w) = Some (g1, w)" "holding g b1 ref c0 r0 g1 b2"
    using hold_run [OF 1(2) assms(7), of E w] by blast
  have "g_state g = PLAYING" using assms(1) by (simp add: my_turn_def resting_def)
  then have "g_cursor g1 = track (g_screen g) (g_cursor g) (mouse_event p # evs)"
    using hold_track [OF 1(2) assms(7) 2(1)] playing_cursor [OF 1(1)] by (simp add: track_def)
  then have pt: "points_at g1 q x y"
    using assms(8) holdingD(11) [OF 2(2)] by (simp add: points_at_def cursor_at_def)
  have o: "on_sq x y" using pt by (simp add: points_at_def)
  have room: "length (to_send (g_sp g1)) \<le> 6" "to_send (g_sp g1) = to_send (g_sp g)"
    using holdingD(7) [OF 2(2)] assms(6) by simp_all
  have same: "g_player g1 = g_player g"
    using hold_track [OF 1(2) assms(7) 2(1)] playing_cursor [OF 1(1)] \<open>g_state g = PLAYING\<close> by simp
  have run: "handle_events E (mouse_event p # evs @ [mouse_event q]) (g, w) = Some (g', w)"
    if "handle_event E (mouse_event q) g1 w = Some (g', w)" for g'
    using 1(1) 2(1) that by (simp add: handle_events_def foldM_append)
  note e = holding_legal [OF 2(2) al l o]
  obtain g' b' where r: "handle_event E (mouse_event q) g1 w = Some (g', w)" and *: "p_board (g_playing g') = Some b'"
    "dragging_piece (g_playing g') = None" "types b' = (if legal b (heap b ! ref) c0 r0 x y
       then shift (sq_index c0 r0) (sq_index x y) (types b) else types b)"
    "to_send (g_sp g') = to_send (g_sp g) @ (if legal b (heap b ! ref) c0 r0 x y
       then [BEGIN_MESSAGE, square_code c0 r0, square_code x y, YOUR_TURN] else [])"
    "g_myTurn g' = (\<not> legal b (heap b ! ref) c0 r0 x y)"
    "g_endGame g' = (legal b (heap b ! ref) c0 r0 x y \<and> king_at b x y)"
    "(if legal b (heap b ! ref) c0 r0 x y then carry (sq_index c0 r0) (sq_index x y) (advanced b2) else advanced b2)
       \<subseteq> advanced b'"
    "resting (g'\<lparr>g_endGame := False\<rparr>) b'" "received (g_sp g') = []" "g_player g' = g_player g1"
    using put_down [OF 2(2) pt assms(9) room(1), of E w] unfolding e(1-3) room(2) by blast
  have av: "(if legal b (heap b ! ref) c0 r0 x y then carry (sq_index c0 r0) (sq_index x y) (advanced b) else advanced b)
       \<subseteq> advanced b'"
    using *(7) carry_mono [OF e(4), of "sq_index c0 r0" "sq_index x y"] e(4)
    by (cases "legal b (heap b ! ref) c0 r0 x y") auto
  show ?thesis
    using run [OF r] *(1-6,8-10) av same unfolding Let_def by (intro exI [of _ g'] exI [of _ b'] conjI) simp_all
qed

lemma turn_fails:
  assumes "my_turn g b" and "points_at g p c0 r0" and "lb p"
    and "squares b ! sq_index c0 r0 = Some ref" and "may_press (g_player g) (ptype (heap b ! ref))"
    and "\<not> readable (e_junk E) b (heap b ! ref) c0 r0"
  shows "handle_events E (mouse_event p # evs) (g, w) = None"
  using pick_up_fails [OF assms, of w] by (simp add: handle_events_def)

section \<open>Properties\<close>

text \<open>C5: A turn follows the rules. When it is the player's turn, nothing has arrived from the peer and no
  square is marked, and the button goes down over a piece of the player, then whatever
  frames, keys and movements follow with the button down, and wherever on the board the
  button goes up, every event is handled, and the piece is moved if and only if the rules
  allow it in the position at the start and the square does not hold the player's own
  colour. Then the position is changed by just that move, the four bytes of the move are
  queued, and the turn is over; otherwise the position, the queue and the turn are as before.
  The events have no defined result exactly when marking the moves of the piece reads a word
  beside the array of the squares that cannot be read.\<close>
theorem turn_follows_rules:
  assumes "my_turn g b" and "points_at g p c0 r0" and "lb p"
    and "squares b ! sq_index c0 r0 = Some ref" and "may_press (g_player g) (ptype (heap b ! ref))"
    and "length (to_send (g_sp g)) \<le> 6" and "\<forall>ev\<in>set evs. hold_event ev"
    and "points_at (g\<lparr>g_cursor := track (g_screen g) (g_cursor g) (mouse_event p # evs)\<rparr>) q x y" and "\<not> lb q"
  shows "if readable (e_junk E) b (heap b ! ref) c0 r0
    then \<exists>g' b'. handle_events E (mouse_event p # evs @ [mouse_event q]) (g, w) = Some (g', w) \<and>
      p_board (g_playing g') = Some b' \<and> dragging_piece (g_playing g') = None \<and>
      (let ok = legal b (heap b ! ref) c0 r0 x y
       in types b' = (if ok then shift (sq_index c0 r0) (sq_index x y) (types b) else types b) \<and>
          to_send (g_sp g') = to_send (g_sp g) @
            (if ok then [BEGIN_MESSAGE, square_code c0 r0, square_code x y, YOUR_TURN] else []) \<and>
          g_myTurn g' = (\<not> ok) \<and> g_endGame g' = (ok \<and> king_at b x y))
    else handle_events E (mouse_event p # evs @ [mouse_event q]) (g, w) = None"
proof (cases "readable (e_junk E) b (heap b ! ref) c0 r0")
  case True
  then show ?thesis using turn_result [OF assms True, of w] unfolding Let_def if_P [OF True] by blast
next
  case False
  then show ?thesis using turn_fails [OF assms(1-5) False] by simp
qed

text \<open>The rook of \<^const>\<open>rook_board\<close> takes the pawn: up a hundred pixels, a frame, down again.\<close>

definition rook_game :: "mem \<Rightarrow> Game" where
  "rook_game m = starting_game\<lparr>g_playing := (g_playing starting_game)\<lparr>p_board := Some (rook_board\<lparr>mem_board := m\<rparr>)\<rparr>\<rparr>"

definition take_rook :: packet where
  "take_rook = sample_packet\<lparr>delta_x := 0, delta_y := 100\<rparr>"

definition drop_rook :: packet where
  "drop_rook = sample_packet\<lparr>lb := False, delta_x := 0, delta_y := - 100\<rparr>"

definition one_frame :: Event where
  "one_frame = \<lparr>ev_type = NEW_FRAME, ev_data = Indeterminate\<rparr>"

lemma rook_game_turn:
  "\<exists>m. my_turn (rook_game m) (rook_board\<lparr>mem_board := m\<rparr>)"
proof -
  have wf: "fb_wf screen_115 (mem_board rook_board)" "fb_wf screen_115 (mem_pieces rook_board)"
    using blank_board_wf by (simp_all add: rook_board_def)
  obtain m where m: "fb_wf screen_115 m" "\<forall>c r. on_sq c r \<longrightarrow> \<not> lit screen_115 m c r"
    using drawBoard_unlit [OF screen_115 wf(1)] by blast
  let ?b = "rook_board\<lparr>mem_board := m\<rparr>"
  have "image_ok screen_115 (piece_image p)" if "p \<in> set (heap rook_board)" for p
    using that by (auto simp: rook_board_def sample_piece_def image_ok_def)
  then have "board_fine screen_115 ?b"
    using rook_board_ok m(1) wf(2) by (simp add: board_fine_def board_ok_def)
  moreover have "may_start starting_game" "g_screen starting_game = screen_115"
    using starting_game(1) by (simp_all add: playable_def in_play_def starting_game_def sample_game_def)
  ultimately have "scene (rook_game m) ?b"
    using screen_115 mode_115_wf [OF squares_115D(1) [OF screen_115]]
    by (simp add: scene_def may_start_def rook_game_def drag_ok_def)
  moreover have "received (g_sp starting_game) = []" by (simp add: starting_game_def sample_game_def fresh_sp_invar)
  ultimately have "my_turn (rook_game m) ?b"
    using m(2) by (simp add: my_turn_def resting_def rook_game_def starting_game_def sample_game_def)
  then show ?thesis by blast
qed

lemma rook_pointer:
  "points_at (rook_game m) take_rook 2 2"
  "points_at ((rook_game m)\<lparr>g_cursor := track screen_115 (g_cursor (rook_game m)) [mouse_event take_rook, one_frame]\<rparr>) drop_rook 2 4"
proof -
  note f = mode_115_facts [OF squares_115D(1) [OF screen_115]]
  let ?c = "g_cursor (rook_game m)"
  have c: "g_screen (rook_game m) = screen_115" "cursor_x ?c = 193" "cursor_y ?c = 310"
    by (simp_all add: rook_game_def starting_game_def sample_game_def)
  have x: "cursor_x (updateCursor screen_115 ?c take_rook) = 193" "cursor_y (updateCursor screen_115 ?c take_rook) = 210"
    using c by (simp_all add: updateCursor_fields take_rook_def sample_packet_def move_x_def move_y_def i32_res f u16_of_def)
  have "cursor_x (updateCursor screen_115 k drop_rook) = 193 \<and> cursor_y (updateCursor screen_115 k drop_rook) = 310"
    if "cursor_x k = 193" "cursor_y k = 210" for k
    using that by (simp add: updateCursor_fields drop_rook_def sample_packet_def move_x_def move_y_def i32_res f u16_of_def)
  from this [OF x]
  show "points_at ((rook_game m)\<lparr>g_cursor := track screen_115 ?c [mouse_event take_rook, one_frame]\<rparr>) drop_rook 2 4"
    by (simp add: points_at_def cursor_at_def on_sq_def c track_def moved_def mouse_event_def one_frame_def
        getBoardX_115 [OF screen_115] getBoardY_115 [OF screen_115])
  show "points_at (rook_game m) take_rook 2 2"
    by (simp add: points_at_def cursor_at_def on_sq_def c x getBoardX_115 [OF screen_115] getBoardY_115 [OF screen_115])
qed

theorem turn_follows_rules_witness:
  "\<exists>m g' b'. handle_events starting_env [mouse_event take_rook, one_frame, mouse_event drop_rook] (rook_game m, ()) = Some (g', ()) \<and>
     p_board (g_playing g') = Some b' \<and> types b' = shift 18 34 (types rook_board) \<and>
     to_send (g_sp g') = [0xF9, 18, 20, 0xF8] \<and> \<not> g_myTurn g'"
proof -
  obtain m where m: "my_turn (rook_game m) (rook_board\<lparr>mem_board := m\<rparr>)" using rook_game_turn by blast
  let ?b = "rook_board\<lparr>mem_board := m\<rparr>"
  have o: "on_sq 2 2" "on_sq 2 4" by (simp_all add: on_sq_def)
  have sc: "g_screen (rook_game m) = screen_115" "to_send (g_sp (rook_game m)) = []" "g_player (rook_game m) = WHITE"
    by (simp_all add: rook_game_def starting_game_def sample_game_def fresh_sp_invar)
  have i: "sq_index 2 2 = 18" "sq_index 2 4 = 34" by (simp_all add: sq_index_def)
  have at: "squares ?b ! sq_index 2 2 = Some 0" by (simp add: i rook_board_def)
  have hp: "heap rook_board ! 0 = sample_piece\<lparr>ptype := w_rook\<rparr>" by (simp add: rook_board_def)
  have "may_go ?b = may_go rook_board" by (rule may_go_cong) simp_all
  moreover have "piece_at ?b 2 4 = Some (sample_piece\<lparr>ptype := b_pawn\<rparr>)"
    using rook_board_at(2) by (simp add: piece_at_def)
  ultimately have ok: "legal ?b (heap ?b ! 0) 2 2 2 4"
    using rook_reaches by (simp add: legal_def hp is_white_num)
  have lb: "lb take_rook" "\<not> lb drop_rook" by (simp_all add: take_rook_def drop_rook_def sample_packet_def)
  have own: "may_press (g_player (rook_game m)) (ptype (heap ?b ! 0))" by (simp add: may_press_def sc hp)
  have hold: "\<forall>ev\<in>set [one_frame]. hold_event ev" by (simp add: hold_event_def one_frame_def)
  have pt: "points_at ((rook_game m)\<lparr>g_cursor := track (g_screen (rook_game m)) (g_cursor (rook_game m))
      (mouse_event take_rook # [one_frame])\<rparr>) drop_rook 2 4"
    using rook_pointer(2) [of m] by (simp only: sc)
  have "square_code 2 2 = 18" "square_code 2 4 = 20"
    by (simp_all add: square_code_value [OF o(1)] square_code_value [OF o(2)])
  moreover have "readable (e_junk starting_env) ?b (heap ?b ! 0) 2 2" by (simp add: readable_def hp)
  ultimately show ?thesis
    using turn_follows_rules [OF m rook_pointer(1) lb(1) at own _ hold pt lb(2), of starting_env "()"] ok sc(2)
    by (auto simp: Let_def i BEGIN_MESSAGE_def YOUR_TURN_def types_def)
qed

end
