(* ===== verification/Peers.thy ===== *)
theory Peers
  imports Control
begin

text \<open>
  Two machines playing against each other. Each runs the handlers of \<open>proj/src/main.c\<close> on
  events of its own; the bytes of the one reach the other in order through \<open>sp_write\<close>, the
  line and \<open>sp_read\<close>. Whatever the interleaving, the right to move is never duplicated.
\<close>

section \<open>One machine\<close>

text \<open>
  The right to move that a machine holds: its flag, and the YOUR_TURN bytes waiting in its
  two queues.
\<close>

definition turns :: "u8 list \<Rightarrow> nat" where
  "turns bs = count_list bs YOUR_TURN"

lemma turns_simps [simp]:
  "turns [] = 0" "turns (x # xs) = (if x = YOUR_TURN then 1 else 0) + turns xs" "turns (xs @ ys) = turns xs + turns ys"
  by (simp_all add: turns_def)

definition weight :: "Game \<Rightarrow> nat" where
  "weight g = (if g_myTurn g then 1 else 0) + turns (to_send (g_sp g)) + turns (received (g_sp g))"

text \<open>A machine that plays: a piece is only dragged by the player whose turn it is.\<close>

definition peer_ok :: "Game \<Rightarrow> bool" where
  "peer_ok g \<longleftrightarrow> sp_invar (g_sp g) \<and> (g_state g = PLAYING \<or> g_state g = EXIT) \<and>
     (dragging_piece (g_playing g) \<noteq> None \<longrightarrow>
        g_myTurn g \<and> uint (inicialPieceCol (g_playing g)) < 8 \<and> uint (inicialPieceRow (g_playing g)) < 8)"

text \<open>A transition of a machine that does not create a right to move.\<close>

definition fair_play :: "Game \<Rightarrow> Game \<Rightarrow> bool" where
  "fair_play g g' \<longleftrightarrow> (peer_ok g \<longrightarrow> peer_ok g' \<and> weight g' \<le> weight g)"

lemma fair_play_trans: "fair_play a b \<Longrightarrow> fair_play b c \<Longrightarrow> fair_play a c"
  by (auto simp: fair_play_def)

lemma fair_playI:
  assumes "g_sp g' = g_sp g" and "g_myTurn g' = g_myTurn g" and "g_state g' = g_state g \<or> g_state g' = EXIT"
    and "g_playing g' = g_playing g \<or> dragging_piece (g_playing g') = None"
  shows "fair_play g g'"
  using assms by (auto simp: fair_play_def peer_ok_def weight_def)

text \<open>Receiving.\<close>

lemma receive_fair:
  assumes r: "receive_byte x b (g\<lparr>g_buffer := v, g_sp := sp\<rparr>) = Some (b', g')" and q: "readFromQueue (g_sp g) = (x, sp)"
  shows "fair_play g g'"
  unfolding fair_play_def
proof
  assume ok: "peer_ok g"
  then have i: "sp_invar (g_sp g)" by (simp add: peer_ok_def)
  note e = readFromQueue_eq [OF i, unfolded q fst_conv snd_conv]
  have t: "turns (received sp) + (if x = YOUR_TURN then 1 else 0) = turns (received (g_sp g))"
    using e(1,2) by (cases "received (g_sp g)") (simp_all add: YOUR_TURN_def)
  have "g_sp g' = sp \<and> (g_state g' = g_state g \<or> g_state g' = EXIT) \<and>
      dragging_piece (g_playing g') = dragging_piece (g_playing g) \<and>
      inicialPieceCol (g_playing g') = inicialPieceCol (g_playing g) \<and>
      inicialPieceRow (g_playing g') = inicialPieceRow (g_playing g) \<and>
      g_myTurn g' = (g_myTurn g \<or> x = YOUR_TURN)"
    using r by (auto simp: receive_byte_def Let_def BEGIN_MESSAGE_def YOUR_TURN_def split: if_splits bind_splits)
  then show "peer_ok g' \<and> weight g' \<le> weight g"
    using ok e t by (auto simp: peer_ok_def weight_def)
qed

lemma playing_frame_fair:
  assumes "playing_frame b g = Some (b', g')"
  shows "fair_play g g'"
proof -
  obtain v x sp1 b2 where r: "readFromQueue (g_sp g) = (x, sp1)"
    and e: "receive_byte x b2 (g\<lparr>g_buffer := v, g_sp := sp1\<rparr>) = Some (b', g')"
    using assms by (auto simp: playing_frame_def split: bind_splits prod.splits)
  then show ?thesis by (rule receive_fair [rotated])
qed

text \<open>Sending: the codes of squares are not taken for YOUR_TURN.\<close>

lemma pos_byte_small:
  assumes "uint c < 8" and "uint r < 8"
  shows "pos_byte c r \<noteq> YOUR_TURN"
proof -
  have "\<not> bit v n" if "uint v < 8" "3 \<le> n" for v :: u32 and n
  proof -
    have "take_bit 3 (uint v) = uint v" using that by (intro take_bit_int_eq_self) simp_all
    then have "\<not> bit (uint v) n" using that(2) by (metis bit_take_bit_iff not_le)
    then show ?thesis using bit_imp_le_length [of v n] by (auto simp: bit_uint_iff)
  qed
  with assms have "\<not> bit c n" "\<not> bit r n" if "3 \<le> n" for n using that by blast+
  then have "\<not> bit (pos_byte c r) 7" by (simp add: pos_byte_def bit_simps)
  moreover have "bit YOUR_TURN 7" by (simp add: YOUR_TURN_def)
  ultimately show ?thesis by metis
qed

lemma send_turns:
  assumes "sp_invar sp" and "a \<noteq> YOUR_TURN" and "b \<noteq> YOUR_TURN"
  shows "turns (to_send (send_move a b sp)) \<le> turns (to_send sp) + 1"
    "received (send_move a b sp) = received sp" "sp_invar (send_move a b sp)"
  using assms by (auto simp: send_move_def addToTransmitQueue_eq BEGIN_MESSAGE_def YOUR_TURN_def)

lemma u32_of_coord: "0 \<le> x \<Longrightarrow> x < 8 \<Longrightarrow> uint (u32_of x) = x"
  by (simp add: u32_of_def uint_word_of_int)

lemma commit_fair:
  assumes r: "commit_move ref x y b g = Some (b', g')" and d: "dragging_piece (g_playing g) \<noteq> None"
    and s: "0 \<le> x" "x < 8" "0 \<le> y" "y < 8"
  shows "fair_play g (g'\<lparr>g_playing := (g_playing g')\<lparr>dragging_piece := None\<rparr>\<rparr>)"
  unfolding fair_play_def
proof
  assume ok: "peer_ok g"
  let ?P = "g_playing g"
  let ?sp = "send_move (pos_byte (inicialPieceCol ?P) (inicialPieceRow ?P)) (pos_byte (u32_of x) (u32_of y)) (g_sp g)"
  have g': "g' = g\<lparr>g_sp := ?sp, g_myTurn := False\<rparr>"
    using r by (auto simp: commit_move_def Let_def split: bind_splits)
  have "g_myTurn g" "sp_invar (g_sp g)" "pos_byte (inicialPieceCol ?P) (inicialPieceRow ?P) \<noteq> YOUR_TURN"
    "pos_byte (u32_of x) (u32_of y) \<noteq> YOUR_TURN"
    using ok d s pos_byte_small [of "inicialPieceCol ?P" "inicialPieceRow ?P"] pos_byte_small [of "u32_of x" "u32_of y"]
    by (auto simp: peer_ok_def u32_of_coord)
  with send_turns [OF this(2-4)] show "peer_ok (g'\<lparr>g_playing := (g_playing g')\<lparr>dragging_piece := None\<rparr>\<rparr>) \<and>
      weight (g'\<lparr>g_playing := (g_playing g')\<lparr>dragging_piece := None\<rparr>\<rparr>) \<le> weight g"
    using ok by (auto simp: g' peer_ok_def weight_def)
qed

lemma release_fair:
  assumes r: "release ref b g = Some (b', g')" and d: "dragging_piece (g_playing g) \<noteq> None"
  shows "fair_play g g'"
proof -
  let ?x = "getBoardX (g_screen g) (uint (cursor_x (g_cursor g)))"
  let ?y = "getBoardY (g_screen g) (uint (cursor_y (g_cursor g)))"
  let ?fin = "\<lambda>h :: Game. h\<lparr>g_playing := (g_playing h)\<lparr>dragging_piece := None\<rparr>\<rparr>"
  obtain legal b1 b2 g2 where set: "settle legal ref ?x ?y b1 g = Some (b2, g2)"
    and l: "legal \<longrightarrow> 0 \<le> ?x \<and> ?x < 8 \<and> 0 \<le> ?y \<and> ?y < 8" and g': "g' = ?fin g2"
    using r unfolding release_def Let_def by (auto split: bind_splits if_splits)
  have putb: "fair_play g (?fin g)" by (rule fair_playI) simp_all
  show ?thesis
  proof (cases "\<exists>b3 c. commit_move ref ?x ?y b1 (g\<lparr>g_endGame := c\<rparr>) = Some (b3, g2) \<and> legal")
    case True
    then obtain b3 c where c: "commit_move ref ?x ?y b1 (g\<lparr>g_endGame := c\<rparr>) = Some (b3, g2)" "legal" by blast
    have "fair_play g (g\<lparr>g_endGame := c\<rparr>)" by (rule fair_playI) simp_all
    moreover have "fair_play (g\<lparr>g_endGame := c\<rparr>) (?fin g2)"
      using commit_fair [OF c(1)] d l c(2) by simp
    ultimately show ?thesis unfolding g' by (rule fair_play_trans)
  next
    case False
    have same: "g\<lparr>g_endGame := g_endGame g\<rparr> = g" by simp
    have "g2 = g"
      using set False [simplified] unfolding settle_def
      by (auto split: bind_splits if_splits option.splits) (metis same)+
    then show ?thesis using putb g' by simp
  qed
qed

lemma press_fair:
  assumes r: "press E b g = Some (b', g')" and t: "g_myTurn g"
  shows "fair_play g g'"
proof -
  let ?x = "getBoardX (g_screen g) (uint (cursor_x (g_cursor g)))"
  let ?y = "getBoardY (g_screen g) (uint (cursor_y (g_cursor g)))"
  have "g' = g \<or> (0 \<le> ?x \<and> ?x < 8 \<and> 0 \<le> ?y \<and> ?y < 8 \<and> (\<exists>ref v. g' = g\<lparr>g_playing := (g_playing g)
      \<lparr>dragging_piece := Some ref, inicialPieceCol := u32_of ?x, inicialPieceRow := u32_of ?y\<rparr>, g_buffer := v\<rparr>))"
    using r unfolding press_def Let_def by (auto split: if_splits bind_splits option.splits)
  then show ?thesis using t by (auto simp: fair_play_def peer_ok_def weight_def u32_of_coord)
qed

lemma playing_mouse_fair:
  assumes "playing_mouse E b g = Some (b', g')"
  shows "fair_play g g'"
proof -
  define F where "F =
         (case dragging_piece (g_playing g) of
            Some ref \<Rightarrow> do {
              p \<leftarrow> piece_of b ref;
              b' \<leftarrow> set_piece b ref (setPiecePosition p (uint (cursor_x (g_cursor g)) - 29)
                     (uint (cursor_y (g_cursor g)) - 29));
              Some (b', g)
            }
          | None \<Rightarrow> if pressed (g_cursor g) \<and> g_myTurn g then press E b g else Some (b, g))"
  obtain b1 g1 where f: "F = Some (b1, g1)"
    using assms by (cases F) (auto simp: playing_mouse_def F_def)
  have e: "(case dragging_piece (g_playing g1) of
         Some ref \<Rightarrow> if released (g_cursor g1) then release ref b1 g1 else Some (b1, g1)
       | None \<Rightarrow> Some (b1, g1)) = Some (b', g')"
    using assms f unfolding playing_mouse_def F_def [symmetric] by simp
  have refl: "fair_play h h" for h by (simp add: fair_play_def)
  have "fair_play g1 g'"
    using e refl release_fair [of _ b1 g1 b' g'] by (auto split: option.splits if_splits)
  moreover have "fair_play g g1"
    using f press_fair [of E b g b1 g1] refl unfolding F_def
    by (auto split: bind_splits option.splits if_splits)
  ultimately show ?thesis by (blast intro: fair_play_trans)
qed

lemma playing_ih_fair:
  assumes k: "playing_ih E ev g w = Some (g', w')"
  shows "fair_play g g'"
proof -
  obtain b g1 b3 g3 where s: "playing_setup E g w = Some (b, g1, w')" and f: "play_event E ev b (ended g1) = Some (b3, g3)"
    and g': "g' = g3\<lparr>g_playing := (g_playing g3)\<lparr>p_board := Some b3\<rparr>\<rparr>"
    by (rule playing_ihE [OF k])
  have 1: "fair_play g g1"
    using s by (auto simp: playing_setup_def Let_def fair_play_def peer_ok_def weight_def split: option.splits bind_splits)
  have 2: "fair_play g1 (ended g1)" by (rule fair_playI) (simp_all add: ended_def)
  have "fair_play h (h\<lparr>g_animation := \<not> g_animation h\<rparr>)" "fair_play h h" for h by (rule fair_playI; simp)+
  then have 3: "fair_play (ended g1) g3"
    using f playing_frame_fair [of b "ended g1" b3 g3] playing_mouse_fair [of E b "ended g1" b3 g3]
    unfolding play_event_def by (auto split: EventType.splits if_splits)
  have 4: "fair_play g3 g'" unfolding g' by (auto simp: fair_play_def peer_ok_def weight_def)
  show ?thesis using fair_play_trans [OF fair_play_trans [OF 1 2] fair_play_trans [OF 3 4]] .
qed

lemma handle_event_fair:
  assumes r: "handle_event E ev g w = Some (g', w')" and ok: "peer_ok g"
  shows "peer_ok g' \<and> weight g' \<le> weight g"
proof -
  have input: "peer_ok h' \<and> weight h' \<le> weight h"
    if "inputHandler (base_env E) ev h w = Some (h', w')" "peer_ok h" for h h' and w' :: 'a
    using that playing_ih_fair [of "base_env E" ev h w h' w'] by (auto simp: inputHandler_def peer_ok_def fair_play_def)
  have cursor: "peer_ok (g\<lparr>g_cursor := c\<rparr>)" "weight (g\<lparr>g_cursor := c\<rparr>) = weight g" for c
    using ok by (simp_all add: peer_ok_def weight_def)
  have frame: "peer_ok (h\<lparr>g_buffer := v, g_video_mem := vm\<rparr>) = peer_ok h"
    "weight (h\<lparr>g_buffer := v, g_video_mem := vm\<rparr>) = weight h" for h v vm
    by (simp_all add: peer_ok_def weight_def)
  show ?thesis
  proof (cases "ev_type ev")
    case MOUSE
    then obtain p where "inputHandler (base_env E) ev (g\<lparr>g_cursor := updateCursor (g_screen g) (g_cursor g) p\<rparr>) w = Some (g', w')"
      using r by (auto simp: handle_event_def split: EventData.splits)
    from input [OF this cursor(1)] cursor(2) show ?thesis by simp
  next
    case NEW_FRAME
    then obtain g1 v vm where "inputHandler (base_env E) ev g w = Some (g1, w')"
      and "g' = g1\<lparr>g_buffer := v, g_video_mem := vm\<rparr>"
      using r by (auto simp: handle_event_def split: bind_splits)
    with input ok frame show ?thesis by auto
  next
    case KEYBOARD
    then show ?thesis using r input ok by (simp add: handle_event_def)
  next
    case NO_EVENT
    then show ?thesis using r ok by (simp add: handle_event_def)
  qed
qed

section \<open>Two machines\<close>

text \<open>The games at both ends and the bytes on the line in each direction.\<close>

record Match =
  peer_a :: Game
  peer_b :: Game
  line_ab :: "u8 list"
  line_ba :: "u8 list"

definition swap :: "Match \<Rightarrow> Match" where
  "swap S = \<lparr>peer_a = peer_b S, peer_b = peer_a S, line_ab = line_ba S, line_ba = line_ab S\<rparr>"

text \<open>
  What the first machine can do at any moment: handle an event, hand a byte to the line
  (it is lost when the port write fails), or take the next byte from the line.
\<close>

inductive side_step :: "'w main_env \<Rightarrow> Match \<Rightarrow> Match \<Rightarrow> bool" for E where
  event: "handle_event E ev (peer_a S) w = Some (g, w') \<Longrightarrow> side_step E S (S\<lparr>peer_a := g\<rparr>)"
| send: "sp_write (e_kernel E) (g_sp (peer_a S)) w = (r, sp, w') \<Longrightarrow>
    side_step E S (S\<lparr>peer_a := (peer_a S)\<lparr>g_sp := sp\<rparr>,
      line_ab := (if r = 0 then line_ab S @ [fst (removeFromQueue (transmitQueue (g_sp (peer_a S))))] else line_ab S)\<rparr>)"
| arrive: "line_ba S = x # rest \<Longrightarrow> sp_read (e_kernel E) (g_sp (peer_a S)) w = (0, sp, w') \<Longrightarrow>
    receiveQueue sp = addToQueue (receiveQueue (g_sp (peer_a S))) x \<Longrightarrow>
    side_step E S (S\<lparr>peer_a := (peer_a S)\<lparr>g_sp := sp\<rparr>, line_ba := rest\<rparr>)"

definition match_step :: "'w main_env \<Rightarrow> 'v main_env \<Rightarrow> Match \<Rightarrow> Match \<Rightarrow> bool" where
  "match_step E F S T \<longleftrightarrow> side_step E S T \<or> (\<exists>T'. side_step F (swap S) T' \<and> T = swap T')"

definition match_ok :: "Match \<Rightarrow> bool" where
  "match_ok S \<longleftrightarrow> peer_ok (peer_a S) \<and> peer_ok (peer_b S)"

definition tokens :: "Match \<Rightarrow> nat" where
  "tokens S = weight (peer_a S) + weight (peer_b S) + turns (line_ab S) + turns (line_ba S)"

lemma swap_simps [simp]: "match_ok (swap S) = match_ok S" "tokens (swap S) = tokens S" "swap (swap S) = S"
  by (auto simp: match_ok_def tokens_def swap_def)

lemma sp_write_effect:
  assumes "sp_write K sp w = (r, sp', w')" and "sp_invar sp"
  shows "sp_invar sp' \<and> received sp' = received sp \<and>
    (if r = 0 then to_send sp = fst (removeFromQueue (transmitQueue sp)) # to_send sp'
     else turns (to_send sp') \<le> turns (to_send sp))"
proof -
  let ?q = "transmitQueue sp"
  have q: "q_invar ?q" using assms(2) by (simp add: sp_invar_def)
  show ?thesis
  proof (cases "queueIsEmpty ?q")
    case True
    then show ?thesis using assms by (auto simp: sp_write_def)
  next
    case False
    then obtain x xs where c: "q_contents ?q = x # xs" by (cases "q_contents ?q") (auto simp: q_empty_iff)
    have "fst (removeFromQueue ?q) = x" "q_contents (snd (removeFromQueue ?q)) = xs"
      using removeFromQueue_contents [OF q] c by simp_all
    then show ?thesis
      using assms c removeFromQueue_invar [OF q] sp_write_invar [of sp K w] False
      by (auto simp: sp_write_def to_send_def received_def sp_invar_def split: prod.splits if_splits)
  qed
qed

lemma side_step_ok:
  assumes "side_step E S T" and ok: "match_ok S"
  shows "match_ok T \<and> tokens T \<le> tokens S"
  using assms(1)
proof cases
  case (event ev w g w')
  then show ?thesis using ok handle_event_fair by (fastforce simp: match_ok_def tokens_def)
next
  case 2: (send w r sp w')
  have "sp_invar (g_sp (peer_a S))" using ok by (simp add: match_ok_def peer_ok_def)
  note e = sp_write_effect [OF 2(2) this]
  show ?thesis
  proof (cases "r = 0")
    case True
    then have "to_send (g_sp (peer_a S)) = fst (removeFromQueue (transmitQueue (g_sp (peer_a S)))) # to_send sp"
      using e by simp
    then have "turns (to_send (g_sp (peer_a S))) = turns [fst (removeFromQueue (transmitQueue (g_sp (peer_a S))))] + turns (to_send sp)"
      by (metis append_Cons append_Nil turns_simps(3))
    then show ?thesis using 2(1) True e ok by (simp add: match_ok_def peer_ok_def tokens_def weight_def)
  next
    case False
    then show ?thesis using 2(1) e ok by (simp add: match_ok_def peer_ok_def tokens_def weight_def)
  qed
next
  case 3: (arrive x rest w sp w')
  have i: "sp_invar (g_sp (peer_a S))" using ok by (simp add: match_ok_def peer_ok_def)
  have "sp_invar sp" using sp_read_invar [OF i, of "e_kernel E" w] 3(3) by simp
  moreover have "transmitQueue sp = transmitQueue (g_sp (peer_a S))"
    using 3(3) by (auto simp: sp_read_def split: prod.splits if_splits)
  moreover have "turns (received sp) \<le> turns (received (g_sp (peer_a S))) + turns [x]"
    using addToQueue_contents [of "receiveQueue (g_sp (peer_a S))" x] i 3(4) by (simp add: received_def sp_invar_def)
  ultimately show ?thesis
    using 3(1,2) ok by (auto simp: match_ok_def peer_ok_def tokens_def weight_def to_send_def split: if_splits)
qed

lemma match_step_ok:
  assumes "match_step E F S T" and "match_ok S"
  shows "match_ok T \<and> tokens T \<le> tokens S"
  using assms side_step_ok [of E S T] side_step_ok [of F "swap S"] by (auto simp: match_step_def)

lemma match_run_ok:
  assumes "(match_step E F)\<^sup>*\<^sup>* S T" and "match_ok S"
  shows "match_ok T \<and> tokens T \<le> tokens S"
  using assms
proof induction
  case (step T U)
  then show ?case using match_step_ok [of E F T U] by auto
qed simp

section \<open>Properties\<close>

text \<open>C8: The right to move is never duplicated. Two machines that play start with one of them to
  move, or with one YOUR_TURN byte on its way. Then in every interleaving of events at either
  end, bytes sent and bytes received, with failing devices and full queues included, never
  both players are to move, only a player who is to move drags a piece, and while one drags
  there is no YOUR_TURN byte anywhere.\<close>
theorem one_player_to_move:
  assumes "(match_step E F)\<^sup>*\<^sup>* S T" and "match_ok S" and "tokens S \<le> 1"
  shows "\<not> (g_myTurn (peer_a T) \<and> g_myTurn (peer_b T)) \<and>
    (dragging_piece (g_playing (peer_a T)) \<noteq> None \<longrightarrow> g_myTurn (peer_a T) \<and> dragging_piece (g_playing (peer_b T)) = None \<and>
       YOUR_TURN \<notin> set (line_ab T @ line_ba T @ to_send (g_sp (peer_b T)) @ received (g_sp (peer_b T)))) \<and>
    (dragging_piece (g_playing (peer_b T)) \<noteq> None \<longrightarrow> g_myTurn (peer_b T) \<and> dragging_piece (g_playing (peer_a T)) = None \<and>
       YOUR_TURN \<notin> set (line_ab T @ line_ba T @ to_send (g_sp (peer_a T)) @ received (g_sp (peer_a T))))"
proof -
  have t: "match_ok T" "tokens T \<le> 1" using match_run_ok [OF assms(1,2)] assms(3) by auto
  have z: "turns bs = 0 \<longleftrightarrow> YOUR_TURN \<notin> set bs" for bs by (simp add: turns_def count_list_0_iff)
  have one: "\<not> (g_myTurn (peer_a T) \<and> g_myTurn (peer_b T))"
    "g_myTurn (peer_a T) \<or> g_myTurn (peer_b T) \<Longrightarrow> turns (line_ab T) = 0 \<and> turns (line_ba T) = 0 \<and>
       turns (to_send (g_sp (peer_a T))) = 0 \<and> turns (received (g_sp (peer_a T))) = 0 \<and>
       turns (to_send (g_sp (peer_b T))) = 0 \<and> turns (received (g_sp (peer_b T))) = 0"
    using t(2) by (auto simp: tokens_def weight_def split: if_splits)
  with t(1) show ?thesis unfolding z by (auto simp: match_ok_def peer_ok_def)
qed

definition sample_match :: Match where
  "sample_match = \<lparr>peer_a = sample_game,
     peer_b = sample_game\<lparr>g_myTurn := False, g_playing := (g_playing sample_game)\<lparr>dragging_piece := None\<rparr>\<rparr>,
     line_ab = [], line_ba = []\<rparr>"

lemma sample_match_ok: "match_ok sample_match" "tokens sample_match = 1"
  using fresh_sp_invar
  by (simp_all add: sample_match_def match_ok_def peer_ok_def tokens_def weight_def sample_game_def u32_of_coord)

theorem one_player_to_move_witness:
  "\<exists>T. (match_step sample_env sample_env)\<^sup>*\<^sup>* sample_match T \<and> dragging_piece (g_playing (peer_a T)) = Some 0 \<and>
     \<not> g_myTurn (peer_b T)"
proof -
  let ?ev = "\<lparr>ev_type = NO_EVENT, ev_data = Indeterminate\<rparr>"
  have "handle_event sample_env ?ev (peer_a sample_match) () = Some (peer_a sample_match, ())"
    by (simp add: handle_event_def)
  from side_step.event [OF this] have "match_step sample_env sample_env sample_match (sample_match\<lparr>peer_a := peer_a sample_match\<rparr>)"
    by (simp only: match_step_def simp_thms)
  then have r: "(match_step sample_env sample_env)\<^sup>*\<^sup>* sample_match sample_match" by (simp add: r_into_rtranclp)
  have d: "dragging_piece (g_playing (peer_a sample_match)) = Some 0" "g_myTurn (peer_a sample_match)"
    by (simp_all add: sample_match_def sample_game_def)
  show ?thesis
    using one_player_to_move [OF r sample_match_ok(1)] sample_match_ok(2) r d by auto
qed

section \<open>The handshake\<close>

text \<open>One frame of a waiting machine: the next byte from the peer decides.\<close>

lemma waiting_frame:
  assumes r: "waiting_ih E ev g w = Some (g', w')" and f: "ev_type ev = NEW_FRAME" and i: "sp_invar (g_sp g)"
    and c: "received (g_sp g) = VM_CONNECTED # rest"
  shows "g_state g' = CHOOSING_PLAYER \<and> received (g_sp g') = rest"
proof -
  obtain x sp1 where q: "readFromQueue (g_sp g) = (x, sp1)" by force
  note e = readFromQueue_eq [OF i, unfolded q fst_conv snd_conv]
  have "g_state g' = CHOOSING_PLAYER \<and> g_sp g' = addToTransmitQueue RECEIVE_VM_CONNECTED sp1"
    using r f q e(1) c
    by (auto simp: waiting_ih_def Let_def split: bind_splits if_splits
        dest!: map_background_keeps show_background_keeps)
  then show ?thesis using e c addToTransmitQueue_eq(2) [OF e(4)] by simp
qed

text \<open>The cursor is pressed on the button of white.\<close>

definition on_white :: "Cursor \<Rightarrow> bool" where
  "on_white c \<longleftrightarrow> pressed c \<and> 307 < unat (cursor_x c) \<and> unat (cursor_x c) < 466 \<and>
     517 < unat (cursor_y c) \<and> unat (cursor_y c) < 558"

lemma choosing_white:
  assumes "choosing_ih E ev g w = Some (g', w')" and "ev_type ev = MOUSE" and "on_white (g_cursor g)"
  shows "g_state g' = PLAYING \<and> g_player g' = WHITE \<and> g_myTurn g'"
  using assms
  by (auto simp: choosing_ih_def cursorClickPlayer_def on_white_def Let_def split: bind_splits if_splits
      dest!: map_background_keeps)

text \<open>C25: The handshake has a race. When both players confirm their names before the greeting of the
  other has arrived, each machine waits with the byte VM_CONNECTED from its peer in the receive
  queue. At the next frame both become the one that chooses the colour, and nothing stops
  both from choosing white: then both play white and both are to move.\<close>
theorem handshake_race:
  assumes "ev_type frame = NEW_FRAME" and "ev_type click = MOUSE" and "on_white c" and "on_white d"
    and "sp_invar (g_sp a)" and "received (g_sp a) = [VM_CONNECTED]"
    and "sp_invar (g_sp b)" and "received (g_sp b) = [VM_CONNECTED]"
    and "waiting_ih E frame a w = Some (a1, w1)" and "waiting_ih F frame b v = Some (b1, v1)"
    and "choosing_ih E click (a1\<lparr>g_cursor := c\<rparr>) w1 = Some (a2, w2)"
    and "choosing_ih F click (b1\<lparr>g_cursor := d\<rparr>) v1 = Some (b2, v2)"
  shows "g_state a1 = CHOOSING_PLAYER \<and> g_state b1 = CHOOSING_PLAYER \<and>
    g_state a2 = PLAYING \<and> g_player a2 = WHITE \<and> g_myTurn a2 \<and>
    g_state b2 = PLAYING \<and> g_player b2 = WHITE \<and> g_myTurn b2"
  using waiting_frame [OF assms(9,1,5,6)] waiting_frame [OF assms(10,1,7,8)]
    choosing_white [OF assms(11,2)] choosing_white [OF assms(12,2)] assms(3,4) by simp

text \<open>A machine with its backgrounds drawn, and a greeting in its receive queue.\<close>

definition greeted :: Game where
  "greeted = sample_game\<lparr>g_state := WAITING, g_buffer := replicate 1440000 0,
     g_waiting := \<lparr>bg_image = piece_image sample_piece, bg_created = True, bg_mem = Some (replicate 1440000 0)\<rparr>,
     g_choosing := \<lparr>bg_image = piece_image sample_piece, bg_created = True, bg_mem = Some (replicate 1440000 0)\<rparr>,
     g_sp := fresh_sp\<lparr>receiveQueue := addToQueue (receiveQueue fresh_sp) VM_CONNECTED\<rparr>\<rparr>"

lemma greeted_sp: "sp_invar (g_sp greeted)" "received (g_sp greeted) = [VM_CONNECTED]"
proof -
  have q: "q_invar (receiveQueue fresh_sp)" "q_contents (receiveQueue fresh_sp) = []" "q_room (receiveQueue fresh_sp) = 10"
    using fresh_sp_invar by (simp_all add: sp_invar_def received_def)
  show "received (g_sp greeted) = [VM_CONNECTED]"
    using addToQueue_contents [OF q(1), of VM_CONNECTED] q by (simp add: greeted_def received_def)
  show "sp_invar (g_sp greeted)"
    using fresh_sp_invar(1) addToQueue_invar [OF q(1)] q by (simp add: greeted_def sp_invar_def)
qed

theorem handshake_race_witness:
  "\<exists>a1 a2. waiting_ih (base_env sample_env) \<lparr>ev_type = NEW_FRAME, ev_data = Indeterminate\<rparr> greeted () = Some (a1, ()) \<and>
     choosing_ih (base_env sample_env) \<lparr>ev_type = MOUSE, ev_data = Indeterminate\<rparr>
       (a1\<lparr>g_cursor := sample_cursor\<lparr>cursor_x := 400, cursor_y := 540, pressed := True\<rparr>\<rparr>) () = Some (a2, ()) \<and>
     g_state a1 = CHOOSING_PLAYER \<and> g_myTurn a2"
proof -
  let ?f = "\<lparr>ev_type = NEW_FRAME, ev_data = Indeterminate\<rparr>" and ?m = "\<lparr>ev_type = MOUSE, ev_data = Indeterminate\<rparr>"
  let ?c = "sample_cursor\<lparr>cursor_x := 400, cursor_y := 540, pressed := True\<rparr>" and ?E = "base_env sample_env"
  have c: "on_white ?c" by (simp add: on_white_def)
  have w: "fb_wf screen_115 (replicate 1440000 0)"
    using mode_115_wf [OF squares_115D(1) [OF screen_115]] by simp
  have b: "g_waiting greeted = \<lparr>bg_image = piece_image sample_piece, bg_created = True, bg_mem = Some (replicate 1440000 0)\<rparr>"
    "g_choosing greeted = \<lparr>bg_image = piece_image sample_piece, bg_created = True, bg_mem = Some (replicate 1440000 0)\<rparr>"
    "g_screen greeted = screen_115" "g_buffer greeted = replicate 1440000 0"
    by (simp_all add: greeted_def sample_game_def)
  have "show_background (bg_mem (g_waiting greeted)) greeted = Some (greeted\<lparr>g_buffer := replicate 1440000 0\<rparr>)"
    using copy_buffers_wf [OF w w] b by (simp add: show_background_def)
  then have "\<exists>a1. waiting_ih ?E ?f greeted () = Some (a1, ()) \<and> g_choosing a1 = g_choosing greeted"
    by (simp add: waiting_ih_def b Let_def split: prod.split)
  then obtain a1 where a1: "waiting_ih ?E ?f greeted () = Some (a1, ())" "g_choosing a1 = g_choosing greeted" by blast
  have "\<exists>a2. choosing_ih ?E ?m (a1\<lparr>g_cursor := ?c\<rparr>) () = Some (a2, ())"
    using a1(2) b by (simp add: choosing_ih_def free_background_def sample_env_def env.truncate_def Let_def split: prod.split)
  then obtain a2 where a2: "choosing_ih ?E ?m (a1\<lparr>g_cursor := ?c\<rparr>) () = Some (a2, ())" by blast
  have e: "ev_type ?f = NEW_FRAME" "ev_type ?m = MOUSE" by simp_all
  show ?thesis
    using handshake_race [OF e c c greeted_sp greeted_sp a1(1) a1(1) a2 a2] a1(1) a2 by blast
qed

end
