(* ===== verification/Rounds.thy ===== *)
theory Rounds
  imports Turn Peers
begin

text \<open>
  Whole games between two machines. A round is a turn at one machine followed by the
  transmission of what it queued, byte by byte, interleaved in any way with frames, keys and
  movements of the mouse at both machines (\<open>proj/src/main.c\<close>, \<open>proj/src/serialPort.c\<close>). After
  every round both machines show the same position.
\<close>

section \<open>A machine that rests\<close>

text \<open>What stays of a machine while nothing is made or received; the animation may go on.\<close>

definition still :: "Game \<Rightarrow> Board \<Rightarrow> Game \<Rightarrow> Board \<Rightarrow> bool" where
  "still g b g' b' \<longleftrightarrow> resting g' b' \<and> types b' = types b \<and> advanced b \<subseteq> advanced b' \<and> received (g_sp g') = received (g_sp g) \<and>
     to_send (g_sp g') = to_send (g_sp g) \<and> g_myTurn g' = g_myTurn g \<and> g_player g' = g_player g \<and>
     byteOfMove (g_playing g') = byteOfMove (g_playing g) \<and> p_move (g_playing g') = p_move (g_playing g)"

text \<open>Frames, keys, and movements with the button up.\<close>

definition idle_event :: "Event \<Rightarrow> bool" where
  "idle_event ev \<longleftrightarrow> (ev_type ev = MOUSE \<longrightarrow> (\<exists>p. ev_data ev = MousePacket p \<and> \<not> lb p))"

lemma restingD:
  assumes "resting g b"
  shows "g_state g = PLAYING" "p_board (g_playing g) = Some b" "scene g b" "\<not> g_endGame g"
    "dragging_piece (g_playing g) = None" "\<forall>c r. on_sq c r \<longrightarrow> \<not> lit (g_screen g) (mem_board b) c r"
  using assms by (simp_all add: resting_def)

lemma resting_not_ended: "resting (g\<lparr>g_endGame := False\<rparr>) b \<Longrightarrow> \<not> g_endGame g \<Longrightarrow> resting g b"
  by (simp add: resting_def scene_def)

text \<open>A machine that has left the game, with the result it will report.\<close>

definition over :: "bool \<Rightarrow> Game \<Rightarrow> Board \<Rightarrow> bool" where
  "over won g b \<longleftrightarrow> g_state g = EXIT \<and> g_won g = won \<and> p_board (g_playing g) = Some b \<and> scene g b"

lemma resting_alike:
  "resting g b \<Longrightarrow> alike b b' \<Longrightarrow> scene g' b' \<Longrightarrow> g_state g' = PLAYING \<Longrightarrow> p_board (g_playing g') = Some b' \<Longrightarrow>
   \<not> g_endGame g' \<Longrightarrow> dragging_piece (g_playing g') = None \<Longrightarrow> g_screen g' = g_screen g \<Longrightarrow> resting g' b'"
  by (simp add: resting_def alike_def)

text \<open>A frame handles the next byte; what it leaves follows from what the byte does.\<close>

lemma frame_handled:
  assumes r: "resting g b" and ev: "ev_type ev = NEW_FRAME"
  shows "\<exists>v b1 sp. alike b b1 \<and> received sp = tl (received (g_sp g)) \<and> to_send sp = to_send (g_sp g) \<and>
    scene (g\<lparr>g_buffer := v, g_sp := sp\<rparr>) b1 \<and>
    (\<forall>b2 g2. receive_byte (next_byte g) b1 (g\<lparr>g_buffer := v, g_sp := sp\<rparr>) = Some (b2, g2) \<and> scene g2 b2 \<longrightarrow>
      (\<exists>u. handle_event E ev g w = Some (g2\<lparr>g_playing := (g_playing g2)\<lparr>p_board := Some b2\<rparr>, g_buffer := u, g_video_mem := u\<rparr>, w) \<and>
        scene (g2\<lparr>g_playing := (g_playing g2)\<lparr>p_board := Some b2\<rparr>, g_buffer := u, g_video_mem := u\<rparr>) b2))"
proof -
  note d = restingD [OF r]
  obtain v b1 sp where f: "playing_frame b g = receive_byte (next_byte g) b1 (g\<lparr>g_buffer := v, g_sp := sp\<rparr>)"
    and s: "scene (g\<lparr>g_buffer := v, g_sp := sp\<rparr>) b1" "alike b b1" "received sp = tl (received (g_sp g))"
      "to_send sp = to_send (g_sp g)"
    using frame_draws [OF d(3)] by blast
  have "\<exists>u. handle_event E ev g w = Some (g2\<lparr>g_playing := (g_playing g2)\<lparr>p_board := Some b2\<rparr>, g_buffer := u, g_video_mem := u\<rparr>, w) \<and>
        scene (g2\<lparr>g_playing := (g_playing g2)\<lparr>p_board := Some b2\<rparr>, g_buffer := u, g_video_mem := u\<rparr>) b2"
    if byte: "receive_byte (next_byte g) b1 (g\<lparr>g_buffer := v, g_sp := sp\<rparr>) = Some (b2, g2)" and sc: "scene g2 b2" for b2 g2
  proof -
    let ?g2 = "g2\<lparr>g_playing := (g_playing g2)\<lparr>p_board := Some b2\<rparr>\<rparr>"
    have pe: "play_event (base_env E) ev b g = Some (b2, g2)" using ev f byte by (simp add: play_event_def)
    have "in_play ?g2" using sc by (simp add: in_play_def)
    then obtain u where u: "drawCursor (g_screen ?g2) (g_buffer ?g2) (Some (g_cursor ?g2)) = Some u"
      "copy_from_buffer (g_screen ?g2) (g_video_mem ?g2) u = Some u" "in_play (?g2\<lparr>g_buffer := u, g_video_mem := u\<rparr>)"
      using shown_frame by blast
    have "handle_event E ev g w = Some (?g2\<lparr>g_buffer := u, g_video_mem := u\<rparr>, w)"
      using playing_ih_running [OF d(2,4) pe] d(1) ev u(1,2) by (simp add: handle_event_def inputHandler_def)
    then show ?thesis using u(3) by (auto simp: in_play_def)
  qed
  then show ?thesis using s by blast
qed

lemma idle_still:
  assumes r: "resting g b" and i: "idle_event ev" and q: "ev_type ev = NEW_FRAME \<longrightarrow> received (g_sp g) = []"
  shows "\<exists>g' b'. handle_event E ev g w = Some (g', w) \<and> still g b g' b'"
proof -
  note d = restingD [OF r]
  show ?thesis
  proof (cases "ev_type ev")
    case NO_EVENT
    then show ?thesis using r by (auto simp: handle_event_def still_def)
  next
    case KEYBOARD
    let ?g' = "if has (ev_scanCode ev) (BIT 7) \<and> ev_scanCode ev = 0xac then g\<lparr>g_animation := \<not> g_animation g\<rparr> else g"
    have pe: "play_event (base_env E) ev b g = Some (b, ?g')" using KEYBOARD by (simp add: play_event_def)
    have "handle_event E ev g w = Some (?g'\<lparr>g_playing := (g_playing ?g')\<lparr>p_board := Some b\<rparr>\<rparr>, w)"
      using playing_ih_running [OF d(2,4) pe] d(1) KEYBOARD by (simp add: handle_event_def inputHandler_def)
    moreover have "still g b (?g'\<lparr>g_playing := (g_playing ?g')\<lparr>p_board := Some b\<rparr>\<rparr>) b"
      using d by (simp add: still_def resting_def)
    ultimately show ?thesis by blast
  next
    case MOUSE
    then obtain p where p: "ev_data ev = MousePacket p" "\<not> lb p" using i by (auto simp: idle_event_def)
    let ?h = "g\<lparr>g_cursor := updateCursor (g_screen g) (g_cursor g) p\<rparr>"
    have sc: "scene ?h b" by (rule cursor_scene [OF sceneD(1) [OF d(3)] d(3)])
    have pe: "play_event (base_env E) ev b ?h = Some (b, ?h)"
      using MOUSE d(5) updateCursor_buttons(2) [OF p(2)] by (simp add: play_event_def playing_mouse_def)
    have "handle_event E ev g w = Some (?h\<lparr>g_playing := (g_playing ?h)\<lparr>p_board := Some b\<rparr>\<rparr>, w)"
      using playing_ih_running [OF _ _ pe] d(1,2,4) MOUSE p(1) by (simp add: handle_event_def inputHandler_def)
    moreover have "still g b (?h\<lparr>g_playing := (g_playing ?h)\<lparr>p_board := Some b\<rparr>\<rparr>) b"
      using d sc [folded scene_state(3) [where g = ?h and x = "Some b" and b = b]] by (simp add: still_def resting_def)
    ultimately show ?thesis by blast
  next
    case NEW_FRAME
    then have q: "received (g_sp g) = []" using q by simp
    obtain v b1 sp where s: "alike b b1" "received sp = tl (received (g_sp g))" "to_send sp = to_send (g_sp g)"
      "scene (g\<lparr>g_buffer := v, g_sp := sp\<rparr>) b1"
      and e: "\<forall>b2 g2. receive_byte (next_byte g) b1 (g\<lparr>g_buffer := v, g_sp := sp\<rparr>) = Some (b2, g2) \<and> scene g2 b2 \<longrightarrow>
      (\<exists>u. handle_event E ev g w = Some (g2\<lparr>g_playing := (g_playing g2)\<lparr>p_board := Some b2\<rparr>, g_buffer := u, g_video_mem := u\<rparr>, w) \<and>
        scene (g2\<lparr>g_playing := (g_playing g2)\<lparr>p_board := Some b2\<rparr>, g_buffer := u, g_video_mem := u\<rparr>) b2)"
      using frame_handled [OF r NEW_FRAME, of E w] by blast
    have "next_byte g = 0" by (simp add: next_byte_def q)
    then have "receive_byte (next_byte g) b1 (g\<lparr>g_buffer := v, g_sp := sp\<rparr>) = Some (b1, g\<lparr>g_buffer := v, g_sp := sp\<rparr>)"
      by (simp add: receive_byte_def Let_def BEGIN_MESSAGE_def YOUR_TURN_def)
    then obtain u where u: "handle_event E ev g w = Some (g\<lparr>g_sp := sp, g_playing := (g_playing g)\<lparr>p_board := Some b1\<rparr>,
        g_buffer := u, g_video_mem := u\<rparr>, w)"
      "scene (g\<lparr>g_sp := sp, g_playing := (g_playing g)\<lparr>p_board := Some b1\<rparr>, g_buffer := u, g_video_mem := u\<rparr>) b1"
      using e s(4) by fastforce
    have "still g b (g\<lparr>g_sp := sp, g_playing := (g_playing g)\<lparr>p_board := Some b1\<rparr>, g_buffer := u, g_video_mem := u\<rparr>) b1"
      using d resting_alike [OF r s(1) u(2)] s q alike_types [OF s(1)] alike_advanced [OF s(1)] by (simp add: still_def)
    then show ?thesis using u(1) by blast
  qed
qed

section \<open>Hearing a move\<close>

text \<open>
  What a waiting machine has done when the bytes \<open>pend\<close> are still to be handled: the five
  stages of a message, or, after a turn without a move, nothing at all. \<open>A\<close> holds squares
  whose pawns had begun to move on it before the turn.
\<close>

definition hears ::
  "bool \<Rightarrow> int \<Rightarrow> int \<Rightarrow> int \<Rightarrow> int \<Rightarrow> PieceType option list \<Rightarrow> nat set \<Rightarrow> u8 list \<Rightarrow> Game \<Rightarrow> Board \<Rightarrow> bool" where
  "hears sent c0 r0 x y ty A pend h b \<longleftrightarrow>
     (let cd = square_code c0 r0; cd' = square_code x y; ty' = shift (sq_index c0 r0) (sq_index x y) ty;
          before = (types b = ty \<and> A \<subseteq> advanced b);
          after = (types b = ty' \<and> carry (sq_index c0 r0) (sq_index x y) A \<subseteq> advanced b);
          P = g_playing h
      in (\<not> sent \<and> pend = [] \<and> \<not> g_myTurn h \<and> before) \<or>
         (sent \<and> pend = [BEGIN_MESSAGE, cd, cd', YOUR_TURN] \<and> \<not> g_myTurn h \<and> before) \<or>
         (sent \<and> pend = [cd, cd', YOUR_TURN] \<and> \<not> g_myTurn h \<and> before \<and> byteOfMove P = 0) \<or>
         (sent \<and> pend = [cd', YOUR_TURN] \<and> \<not> g_myTurn h \<and> before \<and> byteOfMove P = 1 \<and>
            uint (old_col (p_move P)) = c0 \<and> uint (old_row (p_move P)) = r0) \<or>
         (sent \<and> pend = [YOUR_TURN] \<and> \<not> g_myTurn h \<and> after) \<or>
         (sent \<and> pend = [] \<and> g_myTurn h \<and> after))"

lemma hears_still:
  "hears sent c0 r0 x y ty A pend h b \<Longrightarrow> still h b h' b' \<Longrightarrow> hears sent c0 r0 x y ty A pend h' b'"
  unfolding hears_def still_def Let_def by (elim conjE) (elim disjE; simp; blast)

text \<open>The move that is on its way: from an occupied square, neither end of code zero; does it take a king?\<close>

definition carried :: "int \<Rightarrow> int \<Rightarrow> int \<Rightarrow> int \<Rightarrow> PieceType option list \<Rightarrow> bool" where
  "carried c0 r0 x y ty \<longleftrightarrow> on_sq c0 r0 \<and> on_sq x y \<and> (c0, r0) \<noteq> (0, 0) \<and> (x, y) \<noteq> (0, 0) \<and>
     ty ! sq_index c0 r0 \<noteq> None"

definition on_king :: "int \<Rightarrow> int \<Rightarrow> PieceType option list \<Rightarrow> bool" where
  "on_king x y ty \<longleftrightarrow> ty ! sq_index x y = Some b_king \<or> ty ! sq_index x y = Some w_king"

definition sendable :: "int \<Rightarrow> int \<Rightarrow> int \<Rightarrow> int \<Rightarrow> PieceType option list \<Rightarrow> bool" where
  "sendable c0 r0 x y ty \<longleftrightarrow> carried c0 r0 x y ty \<and> \<not> on_king x y ty"

lemma king_at_types: "board_ok b \<Longrightarrow> on_sq x y \<Longrightarrow> king_at b x y = on_king x y (types b)"
  using types_piece_at [of b x y] by (auto simp: king_at_def on_king_def split: option.split)

text \<open>Handling the byte before the last one takes the king, if one is taken.\<close>

definition decides :: "int \<Rightarrow> int \<Rightarrow> PieceType option list \<Rightarrow> u8 list \<Rightarrow> bool" where
  "decides x y ty pend \<longleftrightarrow> on_king x y ty \<and> pend = [YOUR_TURN]"

text \<open>The peer of the mover clears the old square after it has filled the new one.\<close>

lemma received_advanced:
  assumes at: "squares b ! i = Some ref" and l: "i < length (squares b)" "j < length (squares b)"
    and pm: "\<And>k. pawn_moved (heap b' ! k) = pawn_moved (heap b ! k)" and sq: "squares b' = shift i j (squares b)"
  shows "carry i j (advanced b) \<subseteq> advanced b'"
  using at l by (auto simp: advanced_def carry_def sq shift_def pm nth_list_update split: option.splits if_splits)

lemma hears_byte:
  assumes ss: "sent \<Longrightarrow> carried c0 r0 x y ty" and h: "hears sent c0 r0 x y ty A (z # pend) h b" and b: "board_ok b"
  shows "\<exists>b' h'. receive_byte z b h = Some (b', h') \<and> hears sent c0 r0 x y ty A pend h' b' \<and>
    (b' = b \<or> mem_board b' = mem_board b) \<and>
    (if decides x y ty pend then g_state h' = EXIT \<and> \<not> g_won h' else g_state h' = g_state h) \<and>
    g_sp h' = g_sp h \<and> g_endGame h' = g_endGame h \<and> g_screen h' = g_screen h \<and>
    g_player h' = g_player h \<and> dragging_piece (g_playing h') = dragging_piece (g_playing h)"
proof -
  have sent using h by (auto simp: hears_def Let_def)
  then have o: "on_sq c0 r0" "on_sq x y" and nz: "(c0, r0) \<noteq> (0, 0)" "(x, y) \<noteq> (0, 0)"
    and src: "ty ! sq_index c0 r0 \<noteq> None"
    using ss by (simp_all add: carried_def)
  note n0 = square_code_cases [OF o(1)] and n1 = square_code_cases [OF o(2)]
  note d0 = square_code_decode [OF o(1)] and d1 = square_code_decode [OF o(2)]
  have bt: "YOUR_TURN \<noteq> BEGIN_MESSAGE" by (simp add: YOUR_TURN_def BEGIN_MESSAGE_def)
  let ?cd = "square_code c0 r0" and ?cd' = "square_code x y" and ?P = "g_playing h"
  let ?ty' = "shift (sq_index c0 r0) (sq_index x y) ty"
  consider (greet) "z = BEGIN_MESSAGE" "pend = [?cd, ?cd', YOUR_TURN]" "\<not> g_myTurn h" "types b = ty"
        "A \<subseteq> advanced b"
    | (origin) "z = ?cd" "pend = [?cd', YOUR_TURN]" "\<not> g_myTurn h" "types b = ty" "byteOfMove ?P = 0"
        "A \<subseteq> advanced b"
    | (target) "z = ?cd'" "pend = [YOUR_TURN]" "\<not> g_myTurn h" "types b = ty" "byteOfMove ?P = 1"
        "uint (old_col (p_move ?P)) = c0" "uint (old_row (p_move ?P)) = r0" "A \<subseteq> advanced b"
    | (pass) "z = YOUR_TURN" "pend = []" "types b = ?ty'" "carry (sq_index c0 r0) (sq_index x y) A \<subseteq> advanced b"
    using h by (auto simp: hears_def Let_def)
  then show ?thesis
  proof cases
    case greet
    then show ?thesis using \<open>sent\<close> by (simp add: receive_byte_def hears_def Let_def decides_def)
  next
    case origin
    then show ?thesis using \<open>sent\<close> n0 nz d0 by (simp add: receive_byte_def hears_def Let_def decides_def)
  next
    case pass
    then show ?thesis using \<open>sent\<close> bt by (simp add: receive_byte_def hears_def Let_def decides_def)
  next
    case target
    have len: "length (squares b) = 64" using b by (simp add: board_ok_def)
    obtain ref where at: "squares b ! sq_index c0 r0 = Some ref"
      using src sq_index_less [OF o(1)] len target(4) by (auto simp: types_nth)
    have nk: "king_at b x y = on_king x y ty" using king_at_types [OF b o(2)] target(4) by simp
    let ?mv = "(p_move ?P)\<lparr>new_col := col_of ?cd', new_row := row_of ?cd'\<rparr>"
    let ?p = "movePiece (heap b ! ref) (getScreenX (g_screen h) x) (getScreenY (g_screen h) y)"
    let ?b' = "b\<lparr>heap := (heap b)[ref := ?p], squares := shift (sq_index c0 r0) (sq_index x y) (squares b)\<rparr>"
    have "opponent_moves (g_screen h) ?mv b = Some (on_king x y ty, ?b')"
      using opponent_moves_eq [OF b o _ _ _ _ at, of ?mv "g_screen h"] d1 target(6,7) nk by simp
    then have "receive_byte z b h = Some (?b', if on_king x y ty
        then h\<lparr>g_playing := ?P\<lparr>p_move := ?mv\<rparr>, g_won := False, g_state := EXIT\<rparr>
        else h\<lparr>g_playing := ?P\<lparr>p_move := ?mv\<rparr>\<rparr>)"
      using target n1 nz by (simp add: receive_byte_def Let_def)
    moreover have "types ?b' = ?ty'"
      using types_shift [OF b o, of ?p ref] target(4) by (simp add: movePiece_def)
    moreover have "carry (sq_index c0 r0) (sq_index x y) A \<subseteq> advanced ?b'"
    proof -
      have l: "sq_index c0 r0 < length (squares b)" "sq_index x y < length (squares b)"
        using sq_index_less [OF o(1)] sq_index_less [OF o(2)] len by simp_all
      have "pawn_moved (heap ?b' ! k) = pawn_moved (heap b ! k)" for k
        by (cases "k = ref"; cases "ref < length (heap b)") (simp_all add: movePiece_def list_update_beyond)
      then have "carry (sq_index c0 r0) (sq_index x y) (advanced b) \<subseteq> advanced ?b'"
        using received_advanced [OF at l] by simp
      then show ?thesis using carry_mono [OF target(8)] by blast
    qed
    ultimately show ?thesis using target \<open>sent\<close> by (simp add: hears_def Let_def decides_def)
  qed
qed

lemma hears_alike:
  assumes "hears sent c0 r0 x y ty A pend h b" and al: "alike b b'" and "g_myTurn h' = g_myTurn h"
    and "g_playing h' = g_playing h"
  shows "hears sent c0 r0 x y ty A pend h' b'"
  using assms(1) alike_types [OF al] alike_advanced [OF al] assms(3,4)
  unfolding hears_def Let_def by (elim disjE; simp; blast)

lemma frame_hears:
  assumes ss: "sent \<Longrightarrow> carried c0 r0 x y ty" and r: "resting h b" and ev: "ev_type ev = NEW_FRAME"
    and hr: "hears sent c0 r0 x y ty A (z # pend) h b" and q: "received (g_sp h) = z # rest"
  shows "\<exists>h' b'. handle_event E ev h w = Some (h', w) \<and> hears sent c0 r0 x y ty A pend h' b' \<and>
    (if decides x y ty pend then over False h' b' else resting h' b') \<and>
    received (g_sp h') = rest \<and> to_send (g_sp h') = to_send (g_sp h) \<and> g_player h' = g_player h"
proof -
  note d = restingD [OF r]
  obtain v b1 sp where s: "alike b b1" "received sp = tl (received (g_sp h))" "to_send sp = to_send (g_sp h)"
    and sc: "scene (h\<lparr>g_buffer := v, g_sp := sp\<rparr>) b1"
    and e: "\<forall>b2 g2. receive_byte (next_byte h) b1 (h\<lparr>g_buffer := v, g_sp := sp\<rparr>) = Some (b2, g2) \<and> scene g2 b2 \<longrightarrow>
      (\<exists>u. handle_event E ev h w = Some (g2\<lparr>g_playing := (g_playing g2)\<lparr>p_board := Some b2\<rparr>, g_buffer := u, g_video_mem := u\<rparr>, w) \<and>
        scene (g2\<lparr>g_playing := (g_playing g2)\<lparr>p_board := Some b2\<rparr>, g_buffer := u, g_video_mem := u\<rparr>) b2)"
    using frame_handled [OF r ev, of E w] by blast
  let ?h = "h\<lparr>g_buffer := v, g_sp := sp\<rparr>"
  have z: "next_byte h = z" by (simp add: next_byte_def q)
  have "hears sent c0 r0 x y ty A (z # pend) ?h b1"
    using hears_alike [OF hr s(1), of ?h] by simp
  from hears_byte [OF ss this sceneD(6) [OF sc]]
  obtain b2 h2 where rb: "receive_byte z b1 ?h = Some (b2, h2)" "hears sent c0 r0 x y ty A pend h2 b2"
    and k1: "b2 = b1 \<or> mem_board b2 = mem_board b1"
      "if decides x y ty pend then g_state h2 = EXIT \<and> \<not> g_won h2 else g_state h2 = g_state ?h"
    and k2: "g_sp h2 = g_sp ?h" "g_endGame h2 = g_endGame ?h" "g_screen h2 = g_screen ?h"
      "g_player h2 = g_player ?h" "dragging_piece (g_playing h2) = dragging_piece (g_playing ?h)"
    by blast
  note k = k1 k2 [simplified]
  have "scene h2 b2" using receive_fine [OF sc, of z] rb(1) by (auto split: if_splits)
  then obtain u where u: "handle_event E ev h w = Some (h2\<lparr>g_playing := (g_playing h2)\<lparr>p_board := Some b2\<rparr>,
      g_buffer := u, g_video_mem := u\<rparr>, w)"
    "scene (h2\<lparr>g_playing := (g_playing h2)\<lparr>p_board := Some b2\<rparr>, g_buffer := u, g_video_mem := u\<rparr>) b2"
    using e rb(1) unfolding z by blast
  let ?h' = "h2\<lparr>g_playing := (g_playing h2)\<lparr>p_board := Some b2\<rparr>, g_buffer := u, g_video_mem := u\<rparr>"
  have "mem_board b2 = mem_board b" using k(1) s(1) by (auto simp: alike_def)
  then have "if decides x y ty pend then over False ?h' b2 else resting ?h' b2"
    using d u(2) k by (simp add: resting_def over_def split: if_splits)
  moreover have "hears sent c0 r0 x y ty A pend ?h' b2" using rb(2) by (simp add: hears_def Let_def)
  ultimately show ?thesis using u(1) k s q by auto
qed

section \<open>The line\<close>

text \<open>
  Transmission from the first machine to the second: the first hands a byte to the line, the
  second takes one from it, or one of them handles an event that makes no move.
\<close>

inductive link_step :: "'w main_env \<Rightarrow> 'v main_env \<Rightarrow> Match \<Rightarrow> Match \<Rightarrow> bool" for E F where
  send: "sp_write (e_kernel E) (g_sp (peer_a S)) w = (0, sp, w') \<Longrightarrow>
    link_step E F S (S\<lparr>peer_a := (peer_a S)\<lparr>g_sp := sp\<rparr>,
      line_ab := line_ab S @ [fst (removeFromQueue (transmitQueue (g_sp (peer_a S))))]\<rparr>)"
| arrive: "line_ab S = x # rest \<Longrightarrow> sp_read (e_kernel F) (g_sp (peer_b S)) w = (0, sp, w') \<Longrightarrow>
    receiveQueue sp = addToQueue (receiveQueue (g_sp (peer_b S))) x \<Longrightarrow>
    link_step E F S (S\<lparr>peer_b := (peer_b S)\<lparr>g_sp := sp\<rparr>, line_ab := rest\<rparr>)"
| idle_a: "idle_event ev \<Longrightarrow> handle_event E ev (peer_a S) w = Some (g, w') \<Longrightarrow> link_step E F S (S\<lparr>peer_a := g\<rparr>)"
| idle_b: "idle_event ev \<Longrightarrow> handle_event F ev (peer_b S) w = Some (h, w') \<Longrightarrow> link_step E F S (S\<lparr>peer_b := h\<rparr>)"

text \<open>What a round keeps while the bytes are on their way.\<close>

definition underway ::
  "bool \<Rightarrow> int \<Rightarrow> int \<Rightarrow> int \<Rightarrow> int \<Rightarrow> PieceType option list \<Rightarrow> nat set \<Rightarrow> nat set \<Rightarrow> Player \<Rightarrow> Player \<Rightarrow> Match \<Rightarrow> bool" where
  "underway sent c0 r0 x y ty B A p q S \<longleftrightarrow> (\<exists>ba bb. resting (peer_a S) ba \<and> g_myTurn (peer_a S) = (\<not> sent) \<and>
     received (g_sp (peer_a S)) = [] \<and> types ba = (if sent then shift (sq_index c0 r0) (sq_index x y) ty else ty) \<and>
     (if sent then carry (sq_index c0 r0) (sq_index x y) B else B) \<subseteq> advanced ba \<and>
     g_player (peer_a S) = p \<and> resting (peer_b S) bb \<and> g_player (peer_b S) = q \<and>
     hears sent c0 r0 x y ty A (received (g_sp (peer_b S)) @ line_ab S @ to_send (g_sp (peer_a S))) (peer_b S) bb \<and>
     to_send (g_sp (peer_b S)) = [] \<and> line_ba S = [])"

lemma hears_length: "hears sent c0 r0 x y ty A pend h b \<Longrightarrow> length pend \<le> 4"
  by (auto simp: hears_def Let_def)

lemma resting_sp: "resting g b \<Longrightarrow> sp_invar sp \<Longrightarrow> resting (g\<lparr>g_sp := sp\<rparr>) b"
  by (simp add: resting_def scene_def)

lemma hears_sp: "hears sent c0 r0 x y ty A pend (h\<lparr>g_sp := sp\<rparr>) b = hears sent c0 r0 x y ty A pend h b"
  by (simp add: hears_def)

lemma sp_read_gets:
  assumes "sp_read K sp w = (0, sp', w')" and "receiveQueue sp' = addToQueue (receiveQueue sp) x"
    and "sp_invar sp" and "length (received sp) < 10"
  shows "received sp' = received sp @ [x]" "to_send sp' = to_send sp" "sp_invar sp'"
proof -
  have q: "q_invar (receiveQueue sp)" "q_room (receiveQueue sp) = 10" using assms(3) by (simp_all add: sp_invar_def)
  show "received sp' = received sp @ [x]"
    using addToQueue_contents [OF q(1), of x] assms(2,4) q(2) by (simp add: received_def)
  show "to_send sp' = to_send sp"
    using assms(1) by (auto simp: sp_read_def to_send_def split: prod.splits if_splits)
  show "sp_invar sp'" using sp_read_invar [OF assms(3), of K w] assms(1) by simp
qed

text \<open>An event of the machine that hears: it takes a byte or stays as it is.\<close>

lemma idle_hears:
  assumes b: "resting h b" and i: "idle_event ev" and ss: "sent \<Longrightarrow> sendable c0 r0 x y ty"
    and hr: "hears sent c0 r0 x y ty A (received (g_sp h) @ later) h b"
  shows "\<exists>h' b'. handle_event F ev h w = Some (h', w) \<and> resting h' b' \<and>
    hears sent c0 r0 x y ty A (received (g_sp h') @ later) h' b' \<and> to_send (g_sp h') = to_send (g_sp h) \<and>
    g_player h' = g_player h"
proof (cases "ev_type ev = NEW_FRAME \<and> received (g_sp h) \<noteq> []")
  case False
  then obtain h' b' where e: "handle_event F ev h w = Some (h', w)" and st: "still h b h' b'"
    using idle_still [OF b i, of F w] by blast
  then show ?thesis using hears_still [OF hr st] st by (intro exI [of _ h'] exI [of _ b']) (simp add: still_def)
next
  case True
  then obtain z rest where z: "received (g_sp h) = z # rest" by (cases "received (g_sp h)") auto
  have hz: "hears sent c0 r0 x y ty A (z # rest @ later) h b" using hr by (simp add: z)
  have sent using hz by (auto simp: hears_def Let_def)
  then have c: "carried c0 r0 x y ty" and nd: "\<not> decides x y ty ps" for ps
    using ss by (simp_all add: sendable_def decides_def)
  obtain h' b' where "handle_event F ev h w = Some (h', w)" "resting h' b'"
    "hears sent c0 r0 x y ty A (rest @ later) h' b'" "received (g_sp h') = rest"
    "to_send (g_sp h') = to_send (g_sp h)" "g_player h' = g_player h"
    using frame_hears [OF c b conjunct1 [OF True] hz z, of F w] by (simp only: nd if_False) blast
  then show ?thesis by (intro exI [of _ h'] exI [of _ b']) simp
qed

lemma link_step_underway:
  assumes "link_step E F S T" and ss: "sent \<Longrightarrow> sendable c0 r0 x y ty" and u: "underway sent c0 r0 x y ty B A p q S"
  shows "underway sent c0 r0 x y ty B A p q T"
proof -
  obtain ba bb where a: "resting (peer_a S) ba" "g_myTurn (peer_a S) = (\<not> sent)" "received (g_sp (peer_a S)) = []"
    "types ba = (if sent then shift (sq_index c0 r0) (sq_index x y) ty else ty)" "g_player (peer_a S) = p"
    and av: "(if sent then carry (sq_index c0 r0) (sq_index x y) B else B) \<subseteq> advanced ba"
    and b: "resting (peer_b S) bb" "g_player (peer_b S) = q" "to_send (g_sp (peer_b S)) = []" "line_ba S = []"
    and hr: "hears sent c0 r0 x y ty A (received (g_sp (peer_b S)) @ line_ab S @ to_send (g_sp (peer_a S))) (peer_b S) bb"
    using u by (auto simp: underway_def)
  have ia: "sp_invar (g_sp (peer_a S))" "sp_invar (g_sp (peer_b S))"
    using sceneD(5) [OF restingD(3) [OF a(1)]] sceneD(5) [OF restingD(3) [OF b(1)]] by simp_all
  from assms(1) show ?thesis
  proof cases
    case 1: (send w sp w')
    have e: "sp_invar sp" "received sp = received (g_sp (peer_a S))" and
      t: "to_send (g_sp (peer_a S)) = fst (removeFromQueue (transmitQueue (g_sp (peer_a S)))) # to_send sp"
      using sp_write_effect [OF 1(2) ia(1)] by simp_all
    then show ?thesis
      unfolding underway_def using a av b hr [unfolded t] resting_sp [OF a(1) e(1)]
      by (intro exI [of _ ba] exI [of _ bb]) (simp add: 1(1))
  next
    case 2: (arrive z rest w sp w')
    have "length (received (g_sp (peer_b S))) < 10" using hears_length [OF hr] by simp
    note e = sp_read_gets [OF 2(3,4) ia(2) this]
    then show ?thesis
      unfolding underway_def using a av b hr resting_sp [OF b(1) e(3)] 2(2)
      by (intro exI [of _ ba] exI [of _ bb]) (simp add: 2(1) hears_sp)
  next
    case 3: (idle_a ev w g w')
    obtain g' b' where "handle_event E ev (peer_a S) w = Some (g', w)" and st: "still (peer_a S) ba g' b'"
      using idle_still [OF a(1) 3(2), of E w] a(3) by blast
    then have "g' = g" using 3(3) by simp
    then show ?thesis
      unfolding underway_def using a order_trans [OF av] b hr st
      by (intro exI [of _ b'] exI [of _ bb]) (simp add: 3(1) still_def)
  next
    case 4: (idle_b ev w h w')
    obtain h' b' where "handle_event F ev (peer_b S) w = Some (h', w)" and st: "resting h' b'"
      "hears sent c0 r0 x y ty A (received (g_sp h') @ line_ab S @ to_send (g_sp (peer_a S))) h' b'"
      "to_send (g_sp h') = to_send (g_sp (peer_b S))" "g_player h' = g_player (peer_b S)"
      using idle_hears [OF b(1) 4(2) ss hr, of F w] by blast
    then have "h' = h" using 4(3) by simp
    then show ?thesis
      unfolding underway_def using a av b st
      by (intro exI [of _ ba] exI [of _ b']) (simp add: 4(1))
  qed
qed

lemma link_run_underway:
  assumes "(link_step E F)\<^sup>*\<^sup>* S T" and "sent \<Longrightarrow> sendable c0 r0 x y ty" and "underway sent c0 r0 x y ty B A p q S"
  shows "underway sent c0 r0 x y ty B A p q T"
  using assms by (induction) (auto intro: link_step_underway)

text \<open>How much is still on its way.\<close>

definition in_transit :: "Match \<Rightarrow> nat" where
  "in_transit S = 3 * length (to_send (g_sp (peer_a S))) + 2 * length (line_ab S) + length (received (g_sp (peer_b S)))"

section \<open>Rounds and games\<close>

definition opposite :: "Player \<Rightarrow> Player" where
  "opposite p = (if p = WHITE then BLACK else WHITE)"

text \<open>
  Both machines show the position \<open>ty\<close>, nothing is on its way, and the first machine, which
  plays \<open>who\<close>, is to move.
\<close>

definition ready :: "Player \<Rightarrow> PieceType option list \<Rightarrow> Match \<Rightarrow> bool" where
  "ready who ty S \<longleftrightarrow> who \<noteq> NOT_DECIDED \<and> g_player (peer_a S) = who \<and> g_player (peer_b S) = opposite who \<and>
     line_ab S = [] \<and> line_ba S = [] \<and> to_send (g_sp (peer_a S)) = [] \<and> to_send (g_sp (peer_b S)) = [] \<and>
     (\<exists>b. my_turn (peer_a S) b \<and> types b = ty) \<and>
     (\<exists>b. resting (peer_b S) b \<and> types b = ty) \<and> \<not> g_myTurn (peer_b S) \<and> received (g_sp (peer_b S)) = []"

text \<open>
  The turn of a player: a press on a piece of the player's colour, whatever follows with the
  button down, and a release over the board.
\<close>

definition gesture :: "Game \<Rightarrow> Board \<Rightarrow> nat \<Rightarrow> packet \<Rightarrow> int \<Rightarrow> int \<Rightarrow> Event list \<Rightarrow> packet \<Rightarrow> int \<Rightarrow> int \<Rightarrow> bool" where
  "gesture g b ref p c0 r0 evs q x y \<longleftrightarrow> p_board (g_playing g) = Some b \<and> points_at g p c0 r0 \<and> lb p \<and>
     squares b ! sq_index c0 r0 = Some ref \<and> may_press (g_player g) (ptype (heap b ! ref)) \<and>
     (\<forall>ev\<in>set evs. hold_event ev) \<and> \<not> lb q \<and>
     points_at (g\<lparr>g_cursor := track (g_screen g) (g_cursor g) (mouse_event p # evs)\<rparr>) q x y"

text \<open>
  A round: a turn, and the transmission until nothing is on its way. A move that is made
  takes no king, and does not start or end at the corner (0, 0), whose code the peer takes
  for an empty queue.
\<close>

definition playing_round :: "'w main_env \<Rightarrow> 'v main_env \<Rightarrow> Match \<Rightarrow> Match \<Rightarrow> bool" where
  "playing_round E F S T \<longleftrightarrow> (\<exists>b ref p c0 r0 evs q x y g w w'. gesture (peer_a S) b ref p c0 r0 evs q x y \<and>
     (legal b (heap b ! ref) c0 r0 x y \<longrightarrow> \<not> king_at b x y \<and> (c0, r0) \<noteq> (0, 0) \<and> (x, y) \<noteq> (0, 0)) \<and>
     handle_events E (mouse_event p # evs @ [mouse_event q]) (peer_a S, w) = Some (g, w') \<and>
     (link_step E F)\<^sup>*\<^sup>* (S\<lparr>peer_a := g\<rparr>) T \<and> in_transit T = 0)"

text \<open>
  A move of the rules by one colour from the square \<open>src\<close> to the square \<open>dst\<close>, in the position
  \<open>ty\<close>, when the pawns on the squares of \<open>A\<close> are those that have begun to move.
\<close>

definition rule_move :: "Player \<Rightarrow> nat set \<Rightarrow> PieceType option list \<Rightarrow> nat \<Rightarrow> nat \<Rightarrow> bool" where
  "rule_move who A ty src dst \<longleftrightarrow> (\<exists>b ref c0 r0 x y. board_ok b \<and> types b = ty \<and> advanced b = A \<and> on_sq c0 r0 \<and> on_sq x y \<and>
     squares b ! sq_index c0 r0 = Some ref \<and> is_white (ptype (heap b ! ref)) = (who = WHITE) \<and>
     legal b (heap b ! ref) c0 r0 x y \<and> src = sq_index c0 r0 \<and> dst = sq_index x y)"

text \<open>Those squares, on the board of the machine that plays a colour.\<close>

definition pawns_of :: "Game \<Rightarrow> nat set" where
  "pawns_of g = (case p_board (g_playing g) of None \<Rightarrow> {} | Some b \<Rightarrow> advanced b)"

definition pawns :: "Match \<Rightarrow> Player \<Rightarrow> nat set" where
  "pawns S q = (if q = g_player (peer_a S) then pawns_of (peer_a S)
     else if q = g_player (peer_b S) then pawns_of (peer_b S) else {})"

lemma may_press_colour: "may_press who t \<Longrightarrow> is_white t = (who = WHITE)"
  by (auto simp: may_press_def is_white_num)

lemma turn_sends:
  assumes r: "ready who ty S" and gs: "gesture (peer_a S) b ref p c0 r0 evs q x y"
    and rd: "readable (e_junk E) b (heap b ! ref) c0 r0"
  defines "ok \<equiv> legal b (heap b ! ref) c0 r0 x y"
  shows "\<exists>g b'. handle_events E (mouse_event p # evs @ [mouse_event q]) (peer_a S, w) = Some (g, w) \<and>
    types b' = (if ok then shift (sq_index c0 r0) (sq_index x y) ty else ty) \<and>
    (if ok then carry (sq_index c0 r0) (sq_index x y) (pawns S who) else pawns S who) \<subseteq> advanced b' \<and>
    to_send (g_sp g) = (if ok then [BEGIN_MESSAGE, square_code c0 r0, square_code x y, YOUR_TURN] else []) \<and>
    g_myTurn g = (\<not> ok) \<and> g_endGame g = (ok \<and> on_king x y ty) \<and> resting (g\<lparr>g_endGame := False\<rparr>) b' \<and>
    received (g_sp g) = [] \<and> g_player g = who"
    "(c0, r0) \<noteq> (0, 0) \<Longrightarrow> (x, y) \<noteq> (0, 0) \<Longrightarrow> carried c0 r0 x y ty" "king_at b x y = on_king x y ty"
    "ok \<Longrightarrow> rule_move who (pawns S who) ty (sq_index c0 r0) (sq_index x y)"
proof -
  have b: "p_board (g_playing (peer_a S)) = Some b"
    and g: "points_at (peer_a S) p c0 r0" "lb p" "squares b ! sq_index c0 r0 = Some ref"
      "may_press (g_player (peer_a S)) (ptype (heap b ! ref))" "\<forall>ev\<in>set evs. hold_event ev" "\<not> lb q"
      "points_at ((peer_a S)\<lparr>g_cursor := track (g_screen (peer_a S)) (g_cursor (peer_a S)) (mouse_event p # evs)\<rparr>) q x y"
    using gs by (simp_all add: gesture_def)
  have a: "my_turn (peer_a S) b" "types b = ty" and S: "g_player (peer_a S) = who" "to_send (g_sp (peer_a S)) = []"
    using r b by (auto simp: ready_def my_turn_def resting_def)
  have pw: "pawns S who = advanced b" using b S(1) by (simp add: pawns_def pawns_of_def)
  have room: "length (to_send (g_sp (peer_a S))) \<le> 6" by (simp add: S)
  have o: "on_sq c0 r0" "on_sq x y" using g(1,7) by (simp_all add: points_at_def)
  have bok: "board_ok b" using sceneD(6) a(1) by (auto simp: my_turn_def resting_def)
  have len: "length (squares b) = 64" using bok by (simp add: board_ok_def)
  show king: "king_at b x y = on_king x y ty" using king_at_types [OF bok o(2)] a(2) by simp
  show "\<exists>g b'. handle_events E (mouse_event p # evs @ [mouse_event q]) (peer_a S, w) = Some (g, w) \<and>
    types b' = (if ok then shift (sq_index c0 r0) (sq_index x y) ty else ty) \<and>
    (if ok then carry (sq_index c0 r0) (sq_index x y) (pawns S who) else pawns S who) \<subseteq> advanced b' \<and>
    to_send (g_sp g) = (if ok then [BEGIN_MESSAGE, square_code c0 r0, square_code x y, YOUR_TURN] else []) \<and>
    g_myTurn g = (\<not> ok) \<and> g_endGame g = (ok \<and> on_king x y ty) \<and> resting (g\<lparr>g_endGame := False\<rparr>) b' \<and>
    received (g_sp g) = [] \<and> g_player g = who"
    using turn_result [OF a(1) g(1-4) room g(5,7,6) rd, of w]
    unfolding ok_def [symmetric] Let_def a(2) S append_Nil king pw by blast
  have "ty ! sq_index c0 r0 \<noteq> None"
    using g(3) sq_index_less [OF o(1)] len a(2) by (auto simp: types_nth)
  then show "carried c0 r0 x y ty" if "(c0, r0) \<noteq> (0, 0)" "(x, y) \<noteq> (0, 0)" using o that by (simp add: carried_def)
  have "is_white (ptype (heap b ! ref)) = (who = WHITE)" using may_press_colour [OF g(4)] S(1) by simp
  then show "rule_move who (pawns S who) ty (sq_index c0 r0) (sq_index x y)" if ok
    unfolding rule_move_def pw using bok a(2) o g(3) that [unfolded ok_def] by blast
qed

text \<open>A turn that is handled marked its moves.\<close>

lemma handled_readable:
  assumes r: "ready who ty S" and gs: "gesture (peer_a S) b ref p c0 r0 evs q x y"
    and h: "handle_events E (mouse_event p # rest) (peer_a S, w) = Some r'"
  shows "readable (e_junk E) b (heap b ! ref) c0 r0"
proof (rule ccontr)
  assume n: "\<not> readable (e_junk E) b (heap b ! ref) c0 r0"
  have "my_turn (peer_a S) b" using r gs by (auto simp: ready_def my_turn_def resting_def gesture_def)
  from turn_fails [OF this _ _ _ _ n, of p rest w] gs h show False by (simp add: gesture_def)
qed

lemma turn_underway:
  assumes r: "ready who ty S" and gs: "gesture (peer_a S) b ref p c0 r0 evs q x y"
    and rd: "readable (e_junk E) b (heap b ! ref) c0 r0"
  defines "ok \<equiv> legal b (heap b ! ref) c0 r0 x y"
  assumes nc: "ok \<longrightarrow> \<not> king_at b x y \<and> (c0, r0) \<noteq> (0, 0) \<and> (x, y) \<noteq> (0, 0)"
  shows "\<exists>g. handle_events E (mouse_event p # evs @ [mouse_event q]) (peer_a S, w) = Some (g, w) \<and>
    underway ok c0 r0 x y ty (pawns S who) (pawns S (opposite who)) who (opposite who) (S\<lparr>peer_a := g\<rparr>)"
    "ok \<Longrightarrow> sendable c0 r0 x y ty" "ok \<Longrightarrow> rule_move who (pawns S who) ty (sq_index c0 r0) (sq_index x y)"
proof -
  obtain bb where bb: "resting (peer_b S) bb" "types bb = ty"
    and S: "g_player (peer_b S) = opposite who" "line_ab S = []" "line_ba S = []"
      "to_send (g_sp (peer_b S)) = []" "\<not> g_myTurn (peer_b S)" "received (g_sp (peer_b S)) = []"
      "g_player (peer_a S) = who"
    using r by (auto simp: ready_def)
  have "opposite who \<noteq> who" by (cases who) (simp_all add: opposite_def)
  then have pw: "pawns S (opposite who) = advanced bb"
    using S(1,7) restingD(2) [OF bb(1)] by (simp add: pawns_def pawns_of_def)
  note t = turn_sends [OF r gs rd, folded ok_def]
  obtain g b' where h: "handle_events E (mouse_event p # evs @ [mouse_event q]) (peer_a S, w) = Some (g, w)"
    and k: "types b' = (if ok then shift (sq_index c0 r0) (sq_index x y) ty else ty)"
      "to_send (g_sp g) = (if ok then [BEGIN_MESSAGE, square_code c0 r0, square_code x y, YOUR_TURN] else [])"
      "g_myTurn g = (\<not> ok)" "g_endGame g = (ok \<and> on_king x y ty)" "resting (g\<lparr>g_endGame := False\<rparr>) b'"
      "received (g_sp g) = []" "g_player g = who"
      "(if ok then carry (sq_index c0 r0) (sq_index x y) (pawns S who) else pawns S who) \<subseteq> advanced b'"
    using t(1) [of w] by blast
  have ne: "\<not> g_endGame g" using k(4) nc t(3) by auto
  have "hears ok c0 r0 x y ty (advanced bb) (to_send (g_sp g)) (peer_b S) bb"
    using k(2) S(5) bb(2) by (simp add: hears_def Let_def)
  then have "underway ok c0 r0 x y ty (pawns S who) (pawns S (opposite who)) who (opposite who) (S\<lparr>peer_a := g\<rparr>)"
    unfolding underway_def pw using k resting_not_ended [OF k(5) ne] bb S
    by (intro exI [of _ b'] exI [of _ bb]) simp
  with h show "\<exists>g. handle_events E (mouse_event p # evs @ [mouse_event q]) (peer_a S, w) = Some (g, w) \<and>
    underway ok c0 r0 x y ty (pawns S who) (pawns S (opposite who)) who (opposite who) (S\<lparr>peer_a := g\<rparr>)" by blast
  show "sendable c0 r0 x y ty" if ok using t(2,3) nc that by (simp add: sendable_def)
  show "rule_move who (pawns S who) ty (sq_index c0 r0) (sq_index x y)" if ok by (rule t(4) [OF that])
qed

text \<open>What the end of a transmission leaves.\<close>

lemma underway_done:
  assumes u: "underway ok c0 r0 x y ty B A who (opposite who) T" and "in_transit T = 0" and w: "who \<noteq> NOT_DECIDED"
  shows "if ok then ready (opposite who) (shift (sq_index c0 r0) (sq_index x y) ty) (swap T) else ready who ty T"
    "(if ok then carry (sq_index c0 r0) (sq_index x y) B else B) \<subseteq> pawns T who"
    "(if ok then carry (sq_index c0 r0) (sq_index x y) A else A) \<subseteq> pawns T (opposite who)"
proof -
  have fin: "to_send (g_sp (peer_a T)) = []" "line_ab T = []" "received (g_sp (peer_b T)) = []"
    using assms(2) by (simp_all add: in_transit_def)
  have "opposite (opposite who) = who" using w by (cases who) (simp_all add: opposite_def)
  then show "if ok then ready (opposite who) (shift (sq_index c0 r0) (sq_index x y) ty) (swap T) else ready who ty T"
    using u fin w
    by (cases ok) (auto simp: underway_def ready_def my_turn_def swap_def opposite_def hears_def Let_def)
  obtain ba bb where b: "resting (peer_a T) ba" "g_player (peer_a T) = who" "resting (peer_b T) bb"
    "g_player (peer_b T) = opposite who" "(if ok then carry (sq_index c0 r0) (sq_index x y) B else B) \<subseteq> advanced ba"
    "hears ok c0 r0 x y ty A [] (peer_b T) bb"
    using u fin by (auto simp: underway_def)
  have "opposite who \<noteq> who" by (cases who) (simp_all add: opposite_def)
  then have "pawns T who = advanced ba" "pawns T (opposite who) = advanced bb"
    using b(2,4) restingD(2) [OF b(1)] restingD(2) [OF b(3)] by (simp_all add: pawns_def pawns_of_def)
  then show "(if ok then carry (sq_index c0 r0) (sq_index x y) B else B) \<subseteq> pawns T who"
    "(if ok then carry (sq_index c0 r0) (sq_index x y) A else A) \<subseteq> pawns T (opposite who)"
    using b(5,6) by (auto simp: hears_def Let_def)
qed

text \<open>The squares of advanced pawns only follow their pawns, and grow.\<close>

definition grows :: "(Player \<Rightarrow> nat set) \<Rightarrow> (Player \<Rightarrow> nat set) \<Rightarrow> bool" where
  "grows A B \<longleftrightarrow> A WHITE \<subseteq> B WHITE \<and> A BLACK \<subseteq> B BLACK"

lemma round_plays:
  assumes rd: "playing_round E F S T" and r: "ready who ty S"
  shows "ready who ty T \<and> grows (pawns S) (pawns T) \<or>
    (\<exists>src dst. rule_move who (pawns S who) ty src dst \<and> ready (opposite who) (shift src dst ty) (swap T) \<and>
       grows (\<lambda>q. carry src dst (pawns S q)) (pawns T))"
proof -
  obtain b ref p c0 r0 evs q x y g w w' where gs: "gesture (peer_a S) b ref p c0 r0 evs q x y"
    and nc: "legal b (heap b ! ref) c0 r0 x y \<longrightarrow> \<not> king_at b x y \<and> (c0, r0) \<noteq> (0, 0) \<and> (x, y) \<noteq> (0, 0)"
    and h: "handle_events E (mouse_event p # evs @ [mouse_event q]) (peer_a S, w) = Some (g, w')"
    and l: "(link_step E F)\<^sup>*\<^sup>* (S\<lparr>peer_a := g\<rparr>) T" and fin: "in_transit T = 0"
    using rd unfolding playing_round_def by blast
  define ok where "ok = legal b (heap b ! ref) c0 r0 x y"
  note t = turn_underway [OF r gs handled_readable [OF r gs h] nc, folded ok_def]
  have u: "underway ok c0 r0 x y ty (pawns S who) (pawns S (opposite who)) who (opposite who) (S\<lparr>peer_a := g\<rparr>)"
    using t(1) [of w] h by auto
  have who: "who \<noteq> NOT_DECIDED" using r by (simp add: ready_def)
  note e = underway_done [OF link_run_underway [OF l t(2) u] fin who]
  have both: "grows A B" if "A who \<subseteq> B who" "A (opposite who) \<subseteq> B (opposite who)" for A B :: "Player \<Rightarrow> nat set"
    using that who by (cases who) (simp_all add: grows_def opposite_def)
  show ?thesis
  proof (cases ok)
    case False
    then show ?thesis using e by (simp add: both)
  next
    case True
    have "grows (\<lambda>q. carry (sq_index c0 r0) (sq_index x y) (pawns S q)) (pawns T)"
      by (rule both) (use e(2,3) True in simp_all)
    then show ?thesis using e(1) t(3) [OF True] True by auto
  qed
qed

section \<open>Rounds can be completed\<close>

text \<open>Devices that, sooner or later, take a byte, and deliver the byte on the line.\<close>

definition can_send :: "'w kernel \<Rightarrow> bool" where
  "can_send K \<longleftrightarrow> (\<forall>sp. \<not> queueIsEmpty (transmitQueue sp) \<longrightarrow> (\<exists>w. fst (sp_write K sp w) = 0))"

definition can_get :: "'w kernel \<Rightarrow> bool" where
  "can_get K \<longleftrightarrow> (\<forall>sp x. \<exists>w sp' w'. sp_read K sp w = (0, sp', w') \<and> receiveQueue sp' = addToQueue (receiveQueue sp) x)"

lemma line_progress:
  assumes d: "can_send (e_kernel E)" "can_get (e_kernel F)"
    and ia: "sp_invar (g_sp (peer_a S))" "sp_invar (g_sp (peer_b S))" and l: "length (received (g_sp (peer_b S))) < 10"
    and n: "to_send (g_sp (peer_a S)) \<noteq> [] \<or> line_ab S \<noteq> []"
  shows "\<exists>T. link_step E F S T \<and> in_transit T < in_transit S"
proof (cases "to_send (g_sp (peer_a S)) = []")
  case False
  then have "\<not> queueIsEmpty (transmitQueue (g_sp (peer_a S)))" by (simp add: to_send_def q_empty_iff)
  then obtain w sp w' where w: "sp_write (e_kernel E) (g_sp (peer_a S)) w = (0, sp, w')"
    using d(1) unfolding can_send_def by (metis prod.collapse)
  have "to_send (g_sp (peer_a S)) = fst (removeFromQueue (transmitQueue (g_sp (peer_a S)))) # to_send sp"
    using sp_write_effect [OF w ia(1)] by simp
  then show ?thesis
    using link_step.send [OF w, of F] by (intro exI conjI) (assumption, simp add: in_transit_def)
next
  case True
  then obtain z rest where line: "line_ab S = z # rest" using n by (cases "line_ab S") auto
  obtain w sp w' where w: "sp_read (e_kernel F) (g_sp (peer_b S)) w = (0, sp, w')"
    "receiveQueue sp = addToQueue (receiveQueue (g_sp (peer_b S))) z"
    using d(2) unfolding can_get_def by blast
  note e = sp_read_gets [OF w ia(2) l]
  show ?thesis
    using link_step.arrive [OF line w, of E] e(1) line by (intro exI conjI) (assumption, simp add: in_transit_def)
qed

lemma link_progress:
  assumes d: "can_send (e_kernel E)" "can_get (e_kernel F)" and ss: "sent \<Longrightarrow> sendable c0 r0 x y ty"
    and u: "underway sent c0 r0 x y ty B A p q S" and n: "in_transit S \<noteq> 0"
  shows "\<exists>T. link_step E F S T \<and> in_transit T < in_transit S"
proof -
  obtain ba bb where a: "resting (peer_a S) ba" and b: "resting (peer_b S) bb"
    and hr: "hears sent c0 r0 x y ty A (received (g_sp (peer_b S)) @ line_ab S @ to_send (g_sp (peer_a S))) (peer_b S) bb"
    using u by (auto simp: underway_def)
  show ?thesis
  proof (cases "to_send (g_sp (peer_a S)) \<noteq> [] \<or> line_ab S \<noteq> []")
    case True
    have "length (received (g_sp (peer_b S))) < 10" using hears_length [OF hr] by simp
    then show ?thesis
      using line_progress [OF d sceneD(5) [OF restingD(3) [OF a]] sceneD(5) [OF restingD(3) [OF b]] _ True] by blast
  next
    case False
    then obtain z rest where inn: "received (g_sp (peer_b S)) = z # rest"
      using n by (cases "received (g_sp (peer_b S))") (auto simp: in_transit_def)
    let ?ev = "\<lparr>ev_type = NEW_FRAME, ev_data = Indeterminate\<rparr>"
    have hz: "hears sent c0 r0 x y ty A (z # rest @ line_ab S @ to_send (g_sp (peer_a S))) (peer_b S) bb"
      using hr by (simp add: inn)
    have c: "sent \<Longrightarrow> carried c0 r0 x y ty" using ss by (simp add: sendable_def)
    obtain h' where h': "handle_event F ?ev (peer_b S) undefined = Some (h', undefined)" "received (g_sp h') = rest"
      using frame_hears [OF c b _ hz inn, of ?ev F undefined] by auto
    have "idle_event ?ev" by (simp add: idle_event_def)
    from link_step.idle_b [OF this h'(1), of E] show ?thesis
      using h'(2) inn by (intro exI conjI) (assumption, simp add: in_transit_def)
  qed
qed

lemma link_completes:
  assumes "can_send (e_kernel E)" and "can_get (e_kernel F)" and "sent \<Longrightarrow> sendable c0 r0 x y ty"
    and "underway sent c0 r0 x y ty B A p q S"
  shows "\<exists>T. (link_step E F)\<^sup>*\<^sup>* S T \<and> in_transit T = 0"
  using assms(4)
proof (induction "in_transit S" arbitrary: S rule: less_induct)
  case less
  show ?case
  proof (cases "in_transit S = 0")
    case False
    then obtain S1 where 1: "link_step E F S S1" "in_transit S1 < in_transit S"
      using link_progress [OF assms(1-3) less.prems] by blast
    have "underway sent c0 r0 x y ty B A p q S1" by (rule link_step_underway [OF 1(1) assms(3) less.prems])
    then show ?thesis using less.hyps [OF 1(2)] converse_rtranclp_into_rtranclp [of "link_step E F", OF 1(1)] by blast
  qed auto
qed

lemma round_completes:
  assumes r: "ready who ty S" and gs: "gesture (peer_a S) b ref p c0 r0 evs q x y"
    and rd: "readable (e_junk E) b (heap b ! ref) c0 r0"
    and nc: "legal b (heap b ! ref) c0 r0 x y \<longrightarrow> \<not> king_at b x y \<and> (c0, r0) \<noteq> (0, 0) \<and> (x, y) \<noteq> (0, 0)"
    and d: "can_send (e_kernel E)" "can_get (e_kernel F)"
  shows "\<exists>T. playing_round E F S T \<and>
    (if legal b (heap b ! ref) c0 r0 x y
     then ready (opposite who) (shift (sq_index c0 r0) (sq_index x y) ty) (swap T) else ready who ty T)"
proof -
  define ok where "ok = legal b (heap b ! ref) c0 r0 x y"
  note t = turn_underway [OF r gs rd nc, folded ok_def]
  obtain g where h: "handle_events E (mouse_event p # evs @ [mouse_event q]) (peer_a S, undefined) = Some (g, undefined)"
    and u: "underway ok c0 r0 x y ty (pawns S who) (pawns S (opposite who)) who (opposite who) (S\<lparr>peer_a := g\<rparr>)"
    using t(1) [of undefined] by blast
  obtain T where l: "(link_step E F)\<^sup>*\<^sup>* (S\<lparr>peer_a := g\<rparr>) T" "in_transit T = 0"
    using link_completes [OF d t(2) u] by blast
  have "playing_round E F S T" unfolding playing_round_def using gs nc h l by blast
  moreover have "who \<noteq> NOT_DECIDED" using r by (simp add: ready_def)
  ultimately show ?thesis
    using underway_done(1) [OF link_run_underway [OF l(1) t(2) u] l(2)] unfolding ok_def [symmetric] by blast
qed

section \<open>Games\<close>

text \<open>The machine whose turn it is plays a round.\<close>

definition game_step :: "'w main_env \<Rightarrow> 'v main_env \<Rightarrow> Match \<Rightarrow> Match \<Rightarrow> bool" where
  "game_step E F S T \<longleftrightarrow> g_myTurn (peer_a S) \<and> playing_round E F S T \<or>
     g_myTurn (peer_b S) \<and> (\<exists>T'. playing_round F E (swap S) T' \<and> T = swap T')"

text \<open>
  A game of the rules: the colours alternate, starting with \<open>who\<close> in the position \<open>ty\<close>. \<open>V\<close>
  tells for each colour which pawns have begun to move on the board of its machine; a mark
  of that kind follows its pawn, and may be set but is never lost.
\<close>

inductive played ::
  "Player \<Rightarrow> PieceType option list \<Rightarrow> (Player \<Rightarrow> nat set) \<Rightarrow> Player \<Rightarrow> PieceType option list \<Rightarrow> (Player \<Rightarrow> nat set) \<Rightarrow> bool"
  for who ty V where
  start: "played who ty V who ty V"
| move: "played who ty V p ty1 V1 \<Longrightarrow> rule_move p (V1 p) ty1 src dst \<Longrightarrow>
    played who ty V (opposite p) (shift src dst ty1) (\<lambda>q. carry src dst (V1 q))"
| advance: "played who ty V p ty1 V1 \<Longrightarrow> grows V1 V2 \<Longrightarrow> played who ty V p ty1 V2"

lemma ready_turn: "ready p ty S \<Longrightarrow> g_myTurn (peer_a S) \<and> \<not> g_myTurn (peer_b S)"
  by (auto simp: ready_def my_turn_def)

lemma swap_peers [simp]: "peer_a (swap S) = peer_b S" "peer_b (swap S) = peer_a S"
  by (simp_all add: swap_def)

lemma pawns_swap:
  assumes "ready p ty S" shows "pawns (swap S) = pawns S"
proof -
  have "g_player (peer_a S) \<noteq> g_player (peer_b S)"
    using assms by (cases p) (auto simp: ready_def opposite_def)
  then show ?thesis by (auto simp: pawns_def fun_eq_iff)
qed

lemma round_played:
  assumes "playing_round E F S T" and r: "ready p ty1 S" and pl: "played who ty V p ty1 (pawns S)"
  shows "\<exists>p' ty'. played who ty V p' ty' (pawns T) \<and> (ready p' ty' T \<or> ready p' ty' (swap T))"
  using round_plays [OF assms(1) r]
proof
  assume "ready p ty1 T \<and> grows (pawns S) (pawns T)"
  then show ?thesis using played.advance [OF pl] by blast
next
  assume "\<exists>src dst. rule_move p (pawns S p) ty1 src dst \<and> ready (opposite p) (shift src dst ty1) (swap T) \<and>
    grows (\<lambda>q. carry src dst (pawns S q)) (pawns T)"
  then show ?thesis using played.advance [OF played.move [OF pl]] by blast
qed

lemma game_step_plays:
  assumes "game_step E F S T" and "ready p ty1 S \<or> ready p ty1 (swap S)" and pl: "played who ty V p ty1 (pawns S)"
  shows "\<exists>p' ty'. played who ty V p' ty' (pawns T) \<and> (ready p' ty' T \<or> ready p' ty' (swap T))"
  using assms(2)
proof
  assume r: "ready p ty1 S"
  then have "playing_round E F S T" using assms(1) ready_turn [OF r] by (simp add: game_step_def)
  from round_played [OF this r pl] show ?thesis .
next
  assume r: "ready p ty1 (swap S)"
  then obtain T' where rd: "playing_round F E (swap S) T'" and T: "T = swap T'"
    using assms(1) ready_turn [OF r] by (auto simp: game_step_def)
  have "pawns S = pawns (swap S)" using pawns_swap [OF r] by simp
  with pl have "played who ty V p ty1 (pawns (swap S))" by simp
  from round_played [OF rd r this] obtain p' ty' where *: "played who ty V p' ty' (pawns T')"
    "ready p' ty' T' \<or> ready p' ty' (swap T')" by blast
  have "pawns T = pawns T'" using *(2) pawns_swap [of p' ty' T'] pawns_swap [of p' ty' "swap T'"] unfolding T by auto
  with * show ?thesis unfolding T by auto
qed

section \<open>Properties\<close>

text \<open>C1: Two machines play chess. Let both machines show the same position, with nothing on its way
  and one of them to move. Then after any number of rounds by the machine that is to move,
  with whatever frames, keys and movements of the mouse happen at either machine while the
  piece is held and while the bytes of the move travel one by one, both machines show the
  same position, it is one that alternating moves of the rules lead to, exactly one machine
  is to move, and it is the one whose colour is due. Whether a pawn may take two steps is
  decided by the flag that the machine of its player holds at that time: a pawn whose flag
  was set at the start, or was seen set between two moves, never takes two steps again.
  Two kinds of moves are excluded from these rounds by the definition of \<open>playing_round\<close>: one
  that takes a king, after which the game is over, and one from or to the corner (0, 0),
  which the peer does not hear, so that the two machines no longer show the same position.\<close>
theorem game_follows_rules:
  assumes "(game_step E F)\<^sup>*\<^sup>* S T" and "ready who ty S"
  shows "\<exists>who' ty'. played who ty (pawns S) who' ty' (pawns T) \<and> (ready who' ty' T \<or> ready who' ty' (swap T))"
  using assms
proof (induction)
  case base
  then show ?case using played.start by blast
next
  case (step T U)
  then show ?case using game_step_plays [OF step.hyps(2)] by blast
qed

text \<open>C4: A round can always be completed. On devices that take and deliver bytes, a turn by the player
  to move can be followed by the transmission of everything it queued and its handling by
  the peer; when the rules allow the move, the peer is then to move in the new position, and
  otherwise the same player in the old one. A move that the rules allow is assumed to take no
  king and neither to start nor to end at the corner (0, 0), whose code is the zero byte; and
  the words beside the array that are read to mark the moves of the piece are assumed to be
  readable.\<close>
theorem round_can_be_completed:
  assumes "ready who ty S" and "gesture (peer_a S) b ref p c0 r0 evs q x y"
    and "readable (e_junk E) b (heap b ! ref) c0 r0"
    and "legal b (heap b ! ref) c0 r0 x y \<longrightarrow> \<not> king_at b x y \<and> (c0, r0) \<noteq> (0, 0) \<and> (x, y) \<noteq> (0, 0)"
    and "can_send (e_kernel E)" and "can_get (e_kernel F)"
  shows "\<exists>T. playing_round E F S T \<and>
    (if legal b (heap b ! ref) c0 r0 x y
     then ready (opposite who) (shift (sq_index c0 r0) (sq_index x y) ty) (swap T) else ready who ty T)"
  by (rule round_completes [OF assms])

text \<open>Two machines with a rook and a pawn, and a UART whose data register is the state of the world.\<close>

definition echo_kernel :: "u32 kernel" where
  "echo_kernel = \<lparr>sys_inb = \<lambda>p w. (0, if p = SP_COM + SP_LSR then 0x21 else w, w), sys_outb = \<lambda>_ _ w. (0, w),
     tickdelay = \<lambda>_ w. w, sys_irqsetpolicy = \<lambda>_ _ hook w. (0, hook, w), sys_irqrmpolicy = \<lambda>_ w. (0, w)\<rparr>"

definition echo_env :: "u32 main_env" where
  "echo_env = \<lparr>e_kernel = echo_kernel,
     e_video = \<lparr>vbe_get_mode_info = \<lambda>_ w. (0, vmi_p screen_115, w), sys_privctl = \<lambda>_ w. (0, w),
       vm_map_phys = \<lambda>_ _ w. (True, w), sys_int86 = \<lambda>_ w. (0, w)\<rparr>,
     e_load = (\<lambda>_. Some no_picture), e_mapped = (\<lambda>_. replicate 1440000 0), e_fresh = (\<lambda>_. sample_piece),
     e_block = rook_board, e_junk = (\<lambda>_. Some False), e_free = True,
     e_receive = (\<lambda>w. (\<lparr>msg_r = 0, msg_notify = True, msg_hardware = True, msg_interrupts = 1\<rparr>, w)),
     e_mouse_enable = (\<lambda>w. w), e_sleep = (\<lambda>_ w. w), e_status = 0, e_byte = 0,
     e_queue_mem = replicate 10 0, e_event_mem = replicate 100 no_event, e_image = no_picture\<rparr>"

lemma echo_devices: "can_send (e_kernel echo_env)" "can_get (e_kernel echo_env)"
proof -
  show "can_send (e_kernel echo_env)"
    by (simp add: can_send_def sp_write_def sp_check_write_def echo_env_def echo_kernel_def has_def
        SP_TRANSMITTER_HOLDING_EMPTY_def SP_RECEIVER_def BIT_def split: prod.split)
  have "\<exists>sp' w'. sp_read echo_kernel sp (ucast x) = (0, sp', w') \<and> receiveQueue sp' = addToQueue (receiveQueue sp) x" for sp x
    by (simp add: sp_read_def sp_check_read_def echo_kernel_def has_def SP_RECEIVER_def BIT_def SP_LSR_def SP_RBR_def
        byte_through_port)
  then show "can_get (e_kernel echo_env)" by (simp add: can_get_def echo_env_def) metis
qed

definition rook_match :: "mem \<Rightarrow> Match" where
  "rook_match m = \<lparr>peer_a = rook_game m, peer_b = (rook_game m)\<lparr>g_myTurn := False, g_player := BLACK\<rparr>,
     line_ab = [], line_ba = []\<rparr>"

lemma rook_match:
  "\<exists>m. ready WHITE (types rook_board) (rook_match m) \<and>
     gesture (peer_a (rook_match m)) (rook_board\<lparr>mem_board := m\<rparr>) 0 take_rook 2 2 [one_frame] drop_rook 2 4 \<and>
     readable (e_junk echo_env) (rook_board\<lparr>mem_board := m\<rparr>) (heap (rook_board\<lparr>mem_board := m\<rparr>) ! 0) 2 2 \<and>
     \<not> king_at (rook_board\<lparr>mem_board := m\<rparr>) 2 4 \<and>
     legal (rook_board\<lparr>mem_board := m\<rparr>) (heap (rook_board\<lparr>mem_board := m\<rparr>) ! 0) 2 2 2 4"
proof -
  obtain m where m: "my_turn (rook_game m) (rook_board\<lparr>mem_board := m\<rparr>)" using rook_game_turn by blast
  let ?b = "rook_board\<lparr>mem_board := m\<rparr>"
  have g: "g_screen (rook_game m) = screen_115" "to_send (g_sp (rook_game m)) = []" "received (g_sp (rook_game m)) = []"
    "g_player (rook_game m) = WHITE" "p_board (g_playing (rook_game m)) = Some ?b"
    by (simp_all add: rook_game_def starting_game_def sample_game_def fresh_sp_invar)
  have "types ?b = types rook_board" by (simp add: types_def)
  moreover have "resting ((rook_game m)\<lparr>g_myTurn := False, g_player := BLACK\<rparr>) ?b"
    using m by (simp add: my_turn_def resting_def scene_def)
  ultimately have "ready WHITE (types rook_board) (rook_match m)"
    using m g by (auto simp: ready_def rook_match_def opposite_def)
  moreover have "gesture (peer_a (rook_match m)) ?b 0 take_rook 2 2 [one_frame] drop_rook 2 4"
    using g rook_pointer [of m]
    by (simp add: gesture_def rook_match_def may_press_def hold_event_def one_frame_def take_rook_def drop_rook_def
        sample_packet_def sq_index_def) (simp add: rook_board_def)
  moreover have hp: "heap rook_board ! 0 = sample_piece\<lparr>ptype := w_rook\<rparr>" by (simp add: rook_board_def)
  have "may_go ?b = may_go rook_board" by (rule may_go_cong) simp_all
  moreover have "piece_at ?b 2 4 = Some (sample_piece\<lparr>ptype := b_pawn\<rparr>)"
    using rook_board_at(2) by (simp add: piece_at_def)
  ultimately show ?thesis
    using rook_reaches hp by (intro exI [of _ m]) (simp add: legal_def is_white_num king_at_def readable_def)
qed

theorem round_can_be_completed_witness:
  "\<exists>m T. playing_round echo_env echo_env (rook_match m) T \<and> ready BLACK (shift 18 34 (types rook_board)) (swap T)"
proof -
  obtain m where m: "ready WHITE (types rook_board) (rook_match m)"
    "gesture (peer_a (rook_match m)) (rook_board\<lparr>mem_board := m\<rparr>) 0 take_rook 2 2 [one_frame] drop_rook 2 4"
    "readable (e_junk echo_env) (rook_board\<lparr>mem_board := m\<rparr>) (heap (rook_board\<lparr>mem_board := m\<rparr>) ! 0) 2 2"
    "\<not> king_at (rook_board\<lparr>mem_board := m\<rparr>) 2 4"
    "legal (rook_board\<lparr>mem_board := m\<rparr>) (heap (rook_board\<lparr>mem_board := m\<rparr>) ! 0) 2 2 2 4"
    using rook_match by blast
  have "sq_index 2 2 = 18" "sq_index 2 4 = 34" by (simp_all add: sq_index_def)
  then show ?thesis
    using round_can_be_completed [OF m(1-3) _ echo_devices] m(4,5) by (auto simp: opposite_def)
qed

theorem game_follows_rules_witness:
  "\<exists>m T who ty. (game_step echo_env echo_env)\<^sup>*\<^sup>* (rook_match m) T \<and> T \<noteq> rook_match m \<and>
     played WHITE (types rook_board) (pawns (rook_match m)) who ty (pawns T) \<and> (ready who ty T \<or> ready who ty (swap T))"
proof -
  obtain m where m: "ready WHITE (types rook_board) (rook_match m)"
    "gesture (peer_a (rook_match m)) (rook_board\<lparr>mem_board := m\<rparr>) 0 take_rook 2 2 [one_frame] drop_rook 2 4"
    "readable (e_junk echo_env) (rook_board\<lparr>mem_board := m\<rparr>) (heap (rook_board\<lparr>mem_board := m\<rparr>) ! 0) 2 2"
    "\<not> king_at (rook_board\<lparr>mem_board := m\<rparr>) 2 4"
    "legal (rook_board\<lparr>mem_board := m\<rparr>) (heap (rook_board\<lparr>mem_board := m\<rparr>) ! 0) 2 2 2 4"
    using rook_match by blast
  obtain T where T: "playing_round echo_env echo_env (rook_match m) T"
    "ready BLACK (shift (sq_index 2 2) (sq_index 2 4) (types rook_board)) (swap T)"
    using round_completes [OF m(1-3) _ echo_devices] m(4,5) by (auto simp: opposite_def)
  have "game_step echo_env echo_env (rook_match m) T"
    using T(1) ready_turn [OF m(1)] by (simp add: game_step_def)
  then have run: "(game_step echo_env echo_env)\<^sup>*\<^sup>* (rook_match m) T" by (rule r_into_rtranclp)
  have "T \<noteq> rook_match m" using ready_turn [OF T(2)] ready_turn [OF m(1)] by auto
  then show ?thesis using game_follows_rules [OF run m(1)] run by blast
qed

end
