(* ===== verification/Notify.thy ===== *)
theory Notify
  imports Control
begin

text \<open>
  What handling a notification does to the game and to the event queue, whichever
  interrupts it carries (\<open>proj/src/main.c\<close>): the game changes in its serial port only, as
  the handler of \<open>proj/src/serialPort.c\<close> changes it, and the events pushed are real ones.
\<close>

section \<open>The events the interrupt handlers push\<close>

text \<open>A mouse event carries a packet.\<close>

definition proper_event :: "Event \<Rightarrow> bool" where
  "proper_event ev \<longleftrightarrow> (ev_type ev = MOUSE \<longrightarrow> (\<exists>p. ev_data ev = MousePacket p))"

definition real_events :: "EventQueue \<Rightarrow> bool" where
  "real_events q \<longleftrightarrow> (\<forall>ev\<in>set (eq_stack q). proper_event ev \<and> ev_type ev \<noteq> NO_EVENT)"

lemma real_push:
  "eq_invar q \<Longrightarrow> real_events q \<Longrightarrow> proper_event ev \<Longrightarrow> ev_type ev \<noteq> NO_EVENT \<Longrightarrow>
   eq_invar (pushEvent q ev) \<and> real_events (pushEvent q ev)"
  by (simp add: real_events_def pushEvent_invar pushEvent_stack)

section \<open>Notifications\<close>

text \<open>From \<open>ms\<close> to \<open>ms'\<close> only the serial port of the game changed, as \<open>R\<close> allows, and real events came in.\<close>

definition served :: "(SerialPort \<Rightarrow> SerialPort \<Rightarrow> bool) \<Rightarrow> MainState \<Rightarrow> MainState \<Rightarrow> bool" where
  "served R ms ms' \<longleftrightarrow>
     (\<exists>sp. m_game ms' = (m_game ms)\<lparr>g_sp := sp\<rparr> \<and> R (g_sp (m_game ms)) sp) \<and>
     (eq_invar (m_events ms) \<and> real_events (m_events ms) \<longrightarrow> eq_invar (m_events ms') \<and> real_events (m_events ms'))"

text \<open>What is asked of the interrupt handler of the serial port: it changes the port as \<open>R\<close> allows.\<close>

locale serial_service =
  fixes K :: "'w kernel"
    and R :: "SerialPort \<Rightarrow> SerialPort \<Rightarrow> bool"
  assumes same: "R sp sp"
    and trans: "R a b \<Longrightarrow> R b c \<Longrightarrow> R a c"
    and handled: "sp_ih K sp w = (v, sp', w') \<Longrightarrow> R sp sp'"
begin

lemma served_same: "m_game ms' = m_game ms \<Longrightarrow> m_events ms' = m_events ms \<Longrightarrow> served R ms ms'"
  unfolding served_def by (intro conjI exI [of _ "g_sp (m_game ms)"]) (simp_all add: same)

lemma served_push:
  "m_game ms' = m_game ms \<Longrightarrow> m_events ms' = pushEvent (m_events ms) ev \<Longrightarrow> proper_event ev \<Longrightarrow>
   ev_type ev \<noteq> NO_EVENT \<Longrightarrow> served R ms ms'"
  unfolding served_def by (intro conjI exI [of _ "g_sp (m_game ms)"]) (simp_all add: real_push same)

lemma served_trans:
  assumes "served R a b" and "served R b c"
  shows "served R a c"
proof -
  obtain sp sp' where "m_game b = (m_game a)\<lparr>g_sp := sp\<rparr>" "R (g_sp (m_game a)) sp"
    "m_game c = (m_game b)\<lparr>g_sp := sp'\<rparr>" "R (g_sp (m_game b)) sp'"
    using assms unfolding served_def by blast
  then have "\<exists>sp. m_game c = (m_game a)\<lparr>g_sp := sp\<rparr> \<and> R (g_sp (m_game a)) sp"
    using trans [of _ sp sp'] by (intro exI [of _ sp']) simp
  then show ?thesis using assms by (simp add: served_def)
qed

lemma notify_served:
  assumes e: "e_kernel E = K" and n: "on_notify E i ms w = Some (ms', w')"
  shows "served R ms ms'"
proof -
  define ms1 where "ms1 = (if has i (ucast (irq_set_timer ms)) then on_timer ms else ms)"
  have 1: "served R ms ms1"
    by (auto simp: ms1_def on_timer_def proper_event_def intro: served_same served_push)
  obtain ms2 w2 where 2: "(if has i (irq_set_sp ms) then on_serial E ms1 w else (ms1, w)) = (ms2, w2)" by force
  have 12: "served R ms1 ms2"
  proof (cases "has i (irq_set_sp ms)")
    case True
    obtain v sp1 w1 where s: "sp_ih (e_kernel E) (g_sp (m_game ms1)) w = (v, sp1, w1)" by (cases rule: prod_cases3)
    then have "ms2 = ms1\<lparr>m_game := (m_game ms1)\<lparr>g_sp := sp1\<rparr>\<rparr>" using 2 True by (simp add: on_serial_def)
    then show ?thesis using handled [OF s [unfolded e]] by (auto simp: served_def)
  next
    case False
    then show ?thesis using 2 by (auto intro: served_same)
  qed
  obtain ms3 w3 where 3: "(if has i (irq_set_mouse ms) then on_mouse E ms2 w2 else Some (ms2, w2)) = Some (ms3, w3)"
    and 4: "(if has i (ucast (irq_set_kb ms)) then on_keyboard E ms3 w3 else Some (ms3, w3)) = Some (ms', w')"
    using n unfolding on_notify_def Let_def ms1_def [symmetric] 2 prod.case by (auto split: bind_splits)
  have 23: "served R ms2 ms3"
  proof (cases "has i (irq_set_mouse ms)")
    case True
    then have "m_game ms3 = m_game ms2 \<and> (m_events ms3 = m_events ms2 \<or>
        (\<exists>p. m_events ms3 = pushEvent (m_events ms2) \<lparr>ev_type = MOUSE, ev_data = MousePacket p\<rparr>))"
      using 3 by (auto simp: on_mouse_def Let_def split: bind_splits if_splits)
    then show ?thesis by (auto simp: proper_event_def intro: served_same served_push)
  next
    case False
    then show ?thesis using 3 by (auto intro: served_same)
  qed
  have 34: "served R ms3 ms'"
  proof (cases "has i (ucast (irq_set_kb ms))")
    case True
    obtain r kb1 w1 where k: "keyboard_int_handler (e_kernel E) (m_kb ms3) w3 = (r, kb1, w1)" by (cases rule: prod_cases3)
    let ?ms = "ms3\<lparr>m_kb := kb1\<rparr>"
    have "m_game ms' = m_game ms3 \<and> (m_events ms' = m_events ms3 \<or>
        (\<exists>c. m_events ms' = pushEvent (m_events ms3) \<lparr>ev_type = KEYBOARD, ev_data = ScanCode c\<rparr>))"
      using 4 True
      by (auto simp: on_keyboard_def k Let_def take_scancode_def store_scancode_def split: if_splits bind_splits)
    then show ?thesis by (auto simp: proper_event_def intro: served_same served_push)
  next
    case False
    then show ?thesis using 4 by (auto intro: served_same)
  qed
  show ?thesis by (rule served_trans [OF 1 served_trans [OF 12 served_trans [OF 23 34]]])
qed

text \<open>A notification that is not one of the hardware changes nothing.\<close>

lemma message_served:
  assumes "e_kernel E = K"
    and "(if hw then on_notify E i ms w else Some (ms, w)) = Some (ms', w')"
  shows "served R ms ms'"
  using assms notify_served [of E i ms w ms' w'] served_same [of ms ms] by (auto split: if_splits)

end

text \<open>The handler keeps the queues well-formed, on every device.\<close>

interpretation sp_safe: serial_service K "\<lambda>a b. sp_invar a \<longrightarrow> sp_invar b" for K
proof
  show "sp_invar sp \<longrightarrow> sp_invar sp'" if "sp_ih K sp w = (v, sp', w')" for sp w v sp' w'
    using sp_ih_invar [of sp K w] that by simp
qed simp_all

end
