(* ===== verification/Ending.thy ===== *)
theory Ending
  imports Rounds Notify
begin

text \<open>
  The end of a game. The capture of a king ends the program of the player who makes it at
  the next event, and the program of the other player when the second square of the move is
  received (\<open>proj/src/main.c\<close>, \<open>proj/src/serialPort.c\<close>).
\<close>

section \<open>Events at the end\<close>

text \<open>After EXIT the events that are still queued move and draw the cursor, no more.\<close>

definition only_shown :: "Game \<Rightarrow> Game \<Rightarrow> bool" where
  "only_shown g g' \<longleftrightarrow> g_state g' = g_state g \<and> g_won g' = g_won g \<and> g_endGame g' = g_endGame g \<and>
     g_playing g' = g_playing g \<and> g_sp g' = g_sp g \<and> g_myTurn g' = g_myTurn g"

lemma exit_event:
  assumes st: "g_state g = EXIT" and pb: "p_board (g_playing g) = Some b" and sc: "scene g b" and ev: "proper_event ev"
  shows "\<exists>g'. handle_event E ev g w = Some (g', w) \<and> scene g' b \<and> only_shown g g'"
proof (cases "ev_type ev")
  case NO_EVENT
  then show ?thesis using sc by (simp add: handle_event_def only_shown_def)
next
  case KEYBOARD
  then show ?thesis using st sc by (simp add: handle_event_def inputHandler_def only_shown_def)
next
  case MOUSE
  then obtain p where "ev_data ev = MousePacket p" using ev by (auto simp: proper_event_def)
  then show ?thesis
    using MOUSE st cursor_scene [OF sceneD(1) [OF sc] sc, of p]
    by (simp add: handle_event_def inputHandler_def only_shown_def)
next
  case NEW_FRAME
  have "in_play g" using pb sc by (auto simp: in_play_def)
  then obtain v where v: "drawCursor (g_screen g) (g_buffer g) (Some (g_cursor g)) = Some v"
    "copy_from_buffer (g_screen g) (g_video_mem g) v = Some v" "in_play (g\<lparr>g_buffer := v, g_video_mem := v\<rparr>)"
    using shown_frame by blast
  then have "scene (g\<lparr>g_buffer := v, g_video_mem := v\<rparr>) b" using pb by (simp add: in_play_def)
  then show ?thesis
    using v(1,2) NEW_FRAME st by (simp add: handle_event_def inputHandler_def only_shown_def)
qed

lemma over_event:
  assumes "over won g b" and "proper_event ev"
  shows "\<exists>g'. handle_event E ev g w = Some (g', w) \<and> over won g' b \<and> g_sp g' = g_sp g"
  using exit_event [of g b ev E w] assms by (auto simp: over_def only_shown_def)

text \<open>The winner, from the capture on.\<close>

definition closing :: "Game \<Rightarrow> Board \<Rightarrow> bool" where
  "closing g b \<longleftrightarrow> scene g b \<and> p_board (g_playing g) = Some b \<and> dragging_piece (g_playing g) = None \<and>
     \<not> g_myTurn g \<and> g_endGame g \<and> received (g_sp g) = [] \<and>
     (g_state g = PLAYING \<or> g_state g = EXIT \<and> g_won g)"

lemma closing_play:
  assumes cl: "closing g b" and st: "g_state g = PLAYING"
  shows "\<exists>b' g'. playing_ih E ev g w = Some (g', w) \<and> closing g' b' \<and> types b' = types b \<and>
    to_send (g_sp g') = to_send (g_sp g) \<and> g_state g' = EXIT"
proof -
  let ?e = "g\<lparr>g_won := True, g_state := EXIT\<rparr>"
  have c: "scene ?e b" "p_board (g_playing g) = Some b" "dragging_piece (g_playing g) = None" "\<not> g_myTurn g"
    "g_endGame g" "received (g_sp g) = []"
    using cl by (simp_all add: closing_def)
  have run: "\<exists>b' g'. playing_ih E ev g w = Some (g', w) \<and> closing g' b' \<and> types b' = types b \<and>
    to_send (g_sp g') = to_send (g_sp g) \<and> g_state g' = EXIT"
    if "play_event E ev b ?e = Some (b3, g3)" "closing (g3\<lparr>g_playing := (g_playing g3)\<lparr>p_board := Some b3\<rparr>\<rparr>) b3"
      "types b3 = types b" "to_send (g_sp g3) = to_send (g_sp g)" "g_state g3 = EXIT" for b3 g3
    using that c(2,5)
    by (intro exI [of _ b3] exI [of _ "g3\<lparr>g_playing := (g_playing g3)\<lparr>p_board := Some b3\<rparr>\<rparr>"])
      (simp add: playing_ih_eq playing_setup_done ended_def)
  show ?thesis
  proof (cases "ev_type ev")
    case NO_EVENT
    then show ?thesis using c by (intro run [of b ?e]) (simp_all add: play_event_def closing_def scene_def drag_ok_def)
  next
    case KEYBOARD
    let ?k = "if has (ev_scanCode ev) (BIT 7) \<and> ev_scanCode ev = 0xac then ?e\<lparr>g_animation := \<not> g_animation ?e\<rparr> else ?e"
    have "play_event E ev b ?e = Some (b, ?k)" using KEYBOARD by (simp add: play_event_def)
    then show ?thesis by (rule run) (use c in \<open>simp_all add: closing_def scene_def drag_ok_def\<close>)
  next
    case MOUSE
    then show ?thesis using c by (intro run [of b ?e]) (simp_all add: play_event_def playing_mouse_def closing_def scene_def drag_ok_def)
  next
    case NEW_FRAME
    obtain v b1 sp where f: "playing_frame b ?e = receive_byte (next_byte ?e) b1 (?e\<lparr>g_buffer := v, g_sp := sp\<rparr>)"
      "scene (?e\<lparr>g_buffer := v, g_sp := sp\<rparr>) b1" "alike b b1" "received sp = tl (received (g_sp ?e))"
      "to_send sp = to_send (g_sp ?e)"
      using frame_draws [OF c(1)] by blast
    have "next_byte ?e = 0" using c(6) by (simp add: next_byte_def)
    then have "play_event E ev b ?e = Some (b1, ?e\<lparr>g_buffer := v, g_sp := sp\<rparr>)"
      using NEW_FRAME f(1) by (simp add: play_event_def receive_byte_def Let_def BEGIN_MESSAGE_def YOUR_TURN_def)
    then show ?thesis
      by (rule run) (use c f alike_types [OF f(3)] in \<open>simp_all add: closing_def scene_def drag_ok_def\<close>)
  qed
qed

lemma closing_event:
  assumes cl: "closing g b" and ev: "proper_event ev"
  shows "\<exists>g' b'. handle_event E ev g w = Some (g', w) \<and> closing g' b' \<and> types b' = types b \<and>
    to_send (g_sp g') = to_send (g_sp g) \<and> (g_state g = EXIT \<or> ev_type ev \<noteq> NO_EVENT \<longrightarrow> g_state g' = EXIT)"
proof (cases "g_state g = EXIT")
  case True
  have "p_board (g_playing g) = Some b" "scene g b" using cl by (simp_all add: closing_def)
  from exit_event [OF True this ev, of E w] obtain g' where
    "handle_event E ev g w = Some (g', w)" "scene g' b" "only_shown g g'" by blast
  then show ?thesis using cl True by (intro exI [of _ g'] exI [of _ b]) (auto simp: closing_def only_shown_def)
next
  case False
  then have st: "g_state g = PLAYING" using cl by (auto simp: closing_def)
  show ?thesis
  proof (cases "ev_type ev")
    case NO_EVENT
    then show ?thesis using cl False by (auto simp: handle_event_def)
  next
    case KEYBOARD
    then show ?thesis
      using closing_play [OF cl st, of "base_env E" ev w] st by (auto simp: handle_event_def inputHandler_def)
  next
    case MOUSE
    then obtain p where p: "ev_data ev = MousePacket p" using ev by (auto simp: proper_event_def)
    let ?g = "g\<lparr>g_cursor := updateCursor (g_screen g) (g_cursor g) p\<rparr>"
    have "scene g b" using cl by (simp add: closing_def)
    from cursor_scene [OF sceneD(1) [OF this] this, of p] have "closing ?g b" using cl by (simp add: closing_def)
    from closing_play [OF this, of "base_env E" ev w] show ?thesis
      using MOUSE p st by (auto simp: handle_event_def inputHandler_def)
  next
    case NEW_FRAME
    obtain b' g' where g': "playing_ih (base_env E) ev g w = Some (g', w)" "closing g' b'" "types b' = types b"
      "to_send (g_sp g') = to_send (g_sp g)" "g_state g' = EXIT"
      using closing_play [OF cl st, of "base_env E" ev w] by blast
    have "in_play g'" using g'(2) by (simp add: in_play_def closing_def)
    then obtain v where v: "drawCursor (g_screen g') (g_buffer g') (Some (g_cursor g')) = Some v"
      "copy_from_buffer (g_screen g') (g_video_mem g') v = Some v" "in_play (g'\<lparr>g_buffer := v, g_video_mem := v\<rparr>)"
      using shown_frame by blast
    have pb: "p_board (g_playing g') = Some b'" using g'(2) by (simp add: closing_def)
    then have "scene (g'\<lparr>g_buffer := v, g_video_mem := v\<rparr>) b'" using v(3) by (simp add: in_play_def)
    then have "closing (g'\<lparr>g_buffer := v, g_video_mem := v\<rparr>) b'" using g'(2) by (simp add: closing_def)
    moreover have "handle_event E ev g w = Some (g'\<lparr>g_buffer := v, g_video_mem := v\<rparr>, w)"
      using v(1,2) g'(1) NEW_FRAME st by (simp add: handle_event_def inputHandler_def)
    ultimately show ?thesis
      using g'(3-5) by (intro exI [of _ "g'\<lparr>g_buffer := v, g_video_mem := v\<rparr>"] exI [of _ b']) simp
  qed
qed

section \<open>The last move on its way\<close>

definition finished :: "PieceType option list \<Rightarrow> Match \<Rightarrow> bool" where
  "finished ty S \<longleftrightarrow> (\<exists>ba bb. over True (peer_a S) ba \<and> types ba = ty \<and> over False (peer_b S) bb \<and> types bb = ty)"

text \<open>The winner shows the last position; the other machine waits for the bytes, or has taken the king too.\<close>

definition mated :: "int \<Rightarrow> int \<Rightarrow> int \<Rightarrow> int \<Rightarrow> PieceType option list \<Rightarrow> Match \<Rightarrow> bool" where
  "mated c0 r0 x y ty S \<longleftrightarrow> (\<exists>ba bb. closing (peer_a S) ba \<and> types ba = shift (sq_index c0 r0) (sq_index x y) ty \<and>
     (resting (peer_b S) bb \<and> 2 \<le> length (received (g_sp (peer_b S)) @ line_ab S @ to_send (g_sp (peer_a S))) \<and>
        hears True c0 r0 x y ty {} (received (g_sp (peer_b S)) @ line_ab S @ to_send (g_sp (peer_a S))) (peer_b S) bb \<or>
      over False (peer_b S) bb \<and> types bb = shift (sq_index c0 r0) (sq_index x y) ty))"

lemma closing_sp: "closing g b \<Longrightarrow> sp_invar sp \<Longrightarrow> received sp = [] \<Longrightarrow> closing (g\<lparr>g_sp := sp\<rparr>) b"
  by (simp add: closing_def scene_def)

lemma over_sp: "over won g b \<Longrightarrow> sp_invar sp \<Longrightarrow> over won (g\<lparr>g_sp := sp\<rparr>) b"
  by (simp add: over_def scene_def)

lemma idle_proper: "idle_event ev \<Longrightarrow> proper_event ev"
  by (auto simp: idle_event_def proper_event_def)

lemma hears_last:
  "hears True c0 r0 x y ty {} [YOUR_TURN] h b \<Longrightarrow> types b = shift (sq_index c0 r0) (sq_index x y) ty"
  "hears True c0 r0 x y ty {} [z] h b \<Longrightarrow> z = YOUR_TURN"
  by (auto simp: hears_def Let_def)

text \<open>The other machine handles an event.\<close>

lemma mated_idle_b:
  assumes c: "carried c0 r0 x y ty" and king: "on_king x y ty" and r: "resting h b"
    and hr: "hears True c0 r0 x y ty {} (received (g_sp h) @ way) h b" and l: "2 \<le> length (received (g_sp h) @ way)"
    and ev: "idle_event ev"
  shows "\<exists>h' b'. handle_event F ev h w = Some (h', w) \<and> length (received (g_sp h')) \<le> length (received (g_sp h)) \<and>
    (ev_type ev = NEW_FRAME \<and> received (g_sp h) \<noteq> [] \<longrightarrow> length (received (g_sp h')) < length (received (g_sp h))) \<and>
    (resting h' b' \<and> 2 \<le> length (received (g_sp h') @ way) \<and> hears True c0 r0 x y ty {} (received (g_sp h') @ way) h' b' \<or>
     over False h' b' \<and> types b' = shift (sq_index c0 r0) (sq_index x y) ty)"
proof (cases "ev_type ev = NEW_FRAME \<and> received (g_sp h) \<noteq> []")
  case False
  then obtain h' b' where "handle_event F ev h w = Some (h', w)" and st: "still h b h' b'"
    using idle_still [OF r ev, of F w] by blast
  moreover have "resting h' b'" "received (g_sp h') = received (g_sp h)" using st by (simp_all add: still_def)
  ultimately show ?thesis using False l hears_still [OF hr st] by (intro exI [of _ h'] exI [of _ b']) simp
next
  case True
  then obtain z rest where z: "received (g_sp h) = z # rest" by (cases "received (g_sp h)") auto
  have hz: "hears True c0 r0 x y ty {} (z # rest @ way) h b" using hr by (simp add: z)
  obtain h' b' where h': "handle_event F ev h w = Some (h', w)" "hears True c0 r0 x y ty {} (rest @ way) h' b'"
    "if decides x y ty (rest @ way) then over False h' b' else resting h' b'" "received (g_sp h') = rest"
    using frame_hears [OF c r conjunct1 [OF True] hz z, of F w] by blast
  have "over False h' b' \<and> types b' = shift (sq_index c0 r0) (sq_index x y) ty \<or> resting h' b' \<and> 2 \<le> length (rest @ way)"
  proof (cases "rest @ way = [YOUR_TURN]")
    case True
    then show ?thesis using h'(2,3) king hears_last(1) by (simp add: decides_def)
  next
    case False
    then have "resting h' b'" using h'(3) by (simp add: decides_def)
    moreover have "length (rest @ way) \<noteq> 1"
    proof
      assume "length (rest @ way) = 1"
      then obtain v where "rest @ way = [v]" by (metis One_nat_def length_0_conv length_Suc_conv)
      then show False using h'(2) hears_last(2) False by metis
    qed
    ultimately show ?thesis using l z by simp
  qed
  then show ?thesis using h' z by (intro exI [of _ h'] exI [of _ b']) auto
qed

lemma link_step_mated:
  assumes "link_step E F S T" and c: "carried c0 r0 x y ty" and king: "on_king x y ty" and m: "mated c0 r0 x y ty S"
  shows "mated c0 r0 x y ty T"
proof -
  let ?pend = "\<lambda>S. received (g_sp (peer_b S)) @ line_ab S @ to_send (g_sp (peer_a S))"
  let ?ty = "shift (sq_index c0 r0) (sq_index x y) ty"
  obtain ba bb where a: "closing (peer_a S) ba" "types ba = ?ty"
    and b: "resting (peer_b S) bb \<and> 2 \<le> length (?pend S) \<and> hears True c0 r0 x y ty {} (?pend S) (peer_b S) bb \<or>
      over False (peer_b S) bb \<and> types bb = ?ty"
    using m by (auto simp: mated_def)
  have ra: "received (g_sp (peer_a S)) = []" and ia: "sp_invar (g_sp (peer_a S))" and ib: "sp_invar (g_sp (peer_b S))"
    using a(1) b sceneD(5) restingD(3) by (auto simp: closing_def over_def)
  have keep: "mated c0 r0 x y ty T" if "closing (peer_a T) ba'" "types ba' = ?ty"
    "resting (peer_b T) bb' \<and> 2 \<le> length (?pend T) \<and> hears True c0 r0 x y ty {} (?pend T) (peer_b T) bb' \<or>
      over False (peer_b T) bb' \<and> types bb' = ?ty" for ba' bb'
    unfolding mated_def using that by (intro exI [of _ ba'] exI [of _ bb'] conjI)
  from assms(1) show ?thesis
  proof cases
    case 1: (send w sp w')
    have e: "sp_invar sp" "received sp = received (g_sp (peer_a S))" and
      t: "to_send (g_sp (peer_a S)) = fst (removeFromQueue (transmitQueue (g_sp (peer_a S)))) # to_send sp"
      using sp_write_effect [OF 1(2) ia] by simp_all
    show ?thesis
      by (rule keep [of ba bb]) (use a b t closing_sp [OF a(1) e(1)] e(2) ra in \<open>simp_all add: 1(1)\<close>)
  next
    case 2: (arrive z rest w sp w')
    have i: "sp_invar sp" using sp_read_invar [OF ib, of "e_kernel F" w] 2(3) by simp
    have "received sp = received (g_sp (peer_b S)) @ [z]"
      if "hears True c0 r0 x y ty {} (?pend S) (peer_b S) bb"
      using sp_read_gets(1) [OF 2(3,4) ib] hears_length [OF that] by simp
    then have "resting (peer_b T) bb \<and> 2 \<le> length (?pend T) \<and> hears True c0 r0 x y ty {} (?pend T) (peer_b T) bb \<or>
      over False (peer_b T) bb \<and> types bb = ?ty"
      using b over_sp [OF _ i] resting_sp [OF _ i] 2(2) by (auto simp: 2(1) hears_sp)
    then show ?thesis by (rule keep [of ba bb, rotated 2]) (use a in \<open>simp_all add: 2(1)\<close>)
  next
    case 3: (idle_a ev w g w')
    obtain g' b' where "handle_event E ev (peer_a S) w = Some (g', w)" and st: "closing g' b'" "types b' = types ba"
      "to_send (g_sp g') = to_send (g_sp (peer_a S))"
      using closing_event [OF a(1) idle_proper [OF 3(2)], of E w] by blast
    then have "g' = g" using 3(3) by simp
    then show ?thesis by (intro keep [of b' bb]) (use a b st in \<open>simp_all add: 3(1)\<close>)
  next
    case 4: (idle_b ev w h w')
    have "\<exists>b'. resting h b' \<and> 2 \<le> length (?pend T) \<and> hears True c0 r0 x y ty {} (?pend T) h b' \<or>
      over False h b' \<and> types b' = ?ty"
    proof (cases "over False (peer_b S) bb \<and> types bb = ?ty")
      case True
      then show ?thesis using over_event [of False "peer_b S" bb ev F w] idle_proper [OF 4(2)] 4(3) by auto
    next
      case False
      with b have r: "resting (peer_b S) bb" "2 \<le> length (?pend S)" "hears True c0 r0 x y ty {} (?pend S) (peer_b S) bb"
        by simp_all
      from mated_idle_b [OF c king r(1,3,2) 4(2), of F w] show ?thesis using 4(3) by (auto simp: 4(1))
    qed
    then obtain b' where "resting h b' \<and> 2 \<le> length (?pend T) \<and> hears True c0 r0 x y ty {} (?pend T) h b' \<or>
      over False h b' \<and> types b' = ?ty" by blast
    then show ?thesis by (intro keep [of ba b']) (use a in \<open>simp_all add: 4(1)\<close>)
  qed
qed

text \<open>On working devices the move arrives, and then both programs leave the game.\<close>

lemma mated_progress:
  assumes d: "can_send (e_kernel E)" "can_get (e_kernel F)" and c: "carried c0 r0 x y ty" and king: "on_king x y ty"
    and m: "mated c0 r0 x y ty S" and n: "g_state (peer_b S) \<noteq> EXIT"
  shows "\<exists>T. link_step E F S T \<and> in_transit T < in_transit S"
proof -
  let ?pend = "received (g_sp (peer_b S)) @ line_ab S @ to_send (g_sp (peer_a S))"
  obtain ba bb where a: "closing (peer_a S) ba" and b: "resting (peer_b S) bb" "2 \<le> length ?pend"
    "hears True c0 r0 x y ty {} ?pend (peer_b S) bb"
    using m n by (auto simp: mated_def over_def)
  have ia: "sp_invar (g_sp (peer_a S))" "sp_invar (g_sp (peer_b S))"
    using a sceneD(5) restingD(3) [OF b(1)] by (auto simp: closing_def)
  show ?thesis
  proof (cases "to_send (g_sp (peer_a S)) \<noteq> [] \<or> line_ab S \<noteq> []")
    case True
    have "length (received (g_sp (peer_b S))) < 10" using hears_length [OF b(3)] by simp
    then show ?thesis using line_progress [OF d ia _ True] by blast
  next
    case False
    let ?ev = "\<lparr>ev_type = NEW_FRAME, ev_data = Indeterminate\<rparr>"
    have i: "idle_event ?ev" and ne: "received (g_sp (peer_b S)) \<noteq> []" using b(2) False by (auto simp: idle_event_def)
    obtain h' where h': "handle_event F ?ev (peer_b S) undefined = Some (h', undefined)"
      "length (received (g_sp h')) < length (received (g_sp (peer_b S)))"
      using mated_idle_b [OF c king b(1,3,2) i, of F undefined] ne by auto
    from link_step.idle_b [OF i h'(1), of E] show ?thesis
      using h'(2) by (intro exI conjI) (assumption, simp add: in_transit_def)
  qed
qed

lemma mated_finishes:
  assumes d: "can_send (e_kernel E)" "can_get (e_kernel F)" and c: "carried c0 r0 x y ty" and king: "on_king x y ty"
  shows "mated c0 r0 x y ty S \<Longrightarrow>
    \<exists>T. (link_step E F)\<^sup>*\<^sup>* S T \<and> finished (shift (sq_index c0 r0) (sq_index x y) ty) T"
proof (induction "in_transit S" arbitrary: S rule: less_induct)
  case less
  show ?case
  proof (cases "g_state (peer_b S) = EXIT")
    case False
    then obtain S1 where 1: "link_step E F S S1" "in_transit S1 < in_transit S"
      using mated_progress [OF d c king less.prems] by blast
    then show ?thesis
      using less.hyps [OF 1(2) link_step_mated [OF 1(1) c king less.prems]]
        converse_rtranclp_into_rtranclp [of "link_step E F", OF 1(1)] by blast
  next
    case True
    let ?ev = "\<lparr>ev_type = KEYBOARD, ev_data = Indeterminate\<rparr>"
    obtain ba bb where a: "closing (peer_a S) ba" "types ba = shift (sq_index c0 r0) (sq_index x y) ty"
      and b: "over False (peer_b S) bb" "types bb = shift (sq_index c0 r0) (sq_index x y) ty"
      using less.prems True by (auto simp: mated_def resting_def)
    have i: "idle_event ?ev" by (simp add: idle_event_def)
    obtain g' b' where g': "handle_event E ?ev (peer_a S) undefined = Some (g', undefined)" "closing g' b'"
      "types b' = types ba" "g_state g' = EXIT"
      using closing_event [OF a(1) idle_proper [OF i], of E undefined] by auto
    have "over True g' b'" using g'(2,4) by (simp add: closing_def over_def)
    then have "finished (shift (sq_index c0 r0) (sq_index x y) ty) (S\<lparr>peer_a := g'\<rparr>)"
      using g'(3) a(2) b by (auto simp: finished_def)
    then show ?thesis using link_step.idle_a [OF i g'(1), of F] by blast
  qed
qed

text \<open>A turn that takes the king leads there.\<close>

lemma turn_mates:
  assumes r: "ready who ty S" and gs: "gesture (peer_a S) b ref p c0 r0 evs q x y"
    and rd: "readable (e_junk E) b (heap b ! ref) c0 r0"
    and ok: "legal b (heap b ! ref) c0 r0 x y" and k: "king_at b x y" and nc: "(c0, r0) \<noteq> (0, 0)" "(x, y) \<noteq> (0, 0)"
  shows "\<exists>g. handle_events E (mouse_event p # evs @ [mouse_event q]) (peer_a S, w) = Some (g, w) \<and>
    mated c0 r0 x y ty (S\<lparr>peer_a := g\<rparr>)" "carried c0 r0 x y ty" "on_king x y ty"
proof -
  note t = turn_sends [OF r gs rd]
  show "carried c0 r0 x y ty" "on_king x y ty" using t(2) [OF nc] t(3) k by simp_all
  obtain bb where bb: "resting (peer_b S) bb" "types bb = ty"
    and S: "line_ab S = []" "\<not> g_myTurn (peer_b S)" "received (g_sp (peer_b S)) = []"
    using r by (auto simp: ready_def)
  obtain g b' where h: "handle_events E (mouse_event p # evs @ [mouse_event q]) (peer_a S, w) = Some (g, w)"
    and g: "types b' = shift (sq_index c0 r0) (sq_index x y) ty"
      "to_send (g_sp g) = [BEGIN_MESSAGE, square_code c0 r0, square_code x y, YOUR_TURN]"
      "\<not> g_myTurn g" "g_endGame g" "resting (g\<lparr>g_endGame := False\<rparr>) b'" "received (g_sp g) = []"
    using t(1) [of w] ok k t(3) by auto
  have "closing g b'" using g(3-6) by (simp add: closing_def resting_def scene_def)
  moreover have "hears True c0 r0 x y ty {} (to_send (g_sp g)) (peer_b S) bb"
    using g(2) S(2) bb(2) by (simp add: hears_def Let_def)
  ultimately have "mated c0 r0 x y ty (S\<lparr>peer_a := g\<rparr>)"
    unfolding mated_def using bb(1) g(1,2) S by (intro exI [of _ b'] exI [of _ bb]) simp
  with h show "\<exists>g. handle_events E (mouse_event p # evs @ [mouse_event q]) (peer_a S, w) = Some (g, w) \<and>
    mated c0 r0 x y ty (S\<lparr>peer_a := g\<rparr>)" by blast
qed

lemma link_run_mated:
  assumes "(link_step E F)\<^sup>*\<^sup>* S T" and "carried c0 r0 x y ty" and "on_king x y ty" and "mated c0 r0 x y ty S"
  shows "mated c0 r0 x y ty T"
  using assms by (induction) (auto intro: link_step_mated)

lemma mated_results:
  assumes "mated c0 r0 x y ty S"
  shows "g_state (peer_a S) = EXIT \<longrightarrow> g_won (peer_a S)" "g_state (peer_b S) = EXIT \<longrightarrow> \<not> g_won (peer_b S)"
  using assms by (auto simp: mated_def closing_def over_def resting_def)

section \<open>Properties\<close>

text \<open>C6: Taking the king ends the game at both machines. When the machine to move takes the king by
  a move of the rules that neither starts nor ends at the corner (0, 0), whose code is the
  zero byte and never reaches the peer, and the words beside the array that are read to mark
  the moves of the piece are readable, every event of the turn is handled; from then on, in
  every interleaving of the bytes of the move with frames, keys and movements, a machine
  that has left the game reports a victory if it took the king and a defeat if it lost it,
  and on devices that take and deliver bytes both machines can still leave the game, showing
  the same last position.\<close>
theorem capture_ends_game:
  assumes "ready who ty S" and "gesture (peer_a S) b ref p c0 r0 evs q x y"
    and "readable (e_junk E) b (heap b ! ref) c0 r0"
    and "legal b (heap b ! ref) c0 r0 x y" and "king_at b x y"
    and "(c0, r0) \<noteq> (0, 0)" and "(x, y) \<noteq> (0, 0)"
    and "can_send (e_kernel E)" and "can_get (e_kernel F)"
  shows "\<exists>g. handle_events E (mouse_event p # evs @ [mouse_event q]) (peer_a S, w) = Some (g, w) \<and>
    (\<forall>T. (link_step E F)\<^sup>*\<^sup>* (S\<lparr>peer_a := g\<rparr>) T \<longrightarrow>
       (g_state (peer_a T) = EXIT \<longrightarrow> g_won (peer_a T)) \<and> (g_state (peer_b T) = EXIT \<longrightarrow> \<not> g_won (peer_b T)) \<and>
       (\<exists>U. (link_step E F)\<^sup>*\<^sup>* T U \<and> finished (shift (sq_index c0 r0) (sq_index x y) ty) U))"
proof -
  note m = turn_mates [OF assms(1-7)]
  obtain g where h: "handle_events E (mouse_event p # evs @ [mouse_event q]) (peer_a S, w) = Some (g, w)"
    and g: "mated c0 r0 x y ty (S\<lparr>peer_a := g\<rparr>)"
    using m(1) [of w] by blast
  have "mated c0 r0 x y ty T" if "(link_step E F)\<^sup>*\<^sup>* (S\<lparr>peer_a := g\<rparr>) T" for T
    by (rule link_run_mated [OF that m(2,3) g])
  then show ?thesis using h mated_results mated_finishes [OF assms(8,9) m(2,3)] by blast
qed

text \<open>The match of \<^const>\<open>rook_match\<close> with a black king in the place of the pawn.\<close>

definition mate_board :: "mem \<Rightarrow> Board" where
  "mate_board m = rook_board\<lparr>mem_board := m, heap := (heap rook_board)[1 := sample_piece\<lparr>ptype := b_king\<rparr>]\<rparr>"

definition mate_game :: "mem \<Rightarrow> Game" where
  "mate_game m = (rook_game m)\<lparr>g_playing := (g_playing (rook_game m))\<lparr>p_board := Some (mate_board m)\<rparr>\<rparr>"

definition mate_match :: "mem \<Rightarrow> Match" where
  "mate_match m = \<lparr>peer_a = mate_game m, peer_b = (mate_game m)\<lparr>g_myTurn := False, g_player := BLACK\<rparr>,
     line_ab = [], line_ba = []\<rparr>"

lemma mate_game_turn: "\<exists>m. my_turn (mate_game m) (mate_board m)"
proof -
  obtain m where m: "my_turn (rook_game m) (rook_board\<lparr>mem_board := m\<rparr>)" using rook_game_turn by blast
  let ?b = "rook_board\<lparr>mem_board := m\<rparr>"
  have sc: "scene (rook_game m) ?b" using m by (simp add: my_turn_def resting_def)
  have two: "length (heap ?b) = 2" by (simp add: rook_board_def)
  have "image_ok (g_screen (rook_game m)) (piece_image (heap ?b ! 1))" using fine_piece [OF sceneD(2) [OF sc]] two by simp
  moreover have "piece_image (heap ?b ! 1) = piece_image sample_piece" by (simp add: rook_board_def)
  ultimately have "board_fine (g_screen (rook_game m)) (?b\<lparr>heap := (heap ?b)[1 := sample_piece\<lparr>ptype := b_king\<rparr>]\<rparr>)"
    using fine_set_piece [OF sceneD(2) [OF sc], of "sample_piece\<lparr>ptype := b_king\<rparr>" 1] by simp
  then have "scene (rook_game m) (mate_board m)"
    using scene_board [OF sc, of "mate_board m"] by (simp add: mate_board_def)
  then have "my_turn (mate_game m) (mate_board m)"
    using m by (simp add: my_turn_def resting_def mate_game_def mate_board_def scene_def drag_ok_def)
  then show ?thesis by blast
qed

lemma mate_match:
  "\<exists>m. ready WHITE (types (mate_board m)) (mate_match m) \<and>
     gesture (peer_a (mate_match m)) (mate_board m) 0 take_rook 2 2 [one_frame] drop_rook 2 4 \<and>
     king_at (mate_board m) 2 4 \<and> legal (mate_board m) (heap (mate_board m) ! 0) 2 2 2 4"
proof -
  obtain m where m: "my_turn (mate_game m) (mate_board m)" using mate_game_turn by blast
  have g: "g_screen (rook_game m) = screen_115" "to_send (g_sp (rook_game m)) = []" "received (g_sp (rook_game m)) = []"
    "g_player (rook_game m) = WHITE"
    by (simp_all add: rook_game_def starting_game_def sample_game_def fresh_sp_invar)
  have "resting ((mate_game m)\<lparr>g_myTurn := False, g_player := BLACK\<rparr>) (mate_board m)"
    using m by (simp add: my_turn_def resting_def scene_def)
  then have "ready WHITE (types (mate_board m)) (mate_match m)"
    using m g by (auto simp: ready_def mate_match_def opposite_def mate_game_def)
  moreover have "points_at (mate_game m) p c r = points_at (rook_game m) p c r" for p c r
    by (simp add: points_at_def cursor_at_def mate_game_def)
  moreover have "points_at ((mate_game m)\<lparr>g_cursor := k\<rparr>) p c r = points_at ((rook_game m)\<lparr>g_cursor := k\<rparr>) p c r" for p c r k
    by (simp add: points_at_def cursor_at_def mate_game_def)
  then have "gesture (peer_a (mate_match m)) (mate_board m) 0 take_rook 2 2 [one_frame] drop_rook 2 4"
    using g rook_pointer [of m] \<open>\<And>p c r. points_at (mate_game m) p c r = points_at (rook_game m) p c r\<close>
    by (simp add: gesture_def mate_match_def may_press_def hold_event_def one_frame_def take_rook_def drop_rook_def
        sample_packet_def sq_index_def) (simp add: mate_game_def mate_board_def rook_board_def)
  moreover have at: "piece_at (mate_board m) 2 4 = Some (sample_piece\<lparr>ptype := b_king\<rparr>)"
    by (simp add: piece_at_def mate_board_def rook_board_def nth_list_update)
  then have "king_at (mate_board m) 2 4" by (simp add: king_at_def)
  moreover have hp: "heap (mate_board m) ! 0 = sample_piece\<lparr>ptype := w_rook\<rparr>" by (simp add: mate_board_def rook_board_def)
  have "free_at (mate_board m) = free_at rook_board" by (simp add: fun_eq_iff free_at_def piece_at_def mate_board_def)
  then have "straight (mate_board m) = straight rook_board" by (simp add: straight_def slides_def fun_eq_iff)
  then have "may_go (mate_board m) (sample_piece\<lparr>ptype := w_rook\<rparr>) 2 2 2 4" using rook_reaches by (simp add: may_go_def)
  then have "legal (mate_board m) (heap (mate_board m) ! 0) 2 2 2 4"
    using at by (simp add: legal_def hp is_white_num)
  ultimately show ?thesis by blast
qed

theorem capture_ends_game_witness:
  "\<exists>m g U. handle_events echo_env [mouse_event take_rook, one_frame, mouse_event drop_rook] (mate_game m, 0) = Some (g, 0) \<and>
     (link_step echo_env echo_env)\<^sup>*\<^sup>* ((mate_match m)\<lparr>peer_a := g\<rparr>) U \<and>
     finished (shift 18 34 (types (mate_board m))) U"
proof -
  obtain m where m: "ready WHITE (types (mate_board m)) (mate_match m)"
    "gesture (peer_a (mate_match m)) (mate_board m) 0 take_rook 2 2 [one_frame] drop_rook 2 4"
    "king_at (mate_board m) 2 4" "legal (mate_board m) (heap (mate_board m) ! 0) 2 2 2 4"
    using mate_match by blast
  have i: "sq_index 2 2 = 18" "sq_index 2 4 = 34" by (simp_all add: sq_index_def)
  have "ptype (heap (mate_board m) ! 0) = w_rook" by (simp add: mate_board_def rook_board_def)
  then have rd: "readable (e_junk echo_env) (mate_board m) (heap (mate_board m) ! 0) 2 2" by (simp add: readable_def)
  have nc: "(2, 2) \<noteq> (0, 0 :: int)" "(2 :: int, 4 :: int) \<noteq> (0, 0)" by simp_all
  from capture_ends_game [OF m(1,2) rd m(4,3) _ _ echo_devices, of 0] nc obtain g where
    "handle_events echo_env (mouse_event take_rook # [one_frame] @ [mouse_event drop_rook]) (peer_a (mate_match m), 0) = Some (g, 0)"
    "\<forall>T. (link_step echo_env echo_env)\<^sup>*\<^sup>* ((mate_match m)\<lparr>peer_a := g\<rparr>) T \<longrightarrow>
       (\<exists>U. (link_step echo_env echo_env)\<^sup>*\<^sup>* T U \<and> finished (shift 18 34 (types (mate_board m))) U)"
    unfolding i by auto
  moreover have "peer_a (mate_match m) = mate_game m" by (simp add: mate_match_def)
  ultimately show ?thesis by fastforce
qed

end
