(* ===== verification/Shutdown.thy ===== *)
theory Shutdown
  imports Ending "HOL-Library.Sublist"
begin

text \<open>
  The winner's program from the capture to its end: the message loop and the shutdown of
  \<open>proj/src/main.c\<close>. The bytes of the last move leave the transmit queue while the loop still
  runs, and \<open>sp_emptyTransmitQueue\<close> of \<open>proj/src/serialPort.c\<close> returns only when some are
  left.
\<close>

section \<open>A line that brings nothing\<close>

text \<open>Bytes may leave the transmit queue, in order.\<close>

definition line_served :: "SerialPort \<Rightarrow> SerialPort \<Rightarrow> bool" where
  "line_served sp sp' \<longleftrightarrow> (sp_invar sp \<longrightarrow>
     sp_invar sp' \<and> received sp' = received sp \<and> suffix (to_send sp') (to_send sp))"

lemma line_served_refl [simp]: "line_served sp sp"
  by (simp add: line_served_def)

lemma write_served: "sp_write K sp w = (r, sp', w') \<Longrightarrow> line_served sp sp'"
proof -
  assume wr: "sp_write K sp w = (r, sp', w')"
  have "to_send sp' = to_send sp \<or> to_send sp' = tl (to_send sp)" if "sp_invar sp"
  proof -
    have q: "q_invar (transmitQueue sp)" using that by (simp add: sp_invar_def)
    show ?thesis
      using wr removeFromQueue_contents(1) [OF q]
      by (auto simp: sp_write_def to_send_def case_prod_beta q_empty_iff split: if_splits prod.splits)
  qed
  then show ?thesis
    using sp_write_effect [OF wr] suffix_tl [of "to_send sp"] by (auto simp: line_served_def)
qed

lemma quiet_read:
  assumes "quiet_uart K (\<lambda>_. 0)"
  shows "\<exists>w'. sp_read K sp w = (-1, sp, w')"
proof -
  obtain r v w1 where l: "sys_inb K (SP_COM + SP_LSR) w = (r, v, w1)" by (cases rule: prod_cases3)
  with assms have "r = 0" "\<not> bit v 0" by (auto simp: quiet_uart_def)
  then show ?thesis using l by (simp add: sp_read_def sp_check_read_def SP_RECEIVER_def has_BIT)
qed

lemma ih_served:
  assumes q: "quiet_uart K (\<lambda>_. 0)" and ih: "sp_ih K sp w = (v, sp', w')"
  shows "line_served sp sp'"
proof -
  obtain r t w1 where i: "sys_inb K (SP_COM + SP_IIR) w = (r, t, w1)" by (cases rule: prod_cases3)
  obtain w2 where rd: "sp_read K sp w1 = (-1, sp, w2)" using quiet_read [OF q] by blast
  obtain r3 sp3 w3 where wr: "sp_write K sp w1 = (r3, sp3, w3)" by (cases rule: prod_cases3)
  show ?thesis
    using ih write_served [OF wr] by (auto simp: sp_ih_def i rd wr split: if_splits)
qed

lemma line_service: "quiet_uart K (\<lambda>_. 0) \<Longrightarrow> serial_service K line_served"
proof
  show "line_served a c" if "line_served a b" "line_served b c" for a b c
    using that by (auto simp: line_served_def intro: suffix_order.trans)
  show "line_served sp sp'" if "quiet_uart K (\<lambda>_. 0)" "sp_ih K sp w = (v, sp', w')" for sp w v sp' w'
    by (rule ih_served [OF that])
qed (simp add: line_served_def)

section \<open>Iterations of the loop\<close>

text \<open>The winner between two iterations.\<close>

definition closing_main :: "MainState \<Rightarrow> bool" where
  "closing_main ms \<longleftrightarrow> (\<exists>b. closing (m_game ms) b) \<and> eq_invar (m_events ms) \<and> eq_stack (m_events ms) = []"

text \<open>A notification has come in and its interrupts are handled.\<close>

definition notified :: "'w main_env \<Rightarrow> MainState \<Rightarrow> 'w \<Rightarrow> MainState \<Rightarrow> 'w \<Rightarrow> bool" where
  "notified E ms w ms1 w2 \<longleftrightarrow> (\<exists>msg w1. e_receive E w = (msg, w1) \<and> msg_r msg = 0 \<and>
     (if msg_notify msg \<and> msg_hardware msg then on_notify E (msg_interrupts msg) ms w1 else Some (ms, w1)) = Some (ms1, w2))"

lemma drain_closing:
  "closing g b \<Longrightarrow> eq_invar q \<Longrightarrow> real_events q \<Longrightarrow>
   \<exists>q' g' b'. drain_events E q g w = Some (q', g', w) \<and> closing g' b' \<and> eq_invar q' \<and> eq_stack q' = [] \<and>
     to_send (g_sp g') = to_send (g_sp g) \<and>
     (if eq_stack q = [] then g' = g else g_state g' = EXIT) \<and> (g_state g = EXIT \<longrightarrow> g_state g' = EXIT)"
proof (induction E q g w arbitrary: b rule: drain_events.induct)
  case (1 E q g w)
  note e = eq_stack_empty_iff [OF 1(3)]
  show ?case
  proof (cases "eventQueueIsEmpty q")
    case True
    then show ?thesis using 1(2,3) e by (auto simp: drain_events.simps [of E q])
  next
    case False
    obtain ev q1 where p: "popEvent q = (ev, q1)" by force
    have ne: "eq_stack q \<noteq> []" using False e by simp
    have s: "eq_stack q = ev # eq_stack q1" "eq_invar q1"
      using popEvent_stack [OF 1(3)] popEvent_invar [OF 1(3)] ne p by (cases "eq_stack q"; simp)+
    have ev: "proper_event ev" "ev_type ev \<noteq> NO_EVENT" and rq: "real_events q1" using 1(4) s(1) by (simp_all add: real_events_def)
    obtain g1 b1 where h: "handle_event E ev g w = Some (g1, w)" "closing g1 b1" "to_send (g_sp g1) = to_send (g_sp g)"
      "g_state g1 = EXIT"
      using closing_event [OF 1(2) ev(1), of E w] ev(2) by blast
    obtain q' g' b' where d: "drain_events E q1 g1 w = Some (q', g', w)" "closing g' b'" "eq_invar q'" "eq_stack q' = []"
      "to_send (g_sp g') = to_send (g_sp g1)" "g_state g' = EXIT"
      using 1(1) [OF False p [symmetric] h(1) refl h(2) s(2) rq] h(4) by blast
    have "drain_events E q g w = Some (q', g', w)" using False p h(1) d(1) by (simp add: drain_events.simps [of E q])
    then show ?thesis using d(2-6) h(3) ne by auto
  qed
qed

lemma closing_iteration:
  assumes q: "quiet_uart (e_kernel E) (\<lambda>_. 0)" and u: "ready_uart (e_kernel E) send"
    and c: "closing_main ms" and n: "notified E ms w ms1 w2"
  shows "\<exists>ms' w'. main_step E ms w = Some (ms', w') \<and> closing_main ms' \<and>
    suffix (to_send (g_sp (m_game ms'))) (to_send (g_sp (m_game ms))) \<and>
    length (to_send (g_sp (m_game ms'))) \<le> length (to_send (g_sp (m_game ms))) - 1 \<and>
    g_state (m_game ms') = (if eventQueueIsEmpty (m_events ms1) then g_state (m_game ms) else EXIT)"
proof -
  obtain msg w1 where r: "e_receive E w = (msg, w1)" "msg_r msg = 0"
    and nt: "(if msg_notify msg \<and> msg_hardware msg then on_notify E (msg_interrupts msg) ms w1 else Some (ms, w1)) = Some (ms1, w2)"
    using n by (auto simp: notified_def)
  obtain b where b: "closing (m_game ms) b" and e: "eq_invar (m_events ms)" "eq_stack (m_events ms) = []"
    using c by (auto simp: closing_main_def)
  have inv: "sp_invar (g_sp (m_game ms))" "received (g_sp (m_game ms)) = []"
    using b sceneD(5) by (auto simp: closing_def)
  have "served line_served ms ms1" by (rule serial_service.message_served [OF line_service [OF q] refl nt])
  then obtain sp where g1: "m_game ms1 = (m_game ms)\<lparr>g_sp := sp\<rparr>" and sv: "line_served (g_sp (m_game ms)) sp"
    and e1: "eq_invar (m_events ms1)" "real_events (m_events ms1)"
    using e by (auto simp: served_def real_events_def)
  have sp: "sp_invar sp" "received sp = []" "suffix (to_send sp) (to_send (g_sp (m_game ms)))"
    using sv inv by (simp_all add: line_served_def)
  obtain r1 sp1 w3 where wr: "sp_write (e_kernel E) sp w2 = (r1, sp1, w3)" by (cases rule: prod_cases3)
  have t1: "to_send sp1 = tl (to_send sp)"
  proof (cases "to_send sp")
    case Nil
    then show ?thesis using wr sp(1) by (auto simp: sp_write_def to_send_def q_empty_iff)
  next
    case (Cons x xs)
    then show ?thesis using sp_write_ready [OF u sp(1) Cons, of w2] wr by auto
  qed
  have sp1: "sp_invar sp1" "received sp1 = []" using sp_write_effect [OF wr sp(1)] sp(2) by simp_all
  obtain w4 where rd: "sp_read (e_kernel E) sp1 w3 = (-1, sp1, w4)" using quiet_read [OF q] by blast
  have cl: "closing ((m_game ms)\<lparr>g_sp := sp1\<rparr>) b" by (rule closing_sp [OF b sp1])
  obtain q' g' b' where d: "drain_events E (m_events ms1) ((m_game ms)\<lparr>g_sp := sp1\<rparr>) w4 = Some (q', g', w4)"
    "closing g' b'" "eq_invar q'" "eq_stack q' = []" "to_send (g_sp g') = to_send sp1"
    "if eq_stack (m_events ms1) = [] then g' = (m_game ms)\<lparr>g_sp := sp1\<rparr> else g_state g' = EXIT"
    using drain_closing [OF cl e1, of E w4] by auto
  have st: "main_step E ms w = Some (ms1\<lparr>m_game := g', m_events := q'\<rparr>, w4)"
    using r nt wr rd d(1) g1 by (simp add: main_step_def)
  have "suffix (to_send sp1) (to_send (g_sp (m_game ms)))"
    using sp(3) suffix_tl [of "to_send sp"] t1 suffix_order.trans by metis
  moreover have "length (to_send sp1) \<le> length (to_send (g_sp (m_game ms))) - 1"
    using suffix_length_le [OF sp(3)] t1 by simp
  moreover have "closing_main (ms1\<lparr>m_game := g', m_events := q'\<rparr>)" using d(2-4) by (auto simp: closing_main_def)
  moreover have "g_state g' = (if eventQueueIsEmpty (m_events ms1) then g_state (m_game ms) else EXIT)"
    using d(6) eq_stack_empty_iff [OF e1(1)] by simp
  ultimately show ?thesis using st d(5) by (intro exI [of _ "ms1\<lparr>m_game := g', m_events := q'\<rparr>"] exI [of _ w4]) simp
qed

text \<open>Iterations that raise no event; \<open>n\<close> of them handle a notification, the others fail to receive one.\<close>

inductive lingers :: "'w main_env \<Rightarrow> nat \<Rightarrow> MainState \<Rightarrow> 'w \<Rightarrow> MainState \<Rightarrow> 'w \<Rightarrow> bool" for E where
  none: "lingers E 0 ms w ms w"
| failed: "e_receive E w = (msg, w1) \<Longrightarrow> msg_r msg \<noteq> 0 \<Longrightarrow> lingers E n ms w1 ms' w' \<Longrightarrow> lingers E n ms w ms' w'"
| silent: "notified E ms w ms1 w1 \<Longrightarrow> eventQueueIsEmpty (m_events ms1) \<Longrightarrow> main_step E ms w = Some (ms2, w2) \<Longrightarrow>
    lingers E n ms2 w2 ms' w' \<Longrightarrow> lingers E (Suc n) ms w ms' w'"

lemma loop_step:
  "g_state (m_game ms) \<noteq> EXIT \<Longrightarrow> main_step E ms w = Some (ms', w') \<Longrightarrow> main_loop E ms w = main_loop E ms' w'"
  by (simp add: main_loop.simps [of E ms])

lemma loop_failed: "g_state (m_game ms) \<noteq> EXIT \<Longrightarrow> e_receive E w = (msg, w1) \<Longrightarrow> msg_r msg \<noteq> 0 \<Longrightarrow>
   main_loop E ms w = main_loop E ms w1"
  by (rule loop_step) (simp_all add: main_step_def)

lemma lingers_loop:
  assumes "lingers E n ms w ms' w'" and q: "quiet_uart (e_kernel E) (\<lambda>_. 0)" and u: "ready_uart (e_kernel E) send"
    and "closing_main ms" and "g_state (m_game ms) = PLAYING"
  shows "main_loop E ms w = main_loop E ms' w' \<and> closing_main ms' \<and> g_state (m_game ms') = PLAYING \<and>
    suffix (to_send (g_sp (m_game ms'))) (to_send (g_sp (m_game ms))) \<and>
    length (to_send (g_sp (m_game ms'))) \<le> length (to_send (g_sp (m_game ms))) - n"
  using assms(1,4,5)
proof (induction rule: lingers.induct)
  case (failed w msg w1 n ms ms' w')
  then show ?case using loop_failed [of ms E w msg w1] by simp
next
  case (silent ms w ms1 w1 ms2 w2 n ms' w')
  have i: "closing_main ms2" "suffix (to_send (g_sp (m_game ms2))) (to_send (g_sp (m_game ms)))"
    "length (to_send (g_sp (m_game ms2))) \<le> length (to_send (g_sp (m_game ms))) - 1" "g_state (m_game ms2) = PLAYING"
    using closing_iteration [OF q u silent.prems(1) silent.hyps(1)] silent.hyps(2,3) silent.prems(2) by auto
  note IH = silent.IH [OF i(1,4)]
  have "main_loop E ms w = main_loop E ms2 w2" using loop_step [of ms E w ms2 w2] silent.hyps(3) silent.prems(2) by simp
  then show ?case using IH i(2,3) suffix_order.trans by auto
qed simp

lemma loop_ends:
  assumes q: "quiet_uart (e_kernel E) (\<lambda>_. 0)" and u: "ready_uart (e_kernel E) send"
    and c: "closing_main ms" "g_state (m_game ms) = PLAYING"
    and l: "lingers E n ms w ms1 w1" and n: "notified E ms1 w1 ms2 w2" and ev: "\<not> eventQueueIsEmpty (m_events ms2)"
  shows "\<exists>ms' w'. main_loop E ms w = Some (ms', w') \<and> closing_main ms' \<and> g_state (m_game ms') = EXIT \<and>
    suffix (to_send (g_sp (m_game ms'))) (to_send (g_sp (m_game ms))) \<and>
    length (to_send (g_sp (m_game ms'))) \<le> length (to_send (g_sp (m_game ms))) - Suc n"
proof -
  note 1 = lingers_loop [OF l q u c]
  obtain ms' w' where s: "main_step E ms1 w1 = Some (ms', w')" "closing_main ms'"
    "suffix (to_send (g_sp (m_game ms'))) (to_send (g_sp (m_game ms1)))"
    "length (to_send (g_sp (m_game ms'))) \<le> length (to_send (g_sp (m_game ms1))) - 1" "g_state (m_game ms') = EXIT"
    using closing_iteration [OF q u _ n] 1 ev by auto
  have "main_loop E ms w = Some (ms', w')"
    using 1 loop_step [of ms1 E w1 ms' w'] s(1,5) by (simp add: main_loop.simps [of E ms'])
  then show ?thesis using s 1 suffix_order.trans by (intro exI [of _ ms'] exI [of _ w']) auto
qed

section \<open>The shutdown\<close>

lemma sp_unsubscribe_returns:
  assumes q: "quiet_uart K pending" and u: "ready_uart K send" and i: "sp_invar sp"
  shows "\<exists>r sp' w'. sp_unsubscribe_int K sp w = Some (r, sp', w')"
proof -
  obtain r1 w1 where 1: "sp_configure_end K w = (r1, w1)" by force
  obtain r2 w2 where 2: "sys_irqrmpolicy K (hook_id_sp sp) w1 = (r2, w2)" by force
  obtain sp3 w3 where 3: "sp_clear_device K sp w2 = Some (sp3, w3)" "sp_invar sp3"
    using sp_clear_device_stops [OF q i] by blast
  let ?sp = "sp3\<lparr>receiveQueue := empty_queue (receiveQueue sp3)\<rparr>"
  have "sp_invar ?sp" using 3(2) empty_queue_eq [of "receiveQueue sp3"] by (simp add: sp_invar_def)
  then obtain sp4 w4 where "sp_flush K ?sp w3 = Some (sp4, w4)" using sp_flush_sends [OF u] by blast
  then show ?thesis by (simp add: sp_unsubscribe_int_def sp_clear_def 1 2 3(1))
qed

lemma shutdown_returns:
  assumes q: "quiet_uart (e_kernel E) pending" and u: "ready_uart (e_kernel E) send"
    and m: "\<And>w. mouse_disable_data_reporting (e_kernel E) (e_status E) (e_byte E) w \<noteq> None"
    and i: "sp_invar (g_sp (m_game ms))"
  shows "main_shutdown E ms w = None \<longleftrightarrow> g_won (m_game ms) \<and> to_send (g_sp (m_game ms)) = []"
proof -
  let ?sp = "g_sp (m_game ms)" and ?K = "e_kernel E"
  have rest: "(do { let (r, w2) = timer_unsubscribe_int ?K (m_timer ms) w1;
       let (r, w3) = keyboard_unsubscribe_int ?K (m_kb ms) w2;
       (r, sp2, w4) \<leftarrow> sp_unsubscribe_int ?K ?sp w3;
       (r, w5) \<leftarrow> mouse_disable_data_reporting ?K (e_status E) (e_byte E) w4;
       let (r, w6) = mouse_unsubscribe_int ?K (m_mouse ms) w5;
       let (r, w7) = return_text_mode (e_video E) w6;
       Some (ms\<lparr>m_game := (m_game ms)\<lparr>g_sp := sp2\<rparr>\<rparr>, w7) }) \<noteq> None" for w1
  proof -
    obtain r2 w2 where 2: "timer_unsubscribe_int ?K (m_timer ms) w1 = (r2, w2)" by force
    obtain r3 w3 where 3: "keyboard_unsubscribe_int ?K (m_kb ms) w2 = (r3, w3)" by force
    obtain r4 sp2 w4 where 4: "sp_unsubscribe_int ?K ?sp w3 = Some (r4, sp2, w4)" using sp_unsubscribe_returns [OF q u i] by blast
    obtain r5 w5 where 5: "mouse_disable_data_reporting ?K (e_status E) (e_byte E) w4 = Some (r5, w5)" using m [of w4] by auto
    show ?thesis by (simp add: 2 3 4 5 split: prod.split)
  qed
  show ?thesis
  proof (cases "g_won (m_game ms)")
    case False
    then show ?thesis using rest [of w] unfolding main_shutdown_def Let_def by simp
  next
    case True
    then show ?thesis
      using sp_emptyTransmitQueue_inverted [OF i, of ?K w] rest [of w] unfolding main_shutdown_def Let_def
      by (cases "to_send ?sp = []") simp_all
  qed
qed

section \<open>Properties\<close>

text \<open>C10: The winner's program may never end, on devices on which nothing else can go wrong: no byte
  ever arrives on the serial line, its transmitter is always ready and takes every byte, and
  the command that disables the mouse returns. Let the program be where the capture of the
  king leaves it, in the PLAYING state with the four bytes of the move queued, no byte
  received and no event pending. Then the message loop returns at the first
  notification that raises an event, with a victory, whatever notifications without an event
  and failures to receive one came before, and what is then queued is a rest of the four bytes
  of the move. The shutdown that follows returns exactly when a byte is still queued, because
  the loop that is to send the rest waits while the queue is empty. On these devices every
  notification lets at least one byte leave, so after three or more of them without an event
  all four bytes are gone and the program of the player who won never ends.\<close>
theorem winner_may_wait_for_ever:
  assumes "quiet_uart (e_kernel E) (\<lambda>_. 0)" and "ready_uart (e_kernel E) send"
    and "\<And>w. mouse_disable_data_reporting (e_kernel E) (e_status E) (e_byte E) w \<noteq> None"
    and "closing_main ms" and "g_state (m_game ms) = PLAYING" and "length (to_send (g_sp (m_game ms))) = 4"
    and "lingers E n ms w ms1 w1" and "notified E ms1 w1 ms2 w2" and "\<not> eventQueueIsEmpty (m_events ms2)"
  shows "\<exists>ms' w'. main_loop E ms w = Some (ms', w') \<and> g_state (m_game ms') = EXIT \<and> g_won (m_game ms') \<and>
    suffix (to_send (g_sp (m_game ms'))) (to_send (g_sp (m_game ms))) \<and>
    (main_shutdown E ms' w' = None \<longleftrightarrow> to_send (g_sp (m_game ms')) = []) \<and>
    (3 \<le> n \<longrightarrow> main_shutdown E ms' w' = None)"
proof -
  obtain ms' w' where l: "main_loop E ms w = Some (ms', w')" "closing_main ms'" "g_state (m_game ms') = EXIT"
    "suffix (to_send (g_sp (m_game ms'))) (to_send (g_sp (m_game ms)))"
    "length (to_send (g_sp (m_game ms'))) \<le> 4 - Suc n"
    using loop_ends [OF assms(1,2,4,5,7-9)] unfolding assms(6) by blast
  have w: "g_won (m_game ms')" "sp_invar (g_sp (m_game ms'))"
    using l(2,3) sceneD(5) by (auto simp: closing_main_def closing_def)
  have "main_shutdown E ms' w' = None \<longleftrightarrow> to_send (g_sp (m_game ms')) = []"
    using shutdown_returns [OF assms(1-3) w(2)] w(1) by simp
  moreover have "3 \<le> n \<Longrightarrow> to_send (g_sp (m_game ms')) = []" using l(5) by simp
  ultimately show ?thesis using l(1,3,4) w(1) by (intro exI [of _ ms'] exI [of _ w']) simp
qed

text \<open>
  The winner of \<^const>\<open>mate_match\<close> on a machine that sends three messages without an
  interrupt and then one of the timer; the world counts the messages.
\<close>

definition win_kernel :: "nat kernel" where
  "win_kernel = \<lparr>sys_inb = \<lambda>p w. (0, if p = SP_COM + SP_LSR then 0x20 else 1, w), sys_outb = \<lambda>_ _ w. (0, w),
     tickdelay = \<lambda>_ w. w, sys_irqsetpolicy = \<lambda>_ _ hook w. (0, hook, w), sys_irqrmpolicy = \<lambda>_ w. (0, w)\<rparr>"

definition win_env :: "nat main_env" where
  "win_env = \<lparr>e_kernel = win_kernel,
     e_video = \<lparr>vbe_get_mode_info = \<lambda>_ w. (0, vmi_p screen_115, w), sys_privctl = \<lambda>_ w. (0, w),
       vm_map_phys = \<lambda>_ _ w. (True, w), sys_int86 = \<lambda>_ w. (0, w)\<rparr>,
     e_load = (\<lambda>_. Some no_picture), e_mapped = (\<lambda>_. replicate 1440000 0), e_fresh = (\<lambda>_. sample_piece),
     e_block = rook_board, e_junk = (\<lambda>_. Some False), e_free = True,
     e_receive = (\<lambda>w. (\<lparr>msg_r = 0, msg_notify = 3 \<le> w, msg_hardware = True, msg_interrupts = 1\<rparr>, Suc w)),
     e_mouse_enable = (\<lambda>w. w), e_sleep = (\<lambda>_ w. w), e_status = 0, e_byte = 0,
     e_queue_mem = replicate 10 0, e_event_mem = replicate 100 no_event, e_image = no_picture\<rparr>"

definition won_main :: "mem \<Rightarrow> MainState" where
  "won_main m = sample_main\<lparr>m_game := (mate_game m)\<lparr>g_myTurn := False, g_endGame := True,
     g_sp := send_move 18 20 (g_sp (mate_game m))\<rparr>\<rparr>"

lemma win_devices:
  "quiet_uart (e_kernel win_env) (\<lambda>_. 0)" "ready_uart (e_kernel win_env) (\<lambda>_ w. w)"
  "mouse_disable_data_reporting (e_kernel win_env) (e_status win_env) (e_byte win_env) w \<noteq> None"
proof -
  show "quiet_uart (e_kernel win_env) (\<lambda>_. 0)"
    by (auto simp: quiet_uart_def win_env_def win_kernel_def)
  have "bit (0x20 :: u32) 5" by (simp add: bit_numeral_rec)
  then show "ready_uart (e_kernel win_env) (\<lambda>_ w. w)"
    by (simp add: ready_uart_def win_env_def win_kernel_def)
  have "STAT_REG \<noteq> SP_COM + SP_LSR" "OUT_BUF \<noteq> SP_COM + SP_LSR"
    by (simp_all add: STAT_REG_def OUT_BUF_def SP_COM_def SP_LSR_def)
  then have st: "util_sys_inb win_kernel STAT_REG v w = (0, 1, w)" for v and w :: nat
    by (simp add: util_sys_inb_def win_kernel_def)
  have "\<not> has (1 :: u8) IBF_FULL" "has (1 :: u8) OBF_FULL"
    by (simp_all add: has_def status_bits IBF_FULL_def)
  then show "mouse_disable_data_reporting (e_kernel win_env) (e_status win_env) (e_byte win_env) w \<noteq> None"
    by (simp add: mouse_disable_data_reporting_def win_env_def write_kbc_command.simps write_kbc_arg.simps
        read_kbc_return.simps st split: prod.split)
qed

lemma won_main: "\<exists>m. closing_main (won_main m) \<and> to_send (g_sp (m_game (won_main m))) = [0xF9, 18, 20, 0xF8]"
proof -
  obtain m where m: "my_turn (mate_game m) (mate_board m)" using mate_game_turn by blast
  have sp: "g_sp (mate_game m) = fresh_sp" by (simp add: mate_game_def rook_game_def starting_game_def sample_game_def)
  note e = send_move_eq [OF fresh_sp_invar(1), of 18 20, unfolded fresh_sp_invar(2)]
  have "closing (m_game (won_main m)) (mate_board m)"
    using m e sp fresh_sp_invar by (simp add: closing_def my_turn_def resting_def won_main_def scene_def)
  moreover have "m_events (won_main m) = createEventQueue 100 (replicate 100 no_event)"
    by (simp add: won_main_def sample_main_def)
  ultimately show ?thesis
    using createEventQueue_invar(1) [of "replicate 100 no_event" 100]
      createEventQueue_invar(2) [of 100 "replicate 100 no_event"] e sp
    by (intro exI [of _ m]) (auto simp: closing_main_def won_main_def BEGIN_MESSAGE_def YOUR_TURN_def)
qed

lemma win_silent:
  assumes c: "closing_main ms" and w: "w < 3"
  shows "\<exists>g. main_step win_env ms w = Some (ms\<lparr>m_game := g\<rparr>, Suc w) \<and> closing_main (ms\<lparr>m_game := g\<rparr>) \<and>
    g_state g = g_state (m_game ms) \<and> notified win_env ms w ms (Suc w) \<and> eventQueueIsEmpty (m_events ms)"
proof -
  have n: "notified win_env ms w ms (Suc w)" using w by (simp add: notified_def win_env_def)
  have e: "eventQueueIsEmpty (m_events ms)" using c eq_stack_empty_iff by (auto simp: closing_main_def)
  have io: "\<exists>r sp'. sp_write win_kernel sp v = (r, sp', v)" "\<exists>r sp'. sp_read win_kernel sp v = (r, sp', v)" for sp v
    by (simp_all add: sp_write_def sp_check_write_def sp_read_def sp_check_read_def win_kernel_def split: prod.split)
  obtain r sp1 where 1: "sp_write win_kernel (g_sp (m_game ms)) (Suc w) = (r, sp1, Suc w)" using io by blast
  obtain r' sp2 where 2: "sp_read win_kernel sp1 (Suc w) = (r', sp2, Suc w)" using io by blast
  let ?g = "(m_game ms)\<lparr>g_sp := sp2\<rparr>"
  have d: "drain_events win_env (m_events ms) ?g (Suc w) = Some (m_events ms, ?g, Suc w)"
    using e by (simp add: drain_events.simps [of win_env "m_events ms"])
  have k: "e_kernel win_env = win_kernel" "e_receive win_env w = (\<lparr>msg_r = 0, msg_notify = False, msg_hardware = True, msg_interrupts = 1\<rparr>, Suc w)"
    using w by (simp_all add: win_env_def)
  have "main_step win_env ms w = Some (ms\<lparr>m_game := ?g\<rparr>, Suc w)" using 1 2 d by (simp add: main_step_def k)
  then show ?thesis
    using closing_iteration [OF win_devices(1,2) c n] n e by (intro exI [of _ ?g]) auto
qed

lemma win_lingers:
  "closing_main ms \<Longrightarrow> w \<le> 3 \<Longrightarrow> \<exists>g. lingers win_env (3 - w) ms w (ms\<lparr>m_game := g\<rparr>) 3"
proof (induction "3 - w" arbitrary: ms w)
  case 0
  then have "lingers win_env (3 - w) ms w (ms\<lparr>m_game := m_game ms\<rparr>) 3" using lingers.none [of win_env ms 3] by simp
  then show ?case by blast
next
  case (Suc k)
  then have w: "w < 3" "k = 3 - Suc w" "Suc w \<le> 3" "3 - w = Suc (3 - Suc w)" by simp_all
  obtain g1 where 1: "main_step win_env ms w = Some (ms\<lparr>m_game := g1\<rparr>, Suc w)" "closing_main (ms\<lparr>m_game := g1\<rparr>)"
    "notified win_env ms w ms (Suc w)" "eventQueueIsEmpty (m_events ms)"
    using win_silent [OF Suc.prems(1) w(1)] by blast
  obtain g where "lingers win_env (3 - Suc w) (ms\<lparr>m_game := g1\<rparr>) (Suc w) ((ms\<lparr>m_game := g1\<rparr>)\<lparr>m_game := g\<rparr>) 3"
    using Suc.hyps(1) [OF w(2) 1(2) w(3)] by blast
  then have "lingers win_env (3 - w) ms w (ms\<lparr>m_game := g\<rparr>) 3"
    unfolding w(4) using lingers.silent [OF 1(3,4,1)] by simp
  then show ?case by blast
qed

theorem winner_may_wait_for_ever_witness:
  "\<exists>m ms' w'. main_loop win_env (won_main m) 0 = Some (ms', w') \<and> g_won (m_game ms') \<and>
     main_shutdown win_env ms' w' = None"
proof -
  obtain m where m: "closing_main (won_main m)" "to_send (g_sp (m_game (won_main m))) = [0xF9, 18, 20, 0xF8]"
    using won_main by blast
  obtain g where l: "lingers win_env (3 - 0) (won_main m) 0 ((won_main m)\<lparr>m_game := g\<rparr>) 3"
    using win_lingers [OF m(1), of 0] by auto
  have st: "g_state (m_game (won_main m)) = PLAYING"
    by (simp add: won_main_def mate_game_def rook_game_def starting_game_def sample_game_def)
  let ?ms = "(won_main m)\<lparr>m_game := g\<rparr>"
  have i: "irq_set_timer ?ms = 1" "irq_set_sp ?ms = 16" "irq_set_mouse ?ms = 4096" "irq_set_kb ?ms = 2"
    "m_events ?ms = createEventQueue 100 (replicate 100 no_event)"
    by (simp_all add: won_main_def sample_main_def)
  have n: "notified win_env ?ms 3 (on_timer ?ms) 4"
    by (simp add: notified_def win_env_def on_notify_def has_def i)
  have ev: "\<not> eventQueueIsEmpty (m_events (on_timer ?ms))"
    by (simp add: on_timer_def i pushEvent_def createEventQueue_def eventQueueIsFull_def eventQueueIsEmpty_def)
  show ?thesis
    using winner_may_wait_for_ever [OF win_devices m(1) st _ l n ev] m(2) by auto
qed

end
