(* ===== verification/Screens.thy ===== *)
theory Screens
  imports Scene
begin

text \<open>
  The screens before the game: choosing a name, waiting for the peer, choosing a colour and
  waiting for the peer's colour (\<open>proj/src/main.c\<close>). On a machine whose video card, pictures
  and serial line work, every event of these screens has a defined result that is
  well-formed again, except for the three events that leave a screen and hand its mapped
  background to \<open>free\<close>, on a machine where that call does not return.
\<close>

section \<open>Well-formed screens\<close>

text \<open>All pictures of the program can be decoded and shown in mode 0x115.\<close>

definition gallery_ok :: "xpm_loader \<Rightarrow> bool" where
  "gallery_ok load \<longleftrightarrow> (\<forall>x. case load x of None \<Rightarrow> False | Some img \<Rightarrow> image_ok screen_115 img)"

lemma gallery_pictures: "gallery_ok load \<Longrightarrow> pictures_ok load"
  by (simp add: gallery_ok_def pictures_ok_def)

lemma gallery_image: "gallery_ok load \<Longrightarrow> image_ok screen_115 (snd (create_image load x img))"
  unfolding gallery_ok_def by (drule spec [of _ x]) (auto simp: create_image_def split: option.splits)

text \<open>What is drawn on and with.\<close>

definition canvas :: "Game \<Rightarrow> bool" where
  "canvas g \<longleftrightarrow> mode_115 (g_screen g) \<and> length (g_buffer g) = 1440000 \<and> length (g_video_mem g) = 1440000 \<and>
     letters_ok (g_screen g) (g_letters g) \<and> cursor_inside (g_screen g) (g_cursor g) \<and>
     image_ok (g_screen g) (cursor_image (g_cursor g))"

text \<open>The statics of \<open>playing_ih\<close> before its first call.\<close>

definition unplayed :: "Playing \<Rightarrow> bool" where
  "unplayed P \<longleftrightarrow> p_board P = None \<and> byteOfMove P = 0 \<and> dragging_piece P = None \<and>
     on_sq (uint (old_col (p_move P))) (uint (old_row (p_move P)))"

definition bg_fine :: "Background \<Rightarrow> bool" where
  "bg_fine bg \<longleftrightarrow> (bg_created bg \<longrightarrow> image_ok screen_115 (bg_image bg)) \<and>
     (case bg_mem bg of None \<Rightarrow> True | Some m \<Rightarrow> bg_created bg \<and> length m = 1440000)"

definition outside :: "Game \<Rightarrow> bool" where
  "outside g \<longleftrightarrow> canvas g \<and> unplayed (g_playing g) \<and> ginv g \<and> bg_fine (g_naming g) \<and> bg_fine (g_waiting g) \<and>
     bg_fine (g_choosing g) \<and> bg_fine (g_wait_choosing g) \<and>
     (bg_created (g_wait_choosing g) \<longrightarrow> bg_mem (g_wait_choosing g) \<noteq> None)"

lemma may_start_parts:
  "ginv g \<Longrightarrow> may_start g \<longleftrightarrow> canvas g \<and> unplayed (g_playing g)"
  using name_ok_terminated [of "g_name g" "name_size g"]
  by (auto simp: ginv_def may_start_def canvas_def unplayed_def)

lemma outside_may_start: "outside g \<Longrightarrow> may_start g"
  using may_start_parts [of g] by (simp add: outside_def)

lemma outside_parts [simp]:
  "canvas (g\<lparr>g_naming := b\<rparr>) = canvas g" "canvas (g\<lparr>g_waiting := b\<rparr>) = canvas g"
  "canvas (g\<lparr>g_choosing := b\<rparr>) = canvas g" "canvas (g\<lparr>g_wait_choosing := b\<rparr>) = canvas g"
  "canvas (g\<lparr>g_state := st\<rparr>) = canvas g" "canvas (g\<lparr>name_redraw := t\<rparr>) = canvas g" "canvas (g\<lparr>g_sp := sp\<rparr>) = canvas g"
  "canvas (g\<lparr>g_player := p\<rparr>) = canvas g" "canvas (g\<lparr>g_myTurn := t\<rparr>) = canvas g"
  "canvas (g\<lparr>g_player_choosed := t\<rparr>) = canvas g" "canvas (g\<lparr>g_name := nm\<rparr>) = canvas g" "canvas (g\<lparr>name_size := n\<rparr>) = canvas g"
  "ginv (g\<lparr>g_naming := b\<rparr>) = ginv g" "ginv (g\<lparr>g_waiting := b\<rparr>) = ginv g" "ginv (g\<lparr>g_choosing := b\<rparr>) = ginv g"
  "ginv (g\<lparr>g_wait_choosing := b\<rparr>) = ginv g" "ginv (g\<lparr>g_state := st\<rparr>) = ginv g" "ginv (g\<lparr>name_redraw := t\<rparr>) = ginv g"
  "ginv (g\<lparr>g_screen := s\<rparr>) = ginv g" "ginv (g\<lparr>g_buffer := v\<rparr>) = ginv g" "ginv (g\<lparr>g_player := p\<rparr>) = ginv g"
  "ginv (g\<lparr>g_myTurn := t\<rparr>) = ginv g" "ginv (g\<lparr>g_player_choosed := t\<rparr>) = ginv g"
  by (simp_all add: canvas_def ginv_def)

lemma canvas_buffer [simp]: "canvas g \<Longrightarrow> length v = 1440000 \<Longrightarrow> canvas (g\<lparr>g_buffer := v\<rparr>)"
  by (simp add: canvas_def)

text \<open>Changing the mode information for another description of the same mode.\<close>

lemma canvas_screen:
  assumes "canvas g" and "mode_115 s"
  shows "canvas (g\<lparr>g_screen := s\<rparr>)"
  using assms mode_115_facts [of s] mode_115_facts [of "g_screen g"] image_ok_115 [of "g_screen g"] image_ok_115 [OF assms(2)]
  by (simp add: canvas_def letters_ok_def cursor_inside_def)

lemma canvas_wf:
  assumes "canvas g"
  shows "fb_wf (g_screen g) m \<longleftrightarrow> length m = 1440000" "image_ok (g_screen g) img = image_ok screen_115 img"
  using assms mode_115_wf image_ok_115 by (auto simp: canvas_def)

section \<open>Drawing\<close>

lemma canvas_draw:
  assumes "canvas g" and "length m = 1440000" and "image_ok screen_115 img"
  shows "\<exists>m'. draw_image (g_screen g) m img x y = Some m' \<and> length m' = 1440000"
  using draw_image_wf [of "g_screen g" m img x y] assms canvas_wf [OF assms(1)] by simp

lemma canvas_clear:
  assumes "canvas g" and "length m = 1440000"
  shows "\<exists>m'. vg_clear (g_screen g) m = Some m' \<and> length m' = 1440000"
  using vg_clear_wf [of "g_screen g" m] assms canvas_wf [OF assms(1)] by simp

lemma canvas_copy:
  "canvas g \<Longrightarrow> length a = 1440000 \<Longrightarrow> length b = 1440000 \<Longrightarrow> copy_buffers (g_screen g) a b = Some b"
  using copy_buffers_wf [of "g_screen g" a b] canvas_wf [of g] by simp

text \<open>What a frame shows after its handler.\<close>

lemma canvas_shown:
  assumes c: "canvas g"
  shows "\<exists>v. drawCursor (g_screen g) (g_buffer g) (Some (g_cursor g)) = Some v \<and>
    copy_from_buffer (g_screen g) (g_video_mem g) v = Some v \<and> length v = 1440000"
proof -
  have l: "length (g_buffer g) = 1440000" "length (g_video_mem g) = 1440000"
    "image_ok screen_115 (cursor_image (g_cursor g))"
    using c canvas_wf(2) [OF c] by (simp_all add: canvas_def)
  obtain v where "draw_image (g_screen g) (g_buffer g) (cursor_image (g_cursor g)) (cursor_x (g_cursor g))
      (cursor_y (g_cursor g)) = Some v" "length v = 1440000"
    using canvas_draw [OF c l(1,3)] by blast
  then show ?thesis using canvas_copy [OF c l(2)] by (simp add: drawCursor_def copy_from_buffer_def)
qed

lemma draw_name_screen_fine:
  assumes c: "canvas g" and "ginv g" and "image_ok screen_115 (bg_image (g_naming g))" and "length m = 1440000"
  shows "\<exists>m'. draw_name_screen g m = Some m' \<and> length m' = 1440000"
proof -
  obtain m1 where 1: "vg_clear (g_screen g) m = Some m1" "length m1 = 1440000" using canvas_clear [OF c assms(4)] by blast
  obtain m2 where 2: "draw_image (g_screen g) m1 (bg_image (g_naming g)) 95 15 = Some m2" "length m2 = 1440000"
    using canvas_draw [OF c 1(2) assms(3)] by blast
  have "letters_ok (g_screen g) (g_letters g)" "0 \<in> set (g_name g)"
    using c assms(2) name_ok_terminated by (auto simp: canvas_def ginv_def)
  then obtain m3 where "draw_name (g_screen g) (g_letters g) m2 (g_name g) 142 312 68 = Some m3" "fb_wf (g_screen g) m3"
    using draw_letters_wf canvas_wf(1) [OF c] 2(2) by (metis draw_name_def)
  then show ?thesis using 1 2 canvas_wf(1) [OF c] by (simp add: draw_name_screen_def)
qed

lemma map_background_fine:
  assumes c: "canvas g" and V: "video_115 (e_video E) (e_mapped E)" and i: "image_ok screen_115 img"
  shows "\<exists>m s w'. map_background E img x y g w = Some (m, g\<lparr>g_screen := s\<rparr>, w') \<and> length m = 1440000 \<and>
    canvas (g\<lparr>g_screen := s\<rparr>)"
proof -
  obtain m s w1 where p: "map_page (e_video E) (e_mapped E) 2 0x115 (g_screen g) w = Some (m, s, w1)" "mode_115 s"
    "length m = 1440000"
    using map_page_115 [OF V] by blast
  have c1: "canvas (g\<lparr>g_screen := s\<rparr>)" by (rule canvas_screen [OF c p(2)])
  obtain m1 where 1: "vg_clear s m = Some m1" "length m1 = 1440000" using canvas_clear [OF c1 p(3)] by auto
  obtain m2 where "draw_image s m1 img x y = Some m2" "length m2 = 1440000" using canvas_draw [OF c1 1(2) i] by auto
  then show ?thesis
    using p(1) 1(1) c1 by (intro exI [of _ m2] exI [of _ s] exI [of _ w1]) (simp add: map_background_def)
qed

section \<open>The handlers\<close>

text \<open>A background is created and mapped once.\<close>

lemma bg_created_fine:
  "bg_fine bg \<Longrightarrow> gallery_ok load \<Longrightarrow>
   bg_fine (bg\<lparr>bg_image := snd (create_image load x (bg_image bg)), bg_created := True\<rparr>)"
  by (simp add: bg_fine_def gallery_image split: option.splits)

lemma bg_mapped_fine: "bg_fine bg \<Longrightarrow> bg_created bg \<Longrightarrow> length m = 1440000 \<Longrightarrow> bg_fine (bg\<lparr>bg_mem := Some m\<rparr>)"
  by (simp add: bg_fine_def)

lemma bg_mapped:
  assumes "canvas g" and "bg_fine bg" and "bg_created bg" and "video_115 (e_video E) (e_mapped E)"
  shows "\<exists>m s w'. map_background E (bg_image bg) x y g w = Some (m, g\<lparr>g_screen := s\<rparr>, w') \<and>
    canvas (g\<lparr>g_screen := s\<rparr>) \<and> bg_fine (bg\<lparr>bg_mem := Some m\<rparr>)"
proof -
  have "image_ok screen_115 (bg_image bg)" using assms(2,3) by (simp add: bg_fine_def)
  then show ?thesis
    using map_background_fine [OF assms(1,4), of "bg_image bg" x y w] bg_mapped_fine [OF assms(2,3)] by blast
qed

lemma bg_freed_fine: "bg_fine bg \<Longrightarrow> bg_fine (bg\<lparr>bg_mem := None\<rparr>)"
  by (simp add: bg_fine_def)

lemma bg_memD: "bg_fine bg \<Longrightarrow> bg_mem bg = Some m \<Longrightarrow> length m = 1440000"
  by (simp add: bg_fine_def)

lemma show_background_fine:
  "canvas g \<Longrightarrow> bg_fine bg \<Longrightarrow> bg_mem bg = Some m \<Longrightarrow> show_background (bg_mem bg) g = Some (g\<lparr>g_buffer := m\<rparr>) \<and> length m = 1440000"
  using canvas_copy [of g "g_buffer g" m] bg_memD [of bg m] by (simp add: show_background_def canvas_def)

lemma name_screen_setup_fine:
  assumes o: "outside g" and V: "video_115 (e_video E) (e_mapped E)" and P: "gallery_ok (e_load E)"
  shows "\<exists>g1 w1 m. name_screen_setup E g w = Some (g1, w1) \<and> outside g1 \<and> bg_mem (g_naming g1) = Some m \<and>
    bg_created (g_naming g1) \<and> g_state g1 = g_state g"
proof -
  let ?g = "if \<not> bg_created (g_naming g) then g\<lparr>g_naming := (g_naming g)
      \<lparr>bg_image := snd (create_image (e_load E) name_choice_xpm (bg_image (g_naming g))), bg_created := True\<rparr>\<rparr> else g"
  have o1: "outside ?g" "bg_created (g_naming ?g)" "g_state ?g = g_state g" "g_screen ?g = g_screen g"
    using o bg_created_fine [OF _ P] by (simp_all add: outside_def)
  define g1 where "g1 = ?g"
  show ?thesis
  proof (cases "bg_mem (g_naming g1)")
    case None
    obtain m s w1 where p: "map_page (e_video E) (e_mapped E) 2 0x115 (g_screen g1) w = Some (m, s, w1)" "mode_115 s"
      "length m = 1440000"
      using map_page_115 [OF V] by blast
    have c: "canvas (g1\<lparr>g_screen := s\<rparr>)" using canvas_screen [OF _ p(2)] o1(1) by (simp add: outside_def g1_def [symmetric])
    have f: "bg_fine (g_naming g1)" "ginv g1" using o1(1) by (simp_all add: outside_def g1_def [symmetric])
    then have "image_ok screen_115 (bg_image (g_naming g1))" using o1(2) by (simp add: bg_fine_def g1_def [symmetric])
    then obtain m' where m': "draw_name_screen (g1\<lparr>g_screen := s\<rparr>) m = Some m'" "length m' = 1440000"
      using draw_name_screen_fine [OF c _ _ p(3)] f(2) by auto
    have "name_screen_setup E g w =
        Some (g1\<lparr>g_screen := s, g_naming := (g_naming g1)\<lparr>bg_mem := Some m'\<rparr>, name_redraw := False\<rparr>, w1)"
      using None p(1) m'(1) unfolding name_screen_setup_def Let_def g1_def [symmetric] by simp
    moreover have "outside (g1\<lparr>g_screen := s, g_naming := (g_naming g1)\<lparr>bg_mem := Some m'\<rparr>, name_redraw := False\<rparr>)"
      using o1(1,2) c bg_mapped_fine [OF f(1) _ m'(2)] unfolding g1_def [symmetric] by (simp add: outside_def)
    ultimately show ?thesis using o1(2,3) unfolding g1_def [symmetric] by simp
  next
    case (Some m)
    then have "name_screen_setup E g w = Some (g1, w)"
      unfolding name_screen_setup_def Let_def g1_def [symmetric] by simp
    then show ?thesis using o1 Some unfolding g1_def [symmetric] by simp
  qed
qed

text \<open>The three situations in which a background is freed.\<close>

definition name_confirmed :: "u8 \<Rightarrow> Game \<Rightarrow> bool" where
  "name_confirmed code g \<longleftrightarrow> code = ENTER \<and> 0 < name_size g"

definition colour_chosen :: "Game \<Rightarrow> bool" where
  "colour_chosen g \<longleftrightarrow> fst (cursorClickPlayer g)"

text \<open>The byte a machine takes for its colour, read after the background has been mapped.\<close>

definition colour_byte :: "'w env \<Rightarrow> Game \<Rightarrow> 'w \<Rightarrow> u8" where
  "colour_byte E g w =
     (let w1 = (if bg_created (g_wait_choosing g) then w
                else case map_page (e_video E) (e_mapped E) 2 0x115 (g_screen g) w of
                       None \<Rightarrow> w | Some (m, s, w') \<Rightarrow> w')
      in fst (readFromQueue (fst (snd (sp_read (e_kernel E) (g_sp g) w1)))))"

definition frees :: "'w env \<Rightarrow> Event \<Rightarrow> Game \<Rightarrow> 'w \<Rightarrow> bool" where
  "frees E ev g w \<longleftrightarrow>
     (case g_state g of
        START \<Rightarrow> ev_type ev = KEYBOARD \<and> has (ev_scanCode ev) (BIT 7) \<and> name_confirmed (ev_scanCode ev) g
      | CHOOSING_PLAYER \<Rightarrow> ev_type ev = MOUSE \<and> colour_chosen g
      | WAIT_CHOOSING_PLAYER \<Rightarrow> ev_type ev = NEW_FRAME \<and> colour_byte E g w \<noteq> 0
      | _ \<Rightarrow> False)"

lemma name_key_defined:
  assumes o: "outside g" and q: "quiet_uart (e_kernel E) pending" and fr: "e_free E \<or> \<not> name_confirmed code g"
  shows "\<exists>g' w'. name_key E code g w = Some (g', w') \<and> canvas g' \<and> bg_fine (g_naming g') \<and>
    g_playing g' = g_playing g \<and> g_waiting g' = g_waiting g \<and> g_choosing g' = g_choosing g \<and>
    g_wait_choosing g' = g_wait_choosing g"
proof -
  have n: "length (g_name g) = 9" "0 \<le> name_size g" "name_size g \<le> 8" and i: "sp_invar (g_sp g)"
    using o by (simp_all add: outside_def ginv_def name_ok_def)
  have sn: "set_name k v h = Some (h\<lparr>g_name := (g_name g)[nat k := v]\<rparr>)" if "0 \<le> k" "k \<le> 8" "g_name h = g_name g" for k v h
    using that n by (simp add: set_name_def)
  have bg: "canvas g" "bg_fine (g_naming g)" "bg_fine ((g_naming g)\<lparr>bg_mem := None\<rparr>)"
    using o bg_freed_fine by (simp_all add: outside_def)
  consider (delete) "code = BACK_SPACE" "name_size g > 0"
    | (enter) "\<not> (code = BACK_SPACE \<and> name_size g > 0)" "code = ENTER" "name_size g > 0"
    | (letter) "\<not> (code = BACK_SPACE \<and> name_size g > 0)" "\<not> (code = ENTER \<and> name_size g > 0)"
        "code \<noteq> BACK_SPACE" "name_size g < MAX_NAME_SIZE"
    | (other) "\<not> (code = BACK_SPACE \<and> name_size g > 0)" "\<not> (code = ENTER \<and> name_size g > 0)"
        "\<not> (code \<noteq> BACK_SPACE \<and> name_size g < MAX_NAME_SIZE)"
    by blast
  then show ?thesis
  proof cases
    case delete
    then show ?thesis using sn [of "name_size g - 1"] n bg by (simp add: name_key_def Let_def)
  next
    case enter
    obtain sp1 w1 where "sp_clear (e_kernel E) (g_sp g) w = Some (sp1, w1)"
      using sp_clear_device_stops [OF q i, of w] by (auto simp: sp_clear_def)
    moreover have "e_free E" using fr enter by (simp add: name_confirmed_def)
    ultimately show ?thesis using enter sn [of "name_size g"] n bg by (simp add: name_key_def free_background_def)
  next
    case letter
    then show ?thesis
      using sn [of "name_size g"] n bg unfolding name_key_def if_not_P [OF letter(1)] if_not_P [OF letter(2)] by simp
  next
    case other
    then show ?thesis
      using bg unfolding name_key_def if_not_P [OF other(1)] if_not_P [OF other(2)] if_not_P [OF other(3)] by simp
  qed
qed

text \<open>Freeing a mapped page on a machine that does not survive it.\<close>

lemma name_key_frees:
  assumes "name_confirmed code g" and "\<not> e_free E" and "bg_mem (g_naming g) = Some m"
  shows "name_key E code g w = None"
proof -
  have n: "\<not> (code = BACK_SPACE \<and> name_size g > 0)" "code = ENTER \<and> name_size g > 0"
    using assms(1) by (simp_all add: name_confirmed_def ENTER_def BACK_SPACE_def)
  have "free_background E (bg_mem (g_naming h)) = None" if "set_name (name_size g) 0 g = Some h" for h
    using set_name_eq [OF that] assms(2,3) by (simp add: free_background_def)
  then show ?thesis
    unfolding name_key_def if_not_P [OF n(1)] if_P [OF n(2)] by (auto split: Option.bind_split)
qed

lemma name_key_fine:
  assumes o: "outside g" and q: "quiet_uart (e_kernel E) pending" and c: "bit code 7"
    and fr: "e_free E \<or> \<not> name_confirmed code g"
  shows "\<exists>g' w'. name_key E code g w = Some (g', w') \<and> outside g'"
proof -
  obtain g' w' where k: "name_key E code g w = Some (g', w')"
    and u: "canvas g'" "bg_fine (g_naming g')" "g_playing g' = g_playing g" "g_waiting g' = g_waiting g"
      "g_choosing g' = g_choosing g" "g_wait_choosing g' = g_wait_choosing g"
    using name_key_defined [OF o q fr, of w] by blast
  have "ginv g'" using name_key_ok [OF k _ c] o by (simp add: outside_def)
  then have "outside g'" using u o by (simp add: outside_def)
  with k show ?thesis by blast
qed

lemma name_choice_fine:
  assumes o: "outside g" and st: "g_state g = START" and V: "video_115 (e_video E) (e_mapped E)"
    and P: "gallery_ok (e_load E)" and q: "quiet_uart (e_kernel E) pending"
  shows "if \<not> e_free E \<and> frees E ev g w then name_choice_ih E ev g w = None
    else \<exists>g' w'. name_choice_ih E ev g w = Some (g', w') \<and> outside g'"
proof -
  obtain g1 w1 m where s: "name_screen_setup E g w = Some (g1, w1)" and o1: "outside g1"
    and m: "bg_mem (g_naming g1) = Some m" "bg_created (g_naming g1)" and st1: "g_state g1 = START"
    using name_screen_setup_fine [OF o V P, of w] st by auto
  have ns: "name_size g1 = name_size g" using name_screen_setup_keeps [OF s] by (simp add: keeps_def)
  have c: "canvas g1" "ginv g1" "bg_fine (g_naming g1)" using o1 by (simp_all add: outside_def)
  note lm = bg_memD [OF c(3) m(1)]
  show ?thesis
  proof (cases "ev_type ev")
    case NEW_FRAME
    have "image_ok screen_115 (bg_image (g_naming g1))" using c(3) m(2) by (simp add: bg_fine_def)
    then obtain m' where m': "draw_name_screen g1 m = Some m'" "length m' = 1440000"
      using draw_name_screen_fine [OF c(1,2) _ lm] by blast
    let ?g2 = "g1\<lparr>g_naming := (g_naming g1)\<lparr>bg_mem := Some m'\<rparr>, name_redraw := False\<rparr>"
    have c2: "canvas ?g2" using c(1) by simp
    have b: "length (g_buffer g1) = 1440000" using c(1) by (simp add: canvas_def)
    have "\<exists>g'. name_choice_ih E ev g w = Some (g', w1) \<and> outside g'"
    proof (cases "name_redraw g1")
      case True
      have "outside (?g2\<lparr>g_buffer := m'\<rparr>)"
        using o1 c2 m'(2) bg_mapped_fine [OF c(3) m(2) m'(2)] by (simp add: outside_def)
      moreover have "name_choice_ih E ev g w = Some (?g2\<lparr>g_buffer := m'\<rparr>, w1)"
        using NEW_FRAME True m(1) m'(1) canvas_copy [OF c(1) b m'(2)] by (simp add: name_choice_ih_def s)
      ultimately show ?thesis by blast
    next
      case False
      have "outside (g1\<lparr>g_buffer := m\<rparr>)" using o1 lm by (simp add: outside_def)
      moreover have "name_choice_ih E ev g w = Some (g1\<lparr>g_buffer := m\<rparr>, w1)"
        using NEW_FRAME False m(1) canvas_copy [OF c(1) b lm] by (simp add: name_choice_ih_def s)
      ultimately show ?thesis by blast
    qed
    then show ?thesis using NEW_FRAME st by (auto simp: frees_def)
  next
    case KEYBOARD
    show ?thesis
    proof (cases "has (ev_scanCode ev) (BIT 7)")
      case True
      let ?g = "g1\<lparr>name_redraw := True\<rparr>"
      have "outside ?g" using o1 by (simp add: outside_def)
      moreover have "bit (ev_scanCode ev) 7" using True by (simp add: has_BIT)
      moreover have "name_confirmed (ev_scanCode ev) ?g = name_confirmed (ev_scanCode ev) g"
        by (simp add: name_confirmed_def ns)
      then have "frees E ev g w = name_confirmed (ev_scanCode ev) ?g"
        using KEYBOARD True st by (simp add: frees_def)
      moreover have "name_choice_ih E ev g w = name_key E (ev_scanCode ev) ?g w1"
        using KEYBOARD True by (simp add: name_choice_ih_def s)
      moreover have "bg_mem (g_naming ?g) = Some m" using m(1) by simp
      ultimately show ?thesis
        using name_key_fine [of ?g E pending "ev_scanCode ev" w1] q
          name_key_frees [of "ev_scanCode ev" ?g E m w1] by auto
    qed (use KEYBOARD o1 st in \<open>simp add: name_choice_ih_def s frees_def\<close>)
  qed (use o1 st in \<open>simp_all add: name_choice_ih_def s frees_def\<close>)
qed

lemma waiting_setup_fine:
  assumes o: "outside g" and V: "video_115 (e_video E) (e_mapped E)" and P: "gallery_ok (e_load E)"
  defines "g1 \<equiv> (if \<not> bg_created (g_waiting g) then g\<lparr>g_waiting := (g_waiting g)
      \<lparr>bg_image := snd (create_image (e_load E) waiting_xpm (bg_image (g_waiting g))), bg_created := True\<rparr>\<rparr> else g)"
  shows "\<exists>g2 w2 m. (if bg_mem (g_waiting g1) = None then do {
      (m, g', w') \<leftarrow> map_background E (bg_image (g_waiting g1)) 0 0 g1 w;
      Some (g'\<lparr>g_waiting := (g_waiting g')\<lparr>bg_mem := Some m\<rparr>\<rparr>, w') } else Some (g1, w)) = Some (g2, w2) \<and>
    outside g2 \<and> bg_mem (g_waiting g2) = Some m \<and> g_state g2 = g_state g"
proof -
  have o1: "outside g1" "bg_created (g_waiting g1)" "g_state g1 = g_state g"
    using o bg_created_fine [OF _ P] by (simp_all add: g1_def outside_def)
  show ?thesis
  proof (cases "bg_mem (g_waiting g1)")
    case None
    have c: "canvas g1" "bg_fine (g_waiting g1)" using o1(1) by (simp_all add: outside_def)
    from bg_mapped [OF this o1(2) V, of 0 0 w] obtain m s w' where
      m: "map_background E (bg_image (g_waiting g1)) 0 0 g1 w = Some (m, g1\<lparr>g_screen := s\<rparr>, w')"
      "canvas (g1\<lparr>g_screen := s\<rparr>)" "bg_fine ((g_waiting g1)\<lparr>bg_mem := Some m\<rparr>)" by blast
    then have "outside (g1\<lparr>g_screen := s, g_waiting := (g_waiting g1)\<lparr>bg_mem := Some m\<rparr>\<rparr>)"
      using o1(1) by (simp add: outside_def)
    then show ?thesis using None m(1) o1(3) by simp
  qed (use o1 in simp)
qed

lemma choosing_setup_fine:
  assumes o: "outside g" and V: "video_115 (e_video E) (e_mapped E)" and P: "gallery_ok (e_load E)"
  defines "g1 \<equiv> (if \<not> bg_created (g_choosing g) then g\<lparr>g_choosing := (g_choosing g)
      \<lparr>bg_image := snd (create_image (e_load E) player_choice_xpm (bg_image (g_choosing g))), bg_created := True\<rparr>\<rparr> else g)"
  shows "\<exists>g2 w2 m. (if bg_mem (g_choosing g1) = None then do {
      (m, g', w') \<leftarrow> map_background E (bg_image (g_choosing g1)) 95 15 g1 w;
      Some (g'\<lparr>g_choosing := (g_choosing g')\<lparr>bg_mem := Some m\<rparr>\<rparr>, w') } else Some (g1, w)) = Some (g2, w2) \<and>
    outside g2 \<and> bg_mem (g_choosing g2) = Some m \<and> g_cursor g2 = g_cursor g"
proof -
  have o1: "outside g1" "bg_created (g_choosing g1)" "g_cursor g1 = g_cursor g"
    using o bg_created_fine [OF _ P] by (simp_all add: g1_def outside_def)
  show ?thesis
  proof (cases "bg_mem (g_choosing g1)")
    case None
    have c: "canvas g1" "bg_fine (g_choosing g1)" using o1(1) by (simp_all add: outside_def)
    from bg_mapped [OF this o1(2) V, of 95 15 w] obtain m s w' where
      m: "map_background E (bg_image (g_choosing g1)) 95 15 g1 w = Some (m, g1\<lparr>g_screen := s\<rparr>, w')"
      "canvas (g1\<lparr>g_screen := s\<rparr>)" "bg_fine ((g_choosing g1)\<lparr>bg_mem := Some m\<rparr>)" by blast
    then have "outside (g1\<lparr>g_screen := s, g_choosing := (g_choosing g1)\<lparr>bg_mem := Some m\<rparr>\<rparr>)"
      using o1(1) by (simp add: outside_def)
    then show ?thesis using None m(1) o1(3) by simp
  qed (use o1 in simp)
qed

text \<open>A frame of a screen with a background shows it.\<close>

lemma outside_shown:
  assumes "outside g" and "bg_fine bg" and "bg_mem bg = Some m"
  shows "show_background (bg_mem bg) g = Some (g\<lparr>g_buffer := m\<rparr>)" "outside (g\<lparr>g_buffer := m\<rparr>)"
  using show_background_fine [of g bg m] assms by (simp_all add: outside_def)

lemma outside_sp: "outside g \<Longrightarrow> sp_invar sp \<Longrightarrow> outside (g\<lparr>g_sp := sp\<rparr>)"
  by (simp add: outside_def ginv_def)

lemma outside_state: "outside (g\<lparr>g_state := st\<rparr>) = outside g" "outside (g\<lparr>g_player := p\<rparr>) = outside g"
  "outside (g\<lparr>g_myTurn := t\<rparr>) = outside g" "outside (g\<lparr>g_player_choosed := t\<rparr>) = outside g"
  by (simp_all add: outside_def)

lemma waiting_fine:
  assumes o: "outside g" and V: "video_115 (e_video E) (e_mapped E)" and P: "gallery_ok (e_load E)"
  shows "\<exists>g' w'. waiting_ih E ev g w = Some (g', w') \<and> outside g'"
proof -
  define g1 where "g1 = (if \<not> bg_created (g_waiting g) then g\<lparr>g_waiting := (g_waiting g)
      \<lparr>bg_image := snd (create_image (e_load E) waiting_xpm (bg_image (g_waiting g))), bg_created := True\<rparr>\<rparr> else g)"
  obtain g2 w2 m where s: "(if bg_mem (g_waiting g1) = None then do {
      (m, g', w') \<leftarrow> map_background E (bg_image (g_waiting g1)) 0 0 g1 w;
      Some (g'\<lparr>g_waiting := (g_waiting g')\<lparr>bg_mem := Some m\<rparr>\<rparr>, w') } else Some (g1, w)) = Some (g2, w2)"
    and o2: "outside g2" and m: "bg_mem (g_waiting g2) = Some m"
    using waiting_setup_fine [OF o V P, of w, folded g1_def] by blast
  have ih: "waiting_ih E ev g w = (case ev_type ev of
         NEW_FRAME \<Rightarrow> do {
           g3 \<leftarrow> show_background (bg_mem (g_waiting g2)) g2;
           let (received_byte, sp1) = readFromQueue (g_sp g3);
           let g4 = g3\<lparr>g_sp := sp1\<rparr>;
           Some
             (if received_byte = VM_CONNECTED
              then g4\<lparr>g_state := CHOOSING_PLAYER, g_sp := addToTransmitQueue RECEIVE_VM_CONNECTED (g_sp g4)\<rparr>
              else if received_byte = RECEIVE_VM_CONNECTED then g4\<lparr>g_state := WAIT_CHOOSING_PLAYER\<rparr>
              else g4, w2)
         }
       | _ \<Rightarrow> Some (g2, w2))"
    unfolding waiting_ih_def Let_def g1_def [symmetric] s by simp
  show ?thesis
  proof (cases "ev_type ev = NEW_FRAME")
    case True
    have "bg_fine (g_waiting g2)" and i: "sp_invar (g_sp g2)" using o2 by (simp_all add: outside_def ginv_def)
    note sh = outside_shown [OF o2 this(1) m]
    obtain x sp1 where r: "readFromQueue (g_sp g2) = (x, sp1)" by force
    have i1: "sp_invar sp1" by (rule read_invar [OF i r])
    let ?g4 = "g2\<lparr>g_buffer := m, g_sp := sp1\<rparr>"
    have o4: "outside ?g4" by (rule outside_sp [OF sh(2) i1])
    have "outside (?g4\<lparr>g_state := st, g_sp := addToTransmitQueue c sp1\<rparr>)" for st c
      by (rule outside_sp) (simp_all add: o4 outside_state add_invar i1)
    then show ?thesis
      using True sh(1) r o4 by (simp add: ih Let_def outside_state)
  next
    case False
    then have "waiting_ih E ev g w = Some (g2, w2)" unfolding ih by (cases "ev_type ev") simp_all
    then show ?thesis using o2 by blast
  qed
qed

lemma choosing_fine:
  assumes o: "outside g" and st: "g_state g = CHOOSING_PLAYER"
    and V: "video_115 (e_video E) (e_mapped E)" and P: "gallery_ok (e_load E)"
  shows "if \<not> e_free E \<and> frees E ev g w then choosing_ih E ev g w = None
    else \<exists>g' w'. choosing_ih E ev g w = Some (g', w') \<and> outside g'"
proof -
  define g1 where "g1 = (if \<not> bg_created (g_choosing g) then g\<lparr>g_choosing := (g_choosing g)
      \<lparr>bg_image := snd (create_image (e_load E) player_choice_xpm (bg_image (g_choosing g))), bg_created := True\<rparr>\<rparr> else g)"
  obtain g2 w2 m where s: "(if bg_mem (g_choosing g1) = None then do {
      (m, g', w') \<leftarrow> map_background E (bg_image (g_choosing g1)) 95 15 g1 w;
      Some (g'\<lparr>g_choosing := (g_choosing g')\<lparr>bg_mem := Some m\<rparr>\<rparr>, w') } else Some (g1, w)) = Some (g2, w2)"
    and o2: "outside g2" and m: "bg_mem (g_choosing g2) = Some m" and cur: "g_cursor g2 = g_cursor g"
    using choosing_setup_fine [OF o V P, of w, folded g1_def] by blast
  have ih: "choosing_ih E ev g w = (case ev_type ev of
         NEW_FRAME \<Rightarrow> do { g3 \<leftarrow> show_background (bg_mem (g_choosing g2)) g2; Some (g3, w2) }
       | MOUSE \<Rightarrow>
           (case cursorClickPlayer g2 of
              (clicked, g3) \<Rightarrow>
                if clicked then do {
                  free_background E (bg_mem (g_choosing g3));
                  Some (g3\<lparr>g_player_choosed := True, g_state := PLAYING,
                           g_sp := addToTransmitQueue
                             (player_num (if g_player g3 = WHITE then BLACK else WHITE)) (g_sp g3),
                           g_myTurn := (g_player g3 = WHITE),
                           g_choosing := (g_choosing g3)\<lparr>bg_mem := None\<rparr>\<rparr>, w2)
                }
                else Some (g3, w2))
       | _ \<Rightarrow> Some (g2, w2))"
    unfolding choosing_ih_def Let_def g1_def [symmetric] s
    by simp
  have f: "bg_fine (g_choosing g2)" and i: "sp_invar (g_sp g2)" using o2 by (simp_all add: outside_def ginv_def)
  show ?thesis
  proof (cases "ev_type ev")
    case NEW_FRAME
    note sh = outside_shown [OF o2 f m]
    show ?thesis using NEW_FRAME sh st by (simp add: ih frees_def)
  next
    case MOUSE
    have "cursorClickPlayer g2 \<in> {(True, g2\<lparr>g_player := BLACK\<rparr>), (True, g2\<lparr>g_player := WHITE\<rparr>),
        (False, g2\<lparr>g_player := g_player g2\<rparr>)}"
      by (simp add: cursorClickPlayer_def Let_def)
    then obtain c p where cl: "cursorClickPlayer g2 = (c, g2\<lparr>g_player := p\<rparr>)" by blast
    let ?g = "\<lambda>x t. g2\<lparr>g_player := p, g_player_choosed := True, g_state := PLAYING, g_sp := addToTransmitQueue x (g_sp g2),
      g_myTurn := t, g_choosing := (g_choosing g2)\<lparr>bg_mem := None\<rparr>\<rparr>"
    have "outside (?g x t)" for x t
      using o2 bg_freed_fine [OF f] add_invar [OF i] by (simp add: outside_def ginv_def)
    moreover have "frees E ev g w = c"
    proof -
      have "fst (cursorClickPlayer g) = fst (cursorClickPlayer g2)" by (simp add: cursorClickPlayer_def cur Let_def)
      then show ?thesis using MOUSE st cl by (simp add: frees_def colour_chosen_def)
    qed
    ultimately show ?thesis
      using MOUSE cl o2 m by (cases c; cases "e_free E") (simp_all add: ih outside_state free_background_def)
  qed (use o2 st in \<open>simp_all add: ih frees_def\<close>)
qed

lemma waiting_choosing_fine:
  assumes o: "outside g" and s0: "g_state g = WAIT_CHOOSING_PLAYER"
    and V: "video_115 (e_video E) (e_mapped E)" and P: "gallery_ok (e_load E)"
  shows "if \<not> e_free E \<and> frees E ev g w then waiting_choosing_ih E ev g w = None
    else \<exists>g' w'. waiting_choosing_ih E ev g w = Some (g', w') \<and>
    (outside g' \<and> g_state g' = g_state g \<or> g_state g' = PLAYING \<and> may_start g')"
proof -
  obtain g1 w1 m where s: "(if \<not> bg_created (g_wait_choosing g) then do {
      let img = snd (create_image (e_load E) waiting_xpm (bg_image (g_wait_choosing g)));
      (m, g', w') \<leftarrow> map_background E img 0 0 g w;
      Some (g'\<lparr>g_wait_choosing := \<lparr>bg_image = img, bg_created = True, bg_mem = Some m\<rparr>\<rparr>, w')
    } else Some (g, w)) = Some (g1, w1)"
    and o1: "outside g1" and m: "bg_mem (g_wait_choosing g1) = Some m" and st: "g_state g1 = g_state g"
    and cb: "colour_byte E g w = fst (readFromQueue (fst (snd (sp_read (e_kernel E) (g_sp g1) w1))))"
  proof (cases "bg_created (g_wait_choosing g)")
    case True
    then show ?thesis using o that by (auto simp: outside_def colour_byte_def)
  next
    case False
    let ?img = "snd (create_image (e_load E) waiting_xpm (bg_image (g_wait_choosing g)))"
    let ?bg = "\<lparr>bg_image = ?img, bg_created = True, bg_mem = None\<rparr>"
    have "bg_fine ?bg" using gallery_image [OF P] by (simp add: bg_fine_def)
    from bg_mapped [OF _ this _ V, of g 0 0 w] o obtain m s w' where
      b: "map_background E ?img 0 0 g w = Some (m, g\<lparr>g_screen := s\<rparr>, w')" "canvas (g\<lparr>g_screen := s\<rparr>)"
      "bg_fine (?bg\<lparr>bg_mem := Some m\<rparr>)"
      by (auto simp: outside_def)
    have "outside (g\<lparr>g_screen := s, g_wait_choosing := ?bg\<lparr>bg_mem := Some m\<rparr>\<rparr>)" using o b(2,3) by (simp add: outside_def)
    moreover obtain m0 s0 where "map_page (e_video E) (e_mapped E) 2 0x115 (g_screen g) w = Some (m0, s0, w')"
      using b(1) by (auto simp: map_background_def split: bind_splits)
    then have "colour_byte E g w = fst (readFromQueue (fst (snd (sp_read (e_kernel E) (g_sp g) w'))))"
      using False by (simp add: colour_byte_def)
    ultimately show ?thesis using that [of "g\<lparr>g_screen := s, g_wait_choosing := ?bg\<lparr>bg_mem := Some m\<rparr>\<rparr>" w'] False b(1) by simp
  qed
  have f: "bg_fine (g_wait_choosing g1)" and i: "sp_invar (g_sp g1)" using o1 by (simp_all add: outside_def ginv_def)
  show ?thesis
  proof (cases "ev_type ev = NEW_FRAME")
    case False
    then have "waiting_choosing_ih E ev g w = Some (g1, w1)"
      unfolding waiting_choosing_ih_def s by (cases "ev_type ev") simp_all
    then show ?thesis using o1 st s0 False by (auto simp: frees_def)
  next
    case True
    note sh = outside_shown [OF o1 f m]
    obtain q sp1 w2 where rd: "sp_read (e_kernel E) (g_sp g1) w1 = (q, sp1, w2)" by (cases rule: prod_cases3)
    obtain x sp2 where r: "readFromQueue sp1 = (x, sp2)" by force
    have "sp_invar sp1" using sp_read_invar [OF i, of "e_kernel E" w1] rd by simp
    then have i2: "sp_invar sp2" by (rule read_invar [OF _ r])
    let ?g3 = "g1\<lparr>g_buffer := m, g_sp := sp2\<rparr>"
    let ?g4 = "(if x = player_num WHITE then ?g3\<lparr>g_myTurn := True, g_player := WHITE\<rparr>
                 else ?g3\<lparr>g_myTurn := False, g_player := BLACK\<rparr>)
                \<lparr>g_state := PLAYING, g_wait_choosing := (g_wait_choosing ?g3)\<lparr>bg_mem := None\<rparr>\<rparr>"
    have o3: "outside ?g3" by (rule outside_sp [OF sh(2) i2])
    have "frees E ev g w \<longleftrightarrow> x \<noteq> 0" using True s0 rd r by (simp add: frees_def cb)
    moreover have "waiting_choosing_ih E ev g w =
        (if x \<noteq> 0 \<and> \<not> e_free E then None else Some (if x \<noteq> 0 then ?g4 else ?g3, w2))"
      unfolding waiting_choosing_ih_def s using True sh(1) rd r m by (simp add: free_background_def)
    moreover have "may_start ?g4"
      using outside_may_start [OF o3] by (simp add: may_start_def)
    ultimately show ?thesis using o3 st by (cases "x = 0"; cases "e_free E") (auto split: if_splits)
  qed
qed

end
