(* ===== verification/Program.thy ===== *)
theory Program
  imports Shutdown Screens
begin

text \<open>
  The whole program: from the statics it is loaded with, through bringing the devices up and
  the message loop, to the shutdown (\<open>proj/src/main.c\<close>). On a machine whose devices work,
  the state stays well-formed from the first screen to the end of the game, and the
  accesses without a defined result are the ones named here.
\<close>

section \<open>A machine that works\<close>

text \<open>
  The mode can be set and mapped, the pictures decode, the line delivers finitely many bytes
  when it is drained, and the mouse never reports a parity error or a timeout.
\<close>

definition clean_mouse :: "'w main_env \<Rightarrow> bool" where
  "clean_mouse E \<longleftrightarrow> (\<forall>w r status w1. util_sys_inb (e_kernel E) STAT_REG (e_status E) w = (r, status, w1) \<longrightarrow>
     has status AUX \<longrightarrow> error_free status)"

definition working :: "'w main_env \<Rightarrow> ('w \<Rightarrow> nat) \<Rightarrow> bool" where
  "working E pending \<longleftrightarrow> video_115 (e_video E) (e_mapped E) \<and> gallery_ok (e_load E) \<and>
     quiet_uart (e_kernel E) pending \<and> clean_mouse E"

section \<open>Well-formed games\<close>

text \<open>Before, during and after the game.\<close>

definition well :: "Game \<Rightarrow> bool" where
  "well g \<longleftrightarrow> ginv g \<and>
     (case g_state g of PLAYING \<Rightarrow> in_play g \<or> may_start g | EXIT \<Rightarrow> in_play g | _ \<Rightarrow> outside g)"

definition entering :: "Game \<Rightarrow> bool" where
  "entering g \<longleftrightarrow> outside g \<or> g_state g = PLAYING \<and> ginv g \<and> may_start g"

lemma entering_canvas: "entering g \<Longrightarrow> canvas g"
  using may_start_parts [of g] by (auto simp: entering_def outside_def)

lemma entering_well: "entering g \<Longrightarrow> g_state g \<noteq> EXIT \<Longrightarrow> well g"
  using outside_may_start [of g] by (auto simp: entering_def well_def outside_def split: GameState.split)

lemma well_entering: "well g \<Longrightarrow> g_state g \<noteq> PLAYING \<Longrightarrow> g_state g \<noteq> EXIT \<Longrightarrow> entering g"
  by (cases "g_state g") (simp_all add: well_def entering_def)

lemma entering_shown: "entering g \<Longrightarrow> length v = 1440000 \<Longrightarrow> entering (g\<lparr>g_buffer := v, g_video_mem := v\<rparr>)"
  unfolding entering_def by (elim disjE) (simp_all add: outside_def canvas_def may_start_def ginv_def)

lemma well_played: "ginv g \<Longrightarrow> in_play g \<Longrightarrow> g_state g = PLAYING \<or> g_state g = EXIT \<Longrightarrow> well g"
  by (elim disjE) (simp_all add: well_def)

lemma outside_cursor:
  assumes "outside g"
  shows "outside (g\<lparr>g_cursor := updateCursor (g_screen g) (g_cursor g) p\<rparr>)"
proof -
  let ?c = "updateCursor (g_screen g) (g_cursor g) p"
  have "mode_115 (g_screen g)" using assms by (simp add: outside_def canvas_def)
  note f = mode_115_facts [OF this]
  have "cursor_inside (g_screen g) ?c" by (rule updateCursor_inside) (simp_all add: f)
  moreover have "cursor_image ?c = cursor_image (g_cursor g)" by (simp add: updateCursor_def Let_def)
  ultimately show ?thesis using assms by (simp add: outside_def canvas_def ginv_def)
qed

text \<open>The screens before the game.\<close>

lemma screen_handler_fine:
  assumes W: "working E pending" and o: "outside g" and st: "g_state g \<noteq> PLAYING" "g_state g \<noteq> EXIT"
  shows "if \<not> e_free E \<and> frees (base_env E) ev g w then inputHandler (base_env E) ev g w = None
    else \<exists>g' w'. inputHandler (base_env E) ev g w = Some (g', w') \<and> entering g'"
proof -
  have V: "video_115 (e_video (base_env E)) (e_mapped (base_env E))" and P: "gallery_ok (e_load (base_env E))"
    and q: "quiet_uart (e_kernel (base_env E)) pending" and fr: "e_free (base_env E) = e_free E"
    using W by (simp_all add: working_def env.defs)
  have gi: "ginv g" using o by (simp add: outside_def)
  show ?thesis
  proof (cases "g_state g")
    case START
    then show ?thesis using name_choice_fine [OF o START V P q, of ev w, unfolded fr] by (auto simp: inputHandler_def entering_def)
  next
    case WAITING
    then show ?thesis using waiting_fine [OF o V P, of ev w] by (auto simp: inputHandler_def entering_def frees_def)
  next
    case CHOOSING_PLAYER
    then show ?thesis using choosing_fine [OF o CHOOSING_PLAYER V P, of ev w, unfolded fr] by (auto simp: inputHandler_def entering_def)
  next
    case WAIT_CHOOSING_PLAYER
    note f = waiting_choosing_fine [OF o WAIT_CHOOSING_PLAYER V P, of ev w, unfolded fr]
    show ?thesis
    proof (cases "\<not> e_free E \<and> frees (base_env E) ev g w")
      case True
      then show ?thesis using f WAIT_CHOOSING_PLAYER by (simp add: inputHandler_def)
    next
      case False
      then obtain g' w' where h: "waiting_choosing_ih (base_env E) ev g w = Some (g', w')"
        "outside g' \<or> g_state g' = PLAYING \<and> may_start g'"
        using f by auto
      then show ?thesis
        using waiting_choosing_ok [OF h(1) gi] WAIT_CHOOSING_PLAYER False by (auto simp: inputHandler_def entering_def)
    qed
  qed (use st in simp_all)
qed

text \<open>The handler sees the cursor where the packet of a mouse event has moved it.\<close>

definition pointed :: "Event \<Rightarrow> Game \<Rightarrow> Game" where
  "pointed ev g = (if ev_type ev = MOUSE
     then case ev_data ev of MousePacket p \<Rightarrow> g\<lparr>g_cursor := updateCursor (g_screen g) (g_cursor g) p\<rparr> | _ \<Rightarrow> g
     else g)"

text \<open>
  An event hands a mapped page to \<open>free\<close>, on a machine where that call does not return: a
  confirmed name, a click on a colour, or the byte of the colour that the peer has chosen.
\<close>

definition free_fault :: "'w main_env \<Rightarrow> Event \<Rightarrow> Game \<Rightarrow> 'w \<Rightarrow> bool" where
  "free_fault E ev g w \<longleftrightarrow> \<not> e_free E \<and> frees (base_env E) ev (pointed ev g) w"

lemma screen_event_fine:
  assumes W: "working E pending" and g: "well g" and st: "g_state g \<noteq> PLAYING" "g_state g \<noteq> EXIT" and ev: "proper_event ev"
  shows "if free_fault E ev g w then handle_event E ev g w = None
    else \<exists>g' w'. handle_event E ev g w = Some (g', w') \<and> well g'"
proof -
  have o: "outside g" using g st by (cases "g_state g") (simp_all add: well_def)
  have "if free_fault E ev g w then handle_event E ev g w = None
    else \<exists>g' w'. handle_event E ev g w = Some (g', w') \<and> entering g'"
  proof (cases "ev_type ev")
    case NO_EVENT
    then have "\<not> free_fault E ev g w" by (simp add: free_fault_def frees_def pointed_def split: GameState.split)
    then show ?thesis using o NO_EVENT by (simp add: handle_event_def entering_def)
  next
    case KEYBOARD
    then show ?thesis
      using screen_handler_fine [OF W o st, of ev w] by (auto simp: handle_event_def free_fault_def pointed_def)
  next
    case MOUSE
    then obtain p where "ev_data ev = MousePacket p" using ev by (auto simp: proper_event_def)
    then show ?thesis
      using MOUSE screen_handler_fine [OF W outside_cursor [OF o, of p], of ev w] st
      by (auto simp: handle_event_def free_fault_def pointed_def)
  next
    case NEW_FRAME
    show ?thesis
    proof (cases "free_fault E ev g w")
      case True
      then show ?thesis
        using NEW_FRAME screen_handler_fine [OF W o st, of ev w] by (simp add: handle_event_def free_fault_def pointed_def)
    next
      case False
      then obtain h w1 where h: "inputHandler (base_env E) ev g w = Some (h, w1)" "entering h"
        using NEW_FRAME screen_handler_fine [OF W o st, of ev w] by (auto simp: free_fault_def pointed_def)
      obtain v where "drawCursor (g_screen h) (g_buffer h) (Some (g_cursor h)) = Some v"
        "copy_from_buffer (g_screen h) (g_video_mem h) v = Some v" "length v = 1440000"
        using canvas_shown [OF entering_canvas [OF h(2)]] by blast
      then show ?thesis using NEW_FRAME h entering_shown False by (simp add: handle_event_def)
    qed
  qed
  moreover have "well g'" if r: "handle_event E ev g w = Some (g', w')" "entering g'" for g' w'
  proof -
    have "edge (g_state g) (g_state g')" using handle_event_ok [OF r(1)] g by (simp add: well_def)
    then have "g_state g' \<noteq> EXIT" using st by (auto elim: edge.cases)
    then show ?thesis using r entering_well by blast
  qed
  ultimately show ?thesis by (cases "free_fault E ev g w") auto
qed

text \<open>The situations in which an event has no defined result.\<close>

definition goes_wrong :: "'w main_env \<Rightarrow> Event \<Rightarrow> Game \<Rightarrow> 'w \<Rightarrow> bool" where
  "goes_wrong E ev g w \<longleftrightarrow> (if g_state g = PLAYING then game_fault E w g ev else free_fault E ev g w)"

lemma handle_event_well:
  assumes W: "working E pending" and g: "well g" and ev: "proper_event ev"
  shows "if goes_wrong E ev g w then handle_event E ev g w = None
    else \<exists>g' w'. handle_event E ev g w = Some (g', w') \<and> well g'"
proof -
  have gi: "ginv g" using g by (simp add: well_def)
  note V = W [unfolded working_def, THEN conjunct1]
  have P: "pictures_ok (e_load E)" using W gallery_pictures by (simp add: working_def)
  consider (play) "g_state g = PLAYING" "in_play g" | (start) "g_state g = PLAYING" "may_start g"
    | (exit) "g_state g = EXIT" "in_play g" | (screen) "g_state g \<noteq> PLAYING" "g_state g \<noteq> EXIT"
    using g by (cases "g_state g = PLAYING \<or> g_state g = EXIT") (auto simp: well_def)
  then show ?thesis
  proof cases
    case play
    then obtain b where b: "p_board (g_playing g) = Some b" "scene g b" by (auto simp: in_play_def)
    then have f: "goes_wrong E ev g w = event_fault (e_junk E) g b ev" using play(1) by (simp add: goes_wrong_def game_fault_def)
    show ?thesis
    proof (cases "event_fault (e_junk E) g b ev")
      case False
      then obtain g' where r: "handle_event E ev g w = Some (g', w)" "in_play g'"
        using handle_event_fine [OF play(1) b(2,1), of E ev w] by auto
      have "well g'" 
        using well_played [OF _ r(2)] handle_event_ok [OF r(1) gi] event_state [OF r(1) play(1)] by simp
      then show ?thesis using r(1) False f by simp
    qed (use handle_event_fine [OF play(1) b(2,1), of E ev w] f in simp)
  next
    case start
    then have f: "goes_wrong E ev g w = game_fault E w g ev" by (simp add: goes_wrong_def)
    show ?thesis
    proof (cases "game_fault E w g ev")
      case False
      then obtain g' w' where r: "handle_event E ev g w = Some (g', w')" "in_play g' \<or> g' = g"
        using first_event [OF V P start, of w ev] by auto
      have i: "ginv g'" "g_state g' = PLAYING \<or> g_state g' = EXIT"
        using handle_event_ok [OF r(1) gi] event_state [OF r(1) start(1)] by simp_all
      have "well g'" using r(2) by (rule disjE) (use well_played [OF i(1) _ i(2)] g in simp_all)
      then show ?thesis using r(1) False f by simp
    qed (use first_event [OF V P start, of w ev] f in simp)
  next
    case exit
    then obtain b where b: "p_board (g_playing g) = Some b" "scene g b" by (auto simp: in_play_def)
    obtain g' where r: "handle_event E ev g w = Some (g', w)" "scene g' b" "only_shown g g'"
      using exit_event [OF exit(1) b ev, of E w] by blast
    then have "in_play g'" "g_state g' = PLAYING \<or> g_state g' = EXIT" using b(1) exit(1) by (simp_all add: in_play_def only_shown_def)
    then have "well g'" using handle_event_ok [OF r(1) gi] by (intro well_played) blast+
    moreover have "g_state (pointed ev g) = EXIT" using exit(1) by (simp add: pointed_def split: EventData.split)
    ultimately show ?thesis using r(1) exit(1) by (simp add: goes_wrong_def free_fault_def frees_def)
  next
    case screen
    then show ?thesis using screen_event_fine [OF W g screen ev, of w] by (simp add: goes_wrong_def)
  qed
qed

section \<open>The events of an iteration\<close>

text \<open>Whether one of the events, handled in this order, is in such a situation when its turn comes.\<close>

primrec events_fault :: "'w main_env \<Rightarrow> Event list \<Rightarrow> Game \<Rightarrow> 'w \<Rightarrow> bool" where
  "events_fault E [] g w = False"
| "events_fault E (ev # evs) g w =
     (goes_wrong E ev g w \<or>
      (case handle_event E ev g w of None \<Rightarrow> False | Some (g', w') \<Rightarrow> events_fault E evs g' w'))"

lemma drain_events_well:
  assumes W: "working E pending"
  shows "well g \<Longrightarrow> eq_invar q \<Longrightarrow> real_events q \<Longrightarrow>
    if events_fault E (eq_stack q) g w then drain_events E q g w = None
    else \<exists>q' g' w'. drain_events E q g w = Some (q', g', w') \<and> well g' \<and> eq_stack q' = []"
proof (induction "eq_stack q" arbitrary: q g w)
  case Nil
  then show ?case using eq_stack_empty_iff [of q] by (simp add: drain_events.simps [of E q])
next
  case (Cons ev evs)
  have ne: "\<not> eventQueueIsEmpty q" using Cons.hyps(2) eq_stack_empty_iff [OF Cons.prems(2)] by auto
  obtain q1 where p: "popEvent q = (ev, q1)" and q1: "eq_stack q1 = evs" "eq_invar q1"
    using popEvent_stack [OF Cons.prems(2)] popEvent_invar [OF Cons.prems(2)] Cons.hyps(2) [symmetric]
    by (cases "popEvent q") auto
  have ev: "proper_event ev" and re: "real_events q1"
    using Cons.prems(3) q1(1) by (simp_all add: real_events_def Cons.hyps(2) [symmetric])
  note d = drain_events.simps [of E q g w, simplified ne p if_False prod.case simp_thms]
  note h = handle_event_well [OF W Cons.prems(1) ev, of w]
  show ?case
  proof (cases "goes_wrong E ev g w")
    case True
    then show ?thesis using h by (simp add: d Cons.hyps(2) [symmetric])
  next
    case False
    then obtain g1 w1 where r: "handle_event E ev g w = Some (g1, w1)" "well g1" using h by auto
    show ?thesis
      using Cons.hyps(1) [OF q1(1) [symmetric] r(2) q1(2) re, of w1] False
      by (auto simp: d r(1) Cons.hyps(2) [symmetric] q1(1))
  qed
qed

section \<open>One iteration\<close>

text \<open>What holds between two iterations.\<close>

definition well_main :: "MainState \<Rightarrow> bool" where
  "well_main ms \<longleftrightarrow> well (m_game ms) \<and> main_invar ms \<and> eq_stack (m_events ms) = [] \<and> in_step (m_mouse ms)"

lemma well_sp:
  assumes "well g" and "sp_invar sp"
  shows "well (g\<lparr>g_sp := sp\<rparr>)"
proof -
  have "outside (g\<lparr>g_sp := sp\<rparr>)" if "outside g" using that assms(2) by (simp add: outside_def ginv_def)
  moreover have "in_play (g\<lparr>g_sp := sp\<rparr>)" if "in_play g"
    using that assms(2) by (auto simp: in_play_def scene_def drag_ok_def)
  moreover have "may_start (g\<lparr>g_sp := sp\<rparr>)" if "may_start g" using that assms(2) by (simp add: may_start_def)
  ultimately show ?thesis using assms by (cases "g_state g") (auto simp: well_def ginv_def)
qed

lemma mouse_ih_in_step:
  assumes "clean_mouse E" and "in_step m"
  shows "\<exists>m' w'. mouse_ih (e_kernel E) (e_status E) by m w = Some (m', w') \<and> in_step m'"
proof -
  obtain r status w1 where s: "util_sys_inb (e_kernel E) STAT_REG (e_status E) w = (r, status, w1)" by (cases rule: prod_cases3)
  show ?thesis
  proof (cases "has status AUX \<and> has status OBF_FULL")
    case True
    then have "error_free status" using assms(1) [unfolded clean_mouse_def, rule_format, OF s] by simp
    moreover obtain r2 byte w2 where "util_sys_inb (e_kernel E) OUT_BUF by w1 = (r2, byte, w2)" by (cases rule: prod_cases3)
    ultimately show ?thesis using in_step_byte [OF assms(2), of status byte] s True by (auto simp: mouse_ih_def)
  next
    case False
    then show ?thesis using assms(2) s by (auto simp: mouse_ih_def)
  qed
qed

text \<open>
  A notification has no result exactly when two prefixes of a scan code are stored and the
  keyboard delivers a further byte. The handlers of the serial port and of the mouse have
  run before that of the keyboard; this is the world they leave.
\<close>

definition before_key :: "'w main_env \<Rightarrow> u32 \<Rightarrow> MainState \<Rightarrow> 'w \<Rightarrow> 'w" where
  "before_key E i ms w =
     (let w1 = (if has i (irq_set_sp ms) then snd (snd (sp_ih (e_kernel E) (g_sp (m_game ms)) w)) else w)
      in if has i (irq_set_mouse ms)
         then case mouse_ih (e_kernel E) (e_status E) (e_byte E) (m_mouse ms) w1 of None \<Rightarrow> w1 | Some (m, w2) \<Rightarrow> w2
         else w1)"

definition key_overrun :: "'w main_env \<Rightarrow> u32 \<Rightarrow> MainState \<Rightarrow> 'w \<Rightarrow> bool" where
  "key_overrun E i ms w \<longleftrightarrow> has i (ucast (irq_set_kb ms)) \<and> unat (counter ms) = 2 \<and>
     readKey (fst (snd (keyboard_int_handler (e_kernel E) (m_kb ms) (before_key E i ms w))))"

lemma take_scancode_defined:
  "length (scancode_bytes ms) = 2 \<Longrightarrow> unat (counter ms) \<le> 2 \<Longrightarrow>
   if unat (counter ms) = 2 then take_scancode code ms = None
   else \<exists>ms'. take_scancode code ms = Some ms' \<and> m_mouse ms' = m_mouse ms"
  by (simp add: take_scancode_def store_scancode_def)

lemma on_keyboard_defined:
  assumes "length (scancode_bytes ms) = 2" and "unat (counter ms) \<le> 2"
  shows "if unat (counter ms) = 2 \<and> readKey (fst (snd (keyboard_int_handler (e_kernel E) (m_kb ms) w)))
    then on_keyboard E ms w = None
    else \<exists>ms' w'. on_keyboard E ms w = Some (ms', w') \<and> m_mouse ms' = m_mouse ms"
proof -
  obtain r kb1 w1 where k: "keyboard_int_handler (e_kernel E) (m_kb ms) w = (r, kb1, w1)" by (cases rule: prod_cases3)
  have "if unat (counter ms) = 2 then take_scancode (scancode kb1) (ms\<lparr>m_kb := kb1\<rparr>) = None
    else \<exists>ms'. take_scancode (scancode kb1) (ms\<lparr>m_kb := kb1\<rparr>) = Some ms' \<and> m_mouse ms' = m_mouse ms"
    using take_scancode_defined [of "ms\<lparr>m_kb := kb1\<rparr>" "scancode kb1"] assms by auto
  then show ?thesis by (cases "readKey kb1") (auto simp: on_keyboard_def k Let_def split: if_splits)
qed

lemma on_notify_defined:
  assumes c: "clean_mouse E" and m: "in_step (m_mouse ms)" and l: "length (scancode_bytes ms) = 2" "unat (counter ms) \<le> 2"
  shows "case on_notify E i ms w of None \<Rightarrow> key_overrun E i ms w
    | Some (ms', w') \<Rightarrow> in_step (m_mouse ms') \<and> \<not> key_overrun E i ms w"
proof -
  define ms1 where "ms1 = (if has i (ucast (irq_set_timer ms)) then on_timer ms else ms)"
  obtain ms2 w2 where 2: "(if has i (irq_set_sp ms) then on_serial E ms1 w else (ms1, w)) = (ms2, w2)" by force
  have same: "m_mouse ms2 = m_mouse ms" "scancode_bytes ms2 = scancode_bytes ms" "counter ms2 = counter ms" "m_kb ms2 = m_kb ms"
    and w2: "w2 = (if has i (irq_set_sp ms) then snd (snd (sp_ih (e_kernel E) (g_sp (m_game ms)) w)) else w)"
    using 2 by (auto simp: ms1_def on_timer_def on_serial_def split: if_splits prod.splits)
  obtain ms3 w3 where 3: "(if has i (irq_set_mouse ms) then on_mouse E ms2 w2 else Some (ms2, w2)) = Some (ms3, w3)"
    and m3: "in_step (m_mouse ms3)" "scancode_bytes ms3 = scancode_bytes ms" "counter ms3 = counter ms" "m_kb ms3 = m_kb ms"
    and w3: "before_key E i ms w = w3"
  proof (cases "has i (irq_set_mouse ms)")
    case True
    obtain m1 w3 where h: "mouse_ih (e_kernel E) (e_status E) (e_byte E) (m_mouse ms2) w2 = Some (m1, w3)" "in_step m1"
      using mouse_ih_in_step [OF c, of "m_mouse ms2" "e_byte E" w2] m same by auto
    then have "in_step (m1\<lparr>updateMouse := False\<rparr>)" by (simp add: in_step_def)
    moreover have "before_key E i ms w = w3"
      using h(1) True unfolding before_key_def Let_def w2 [symmetric] same(1) by simp
    ultimately show ?thesis using h True same that by (cases "updateMouse m1") (simp_all add: on_mouse_def Let_def)
  next
    case False
    then have "before_key E i ms w = w2" unfolding before_key_def Let_def w2 by simp
    then show ?thesis using m same that False by simp
  qed
  have n: "on_notify E i ms w = (if has i (ucast (irq_set_kb ms)) then on_keyboard E ms3 w3 else Some (ms3, w3))"
    unfolding on_notify_def Let_def ms1_def [symmetric] 2 prod.case 3 by simp
  show ?thesis
  proof (cases "has i (ucast (irq_set_kb ms))")
    case True
    have "key_overrun E i ms w \<longleftrightarrow>
        unat (counter ms3) = 2 \<and> readKey (fst (snd (keyboard_int_handler (e_kernel E) (m_kb ms3) w3)))"
      using True by (simp add: key_overrun_def w3 m3(3,4))
    then show ?thesis
      using on_keyboard_defined [of ms3 E w3] m3 l True by (auto simp: n split: if_splits)
  qed (use m3(1) in \<open>simp add: n key_overrun_def\<close>)
qed

text \<open>An iteration up to the handling of the events: the notification and one byte each way.\<close>

definition gathered :: "'w main_env \<Rightarrow> MainState \<Rightarrow> 'w \<Rightarrow> (MainState \<times> 'w) option" where
  "gathered E ms w =
     (case e_receive E w of
        (msg, w1) \<Rightarrow> do {
          (ms1, w2) \<leftarrow> (if msg_notify msg \<and> msg_hardware msg
                       then on_notify E (msg_interrupts msg) ms w1 else Some (ms, w1));
          let (r, sp1, w3) = sp_write (e_kernel E) (g_sp (m_game ms1)) w2;
          let (r, sp2, w4) = sp_read (e_kernel E) sp1 w3;
          Some (ms1\<lparr>m_game := (m_game ms1)\<lparr>g_sp := sp2\<rparr>\<rparr>, w4)
        })"

lemma main_step_gathered:
  "main_step E ms w = (if msg_r (fst (e_receive E w)) \<noteq> 0 then Some (ms, snd (e_receive E w))
     else do {
       (ms1, w1) \<leftarrow> gathered E ms w;
       (q, g, w2) \<leftarrow> drain_events E (m_events ms1) (m_game ms1) w1;
       Some (ms1\<lparr>m_game := g, m_events := q\<rparr>, w2) })"
  by (simp add: main_step_def gathered_def case_prod_unfold Let_def)

text \<open>
  The situations in which an iteration has no defined result: a byte of the keyboard after
  two prefixes, or an event in one of the situations of \<open>goes_wrong\<close>.
\<close>

definition step_fault :: "'w main_env \<Rightarrow> MainState \<Rightarrow> 'w \<Rightarrow> bool" where
  "step_fault E ms w \<longleftrightarrow>
     (case e_receive E w of
        (msg, w1) \<Rightarrow> msg_r msg = 0 \<and>
          (msg_notify msg \<and> msg_hardware msg \<and> key_overrun E (msg_interrupts msg) ms w1 \<or>
           (case gathered E ms w of
              None \<Rightarrow> False
            | Some (ms1, w2) \<Rightarrow> events_fault E (eq_stack (m_events ms1)) (m_game ms1) w2)))"

lemma gathered_well:
  assumes W: "working E pending" and wm: "well_main ms"
    and r: "e_receive E w = (msg, w0)"
  shows "case gathered E ms w of
      None \<Rightarrow> msg_notify msg \<and> msg_hardware msg \<and> key_overrun E (msg_interrupts msg) ms w0
    | Some (ms1, w1) \<Rightarrow> well (m_game ms1) \<and> main_invar ms1 \<and> real_events (m_events ms1) \<and> in_step (m_mouse ms1) \<and>
        \<not> (msg_notify msg \<and> msg_hardware msg \<and> key_overrun E (msg_interrupts msg) ms w0)"
proof -
  have c: "clean_mouse E" and mi: "main_invar ms" and st: "in_step (m_mouse ms)" and g: "well (m_game ms)"
    and e: "eq_invar (m_events ms)" "real_events (m_events ms)"
    using W wm by (simp_all add: working_def well_main_def main_invar_def real_events_def)
  have l: "length (scancode_bytes ms) = 2" "unat (counter ms) \<le> 2" "sp_invar (g_sp (m_game ms))"
    using mi by (simp_all add: main_invar_def ginv_def)
  let ?n = "if msg_notify msg \<and> msg_hardware msg then on_notify E (msg_interrupts msg) ms w0 else Some (ms, w0)"
  let ?k = "msg_notify msg \<and> msg_hardware msg \<and> key_overrun E (msg_interrupts msg) ms w0"
  have nd: "case ?n of None \<Rightarrow> ?k | Some (ms', w') \<Rightarrow> in_step (m_mouse ms') \<and> \<not> ?k"
    using on_notify_defined [OF c st l(1,2), of "msg_interrupts msg" w0] st
    by (cases "msg_notify msg \<and> msg_hardware msg") (auto split: option.splits)
  show ?thesis
  proof (cases ?n)
    case None
    then have "gathered E ms w = None" unfolding gathered_def r prod.case None by simp
    then show ?thesis using nd None by simp
  next
    case (Some p)
    then obtain ms1 w2 where n: "?n = Some (ms1, w2)" by (cases p) simp
    have i1: "in_step (m_mouse ms1)" "\<not> ?k" using nd unfolding n by simp_all
    have "kept_main ms ms1"
      using n on_notify_kept [of E "msg_interrupts msg" ms w0 ms1 w2] by (auto simp: kept_main_def split: if_splits)
    then have mi1: "main_invar ms1" using mi by (simp add: kept_main_def)
    have "served (\<lambda>a b. sp_invar a \<longrightarrow> sp_invar b) ms ms1" by (rule sp_safe.message_served [OF refl n])
    then obtain sp where g1: "m_game ms1 = (m_game ms)\<lparr>g_sp := sp\<rparr>" and sp: "sp_invar sp" and e1: "real_events (m_events ms1)"
      using e l(3) by (auto simp: served_def)
    obtain r3 sp1 w3 where wr: "sp_write (e_kernel E) sp w2 = (r3, sp1, w3)" by (cases rule: prod_cases3)
    obtain r4 sp2 w4 where rd: "sp_read (e_kernel E) sp1 w3 = (r4, sp2, w4)" by (cases rule: prod_cases3)
    have "sp_invar sp2"
      using sp_write_invar [OF sp, of "e_kernel E" w2] sp_read_invar [of sp1 "e_kernel E" w3] by (simp add: wr rd)
    then have "well ((m_game ms)\<lparr>g_sp := sp2\<rparr>)" "main_invar (ms1\<lparr>m_game := (m_game ms)\<lparr>g_sp := sp2\<rparr>\<rparr>)"
      using well_sp [OF g] mi1 g1 by (simp_all add: main_invar_def ginv_def)
    moreover have "gathered E ms w = Some (ms1\<lparr>m_game := (m_game ms)\<lparr>g_sp := sp2\<rparr>\<rparr>, w4)"
      unfolding gathered_def r prod.case n using wr rd by (simp add: g1)
    ultimately show ?thesis using i1 e1 by simp
  qed
qed

lemma main_step_well:
  assumes W: "working E pending" and wm: "well_main ms"
  shows "if step_fault E ms w then main_step E ms w = None
    else \<exists>ms' w'. main_step E ms w = Some (ms', w') \<and> well_main ms'"
proof -
  obtain msg w0 where r: "e_receive E w = (msg, w0)" by force
  note gw = gathered_well [OF W wm r]
  show ?thesis
  proof (cases "msg_r msg = 0 \<and> gathered E ms w \<noteq> None")
  case False
  then show ?thesis
    using wm gw by (cases "gathered E ms w") (auto simp: main_step_gathered step_fault_def r)
next
  case True
  then obtain ms1 w1 where g: "gathered E ms w = Some (ms1, w1)" by auto
  have w1: "well (m_game ms1)" "main_invar ms1" "real_events (m_events ms1)" "in_step (m_mouse ms1)"
    and nk: "\<not> (msg_notify msg \<and> msg_hardware msg \<and> key_overrun E (msg_interrupts msg) ms w0)"
    using gw by (simp_all add: g)
  have ei: "eq_invar (m_events ms1)" using w1(2) by (simp add: main_invar_def)
  have s: "main_step E ms w = do {
      (q, g, w2) \<leftarrow> drain_events E (m_events ms1) (m_game ms1) w1;
      Some (ms1\<lparr>m_game := g, m_events := q\<rparr>, w2) }"
    using True by (simp add: main_step_gathered g r)
  have f: "step_fault E ms w = events_fault E (eq_stack (m_events ms1)) (m_game ms1) w1"
    unfolding step_fault_def r g prod.case option.case using True nk by blast
  note d = drain_events_well [OF W w1(1) ei w1(3), of w1]
  show ?thesis
  proof (cases "events_fault E (eq_stack (m_events ms1)) (m_game ms1) w1")
    case True
    then show ?thesis using d by (simp add: s f)
  next
    case False
    then obtain q' g' w' where r: "drain_events E (m_events ms1) (m_game ms1) w1 = Some (q', g', w')" "well g'" "eq_stack q' = []"
      using d by auto
    have "ginv g'" "eq_invar q'" using drain_events_ok [OF r(1) _ ei] w1(1) by (simp_all add: well_def)
    then have "well_main (ms1\<lparr>m_game := g', m_events := q'\<rparr>)"
      using r(2,3) w1(2,4) by (simp add: well_main_def main_invar_def)
    then show ?thesis using False by (simp add: s f r(1))
  qed
qed
qed

lemma reachable_well:
  assumes "working E pending" and "well_main ms0" and "reachable E ms0 w0 ms w"
  shows "well_main ms"
  using assms(3,2)
proof (induction rule: reachable.induct)
  case (iterate ms w ms' w')
  then show ?case using main_step_well [OF assms(1), of ms w] by (auto split: if_splits)
qed

section \<open>Bringing the devices up\<close>

text \<open>
  The statics of the program as it is loaded, and the sizes of the blocks \<open>malloc\<close> returns.
\<close>

definition unmade :: "Background \<Rightarrow> bool" where
  "unmade bg \<longleftrightarrow> \<not> bg_created bg \<and> bg_mem bg = None"

definition loaded :: "'w main_env \<Rightarrow> MainState \<Rightarrow> bool" where
  "loaded E ms \<longleftrightarrow> in_step (m_mouse ms) \<and> length (scancode_bytes ms) = 2 \<and> unplayed (g_playing (m_game ms)) \<and>
     g_name (m_game ms) = replicate 9 0 \<and> name_size (m_game ms) = 0 \<and>
     unmade (g_naming (m_game ms)) \<and> unmade (g_waiting (m_game ms)) \<and>
     unmade (g_choosing (m_game ms)) \<and> unmade (g_wait_choosing (m_game ms)) \<and>
     length (e_queue_mem E) = 10 \<and> length (e_event_mem E) = 100"

lemma unmade_fine: "unmade bg \<Longrightarrow> bg_fine bg"
  by (simp add: unmade_def bg_fine_def)

lemma init_graphics_115:
  assumes V: "video_115 V mapped"
  shows "\<exists>r vm vb s1 w1. init_graphics_mode V 0x115 s w = Some ((r, Some vm, Some vb), s1, w1) \<and> mode_115 s1 \<and>
    length (mapped vm) = 1440000 \<and> length (mapped vb) = 1440000"
proof -
  obtain vm s1 w1 where 1: "map_vram V 0 0x115 s w = Some ((0, Some vm), s1, w1)" using map_vram_115 [OF V] by blast
  obtain vb s2 w2 where 2: "map_vram V 1 0x115 s1 w1 = Some ((0, Some vb), s2, w2)" "mode_115 s2"
    using map_vram_115 [OF V] by blast
  show ?thesis using 2(2) V by (simp add: init_graphics_mode_def 1 2(1) video_115_def split: prod.split)
qed

lemma sp_configure_init_returns: "\<exists>r w'. sp_configure_init K w = Some (r, w')"
  by (simp add: sp_configure_init_def sp_set_bitrate_def c_div_def Let_def split: prod.split)

lemma sp_subscribe_returns:
  assumes "length tmem = 10" and "length rmem = 10"
  shows "\<exists>r b sp' w'. sp_subscribe_int K tmem rmem sp w = Some ((r, b), sp', w') \<and> (r = 0 \<longrightarrow> sp_invar sp')"
proof -
  obtain r1 h w1 where 1: "sys_irqsetpolicy K SP_IRQ (IRQ_REENABLE OR IRQ_EXCLUSIVE) 4 w = (r1, h, w1)"
    by (cases rule: prod_cases3)
  obtain r2 w2 where 2: "sp_configure_init K w1 = Some (r2, w2)" using sp_configure_init_returns [of K w1] by blast
  show ?thesis using createQueue_10 [OF assms(1)] createQueue_10 [OF assms(2)] 
    by (cases "r1 = 0"; cases "r2 = 0") (simp_all add: sp_subscribe_int_def Let_def 1 2 sp_invar_def)
qed

lemma letters_made: "gallery_ok load \<Longrightarrow> mode_115 s \<Longrightarrow> letters_ok s (initLetter load letters)"
  by (auto simp: letters_ok_def initLetter_def image_ok_115 gallery_image)

lemma cursor_made:
  assumes "gallery_ok load" and "mode_115 s"
  shows "cursor_inside s (initCursor load c)" "image_ok s (cursor_image (initCursor load c))"
  using mode_115_facts [OF assms(2)] gallery_image [OF assms(1)]
  by (simp_all add: cursor_inside_def initCursor_def image_ok_115 [OF assms(2)])

text \<open>The menu, and the game as the set-up leaves it.\<close>

lemma menu_drawn:
  assumes P: "gallery_ok load" and m: "mode_115 s" and l: "length mem = 1440000"
  shows "\<exists>v1 v2. vg_clear s mem = Some v1 \<and> draw_image s v1 (snd (create_image load x img)) x0 y0 = Some v2 \<and> length v2 = 1440000"
proof -
  note f = mode_115_wf [OF m]
  obtain v1 where v1: "vg_clear s mem = Some v1" "fb_wf s v1" using vg_clear_wf [of s mem] l f by blast
  have "image_ok s (snd (create_image load x img))" using gallery_image [OF P] by (simp add: image_ok_115 [OF m])
  then obtain v2 where "draw_image s v1 (snd (create_image load x img)) x0 y0 = Some v2" "fb_wf s v2"
    using draw_image_wf [OF v1(2)] by blast
  then show ?thesis using v1(1) f by blast
qed

definition started :: "xpm_loader \<Rightarrow> Screen \<Rightarrow> SerialPort \<Rightarrow> mem \<Rightarrow> mem \<Rightarrow> Game \<Rightarrow> Game" where
  "started load s sp v b g = g\<lparr>g_screen := s, g_letters := initLetter load (g_letters g), g_sp := sp,
     g_video_mem := v, g_buffer := b, g_state := START, g_cursor := initCursor load (g_cursor g)\<rparr>"

lemma started_well:
  assumes P: "gallery_ok load" and L: "loaded E ms" and m: "mode_115 s" and sp: "sp_invar sp"
    and l: "length v = 1440000" "length b = 1440000"
  shows "well (started load s sp v b (m_game ms))" "ginv (started load s sp v b (m_game ms))"
proof -
  let ?g = "started load s sp v b (m_game ms)"
  have "name_ok (replicate 9 0) 0" by (simp add: name_ok_def)
  then show gi: "ginv ?g" using L sp by (simp add: started_def ginv_def loaded_def)
  have "canvas ?g" using m l letters_made [OF P m] cursor_made [OF P m] by (simp add: canvas_def started_def)
  then have "outside ?g"
    using L gi unmade_fine by (simp add: outside_def loaded_def unmade_def) (simp add: started_def unmade_def)
  then show "well ?g" using gi by (simp add: well_def) (simp add: started_def)
qed

lemma main_init_well:
  assumes W: "working E pending" and L: "loaded E ms"
  shows "\<exists>r w1. main_init E ms w = Some (r, w1) \<and>
    (r = Inl 1 \<and> (\<exists>sp w2 r2 b2 sp2 w3. r2 \<noteq> 0 \<and>
       sp_subscribe_int (e_kernel E) (e_queue_mem E) (e_queue_mem E) sp w2 = Some ((r2, b2), sp2, w3)) \<or>
     (\<exists>ms1. r = Inr ms1 \<and> well_main ms1 \<and> g_state (m_game ms1) = START))"
proof -
  have V: "video_115 (e_video E) (e_mapped E)" and P: "gallery_ok (e_load E)" and q: "quiet_uart (e_kernel E) pending"
    using W by (simp_all add: working_def)
  let ?K = "e_kernel E" and ?g = "m_game ms"
  obtain r vm vb s1 w1 where 1: "init_graphics_mode (e_video E) 0x115 (g_screen ?g) w = Some ((r, Some vm, Some vb), s1, w1)"
    "mode_115 s1" "length (e_mapped E vm) = 1440000" "length (e_mapped E vb) = 1440000"
    using init_graphics_115 [OF V] by blast
  obtain r2 b2 kb1 w2 where 2: "keyboard_subscribe_int ?K (m_kb ms) w1 = ((r2, b2), kb1, w2)" by (metis surj_pair)
  obtain r4 b4 mouse1 w4 where 4: "mouse_subscribe_int ?K (m_mouse ms) (e_mouse_enable E w2) = ((r4, b4), mouse1, w4)"
    by (metis surj_pair)
  have m: "in_step mouse1" using 4 L by (auto simp: mouse_subscribe_int_def loaded_def in_step_def Let_def split: prod.splits)
  obtain r5 b5 sp1 w5 where 5: "sp_subscribe_int ?K (e_queue_mem E) (e_queue_mem E) (g_sp ?g) w4 = Some ((r5, b5), sp1, w5)"
    "r5 = 0 \<longrightarrow> sp_invar sp1"
    using sp_subscribe_returns [of "e_queue_mem E" "e_queue_mem E" ?K "g_sp ?g" w4] L by (auto simp: loaded_def)
  show ?thesis
  proof (cases "r5 = 0")
    case False
    then have "main_init E ms w = Some (Inl 1, w5)"
      unfolding main_init_def Let_def 1(1) 2 4 5(1) Option.bind.simps prod.case by simp
    then show ?thesis using 5(1) False by blast
  next
    case True
    obtain r6 b6 timer1 w6 where 6: "timer_subscribe_int ?K (m_timer ms) w5 = ((r6, b6), timer1, w6)" by (metis surj_pair)
    obtain sp2 w7 where 7: "sp_clear ?K sp1 w6 = Some (sp2, w7)"
      using sp_clear_device_stops [OF q, of sp1 w6] 5(2) True by (auto simp: sp_clear_def)
    have sp2: "sp_invar sp2" using sp_clear_invar [OF 7] 5(2) True by simp
    let ?menu = "snd (create_image (e_load E) menu_xpm (e_image E))"
    obtain v1 v2 where v: "vg_clear s1 (e_mapped E vm) = Some v1" "draw_image s1 v1 ?menu 95 50 = Some v2" "length v2 = 1440000"
      using menu_drawn [OF P 1(2,3)] by blast
    let ?g1 = "started (e_load E) s1 sp2 v2 (e_mapped E vb) ?g"
    define ms1 where "ms1 = ms\<lparr>m_game := ?g1, m_kb := kb1, m_mouse := mouse1, m_timer := timer1,
        m_events := createEventQueue 100 (e_event_mem E), counter := 0, irq_set_kb := BIT (unat b2),
        irq_set_mouse := BIT (unat b4), irq_set_sp := BIT SP_IRQ, irq_set_timer := BIT (unat b6)\<rparr>"
    have i: "main_init E ms w = Some (Inr ms1, e_sleep E 2 w7)"
      unfolding main_init_def Let_def 1(1) 2 4 5(1) 6 7 Option.bind.simps prod.case True v(1)
      by (simp add: ms1_def started_def v(2))
    note g1 = started_well [OF P L 1(2) sp2 v(3) 1(4)]
    have "main_invar ms1"
      using g1(2) L createEventQueue_invar(1) [of "e_event_mem E" 100] by (simp add: main_invar_def ms1_def loaded_def)
    then have "well_main ms1" using g1(1) m createEventQueue_invar(2) by (simp add: well_main_def ms1_def)
    moreover have "g_state (m_game ms1) = START" by (simp add: ms1_def started_def)
    ultimately show ?thesis using i by blast
  qed
qed

section \<open>The end of the program\<close>

text \<open>
  When the loop has ended, the program ends too, unless it has won and no byte is left to
  be sent; the program of the player who lost always ends.
\<close>

lemma program_ends:
  assumes "quiet_uart (e_kernel E) pending" and "ready_uart (e_kernel E) send"
    and "\<And>w. mouse_disable_data_reporting (e_kernel E) (e_status E) (e_byte E) w \<noteq> None"
    and "well_main ms" and "g_state (m_game ms) = EXIT"
  shows "main_loop E ms w = Some (ms, w) \<and>
    (main_shutdown E ms w = None \<longleftrightarrow> g_won (m_game ms) \<and> to_send (g_sp (m_game ms)) = [])"
  using shutdown_returns [OF assms(1-3)] assms(4,5)
  by (simp add: main_loop.simps [of E ms] well_main_def main_invar_def ginv_def)

section \<open>Properties\<close>

text \<open>C7: The program does not go wrong, from its loading to the end of the game, except in five
  situations. On a machine whose devices work (the graphics mode can be set and mapped, every
  picture decodes and fits the mode, the serial line holds finitely many bytes whenever it is
  drained, and the mouse reports neither parity errors nor timeouts), bringing them up has a
  defined result, and in every state the message loop reaches the whole state is well-formed:
  the screen being shown, its pictures and mapped pages, the name, the queues, the mouse
  packet, and during and after the game the board. An iteration has no defined result exactly
  when it runs into one of these: the keyboard delivers a third byte after two prefixes of a
  scan code; the peer's move starts from an empty square; a piece is dropped in the top
  thirteen rows; a piece is picked up whose marking reads a word beside the array of the
  squares that cannot be read; or, on a machine on which \<open>free\<close> does not return when it is
  handed a mapped page, a confirmed name or a chosen colour (clicked, or received from the
  peer) hands it one.\<close>
theorem program_does_not_go_wrong:
  assumes "working E pending" and "loaded E ms0"
  shows "main_init E ms0 w0 \<noteq> None \<and>
    (\<forall>ms1 w1 ms w. main_init E ms0 w0 = Some (Inr ms1, w1) \<longrightarrow> reachable E ms1 w1 ms w \<longrightarrow>
       well_main ms \<and> edge\<^sup>*\<^sup>* START (g_state (m_game ms)) \<and>
       (main_step E ms w = None \<longleftrightarrow> step_fault E ms w))"
proof (intro conjI allI impI)
  obtain r w' where r: "main_init E ms0 w0 = Some (r, w')"
    "r = Inl 1 \<or> (\<exists>ms1. r = Inr ms1 \<and> well_main ms1 \<and> g_state (m_game ms1) = START)"
    using main_init_well [OF assms] by blast
  then show "main_init E ms0 w0 \<noteq> None" by simp
  fix ms1 w1 ms w
  assume "main_init E ms0 w0 = Some (Inr ms1, w1)" and re: "reachable E ms1 w1 ms w"
  then have 1: "well_main ms1" "g_state (m_game ms1) = START" using r by auto
  show wm: "well_main ms" by (rule reachable_well [OF assms(1) 1(1) re])
  show "edge\<^sup>*\<^sup>* START (g_state (m_game ms))" using reachable_ok [OF re] 1 by (simp add: well_main_def)
  show "main_step E ms w = None \<longleftrightarrow> step_fault E ms w"
    using main_step_well [OF assms(1) wm, of w] by (auto split: if_splits)
qed

text \<open>The program as it is loaded, on the machine \<^const>\<open>win_env\<close>.\<close>

definition loaded_main :: MainState where
  "loaded_main = sample_main\<lparr>m_game := starting_game\<rparr>"

lemma win_subscribes: "sp_subscribe_int win_kernel t r sp w = Some ((n, b), sp', w') \<Longrightarrow> n = 0"
proof -
  have e: "sp_enable win_kernel port x en v = (0, v)" for port x en v
    by (simp add: sp_enable_def win_kernel_def Let_def)
  have "sp_set_number_of_bits_per_char win_kernel k v = (0, v)" "sp_set_bitrate win_kernel 115200 v = Some (0, v)" for k v
    by (simp_all add: sp_set_number_of_bits_per_char_def sp_set_bitrate_def c_div_def win_kernel_def Let_def)
  then have "sp_configure_init win_kernel v = Some (0, v)" for v by (simp add: sp_configure_init_def e)
  then show "sp_subscribe_int win_kernel t r sp w = Some ((n, b), sp', w') \<Longrightarrow> n = 0"
    by (simp add: sp_subscribe_int_def win_kernel_def split: prod.splits)
qed

lemma win_working: "working win_env (\<lambda>_. 0)" "loaded win_env loaded_main"
proof -
  have "image_ok screen_115 no_picture" by (simp add: image_ok_def no_picture_def)
  then have "gallery_ok (e_load win_env)" by (simp add: gallery_ok_def win_env_def)
  moreover have "XResolution (vmi_p screen_115) = 800" "YResolution (vmi_p screen_115) = 600" "BitsPerPixel (vmi_p screen_115) = 24"
    by (simp_all add: screen_115_def)
  then have "video_115 (e_video win_env) (e_mapped win_env)" by (simp add: video_115_def win_env_def)
  moreover have "\<not> has (1 :: u8) AUX" by (simp add: has_def status_bits)
  then have "clean_mouse win_env"
    by (auto simp: clean_mouse_def win_env_def win_kernel_def util_sys_inb_def STAT_REG_def SP_COM_def SP_LSR_def)
  ultimately show "working win_env (\<lambda>_. 0)" using win_devices(1) by (simp add: working_def)
  show "loaded win_env loaded_main"
    using in_step_init
    by (simp add: loaded_def loaded_main_def sample_main_def starting_game_def sample_game_def unplayed_def unmade_def on_sq_def
        win_env_def)
qed

theorem program_does_not_go_wrong_witness:
  "\<exists>ms w. main_init win_env loaded_main 0 = Some (Inr ms, w) \<and> well_main ms \<and>
     (main_step win_env ms w = None \<longleftrightarrow> step_fault win_env ms w)"
proof -
  have k: "e_kernel win_env = win_kernel" by (simp add: win_env_def)
  obtain ms w where i: "main_init win_env loaded_main 0 = Some (Inr ms, w)"
    using main_init_well [OF win_working, of 0] win_subscribes unfolding k by blast
  show ?thesis
    using program_does_not_go_wrong [OF win_working, of 0] reachable.start [of win_env ms w] i by blast
qed

end
