(* ===== verification/LabTimer.thy ===== *)
theory LabTimer
  imports Receive Keyboard
begin

text \<open>
  The timer laboratory, \<open>lab2/timer.c\<close> and \<open>lab2/lab2.c\<close>: reading the configuration of an
  i8254 timer with the read-back command, programming a frequency, and counting seconds
  with the interrupts of timer 0. \<open>lab2/utils.c\<close> is the \<open>utils.c\<close> of the project.
\<close>

section \<open>Registers and command bits (lab2/i8254.h, lab2/timer.c)\<close>

definition TIMER_FREQ :: u32 where "TIMER_FREQ = 1193182"
definition TIMER_0 :: nat where "TIMER_0 = 0x40"
definition TIMER_1 :: nat where "TIMER_1 = 0x41"
definition TIMER_2 :: nat where "TIMER_2 = 0x42"
definition TIMER_CTRL :: nat where "TIMER_CTRL = 0x43"
definition TIMER_LSB :: u8 where "TIMER_LSB = BIT 4"
definition TIMER_MSB :: u8 where "TIMER_MSB = BIT 5"
definition TIMER_LSB_MSB :: u8 where "TIMER_LSB_MSB = TIMER_LSB OR TIMER_MSB"
definition TIMER_RB_COUNT :: u8 where "TIMER_RB_COUNT = BIT 5"
definition READBACK_CMD :: u8 where "READBACK_CMD = BIT 7 OR BIT 6"
definition INIT_MODE_MASK :: u8 where "INIT_MODE_MASK = BIT 4 OR BIT 5"
definition COUNTING_MODE_MASK :: u8 where "COUNTING_MODE_MASK = 0x0E"
definition BASE_MASK :: u8 where "BASE_MASK = 0x01"

lemmas timer_bits = TIMER_LSB_def TIMER_MSB_def TIMER_LSB_MSB_def TIMER_RB_COUNT_def READBACK_CMD_def
  INIT_MODE_MASK_def COUNTING_MODE_MASK_def BASE_MASK_def BIT_def

lemmas timer_ports = TIMER_0_def TIMER_1_def TIMER_2_def TIMER_CTRL_def

text \<open>
  \<open>BIT((n) + 1)\<close> on an \<open>int\<close>, stored in a byte; the shift is undefined from 31 on.
\<close>

definition TIMER_RB_SEL :: "u8 \<Rightarrow> u8 option" where
  "TIMER_RB_SEL n = (if unat n + 1 < 31 then Some (BIT (unat n + 1)) else None)"

text \<open>\<open>n << 6\<close> on an \<open>int\<close>, stored in a byte.\<close>

definition PROGRAM_TIMER :: "u8 \<Rightarrow> u8" where
  "PROGRAM_TIMER n = push_bit 6 n"

section \<open>The driver (lab2/timer.c)\<close>

record Lab2State =
  lab2_counter :: int
  lab2_hook_id :: int

definition lab2_init :: Lab2State where
  "lab2_init = \<lparr>lab2_counter = 0, lab2_hook_id = 4\<rparr>"

text \<open>\<open>st\<close> is what \<open>*st\<close> holds before the call.\<close>

definition timer_get_conf :: "'w kernel \<Rightarrow> u8 \<Rightarrow> u8 \<Rightarrow> 'w \<Rightarrow> (int \<times> u8 \<times> 'w) option" where
  "timer_get_conf K timer st w =
     do {
       sel \<leftarrow> TIMER_RB_SEL timer;
       let read_back_command = READBACK_CMD OR TIMER_RB_COUNT OR sel;
       let (r, w1) = sys_outb K TIMER_CTRL (ucast read_back_command) w;
       Some (if r \<noteq> 0 then (-1, st, w1)
             else if timer = 0 then util_sys_inb K TIMER_0 st w1
             else if timer = 1 then util_sys_inb K TIMER_1 st w1
             else if timer = 2 then util_sys_inb K TIMER_2 st w1
             else (-1, st, w1))
     }"

text \<open>The two bytes of the divisor, written to the register of one timer.\<close>

definition write_divisor :: "'w kernel \<Rightarrow> nat \<Rightarrow> u8 \<Rightarrow> u8 \<Rightarrow> 'w \<Rightarrow> int \<times> 'w" where
  "write_divisor K port lsb msb w =
     (case sys_outb K port (ucast lsb) w of
        (r, w1) \<Rightarrow> if r \<noteq> 0 then (r, w1)
          else case sys_outb K port (ucast msb) w1 of
                 (r, w2) \<Rightarrow> if r \<noteq> 0 then (r, w2) else (0, w2))"

text \<open>\<open>control\<close> is the content of the uninitialised local of that name.\<close>

definition timer_set_frequency :: "'w kernel \<Rightarrow> u8 \<Rightarrow> u8 \<Rightarrow> u32 \<Rightarrow> 'w \<Rightarrow> (int \<times> 'w) option" where
  "timer_set_frequency K control timer freq w =
     (if freq > TIMER_FREQ \<or> freq < 19 then Some (-1, w)
      else do {
        (_, control1, w1) \<leftarrow> timer_get_conf K timer control w;
        let control2 = control1 AND (COUNTING_MODE_MASK OR BASE_MASK);
        let control3 = control2 OR (TIMER_LSB_MSB OR PROGRAM_TIMER timer);
        let (r, w2) = sys_outb K TIMER_CTRL (ucast control3) w1;
        Some (if r \<noteq> 0 then (r, w2)
          else
            let divisor = ucast (TIMER_FREQ div freq) :: u16;
                div_MSB = snd (util_get_MSB divisor);
                div_LSB = snd (util_get_LSB divisor)
            in if timer = 0 then write_divisor K TIMER_0 div_LSB div_MSB w2
               else if timer = 1 then write_divisor K TIMER_1 div_LSB div_MSB w2
               else if timer = 2 then write_divisor K TIMER_2 div_LSB div_MSB w2
               else (-1, w2))
      })"

definition lab2_timer_subscribe_int ::
  "'w kernel \<Rightarrow> Lab2State \<Rightarrow> 'w \<Rightarrow> (int \<times> u8) \<times> Lab2State \<times> 'w" where
  "lab2_timer_subscribe_int K t w =
     (let bit_no = word_of_int (lab2_hook_id t)
      in case sys_irqsetpolicy K TIMER0_IRQ IRQ_REENABLE (lab2_hook_id t) w of
           (r, hook', w') \<Rightarrow> ((r, bit_no), t\<lparr>lab2_hook_id := hook'\<rparr>, w'))"

definition lab2_timer_unsubscribe_int :: "'w kernel \<Rightarrow> Lab2State \<Rightarrow> 'w \<Rightarrow> int \<times> 'w" where
  "lab2_timer_unsubscribe_int K t w = sys_irqrmpolicy K (lab2_hook_id t) w"

definition lab2_timer_int_handler :: "Lab2State \<Rightarrow> Lab2State" where
  "lab2_timer_int_handler t = t\<lparr>lab2_counter := i32_of (u32_of (lab2_counter t) + 1)\<rparr>"

text \<open>The status field and the union of its values; the enumeration of the
  initialisation modes is numbered from 0.\<close>

datatype timer_status_field = tsf_all | tsf_initial | tsf_mode | tsf_base

datatype timer_status_field_val = Byte u8 | InMode u8 | CountMode u8 | Bcd bool

definition status_field :: "u8 \<Rightarrow> timer_status_field \<Rightarrow> timer_status_field_val" where
  "status_field st field =
     (case field of
        tsf_all \<Rightarrow> Byte st
      | tsf_initial \<Rightarrow> InMode (drop_bit 4 (st AND INIT_MODE_MASK))
      | tsf_mode \<Rightarrow>
          (let count_mode = drop_bit 1 (st AND COUNTING_MODE_MASK)
           in CountMode (if count_mode = 6 \<or> count_mode = 7 then count_mode - 4 else count_mode))
      | tsf_base \<Rightarrow> Bcd (has st BASE_MASK))"

text \<open>The printing functions belong to the LCOM library.\<close>

record 'w lab2_env =
  l2_kernel :: "'w kernel"
  l2_receive :: "'w \<Rightarrow> message \<times> 'w"
  timer_print_config :: "u8 \<Rightarrow> timer_status_field \<Rightarrow> timer_status_field_val \<Rightarrow> 'w \<Rightarrow> int \<times> 'w"
  timer_print_elapsed_time :: "'w \<Rightarrow> 'w"

definition timer_display_conf ::
  "'w lab2_env \<Rightarrow> u8 \<Rightarrow> u8 \<Rightarrow> timer_status_field \<Rightarrow> 'w \<Rightarrow> int \<times> 'w" where
  "timer_display_conf E timer st field w = timer_print_config E timer field (status_field st field) w"

section \<open>The exercises (lab2/lab2.c)\<close>

definition timer_test_read_config ::
  "'w lab2_env \<Rightarrow> u8 \<Rightarrow> u8 \<Rightarrow> timer_status_field \<Rightarrow> 'w \<Rightarrow> (int \<times> 'w) option" where
  "timer_test_read_config E st timer field w =
     do {
       (r, st1, w1) \<leftarrow> timer_get_conf (l2_kernel E) timer st w;
       Some (if r = 0 then timer_display_conf E timer st1 field w1 else (r, w1))
     }"

definition timer_test_time_base :: "'w lab2_env \<Rightarrow> u8 \<Rightarrow> u8 \<Rightarrow> u32 \<Rightarrow> 'w \<Rightarrow> (int \<times> 'w) option" where
  "timer_test_time_base E control timer freq w = timer_set_frequency (l2_kernel E) control timer freq w"

definition count_second :: "'w lab2_env \<Rightarrow> u8 \<Rightarrow> message \<Rightarrow> Lab2State \<Rightarrow> 'w \<Rightarrow> (Lab2State \<times> 'w) option" where
  "count_second E irq_set msg t w =
     Some (if raised msg (ucast irq_set)
           then let t1 = lab2_timer_int_handler t
                in (t1, if lab2_counter t1 mod 60 = 0 then timer_print_elapsed_time E w else w)
           else (t, w))"

definition timer_test_int :: "'w lab2_env \<Rightarrow> u8 \<Rightarrow> Lab2State \<Rightarrow> 'w \<Rightarrow> (int \<times> Lab2State \<times> 'w) option" where
  "timer_test_int E time t w =
     (case lab2_timer_subscribe_int (l2_kernel E) t w of
        ((r, bit_no), t1, w1) \<Rightarrow>
          if r \<noteq> 0 then Some (r, t1, w1)
          else do {
            let irq_set = BIT (unat bit_no);
            (t2, w2) \<leftarrow> receive_loop (l2_receive E) (\<lambda>t. lab2_counter t < 60 * uint time)
                         (count_second E irq_set) t1 w1;
            let (r, w3) = lab2_timer_unsubscribe_int (l2_kernel E) t2 w2;
            Some (r, t2, w3)
          })"

section \<open>Programming a frequency\<close>

text \<open>The world after a successful write.\<close>

definition emit :: "'w kernel \<Rightarrow> nat \<Rightarrow> u8 \<Rightarrow> 'w \<Rightarrow> 'w" where
  "emit K port v w = snd (sys_outb K port (ucast v) w)"

lemma emit_eq: "\<forall>p v w. fst (sys_outb K p v w) = 0 \<Longrightarrow> sys_outb K p (ucast v) w = (0, emit K p v w)"
  by (metis emit_def prod.collapse)

definition control_word :: "u8 \<Rightarrow> u8 \<Rightarrow> u8" where
  "control_word st timer = (st AND 0x0F) OR (0x30 OR push_bit 6 timer)"

lemma low_nibble: "bit (0x0F :: u8) n \<longleftrightarrow> n < 4"
proof -
  have "(0x0F :: u8) = mask 4" by (simp add: mask_eq_exp_minus_1)
  then show ?thesis by (simp only: bit_mask_iff) auto
qed

lemma control_word_bit:
  "bit (control_word st timer) n \<longleftrightarrow>
     n < 4 \<and> bit st n \<or> n = 4 \<or> n = 5 \<or> 6 \<le> n \<and> n < 8 \<and> bit timer (n - 6)"
proof -
  have "(0x30 :: u8) = push_bit 4 (mask 2)" by (simp add: mask_eq_exp_minus_1)
  then have "bit (0x30 :: u8) n \<longleftrightarrow> n = 4 \<or> n = 5"
    by (simp only: bit_push_bit_iff bit_mask_iff) auto
  then show ?thesis
    by (simp only: control_word_def bit_or_iff bit_and_iff bit_push_bit_iff low_nibble) auto
qed

lemma small_timer:
  fixes timer :: u8
  assumes "timer \<le> 2"
  shows "timer = 0 \<or> timer = 1 \<or> timer = 2"
  using assms by (simp add: word_le_nat_alt word_unat_eq_iff) arith

lemma control_word_timer:
  assumes "timer \<le> 2"
  shows "drop_bit 6 (control_word st timer) = timer"
proof (rule bit_word_eqI)
  fix n assume "n < LENGTH(8)"
  have "\<not> bit timer n" if "2 \<le> n"
  proof -
    have "unat timer < 2 ^ 2" using assms by (simp add: word_le_nat_alt)
    then have "take_bit 2 timer = timer"
      by (simp add: word_unat_eq_iff unsigned_take_bit_eq take_bit_nat_eq_self)
    then show ?thesis using that by (metis bit_take_bit_iff not_le)
  qed
  then show "bit (drop_bit 6 (control_word st timer)) n = bit timer n"
    by (cases "n < 2") (auto simp: bit_drop_bit_eq control_word_bit)
qed

lemma divisor_bytes:
  fixes freq :: u32
  assumes "19 \<le> freq"
  defines "d \<equiv> ucast (TIMER_FREQ div freq) :: u16"
  shows "unat (snd (util_get_LSB d)) + 256 * unat (snd (util_get_MSB d)) = 1193182 div unat freq"
proof -
  have f: "19 \<le> unat freq" using assms(1) by (simp add: word_le_nat_alt)
  have q: "1193182 div unat freq \<le> 1193182 div 19" by (rule div_le_mono2) (use f in simp_all)
  have "unat (TIMER_FREQ div freq) = 1193182 div unat freq"
    by (simp add: unat_div TIMER_FREQ_def)
  then have "unat d = 1193182 div unat freq"
    using q by (simp add: d_def unsigned_ucast_eq take_bit_nat_eq_self)
  then show ?thesis by (simp add: util_LSB_unat util_MSB_unat)
qed

text \<open>The read-back command for a timer: no count, status of that timer.\<close>

definition readback :: "u8 \<Rightarrow> u8" where
  "readback timer = READBACK_CMD OR TIMER_RB_COUNT OR BIT (unat timer + 1)"

definition timer_port :: "u8 \<Rightarrow> nat" where
  "timer_port timer = 0x40 + unat timer"

lemma timer_get_conf_ok:
  assumes ok: "\<forall>p v w. fst (sys_outb K p v w) = 0" and t: "timer \<le> 2"
    and r: "sys_inb K (timer_port timer) (emit K TIMER_CTRL (readback timer) w) = (0, st, w1)"
  shows "timer_get_conf K timer old w = Some (0, ucast st, w1)"
proof -
  have "TIMER_RB_SEL timer = Some (BIT (unat timer + 1))"
    using t by (simp add: TIMER_RB_SEL_def word_le_nat_alt)
  then show ?thesis
    using small_timer [OF t] r
    by (auto simp: timer_get_conf_def emit_eq [OF ok] readback_def timer_port_def util_sys_inb_def timer_ports)
qed

lemma write_divisor_ok:
  "\<forall>p v w. fst (sys_outb K p v w) = 0 \<Longrightarrow> write_divisor K port l m w = (0, emit K port m (emit K port l w))"
  by (simp add: write_divisor_def emit_eq)

lemma timer_set_frequency_ok:
  assumes ok: "\<forall>p v w. fst (sys_outb K p v w) = 0" and t: "timer \<le> 2"
    and r: "sys_inb K (timer_port timer) (emit K TIMER_CTRL (readback timer) w) = (0, st, w1)"
    and f: "19 \<le> freq" "freq \<le> TIMER_FREQ"
  defines "d \<equiv> ucast (TIMER_FREQ div freq) :: u16"
  shows "timer_set_frequency K junk timer freq w =
    Some (0, emit K (timer_port timer) (snd (util_get_MSB d)) (emit K (timer_port timer) (snd (util_get_LSB d))
      (emit K TIMER_CTRL (control_word (ucast st) timer) w1)))"
proof -
  have c: "(ucast st AND (COUNTING_MODE_MASK OR BASE_MASK)) OR (TIMER_LSB_MSB OR PROGRAM_TIMER tm) =
      control_word (ucast st) tm" for tm
    by (simp add: control_word_def timer_bits PROGRAM_TIMER_def)
  show ?thesis
    using small_timer [OF t] f timer_get_conf_ok [OF ok t r, of junk]
    by (elim disjE) (simp_all add: timer_set_frequency_def Let_def not_less [symmetric] c [simplified] emit_eq [OF ok] write_divisor_ok [OF ok] d_def timer_port_def timer_ports)
qed

section \<open>Counting seconds\<close>

text \<open>
  The machine of the exercise: subscribing works, the timer keeps raising its interrupt,
  and only \<open>timer_print_elapsed_time\<close> shows a second.
\<close>

definition lab2_machine :: "'w lab2_env \<Rightarrow> ('w \<Rightarrow> nat) \<Rightarrow> ('w \<Rightarrow> nat) \<Rightarrow> bool" where
  "lab2_machine E pending shown \<longleftrightarrow>
     (\<forall>irq p h w. case sys_irqsetpolicy (l2_kernel E) irq p h w of (r, h', w') \<Rightarrow> r = 0 \<and> shown w' = shown w) \<and>
     (\<forall>h w. shown (snd (sys_irqrmpolicy (l2_kernel E) h w)) = shown w) \<and>
     fair_irq (l2_receive E) 16 pending \<and>
     (\<forall>w. shown (snd (l2_receive E w)) = shown w) \<and>
     (\<forall>w. shown (timer_print_elapsed_time E w) = Suc (shown w))"

lemma tick_counter:
  assumes "0 \<le> lab2_counter t" and "lab2_counter t < 60 * uint (time :: u8)"
  shows "lab2_counter (lab2_timer_int_handler t) = lab2_counter t + 1"
proof -
  have b: "lab2_counter t < 60 * 256" using assms(2) uint_u8 [of time] by simp
  then have "unat (u32_of (lab2_counter t) + 1) = nat (lab2_counter t + 1)"
    using assms(1)
    by (simp add: u32_of_def unat_word_ariths unsigned_of_int take_bit_int_eq_self nat_add_distrib)
  then show ?thesis
    using b assms(1) by (simp add: lab2_timer_int_handler_def i32_of_small)
qed

lemma int_div_succ:
  fixes x :: int
  assumes "0 \<le> x"
  shows "(x + 1) div 60 = x div 60 + (if (x + 1) mod 60 = 0 then 1 else 0)"
proof -
  obtain n where x: "x = int n" using assms nonneg_int_cases by blast
  have "int (Suc n div 60) = int (n div 60) + (if int (Suc n mod 60) = 0 then 1 else 0)"
    by (simp add: div_Suc)
  then show ?thesis by (simp add: x zdiv_int zmod_int add.commute)
qed

lemma seconds_loop:
  fixes time :: u8
  assumes m: "lab2_machine E pending shown" and "0 \<le> lab2_counter t" "lab2_counter t \<le> 60 * uint time"
  shows "\<exists>t' w'. receive_loop (l2_receive E) (\<lambda>t. lab2_counter t < 60 * uint time) (count_second E 16) t w =
      Some (t', w') \<and> lab2_counter t' = 60 * uint time \<and>
      int (shown w') - int (shown w) = 60 * uint time div 60 - lab2_counter t div 60"
proof -
  let ?go = "\<lambda>t. lab2_counter t < 60 * uint time"
  let ?c = "int (shown w) - lab2_counter t div 60"
  let ?I = "\<lambda>t w. 0 \<le> lab2_counter t \<and> lab2_counter t \<le> 60 * uint time \<and>
      int (shown w) = ?c + lab2_counter t div 60"
  let ?R = "inv_image (less_than <*lex*> less_than) (\<lambda>(t, w). (nat (60 * uint time - lab2_counter t), pending w))"
  have fair: "fair_irq (l2_receive E) 16 pending" using m by (simp add: lab2_machine_def)
  have recv: "shown w1 = shown w" if "l2_receive E w = (msg, w1)" for w msg w1
    using m that unfolding lab2_machine_def by (metis snd_conv)
  have pr: "shown (timer_print_elapsed_time E w) = Suc (shown w)" for w
    using m by (simp add: lab2_machine_def)
  have "\<exists>t' w'. receive_loop (l2_receive E) ?go (count_second E 16) t w = Some (t', w') \<and> ?I t' w' \<and> \<not> ?go t'"
  proof (rule receive_loop_returns [where R = ?R])
    show "?I t w" using assms(2,3) by simp
    show "wf ?R" by (simp add: wf_inv_image wf_lex_prod)
  next
    fix t :: Lab2State and w msg w1
    assume i: "?I t w" and "?go t" and r: "l2_receive E w = (msg, w1)" and "msg_r msg \<noteq> 0"
    then show "?I t w1 \<and> ((t, w1), (t, w)) \<in> ?R"
      using fair_irqD [OF fair r] recv [OF r] by simp
  next
    fix t :: Lab2State and w msg w1
    assume i: "?I t w" and go: "?go t" and r: "l2_receive E w = (msg, w1)" and "msg_r msg = 0"
    show "\<exists>s2 w2. count_second E 16 msg t w1 = Some (s2, w2) \<and> ?I s2 w2 \<and> ((s2, w2), (t, w)) \<in> ?R"
    proof (cases "raised msg 16")
      case False
      then show ?thesis
        using i fair_irqD [OF fair r] recv [OF r] by (simp add: count_second_def)
    next
      case True
      have "(lab2_counter t + 1) div 60 =
          lab2_counter t div 60 + (if (lab2_counter t + 1) mod 60 = 0 then 1 else 0)" using i by (simp only: int_div_succ)
      moreover have c: "lab2_counter (lab2_timer_int_handler t) = lab2_counter t + 1"
        using i go tick_counter [of t time] by blast
      ultimately show ?thesis
        using True i go recv [OF r] pr by (simp add: count_second_def Let_def c)
    qed
  qed
  then obtain t' w' where e: "receive_loop (l2_receive E) ?go (count_second E 16) t w = Some (t', w')"
    and i: "?I t' w'" and "\<not> ?go t'" by blast
  then have c: "lab2_counter t' = 60 * uint time" by simp
  show ?thesis by (rule exI [of _ t'], rule exI [of _ w']) (use e i c in simp)
qed

section \<open>Properties\<close>

text \<open>Programming a timer keeps its mode. For a frequency the 16-bit divisor can express
  timer_set_frequency reads the status of the chosen timer with the read-back command and
  writes a control word with the same four low bits (counting mode and base), the access
  mode least significant byte first and the number of the timer, followed by the two bytes
  of the quotient of the clock frequency; every other frequency is refused before any
  port is touched.\<close>
lemma timer_set_frequency_keeps_mode:
  assumes "\<forall>p v w. fst (sys_outb K p v w) = 0" and "timer \<le> 2"
    and "sys_inb K (timer_port timer) (emit K TIMER_CTRL (readback timer) w) = (0, st, w1)"
  shows "if 19 \<le> freq \<and> freq \<le> TIMER_FREQ
    then \<exists>control lsb msb. timer_set_frequency K junk timer freq w =
        Some (0, emit K (timer_port timer) msb (emit K (timer_port timer) lsb (emit K TIMER_CTRL control w1))) \<and>
      (\<forall>n<4. bit control n = bit st n) \<and> bit control 4 \<and> bit control 5 \<and> drop_bit 6 control = timer \<and>
      unat lsb + 256 * unat msb = 1193182 div unat freq
    else timer_set_frequency K junk timer freq w = Some (-1, w)"
proof (cases "19 \<le> freq \<and> freq \<le> TIMER_FREQ")
  case True
  let ?c = "control_word (ucast st) timer"
  have "\<forall>n<4. bit ?c n = bit st n" "bit ?c 4" "bit ?c 5"
    by (auto simp: control_word_bit bit_ucast_iff)
  then show ?thesis
    unfolding if_P [OF True]
    using timer_set_frequency_ok [OF assms] True control_word_timer [OF assms(2)] divisor_bytes by blast
next
  case False
  then show ?thesis by (auto simp: timer_set_frequency_def not_le)
qed

text \<open>A machine that records what is written, with status 0x36 in every timer.\<close>

definition timer_log :: "(nat \<times> u32) list kernel" where
  "timer_log = \<lparr>sys_inb = (\<lambda>port w. (0, 0x36, w)), sys_outb = (\<lambda>port v w. (0, w @ [(port, v)])),
     tickdelay = (\<lambda>us w. w), sys_irqsetpolicy = (\<lambda>irq p h w. (0, h, w)), sys_irqrmpolicy = (\<lambda>h w. (0, w))\<rparr>"

lemma timer_set_frequency_keeps_mode_example:
  "\<exists>control lsb msb. timer_set_frequency timer_log 0 0 60 [] =
       Some (0, [(0x43, ucast (readback 0)), (0x43, ucast control), (0x40, ucast lsb), (0x40, ucast msb)]) \<and>
     drop_bit 6 control = (0 :: u8) \<and> bit control 1 \<and> unat (lsb :: u8) + 256 * unat (msb :: u8) = 19886"
proof -
  have k: "\<forall>p v w. fst (sys_outb timer_log p v w) = 0" by (simp add: timer_log_def)
  have e: "emit timer_log p v w = w @ [(p, ucast v)]" for p v w by (simp add: emit_def timer_log_def)
  have r: "sys_inb timer_log (timer_port 0) (emit timer_log TIMER_CTRL (readback 0) []) =
      (0, 0x36, [(0x43, ucast (readback 0))])"
    by (simp add: e) (simp add: timer_log_def TIMER_CTRL_def)
  have f: "(19 :: u32) \<le> 60 \<and> 60 \<le> TIMER_FREQ" "(0 :: u8) \<le> 2" "bit (0x36 :: u32) 1"
    by (simp_all add: TIMER_FREQ_def)
  have "\<exists>(control :: u8) (lsb :: u8) (msb :: u8). timer_set_frequency timer_log 0 0 60 [] =
      Some (0, [(0x43, ucast (readback 0)), (0x43, ucast control), (0x40, ucast lsb), (0x40, ucast msb)]) \<and>
      (\<forall>n<4. bit control n = bit (0x36 :: u32) n) \<and> bit control 4 \<and> bit control 5 \<and> drop_bit 6 control = 0 \<and>
      unat lsb + 256 * unat msb = 19886"
    using timer_set_frequency_keeps_mode [OF k f(2) r, of 60 0] unfolding if_P [OF f(1)] e
    by (simp add: timer_port_def TIMER_CTRL_def)
  moreover have "bit control 1" if "\<forall>n<4. bit control n = bit (0x36 :: u32) n" for control :: u8
    using that f(3) by simp
  ultimately show ?thesis by blast
qed

text \<open>C30: timer_test_int counts the seconds. On a machine whose timer keeps raising its
  interrupt, whatever other messages and failed receives come in between, the exercise
  ends, having counted exactly 60 interrupts per second and announced every second once.\<close>
theorem timer_test_int_counts_seconds:
  assumes "lab2_machine E pending shown"
  shows "\<exists>r t' w'. timer_test_int E time lab2_init w = Some (r, t', w') \<and>
    lab2_counter t' = 60 * uint time \<and> shown w' = shown w + unat time"
proof -
  obtain h1 w1 where s: "sys_irqsetpolicy (l2_kernel E) TIMER0_IRQ IRQ_REENABLE 4 w = (0, h1, w1)"
    and w1: "shown w1 = shown w"
  proof -
    obtain r h1 w1 where e: "sys_irqsetpolicy (l2_kernel E) TIMER0_IRQ IRQ_REENABLE 4 w = (r, h1, w1)"
      by (metis prod_cases3)
    show ?thesis
      using assms [unfolded lab2_machine_def, THEN conjunct1, THEN spec, of TIMER0_IRQ, THEN spec, of IRQ_REENABLE,
          THEN spec, of 4, THEN spec, of w] that
      by (simp add: e)
  qed
  obtain t2 w2 where l: "receive_loop (l2_receive E) (\<lambda>t. lab2_counter t < 60 * uint time) (count_second E 16)
      \<lparr>lab2_counter = 0, lab2_hook_id = h1\<rparr> w1 = Some (t2, w2)"
    and t2: "lab2_counter t2 = 60 * uint time" "int (shown w2) - int (shown w1) = uint time"
    using seconds_loop [OF assms, of "\<lparr>lab2_counter = 0, lab2_hook_id = h1\<rparr>" time w1] by auto
  have rm: "shown (snd (sys_irqrmpolicy (l2_kernel E) (lab2_hook_id t2) w2)) = shown w2"
    using assms by (simp add: lab2_machine_def)
  obtain r w3 where u: "sys_irqrmpolicy (l2_kernel E) (lab2_hook_id t2) w2 = (r, w3)" by force
  have "timer_test_int E time lab2_init w = Some (r, t2, w3)"
    using s l u by (simp add: timer_test_int_def lab2_timer_subscribe_int_def lab2_init_def
        lab2_timer_unsubscribe_int_def BIT_def)
  moreover have "shown w3 = shown w + unat time"
  proof -
    have "int (shown w3) = int (shown w + unat time)" using t2(2) rm u w1 by simp
    then show ?thesis by (simp only: of_nat_eq_iff)
  qed
  ultimately show ?thesis using t2(1) by blast
qed

text \<open>The timer of a machine that raises nothing else; the world counts what is shown.\<close>

definition sample_lab2 :: "nat lab2_env" where
  "sample_lab2 = \<lparr>l2_kernel = \<lparr>sys_inb = (\<lambda>port w. (0, 0, w)), sys_outb = (\<lambda>port v w. (0, w)),
       tickdelay = (\<lambda>us w. w), sys_irqsetpolicy = (\<lambda>irq p h w. (0, h, w)), sys_irqrmpolicy = (\<lambda>h w. (0, w))\<rparr>,
     l2_receive = (\<lambda>w. (\<lparr>msg_r = 0, msg_notify = True, msg_hardware = True, msg_interrupts = 16\<rparr>, w)),
     timer_print_config = (\<lambda>timer field v w. (0, w)), timer_print_elapsed_time = Suc\<rparr>"

theorem timer_test_int_counts_seconds_witness:
  "\<exists>r t' w'. timer_test_int sample_lab2 5 lab2_init 0 = Some (r, t', w') \<and> lab2_counter t' = 300 \<and> w' = 5"
proof -
  have "lab2_machine sample_lab2 (\<lambda>w. w) (\<lambda>w. w)"
    by (simp add: lab2_machine_def sample_lab2_def fair_irq_def raised_def has_def)
  from timer_test_int_counts_seconds [OF this, of 5 0] show ?thesis by simp
qed

end
