(* ===== verification/LabKeyboard.thy ===== *)
theory LabKeyboard
  imports Receive Keyboard
begin

text \<open>
  The keyboard laboratory, \<open>lab3/keyboard.c\<close> and \<open>lab3/lab3.c\<close>: reading scan codes by
  interrupt, by polling and with a time limit, and the commands of the keyboard
  controller. The registers and status bits are those of the project's \<open>keyboard.h\<close>.
\<close>

section \<open>Constants (lab3/keyboard.h, lab3/lab3.c)\<close>

definition BREAK_CODE :: u8 where "BREAK_CODE = BIT 7"
definition OUT_BUF_EMPTY :: int where "OUT_BUF_EMPTY = -1"
definition KBC_ST_IBF :: u8 where "KBC_ST_IBF = BIT 1"
definition DELAY_US :: nat where "DELAY_US = 20000"
definition KBC_CMD_REG :: nat where "KBC_CMD_REG = 0x64"
definition KBC_IBF :: nat where "KBC_IBF = 0x60"
definition READ_KBC_CMD :: u8 where "READ_KBC_CMD = 0x20"
definition WRITE_KBC_CMD :: u8 where "WRITE_KBC_CMD = 0x60"
definition CHECK_KBC :: u8 where "CHECK_KBC = 0xAA"
definition CHECK_KBD_INTERFACE :: u8 where "CHECK_KBD_INTERFACE = 0xAB"
definition DISABLE_KBD_INTERFACE :: u8 where "DISABLE_KBD_INTERFACE = 0xAD"
definition ENABLE_KBD_INTERFACE :: u8 where "ENABLE_KBD_INTERFACE = 0xAE"
definition KBC_OK :: u8 where "KBC_OK = 0x55"
definition ESC_BREAKCODE :: u8 where "ESC_BREAKCODE = 0x81"
definition ENABLE_KBD_INT :: u8 where "ENABLE_KBD_INT = BIT 0"

section \<open>The driver (lab3/keyboard.c)\<close>

record Lab3State =
  lab3_kb_hook_id :: int
  lab3_timer_hook_id :: int
  lab3_counter :: int
  lab3_code :: u8

definition lab3_init :: Lab3State where
  "lab3_init = \<lparr>lab3_kb_hook_id = 1, lab3_timer_hook_id = 4, lab3_counter = 0, lab3_code = 0\<rparr>"

text \<open>
  \<open>kbd_print_scancode make size bytes\<close> belongs to the LCOM library; the size is the length
  of the list. \<open>l3_junk\<close> is the content of uninitialised locals.
\<close>

record 'w lab3_env =
  l3_kernel :: "'w kernel"
  l3_receive :: "'w \<Rightarrow> message \<times> 'w"
  kbd_print_scancode :: "bool \<Rightarrow> u8 list \<Rightarrow> 'w \<Rightarrow> int \<times> 'w"
  l3_junk :: u8

definition lab3_keyboard_subscribe_int ::
  "'w kernel \<Rightarrow> Lab3State \<Rightarrow> 'w \<Rightarrow> (int \<times> u8) \<times> Lab3State \<times> 'w" where
  "lab3_keyboard_subscribe_int K s w =
     (let bit_no = word_of_int (lab3_kb_hook_id s)
      in case sys_irqsetpolicy K KEYBOARD_IRQ (IRQ_REENABLE OR IRQ_EXCLUSIVE) (lab3_kb_hook_id s) w of
           (r, hook', w') \<Rightarrow> ((r, bit_no), s\<lparr>lab3_kb_hook_id := hook'\<rparr>, w'))"

definition lab3_keyboard_unsubscribe_int :: "'w kernel \<Rightarrow> Lab3State \<Rightarrow> 'w \<Rightarrow> int \<times> 'w" where
  "lab3_keyboard_unsubscribe_int K s w = sys_irqrmpolicy K (lab3_kb_hook_id s) w"

text \<open>The controller offers a byte of the keyboard without an error.\<close>

definition valid_values :: "u8 \<Rightarrow> bool" where
  "valid_values kbc_state \<longleftrightarrow> has kbc_state OBF_FULL \<and> \<not> has kbc_state (PAR_ERR OR TIMEOUT_ERR OR AUX)"

definition lab3_keyboard_int_handler ::
  "'w lab3_env \<Rightarrow> Lab3State \<Rightarrow> 'w \<Rightarrow> int \<times> Lab3State \<times> 'w" where
  "lab3_keyboard_int_handler E s w =
     (let K = l3_kernel E
      in case util_sys_inb K STAT_REG 0 w of
           (r, kbc_state, w1) \<Rightarrow>
             if r \<noteq> 0 then (r, s, w1)
             else case util_sys_inb K OUT_BUF (lab3_code s) w1 of
               (r, code, w2) \<Rightarrow>
                 if r \<noteq> 0 then (r, s\<lparr>lab3_code := code\<rparr>, w2)
                 else if code = TWO_BYTES \<and> valid_values kbc_state then
                   (case util_sys_inb K OUT_BUF code w2 of
                      (r, code2, w3) \<Rightarrow>
                        if r \<noteq> 0 then (r, s\<lparr>lab3_code := code2\<rparr>, w3)
                        else case kbd_print_scancode E (\<not> has code2 BREAK_CODE) [code, code2] w3 of
                               (r, w4) \<Rightarrow> (r, s\<lparr>lab3_code := code2\<rparr>, w4))
                 else if valid_values kbc_state then
                   (case kbd_print_scancode E (\<not> has code BREAK_CODE) [code] w2 of
                      (r, w3) \<Rightarrow> (r, s\<lparr>lab3_code := code\<rparr>, w3))
                 else (OUT_BUF_EMPTY, s\<lparr>lab3_code := code\<rparr>, w2))"

definition lab3_timer_subscribe_int ::
  "'w kernel \<Rightarrow> Lab3State \<Rightarrow> 'w \<Rightarrow> (int \<times> u8) \<times> Lab3State \<times> 'w" where
  "lab3_timer_subscribe_int K s w =
     (let bit_no = word_of_int (lab3_timer_hook_id s)
      in case sys_irqsetpolicy K TIMER0_IRQ IRQ_REENABLE (lab3_timer_hook_id s) w of
           (r, hook', w') \<Rightarrow> ((r, bit_no), s\<lparr>lab3_timer_hook_id := hook'\<rparr>, w'))"

definition lab3_timer_unsubscribe_int :: "'w kernel \<Rightarrow> Lab3State \<Rightarrow> 'w \<Rightarrow> int \<times> 'w" where
  "lab3_timer_unsubscribe_int K s w = sys_irqrmpolicy K (lab3_timer_hook_id s) w"

definition lab3_timer_int_handler :: "Lab3State \<Rightarrow> Lab3State" where
  "lab3_timer_int_handler s = s\<lparr>lab3_counter := i32_of (u32_of (lab3_counter s) + 1)\<rparr>"

subsection \<open>Commands of the controller\<close>

text \<open>
  Both loops make \<open>counter\<close> attempts. A failed status read is reported and the
  uninitialised \<open>stat\<close> (\<open>junk\<close>) is used.
\<close>

fun lab3_read_kbc_return :: "'w kernel \<Rightarrow> u8 \<Rightarrow> u8 \<Rightarrow> nat \<Rightarrow> 'w \<Rightarrow> (int \<times> u8) \<times> 'w" where
  "lab3_read_kbc_return K junk data 0 w = ((-1, data), w)"
| "lab3_read_kbc_return K junk data (Suc counter) w =
     (case util_sys_inb K STAT_REG junk w of
        (r, stat, w1) \<Rightarrow>
          if has stat OBF_FULL then
            (case util_sys_inb K OUT_BUF data w1 of
               (r, data', w2) \<Rightarrow>
                 ((if has stat (PAR_ERR OR TIMEOUT_ERR OR AUX) then -1 else 0, data'), w2))
          else lab3_read_kbc_return K junk data counter (tickdelay K DELAY_US w1))"

text \<open>The argument is a pointer; \<open>None\<close> is the null pointer.\<close>

fun issue_kbc_command :: "'w kernel \<Rightarrow> u8 \<Rightarrow> u8 \<Rightarrow> u8 option \<Rightarrow> nat \<Rightarrow> 'w \<Rightarrow> int \<times> 'w" where
  "issue_kbc_command K junk command arg 0 w = (-1, w)"
| "issue_kbc_command K junk command arg (Suc counter) w =
     (case util_sys_inb K STAT_REG junk w of
        (r, stat, w1) \<Rightarrow>
          if \<not> has stat KBC_ST_IBF then
            (case sys_outb K KBC_CMD_REG (ucast command) w1 of
               (r, w2) \<Rightarrow>
                 if r \<noteq> 0 then (r, w2)
                 else case arg of
                   None \<Rightarrow> (0, w2)
                 | Some a \<Rightarrow>
                     (case util_sys_inb K STAT_REG stat w2 of
                        (r, stat2, w3) \<Rightarrow>
                          if r \<noteq> 0 then (r, w3)
                          else if \<not> has stat2 KBC_ST_IBF then
                            (case sys_outb K KBC_IBF (ucast a) w3 of
                               (r, w4) \<Rightarrow> if r \<noteq> 0 then (r, w4) else (0, w4))
                          else (-1, w3)))
          else issue_kbc_command K junk command arg counter (tickdelay K DELAY_US w1))"

definition read_command_byte :: "'w kernel \<Rightarrow> u8 \<Rightarrow> u8 \<Rightarrow> 'w \<Rightarrow> (int \<times> u8) \<times> 'w" where
  "read_command_byte K junk command_byte w =
     (case issue_kbc_command K junk READ_KBC_CMD None 3 w of
        (r, w1) \<Rightarrow> if r \<noteq> 0 then ((r, command_byte), w1)
                  else lab3_read_kbc_return K junk command_byte 3 w1)"

definition write_command_byte :: "'w kernel \<Rightarrow> u8 \<Rightarrow> u8 \<Rightarrow> 'w \<Rightarrow> int \<times> 'w" where
  "write_command_byte K junk command_byte w = issue_kbc_command K junk WRITE_KBC_CMD (Some command_byte) 3 w"

definition check_kbc :: "'w kernel \<Rightarrow> u8 \<Rightarrow> u8 \<Rightarrow> 'w \<Rightarrow> int \<times> 'w" where
  "check_kbc K junk return_value w =
     (case issue_kbc_command K junk CHECK_KBC None 3 w of
        (r, w1) \<Rightarrow> if r \<noteq> 0 then (r, w1)
          else case lab3_read_kbc_return K junk return_value 3 w1 of
            ((r, v), w2) \<Rightarrow> if r \<noteq> 0 then (r, w2) else (if v = KBC_OK then 0 else -1, w2))"

definition check_kb_interface :: "'w kernel \<Rightarrow> u8 \<Rightarrow> u8 \<Rightarrow> 'w \<Rightarrow> int \<times> 'w" where
  "check_kb_interface K junk return_value w =
     (case issue_kbc_command K junk CHECK_KBD_INTERFACE None 3 w of
        (r, w1) \<Rightarrow> if r \<noteq> 0 then (r, w1)
          else case lab3_read_kbc_return K junk return_value 3 w1 of
            ((r, v), w2) \<Rightarrow> if r \<noteq> 0 then (r, w2) else (uint v, w2))"

definition disable_kbd_interface :: "'w kernel \<Rightarrow> u8 \<Rightarrow> 'w \<Rightarrow> int \<times> 'w" where
  "disable_kbd_interface K junk w = issue_kbc_command K junk DISABLE_KBD_INTERFACE None 3 w"

definition enable_kbd_interface :: "'w kernel \<Rightarrow> u8 \<Rightarrow> 'w \<Rightarrow> int \<times> 'w" where
  "enable_kbd_interface K junk w = issue_kbc_command K junk ENABLE_KBD_INTERFACE None 3 w"

section \<open>The exercises (lab3/lab3.c)\<close>

definition scan_step :: "'w lab3_env \<Rightarrow> u8 \<Rightarrow> message \<Rightarrow> Lab3State \<Rightarrow> 'w \<Rightarrow> (Lab3State \<times> 'w) option" where
  "scan_step E irq_set msg s w =
     Some (if raised msg (ucast irq_set)
           then (case lab3_keyboard_int_handler E s w of (r, s1, w1) \<Rightarrow> (s1, w1)) else (s, w))"

definition kbd_test_scan :: "'w lab3_env \<Rightarrow> Lab3State \<Rightarrow> 'w \<Rightarrow> (int \<times> Lab3State \<times> 'w) option" where
  "kbd_test_scan E s w =
     (case lab3_keyboard_subscribe_int (l3_kernel E) s w of
        ((r, bit_no), s1, w1) \<Rightarrow>
          if r \<noteq> 0 then Some (r, s1, w1)
          else do {
            let irq_set = BIT (unat bit_no);
            (s2, w2) \<leftarrow> receive_loop (l3_receive E) (\<lambda>s. lab3_code s \<noteq> ESC_BREAKCODE) (scan_step E irq_set) s1 w1;
            let (r, w3) = lab3_keyboard_unsubscribe_int (l3_kernel E) s2 w2;
            Some (r, s2, w3)
          })"

text \<open>One round of the polling loop; \<open>continue\<close> skips the delay.\<close>

definition poll_once :: "'w lab3_env \<Rightarrow> u8 \<Rightarrow> 'w \<Rightarrow> u8 \<times> 'w" where
  "poll_once E c w =
     (let K = l3_kernel E
      in case util_sys_inb K STAT_REG 0 w of
           (r, kbc_state, w1) \<Rightarrow>
             if r \<noteq> 0 then (c, w1)
             else case util_sys_inb K OUT_BUF c w1 of
               (r, c1, w2) \<Rightarrow>
                 if r \<noteq> 0 then (c1, w2)
                 else if c1 = TWO_BYTES \<and> valid_values kbc_state then
                   (case util_sys_inb K OUT_BUF c1 w2 of
                      (r, c2, w3) \<Rightarrow>
                        if r \<noteq> 0 then (c2, w3)
                        else case kbd_print_scancode E (\<not> has c2 BREAK_CODE) [c1, c2] w3 of
                               (r, w4) \<Rightarrow> if r \<noteq> 0 then (c2, w4) else (c2, tickdelay K DELAY_US w4))
                 else if valid_values kbc_state then
                   (case kbd_print_scancode E (\<not> has c1 BREAK_CODE) [c1] w2 of
                      (r, w3) \<Rightarrow> if r \<noteq> 0 then (c1, w3) else (c1, tickdelay K DELAY_US w3))
                 else (c1, tickdelay K DELAY_US w2))"

partial_function (option) poll_loop :: "'w lab3_env \<Rightarrow> u8 \<Rightarrow> 'w \<Rightarrow> 'w option" where
  "poll_loop E c w =
     (if c \<noteq> ESC_BREAKCODE then (case poll_once E c w of (c', w') \<Rightarrow> poll_loop E c' w') else Some w)"

definition kbd_test_poll :: "'w lab3_env \<Rightarrow> 'w \<Rightarrow> (int \<times> 'w) option" where
  "kbd_test_poll E w =
     do {
       w1 \<leftarrow> poll_loop E 0 w;
       let K = l3_kernel E;
       Some (case read_command_byte K (l3_junk E) (l3_junk E) w1 of
               ((r, command_byte), w2) \<Rightarrow>
                 if r \<noteq> 0 then (r, w2)
                 else write_command_byte K (l3_junk E) (command_byte OR ENABLE_KBD_INT) w2)
     }"

definition timed_step ::
  "'w lab3_env \<Rightarrow> u8 \<Rightarrow> u8 \<Rightarrow> message \<Rightarrow> Lab3State \<Rightarrow> 'w \<Rightarrow> (Lab3State \<times> 'w) option" where
  "timed_step E irq_set_kbc irq_set_timer msg s w =
     (let (s1, w1) = (if raised msg (ucast irq_set_kbc)
                      then (case lab3_keyboard_int_handler E (s\<lparr>lab3_counter := 0\<rparr>) w of (r, s', w') \<Rightarrow> (s', w'))
                      else (s, w))
      in Some (if raised msg (ucast irq_set_timer) then lab3_timer_int_handler s1 else s1, w1))"

definition kbd_test_timed_scan ::
  "'w lab3_env \<Rightarrow> u8 \<Rightarrow> Lab3State \<Rightarrow> 'w \<Rightarrow> (int \<times> Lab3State \<times> 'w) option" where
  "kbd_test_timed_scan E n s w =
     (let K = l3_kernel E
      in case lab3_keyboard_subscribe_int K s w of
        ((r, bit_no_kbc), s1, w1) \<Rightarrow>
          if r \<noteq> 0 then Some (r, s1, w1)
          else case lab3_timer_subscribe_int K s1 w1 of
            ((r, bit_no_timer), s2, w2) \<Rightarrow>
              if r \<noteq> 0 then Some (r, s2, w2)
              else do {
                (s3, w3) \<leftarrow> receive_loop (l3_receive E)
                             (\<lambda>s. lab3_code s \<noteq> ESC_BREAKCODE \<and> lab3_counter s \<le> uint n * 60)
                             (timed_step E (BIT (unat bit_no_kbc)) (BIT (unat bit_no_timer))) s2 w2;
                let (r, w4) = lab3_timer_unsubscribe_int K s3 w3;
                if r \<noteq> 0 then Some (r, s3, w4)
                else do {
                  let (r, w5) = lab3_keyboard_unsubscribe_int K s3 w4;
                  Some (r, s3, w5)
                }
              })"

section \<open>A keyboard with a sequence of codes\<close>

text \<open>
  What the exercise relies on: \<open>buf\<close> is what the keyboard has sent and the program has not
  read yet, \<open>shown\<close> is what was printed. While a byte is waiting the status register says
  so, reading the output buffer takes it, and the interrupt is raised again and again.
\<close>

definition keyboard_machine ::
  "'w lab3_env \<Rightarrow> ('w \<Rightarrow> u8 list) \<Rightarrow> ('w \<Rightarrow> (bool \<times> u8 list) list) \<Rightarrow> ('w \<Rightarrow> nat) \<Rightarrow> bool" where
  "keyboard_machine E buf shown pending \<longleftrightarrow>
     (\<forall>irq p h w. \<exists>h' w'. sys_irqsetpolicy (l3_kernel E) irq p h w = (0, h', w') \<and>
        buf w' = buf w \<and> shown w' = shown w) \<and>
     (\<forall>h w. shown (snd (sys_irqrmpolicy (l3_kernel E) h w)) = shown w) \<and>
     (\<forall>w. buf w \<noteq> [] \<longrightarrow> (\<exists>st w'. sys_inb (l3_kernel E) STAT_REG w = (0, st, w') \<and>
        valid_values (ucast st) \<and> buf w' = buf w \<and> shown w' = shown w)) \<and>
     (\<forall>w. buf w \<noteq> [] \<longrightarrow> (\<exists>v w'. sys_inb (l3_kernel E) OUT_BUF w = (0, v, w') \<and>
        ucast v = hd (buf w) \<and> buf w' = tl (buf w) \<and> shown w' = shown w)) \<and>
     (\<forall>m bs w. \<exists>w'. kbd_print_scancode E m bs w = (0, w') \<and> buf w' = buf w \<and> shown w' = shown w @ [(m, bs)]) \<and>
     (\<forall>w. \<exists>m w'. l3_receive E w = (m, w') \<and> buf w' = buf w \<and> shown w' = shown w \<and>
        (buf w \<noteq> [] \<longrightarrow> (msg_r m = 0 \<and> raised m 2) \<or> pending w' < pending w))"

lemma keyboard_machineD:
  assumes "keyboard_machine E buf shown pending"
  shows machine_subscribe: "\<exists>h' w'. sys_irqsetpolicy (l3_kernel E) irq p h w = (0, h', w') \<and>
        buf w' = buf w \<and> shown w' = shown w"
    and machine_unsubscribe: "shown (snd (sys_irqrmpolicy (l3_kernel E) h w)) = shown w"
    and machine_status: "buf w \<noteq> [] \<Longrightarrow> \<exists>st w'. util_sys_inb (l3_kernel E) STAT_REG old w = (0, st, w') \<and>
        valid_values st \<and> buf w' = buf w \<and> shown w' = shown w"
    and machine_data: "buf w \<noteq> [] \<Longrightarrow> \<exists>w'. util_sys_inb (l3_kernel E) OUT_BUF old w = (0, hd (buf w), w') \<and>
        buf w' = tl (buf w) \<and> shown w' = shown w"
    and machine_print: "\<exists>w'. kbd_print_scancode E m bs w = (0, w') \<and> buf w' = buf w \<and> shown w' = shown w @ [(m, bs)]"
    and machine_receive: "l3_receive E w = (msg, w1) \<Longrightarrow> buf w1 = buf w \<and> shown w1 = shown w \<and>
        (buf w \<noteq> [] \<longrightarrow> (msg_r msg = 0 \<and> raised msg 2) \<or> pending w1 < pending w)"
proof -
  show "\<exists>h' w'. sys_irqsetpolicy (l3_kernel E) irq p h w = (0, h', w') \<and> buf w' = buf w \<and> shown w' = shown w"
    using assms unfolding keyboard_machine_def by blast
  show "shown (snd (sys_irqrmpolicy (l3_kernel E) h w)) = shown w"
    using assms unfolding keyboard_machine_def by blast
  show "\<exists>st w'. util_sys_inb (l3_kernel E) STAT_REG old w = (0, st, w') \<and> valid_values st \<and>
      buf w' = buf w \<and> shown w' = shown w" if ne: "buf w \<noteq> []"
  proof -
    obtain st w' where "sys_inb (l3_kernel E) STAT_REG w = (0, st, w')" "valid_values (ucast st)"
      "buf w' = buf w" "shown w' = shown w"
      using assms ne unfolding keyboard_machine_def by blast
    then show ?thesis by (simp add: util_sys_inb_def)
  qed
  show "\<exists>w'. util_sys_inb (l3_kernel E) OUT_BUF old w = (0, hd (buf w), w') \<and> buf w' = tl (buf w) \<and> shown w' = shown w"
    if ne: "buf w \<noteq> []"
  proof -
    obtain v w' where "sys_inb (l3_kernel E) OUT_BUF w = (0, v, w')" "ucast v = hd (buf w)"
      "buf w' = tl (buf w)" "shown w' = shown w"
      using assms ne unfolding keyboard_machine_def by blast
    then show ?thesis by (simp add: util_sys_inb_def)
  qed
  show "\<exists>w'. kbd_print_scancode E m bs w = (0, w') \<and> buf w' = buf w \<and> shown w' = shown w @ [(m, bs)]"
    using assms unfolding keyboard_machine_def by blast
  show "buf w1 = buf w \<and> shown w1 = shown w \<and> (buf w \<noteq> [] \<longrightarrow> (msg_r msg = 0 \<and> raised msg 2) \<or> pending w1 < pending w)"
    if r: "l3_receive E w = (msg, w1)"
  proof -
    obtain m w' where "l3_receive E w = (m, w')" "buf w' = buf w \<and> shown w' = shown w \<and>
        (buf w \<noteq> [] \<longrightarrow> (msg_r m = 0 \<and> raised m 2) \<or> pending w' < pending w)"
      using assms unfolding keyboard_machine_def by blast
    then show ?thesis using r by simp
  qed
qed

text \<open>A scan code of one byte, or of the prefix and one byte; what is printed for it.\<close>

definition scan_code :: "u8 list \<Rightarrow> bool" where
  "scan_code bs \<longleftrightarrow> (\<exists>b. b \<noteq> TWO_BYTES \<and> bs = [b]) \<or> (\<exists>c. bs = [TWO_BYTES, c])"

definition printed :: "u8 list \<Rightarrow> bool \<times> u8 list" where
  "printed bs = (\<not> bit (last bs) 7, bs)"

lemma handler_takes_code:
  assumes m: "keyboard_machine E buf shown pending" and c: "scan_code bs" and b: "buf w = bs @ rest"
  shows "\<exists>w'. lab3_keyboard_int_handler E s w = (0, s\<lparr>lab3_code := last bs\<rparr>, w') \<and>
    buf w' = rest \<and> shown w' = shown w @ [printed bs]"
proof -
  have "buf w \<noteq> []" using b c by (auto simp: scan_code_def)
  then obtain st w1 where st: "util_sys_inb (l3_kernel E) STAT_REG 0 w = (0, st, w1)" "valid_values st"
    and w1: "buf w1 = buf w" "shown w1 = shown w"
    using machine_status [OF m] by blast
  have "buf w1 \<noteq> []" using \<open>buf w \<noteq> []\<close> w1 by simp
  then obtain w2 where d: "util_sys_inb (l3_kernel E) OUT_BUF (lab3_code s) w1 = (0, hd (buf w1), w2)"
    and w2: "buf w2 = tl (buf w)" "shown w2 = shown w"
    using machine_data [OF m, of w1] w1 by metis
  have brk: "has x BREAK_CODE \<longleftrightarrow> bit x 7" for x by (simp add: BREAK_CODE_def has_BIT)
  show ?thesis
  proof (cases "\<exists>x. x \<noteq> TWO_BYTES \<and> bs = [x]")
    case True
    then obtain x where x: "x \<noteq> TWO_BYTES" "bs = [x]" by blast
    obtain w3 where "kbd_print_scancode E (\<not> bit x 7) [x] w2 = (0, w3)" "buf w3 = buf w2"
      "shown w3 = shown w2 @ [(\<not> bit x 7, [x])]"
      using machine_print [OF m] by blast
    then show ?thesis
      using st d w1 w2 x b by (simp add: lab3_keyboard_int_handler_def Let_def brk printed_def)
  next
    case False
    then obtain x where x: "bs = [TWO_BYTES, x]" using c by (auto simp: scan_code_def)
    have "buf w2 \<noteq> []" using w2 b x by simp
    then obtain w3 where d2: "util_sys_inb (l3_kernel E) OUT_BUF TWO_BYTES w2 = (0, hd (buf w2), w3)"
      and w3: "buf w3 = tl (buf w2)" "shown w3 = shown w2"
      using machine_data [OF m] by blast
    obtain w4 where "kbd_print_scancode E (\<not> bit x 7) [TWO_BYTES, x] w3 = (0, w4)" "buf w4 = buf w3"
      "shown w4 = shown w3 @ [(\<not> bit x 7, [TWO_BYTES, x])]"
      using machine_print [OF m] by blast
    then show ?thesis
      using st d d2 w1 w2 w3 x b by (simp add: lab3_keyboard_int_handler_def Let_def brk printed_def)
  qed
qed

lemma scan_loop:
  assumes m: "keyboard_machine E buf shown pending"
    and codes: "\<forall>bs\<in>set (cs @ [esc]). scan_code bs" "last esc = ESC_BREAKCODE"
      "\<forall>bs\<in>set cs. last bs \<noteq> ESC_BREAKCODE"
    and b: "buf w = concat (cs @ [esc]) @ rest" and s: "lab3_code s \<noteq> ESC_BREAKCODE"
  shows "\<exists>s' w'. receive_loop (l3_receive E) (\<lambda>s. lab3_code s \<noteq> ESC_BREAKCODE) (scan_step E 2) s w = Some (s', w') \<and>
    buf w' = rest \<and> shown w' = shown w @ map printed (cs @ [esc])"
proof -
  let ?go = "\<lambda>s. lab3_code s \<noteq> ESC_BREAKCODE" and ?all = "cs @ [esc]"
  let ?I = "\<lambda>s v. \<exists>ds ts. ?all = ds @ ts \<and> buf v = concat ts @ rest \<and> shown v = shown w @ map printed ds \<and>
      (?go s \<longleftrightarrow> ts \<noteq> [])"
  let ?R = "inv_image (less_than <*lex*> less_than) (\<lambda>(s :: Lab3State, w). (length (buf w), pending w))"
  have ne: "scan_code bs \<Longrightarrow> bs \<noteq> []" for bs by (auto simp: scan_code_def)
  have "\<exists>s' w'. receive_loop (l3_receive E) ?go (scan_step E 2) s w = Some (s', w') \<and> ?I s' w' \<and> \<not> ?go s'"
  proof (rule receive_loop_returns [where R = ?R])
    show "?I s w" using b s by (intro exI [of _ "[]"] exI [of _ ?all]) simp
    show "wf ?R" by (simp add: wf_inv_image wf_lex_prod)
  next
    fix s :: Lab3State and v msg v1
    assume i: "?I s v" and "?go s" and r: "l3_receive E v = (msg, v1)" and "msg_r msg \<noteq> 0"
    then obtain ds ts where d: "?all = ds @ ts" "buf v = concat ts @ rest" "shown v = shown w @ map printed ds"
      "ts \<noteq> []" by blast
    then have "buf v \<noteq> []" using codes(1) ne by (cases ts) auto
    then show "?I s v1 \<and> ((s, v1), (s, v)) \<in> ?R"
      using machine_receive [OF m r] i \<open>msg_r msg \<noteq> 0\<close> by simp
  next
    fix s :: Lab3State and v msg v1
    assume i: "?I s v" and go: "?go s" and r: "l3_receive E v = (msg, v1)" and "msg_r msg = 0"
    then obtain ds t ts where d: "?all = ds @ t # ts" "buf v = t @ concat ts @ rest" "shown v = shown w @ map printed ds"
      by (auto simp: neq_Nil_conv)
    have t: "scan_code t" "ts \<noteq> [] \<longleftrightarrow> last t \<noteq> ESC_BREAKCODE"
    proof -
      show "scan_code t" using codes(1) d(1) by simp
      have "ts = [] \<and> t = esc \<or> ts \<noteq> [] \<and> t \<in> set cs"
        using d(1) by (cases ts rule: rev_cases) auto
      then show "ts \<noteq> [] \<longleftrightarrow> last t \<noteq> ESC_BREAKCODE" using codes(2,3) by auto
    qed
    have nev: "buf v \<noteq> []" using d(2) ne [OF t(1)] by simp
    note rv = machine_receive [OF m r]
    show "\<exists>s2 v2. scan_step E 2 msg s v1 = Some (s2, v2) \<and> ?I s2 v2 \<and> ((s2, v2), (s, v)) \<in> ?R"
    proof (cases "raised msg 2")
      case False
      then show ?thesis using rv i nev by (simp add: scan_step_def)
    next
      case True
      obtain v2 where h: "lab3_keyboard_int_handler E s v1 = (0, s\<lparr>lab3_code := last t\<rparr>, v2)"
        "buf v2 = concat ts @ rest" "shown v2 = shown v1 @ [printed t]"
        using handler_takes_code [OF m t(1), of v1 "concat ts @ rest" s] rv d(2) by auto
      have "?I (s\<lparr>lab3_code := last t\<rparr>) v2"
        by (rule exI [of _ "ds @ [t]"], rule exI [of _ ts]) (use d h rv t(2) in auto)
      moreover have "length (buf v2) < length (buf v)" using d(2) h(2) ne [OF t(1)] by simp
      ultimately show ?thesis using True h(1) by (simp add: scan_step_def)
    qed
  qed
  then show ?thesis by fastforce
qed

section \<open>Properties\<close>

text \<open>C31: kbd_test_scan prints every scan code up to the release of ESC. On a keyboard that sends a
  sequence of one- and two-byte scan codes with the break code of ESC as the first code
  ending in 0x81, whatever else the kernel delivers in between, the exercise ends, has
  printed exactly these codes in order, each with its bytes and with its make or break
  flag from bit 7 of its last byte, and has left what comes after ESC unread.\<close>
theorem kbd_test_scan_prints_codes:
  assumes "keyboard_machine E buf shown pending"
    and "\<forall>bs\<in>set (cs @ [esc]). scan_code bs" and "last esc = ESC_BREAKCODE"
    and "\<forall>bs\<in>set cs. last bs \<noteq> ESC_BREAKCODE" and "buf w = concat (cs @ [esc]) @ rest"
  shows "\<exists>r s' w'. kbd_test_scan E lab3_init w = Some (r, s', w') \<and>
    shown w' = shown w @ map printed (cs @ [esc])"
proof -
  obtain h1 w1 where s: "sys_irqsetpolicy (l3_kernel E) KEYBOARD_IRQ (IRQ_REENABLE OR IRQ_EXCLUSIVE) 1 w = (0, h1, w1)"
    and w1: "buf w1 = buf w" "shown w1 = shown w"
    using machine_subscribe [OF assms(1)] by blast
  let ?s1 = "lab3_init\<lparr>lab3_kb_hook_id := h1\<rparr>"
  obtain s2 w2 where l: "receive_loop (l3_receive E) (\<lambda>s. lab3_code s \<noteq> ESC_BREAKCODE) (scan_step E 2) ?s1 w1 = Some (s2, w2)"
    and w2: "shown w2 = shown w1 @ map printed (cs @ [esc])"
    using scan_loop [OF assms(1-4), of w1 rest ?s1] assms(5) w1 by (auto simp: lab3_init_def ESC_BREAKCODE_def)
  obtain r w3 where u: "sys_irqrmpolicy (l3_kernel E) (lab3_kb_hook_id s2) w2 = (r, w3)" by force
  have "kbd_test_scan E lab3_init w = Some (r, s2, w3)"
    using s l u by (simp add: kbd_test_scan_def lab3_keyboard_subscribe_int_def lab3_keyboard_unsubscribe_int_def
        lab3_init_def BIT_def)
  moreover have "shown w3 = shown w2" using machine_unsubscribe [OF assms(1), of "lab3_kb_hook_id s2" w2] u by simp
  ultimately show ?thesis using w1 w2 by auto
qed

text \<open>A keyboard whose world is the list of bytes to come and the list of printed codes.\<close>

definition sample_lab3 :: "(u8 list \<times> (bool \<times> u8 list) list) lab3_env" where
  "sample_lab3 = \<lparr>l3_kernel = \<lparr>
       sys_inb = (\<lambda>port w. if port = STAT_REG then (0, 1, w) else (0, ucast (hd (fst w)), (tl (fst w), snd w))),
       sys_outb = (\<lambda>port v w. (0, w)), tickdelay = (\<lambda>us w. w),
       sys_irqsetpolicy = (\<lambda>irq p h w. (0, h, w)), sys_irqrmpolicy = (\<lambda>h w. (0, w))\<rparr>,
     l3_receive = (\<lambda>w. (\<lparr>msg_r = 0, msg_notify = True, msg_hardware = True, msg_interrupts = 2\<rparr>, w)),
     kbd_print_scancode = (\<lambda>m bs w. (0, (fst w, snd w @ [(m, bs)]))), l3_junk = 0\<rparr>"

lemma sample_lab3_machine: "keyboard_machine sample_lab3 fst snd (\<lambda>w. 0)"
  by (simp add: byte_through_port keyboard_machine_def sample_lab3_def valid_values_def status_bits has_def raised_def
      STAT_REG_def OUT_BUF_def)

theorem kbd_test_scan_prints_codes_witness:
  "\<exists>r s' w'. kbd_test_scan sample_lab3 lab3_init ([0x1E, 0xE0, 0x9D, 0x81, 0x20], []) = Some (r, s', w') \<and>
     snd w' = [(True, [0x1E]), (False, [0xE0, 0x9D]), (False, [0x81])]"
proof -
  have c: "\<forall>bs\<in>set ([[0x1E], [0xE0, 0x9D]] @ [[0x81]]). scan_code bs"
    by (simp add: scan_code_def TWO_BYTES_def)
  have e: "last [0x81] = ESC_BREAKCODE" "\<forall>bs\<in>set [[0x1E], [0xE0, 0x9D]]. last bs \<noteq> ESC_BREAKCODE"
    by (simp_all add: ESC_BREAKCODE_def)
  show ?thesis
    using kbd_test_scan_prints_codes [OF sample_lab3_machine c e, of "([0x1E, 0xE0, 0x9D, 0x81, 0x20], [])" "[0x20]"]
    by (simp add: printed_def)
qed

text \<open>The controller commands of the laboratory give up. When the input buffer of the controller
  stays full, issue_kbc_command returns -1 after looking at the status register as often as its
  counter says (three times where it is called), waiting after each look, and has written neither the command nor its argument.\<close>
lemma issue_kbc_command_gives_up:
  assumes "\<forall>w. \<exists>st w'. sys_inb K STAT_REG w = (0, st, w') \<and> bit st 1"
  shows "issue_kbc_command K junk command arg n w =
    (-1, ((\<lambda>w. tickdelay K DELAY_US (snd (snd (sys_inb K STAT_REG w)))) ^^ n) w)"
proof (induction n arbitrary: w)
  case (Suc n)
  obtain st w' where st: "sys_inb K STAT_REG w = (0, st, w')" "bit st 1" using assms by blast
  then have "has (ucast st :: u8) KBC_ST_IBF" by (simp add: KBC_ST_IBF_def has_BIT bit_ucast_iff)
  then show ?case using st Suc by (simp add: util_sys_inb_def funpow_Suc_right del: funpow.simps)
qed simp

lemma issue_kbc_command_gives_up_example:
  "issue_kbc_command (table_kernel (\<lambda>p. 2)) 0 WRITE_KBC_CMD (Some 0x61) 3 () = (-1, ())"
  using issue_kbc_command_gives_up [of "table_kernel (\<lambda>p. 2)" 0 WRITE_KBC_CMD "Some 0x61" 3 "()"]
  by (simp add: table_kernel_def)

end
