(* ===== verification/LabMouse.thy ===== *)
theory LabMouse
  imports Receive Mouse
begin

text \<open>
  The mouse laboratory, \<open>lab4/mouse.c\<close> and \<open>lab4/lab4.c\<close>: assembling and printing packets,
  a number of them or until the mouse has been idle. The registers, the packet masks and
  the packet itself are those of the project's \<open>mouse.h\<close>.
\<close>

section \<open>The driver (lab4/mouse.c)\<close>

record Lab4State =
  lab4_kb_hook_id :: int
  lab4_timer_hook_id :: int
  lab4_count :: u32
  lab4_pp :: packet
  lab4_i :: int
  lab4_valid_packet :: bool
  update_count :: bool

definition lab4_init :: Lab4State where
  "lab4_init =
     \<lparr>lab4_kb_hook_id = 1, lab4_timer_hook_id = 2, lab4_count = 0,
      lab4_pp = \<lparr>bytes = [0, 0, 0], rb = False, mb = False, lb = False, delta_x = 0, delta_y = 0,
                 x_ov = False, y_ov = False\<rparr>,
      lab4_i = 0, lab4_valid_packet = True, update_count = False\<rparr>"

text \<open>
  \<open>mouse_print_packet\<close> and \<open>mouse_enable_data_reporting\<close> belong to the LCOM library;
  \<open>l4_junk\<close> is the content of uninitialised locals.
\<close>

record 'w lab4_env =
  l4_kernel :: "'w kernel"
  l4_receive :: "'w \<Rightarrow> message \<times> 'w"
  mouse_print_packet :: "packet \<Rightarrow> 'w \<Rightarrow> 'w"
  mouse_enable_data_reporting :: "'w \<Rightarrow> 'w"
  l4_junk :: u8

definition lab4_timer_subscribe_int ::
  "'w kernel \<Rightarrow> Lab4State \<Rightarrow> 'w \<Rightarrow> (int \<times> u8) \<times> Lab4State \<times> 'w" where
  "lab4_timer_subscribe_int K s w =
     (let bit_no = word_of_int (lab4_timer_hook_id s)
      in case sys_irqsetpolicy K TIMER0_IRQ IRQ_REENABLE (lab4_timer_hook_id s) w of
           (r, hook', w') \<Rightarrow> ((r, bit_no), s\<lparr>lab4_timer_hook_id := hook'\<rparr>, w'))"

definition lab4_timer_unsubscribe_int :: "'w kernel \<Rightarrow> Lab4State \<Rightarrow> 'w \<Rightarrow> int \<times> 'w" where
  "lab4_timer_unsubscribe_int K s w = sys_irqrmpolicy K (lab4_timer_hook_id s) w"

definition lab4_timer_int_handler :: "Lab4State \<Rightarrow> Lab4State" where
  "lab4_timer_int_handler s = s\<lparr>lab4_count := lab4_count s + 1\<rparr>"

definition lab4_mouse_subscribe_int ::
  "'w kernel \<Rightarrow> Lab4State \<Rightarrow> 'w \<Rightarrow> (int \<times> u8) \<times> Lab4State \<times> 'w" where
  "lab4_mouse_subscribe_int K s w =
     (let bit_no = word_of_int (lab4_kb_hook_id s)
      in case sys_irqsetpolicy K MOUSE_IRQ_LINE (IRQ_REENABLE OR IRQ_EXCLUSIVE) (lab4_kb_hook_id s) w of
           (r, hook', w') \<Rightarrow> ((r, bit_no), s\<lparr>lab4_kb_hook_id := hook'\<rparr>, w'))"

definition lab4_mouse_unsubscribe_int :: "'w kernel \<Rightarrow> Lab4State \<Rightarrow> 'w \<Rightarrow> int \<times> 'w" where
  "lab4_mouse_unsubscribe_int K s w = sys_irqrmpolicy K (lab4_kb_hook_id s) w"

text \<open>\<open>pp.bytes[i]=byte\<close>.\<close>

definition lab4_store_byte :: "u8 \<Rightarrow> Lab4State \<Rightarrow> Lab4State option" where
  "lab4_store_byte byte s =
     (if 0 \<le> lab4_i s \<and> lab4_i s < int (length (bytes (lab4_pp s)))
      then Some (s\<lparr>lab4_pp := (lab4_pp s)\<lparr>bytes := (bytes (lab4_pp s))[nat (lab4_i s) := byte]\<rparr>\<rparr>)
      else None)"

text \<open>The fields of a full packet, in the order the code assigns them.\<close>

definition lab4_fields :: "packet \<Rightarrow> packet" where
  "lab4_fields p =
     (let b0 = bytes p ! 0;
          p1 = p\<lparr>lb := has b0 LEFT_BUTTON, mb := has b0 MIDDLE_BUTTON, rb := has b0 RIGHT_BUTTON,
                 x_ov := has b0 X_OVFL, y_ov := has b0 Y_OVFL\<rparr>;
          x_neg = has b0 X_SIGN; y_neg = has b0 Y_SIGN;
          dx = ucast (bytes p ! 1) :: u16; dy = ucast (bytes p ! 2) :: u16
      in p1\<lparr>delta_x := if x_neg then dx OR SIGN_EXTENSION else dx,
            delta_y := if y_neg then dy OR SIGN_EXTENSION else dy\<rparr>)"

definition lab4_byte ::
  "'w lab4_env \<Rightarrow> u8 \<Rightarrow> u8 \<Rightarrow> Lab4State \<Rightarrow> 'w \<Rightarrow> (Lab4State \<times> 'w) option" where
  "lab4_byte E status byte s w =
     (if \<not> has status (TIMEOUT_ERR OR PAR_ERR) then
        do {
          s1 \<leftarrow> (if lab4_i s = 0 \<and> \<not> has byte FIRST_BYTE then Some (s\<lparr>lab4_i := lab4_i s - 1\<rparr>)
                 else lab4_store_byte byte s);
          let (s2, w2) =
            (if lab4_i s1 = 2 then
               if \<not> lab4_valid_packet s1 then (s1\<lparr>lab4_valid_packet := True\<rparr>, w)
               else let p = lab4_fields (lab4_pp s1)
                    in (s1\<lparr>lab4_pp := p, update_count := True, lab4_i := -1\<rparr>, mouse_print_packet E p w)
             else (s1, w));
          Some (s2\<lparr>lab4_i := lab4_i s2 + 1\<rparr>, w2)
        }
      else Some (s\<lparr>lab4_valid_packet := False, lab4_i := lab4_i s + 1\<rparr>, w))"

definition lab4_mouse_ih :: "'w lab4_env \<Rightarrow> Lab4State \<Rightarrow> 'w \<Rightarrow> (Lab4State \<times> 'w) option" where
  "lab4_mouse_ih E s w =
     (case util_sys_inb (l4_kernel E) STAT_REG (l4_junk E) w of
        (r, status, w1) \<Rightarrow>
          if has status AUX \<and> has status OBF_FULL then
            (case util_sys_inb (l4_kernel E) OUT_BUF (l4_junk E) w1 of
               (r, byte, w2) \<Rightarrow> lab4_byte E status byte s w2)
          else Some (s, w1))"

subsection \<open>Commands of the controller\<close>

text \<open>As in the project, the attempt counter is tested and never changed.\<close>

partial_function (option) lab4_write_kbc_command ::
  "'w kernel \<Rightarrow> u8 \<Rightarrow> u8 \<Rightarrow> int \<Rightarrow> 'w \<Rightarrow> (int \<times> 'w) option" where
  "lab4_write_kbc_command K junk command counter w =
     (if counter > 0 then
        (case util_sys_inb K STAT_REG junk w of
           (r, status, w1) \<Rightarrow>
             if \<not> has status IBF_FULL then Some (sys_outb K CTRL_REG (ucast command) w1)
             else lab4_write_kbc_command K junk command counter (tickdelay K 25000 w1))
      else Some (-1, w))"

partial_function (option) lab4_read_kbc_return ::
  "'w kernel \<Rightarrow> u8 \<Rightarrow> u8 \<Rightarrow> int \<Rightarrow> 'w \<Rightarrow> ((int \<times> u8) \<times> 'w) option" where
  "lab4_read_kbc_return K junk ret counter w =
     (if counter > 0 then
        (case util_sys_inb K STAT_REG junk w of
           (r, status, w1) \<Rightarrow>
             if has status OBF_FULL then
               (case util_sys_inb K OUT_BUF ret w1 of (r, v, w2) \<Rightarrow> Some ((r, v), w2))
             else lab4_read_kbc_return K junk ret counter (tickdelay K 25000 w1))
      else Some ((-1, ret), w))"

partial_function (option) lab4_write_kbc_arg ::
  "'w kernel \<Rightarrow> u8 \<Rightarrow> u8 \<Rightarrow> int \<Rightarrow> 'w \<Rightarrow> (int \<times> 'w) option" where
  "lab4_write_kbc_arg K junk arg counter w =
     (if counter > 0 then
        (case util_sys_inb K STAT_REG junk w of
           (r, status, w1) \<Rightarrow>
             if \<not> has status IBF_FULL then Some (sys_outb K IN_BUF (ucast arg) w1)
             else lab4_write_kbc_arg K junk arg counter (tickdelay K 25000 w1))
      else Some (-1, w))"

definition lab4_mouse_disable_data_reporting :: "'w kernel \<Rightarrow> u8 \<Rightarrow> 'w \<Rightarrow> (int \<times> 'w) option" where
  "lab4_mouse_disable_data_reporting K junk w =
     do {
       (r1, w1) \<leftarrow> lab4_write_kbc_command K junk BYTE_TO_MOUSE 3 w;
       (r2, w2) \<leftarrow> lab4_write_kbc_arg K junk DIS_DATA_REPORTING 3 w1;
       ((r3, ret), w3) \<leftarrow> lab4_read_kbc_return K junk junk 3 w2;
       Some (if ret = 0xFA then 0 else -1, w3)
     }"

section \<open>The exercises (lab4/lab4.c)\<close>

definition packet_step ::
  "'w lab4_env \<Rightarrow> u32 \<Rightarrow> message \<Rightarrow> Lab4State \<Rightarrow> 'w \<Rightarrow> (Lab4State \<times> 'w) option" where
  "packet_step E irq_set msg s w =
     do {
       (s1, w1) \<leftarrow> (if raised msg irq_set then lab4_mouse_ih E s w else Some (s, w));
       Some (if update_count s1 then s1\<lparr>lab4_count := lab4_count s1 + 1, update_count := False\<rparr> else s1, w1)
     }"

definition mouse_test_packet :: "'w lab4_env \<Rightarrow> u32 \<Rightarrow> Lab4State \<Rightarrow> 'w \<Rightarrow> (int \<times> Lab4State \<times> 'w) option" where
  "mouse_test_packet E cnt s w =
     do {
       let K = l4_kernel E;
       let w1 = mouse_enable_data_reporting E w;
       let ((r, bit_no), s1, w2) = lab4_mouse_subscribe_int K s w1;
       (s2, w3) \<leftarrow> receive_loop (l4_receive E) (\<lambda>s. lab4_count s < cnt) (packet_step E (BIT (unat bit_no))) s1 w2;
       let (r, w4) = lab4_mouse_unsubscribe_int K s2 w3;
       (r, w5) \<leftarrow> lab4_mouse_disable_data_reporting K (l4_junk E) w4;
       Some (r, s2, w5)
     }"

definition async_step ::
  "'w lab4_env \<Rightarrow> u32 \<Rightarrow> u32 \<Rightarrow> message \<Rightarrow> Lab4State \<Rightarrow> 'w \<Rightarrow> (Lab4State \<times> 'w) option" where
  "async_step E irq_set_aux irq_set_timer msg s w =
     do {
       (s1, w1) \<leftarrow> (if raised msg irq_set_aux then lab4_mouse_ih E s w else Some (s, w));
       let s2 = (if raised msg irq_set_timer then lab4_timer_int_handler s1 else s1);
       Some (if update_count s2 then s2\<lparr>lab4_count := 0, update_count := False\<rparr> else s2, w1)
     }"

definition mouse_test_async :: "'w lab4_env \<Rightarrow> u8 \<Rightarrow> Lab4State \<Rightarrow> 'w \<Rightarrow> (int \<times> Lab4State \<times> 'w) option" where
  "mouse_test_async E idle_time s w =
     do {
       let K = l4_kernel E;
       let w1 = mouse_enable_data_reporting E w;
       let ((r, bit_no_aux), s1, w2) = lab4_mouse_subscribe_int K s w1;
       let ((r, bit_no_timer), s2, w3) = lab4_timer_subscribe_int K s1 w2;
       (s3, w4) \<leftarrow> receive_loop (l4_receive E) (\<lambda>s. unat (lab4_count s) < unat idle_time * 60)
                    (async_step E (BIT (unat bit_no_aux)) (BIT (unat bit_no_timer))) s2 w3;
       let (r, w5) = lab4_mouse_unsubscribe_int K s3 w4;
       let (r, w6) = lab4_timer_unsubscribe_int K s3 w5;
       (r, w7) \<leftarrow> lab4_mouse_disable_data_reporting K (l4_junk E) w6;
       Some (r, s3, w7)
     }"

text \<open>The other two exercises were left undone: they report so and return 1.\<close>

definition mouse_test_gesture :: "u8 \<Rightarrow> u8 \<Rightarrow> int" where
  "mouse_test_gesture x_len tolerance = 1"

definition mouse_test_remote :: "u16 \<Rightarrow> u8 \<Rightarrow> int" where
  "mouse_test_remote period cnt = 1"

section \<open>The project's driver\<close>

text \<open>The state of the project's driver that a state of the laboratory stands for.\<close>

definition drv :: "Lab4State \<Rightarrow> MouseState" where
  "drv s = \<lparr>mouse_hook_id = lab4_kb_hook_id s, pp = lab4_pp s, updateMouse = update_count s,
     idx = lab4_i s, valid_packet = lab4_valid_packet s\<rparr>"

lemma lab4_fields_eq: "lab4_fields p = decode_packet p"
  by (simp add: lab4_fields_def decode_packet_def Let_def)

lemma lab4_byte_eq:
  "lab4_byte E status byte s w =
     map_option (\<lambda>m. (s\<lparr>lab4_pp := pp m, lab4_i := idx m, lab4_valid_packet := valid_packet m, update_count := updateMouse m\<rparr>,
       if lab4_i s = 2 \<and> lab4_valid_packet s \<and> error_free status then mouse_print_packet E (pp m) w else w))
     (mouse_byte status byte (drv s))"
  by (auto simp: lab4_byte_def mouse_byte_def drv_def lab4_store_byte_def store_byte_def lab4_fields_eq
      error_free_def Let_def)

section \<open>A mouse with a sequence of packets\<close>

text \<open>
  What the exercise relies on: \<open>buf\<close> is what the mouse has sent and the program has not read
  yet, \<open>shown\<close> is what was printed. While a byte is waiting the status register announces
  it without an error and the controller accepts commands; reading takes the byte; the
  interrupt is raised again and again.
\<close>

definition mouse_machine ::
  "'w lab4_env \<Rightarrow> ('w \<Rightarrow> u8 list) \<Rightarrow> ('w \<Rightarrow> packet list) \<Rightarrow> ('w \<Rightarrow> nat) \<Rightarrow> bool" where
  "mouse_machine E buf shown pending \<longleftrightarrow>
     (\<forall>irq p h w. \<exists>r h' w'. sys_irqsetpolicy (l4_kernel E) irq p h w = (r, h', w') \<and>
        buf w' = buf w \<and> shown w' = shown w) \<and>
     (\<forall>h w. \<exists>r w'. sys_irqrmpolicy (l4_kernel E) h w = (r, w') \<and> buf w' = buf w \<and> shown w' = shown w) \<and>
     (\<forall>w. buf w \<noteq> [] \<longrightarrow> (\<exists>st w'. sys_inb (l4_kernel E) STAT_REG w = (0, st, w') \<and>
        bit st 0 \<and> \<not> bit st 1 \<and> bit st 5 \<and> \<not> bit st 6 \<and> \<not> bit st 7 \<and> buf w' = buf w \<and> shown w' = shown w)) \<and>
     (\<forall>w. buf w \<noteq> [] \<longrightarrow> (\<exists>v w'. sys_inb (l4_kernel E) OUT_BUF w = (0, v, w') \<and>
        ucast v = hd (buf w) \<and> buf w' = tl (buf w) \<and> shown w' = shown w)) \<and>
     (\<forall>port v w. \<exists>r w'. sys_outb (l4_kernel E) port v w = (r, w') \<and> buf w' = buf w \<and> shown w' = shown w) \<and>
     (\<forall>p w. buf (mouse_print_packet E p w) = buf w \<and> shown (mouse_print_packet E p w) = shown w @ [p]) \<and>
     (\<forall>w. buf (mouse_enable_data_reporting E w) = buf w \<and> shown (mouse_enable_data_reporting E w) = shown w) \<and>
     (\<forall>w. \<exists>m w'. l4_receive E w = (m, w') \<and> buf w' = buf w \<and> shown w' = shown w \<and>
        (buf w \<noteq> [] \<longrightarrow> (msg_r m = 0 \<and> raised m 2) \<or> pending w' < pending w))"

lemma mouse_machineD:
  assumes "mouse_machine E buf shown pending"
  shows mouse_subscribe: "\<exists>r h' w'. sys_irqsetpolicy (l4_kernel E) irq p h w = (r, h', w') \<and>
        buf w' = buf w \<and> shown w' = shown w"
    and mouse_unsubscribe: "\<exists>r w'. sys_irqrmpolicy (l4_kernel E) h w = (r, w') \<and> buf w' = buf w \<and> shown w' = shown w"
    and mouse_out: "\<exists>r w'. sys_outb (l4_kernel E) port v w = (r, w') \<and> buf w' = buf w \<and> shown w' = shown w"
    and mouse_print: "buf (mouse_print_packet E pk w) = buf w" "shown (mouse_print_packet E pk w) = shown w @ [pk]"
    and mouse_enable: "buf (mouse_enable_data_reporting E w) = buf w" "shown (mouse_enable_data_reporting E w) = shown w"
  using assms unfolding mouse_machine_def by blast+

lemma mouse_receive:
  assumes "mouse_machine E buf shown pending" and r: "l4_receive E w = (msg, w1)"
  shows "buf w1 = buf w \<and> shown w1 = shown w \<and>
        (buf w \<noteq> [] \<longrightarrow> (msg_r msg = 0 \<and> raised msg 2) \<or> pending w1 < pending w)"
proof -
  obtain m w' where "l4_receive E w = (m, w')" "buf w' = buf w \<and> shown w' = shown w \<and>
      (buf w \<noteq> [] \<longrightarrow> (msg_r m = 0 \<and> raised m 2) \<or> pending w' < pending w)"
    using assms(1) unfolding mouse_machine_def by blast
  then show ?thesis using r by simp
qed

lemma mouse_status:
  assumes "mouse_machine E buf shown pending" and ne: "buf w \<noteq> []"
  shows "\<exists>st w'. util_sys_inb (l4_kernel E) STAT_REG old w = (0, st, w') \<and> has st AUX \<and> has st OBF_FULL \<and>
    \<not> has st IBF_FULL \<and> error_free st \<and> buf w' = buf w \<and> shown w' = shown w"
proof -
  obtain st w' where "sys_inb (l4_kernel E) STAT_REG w = (0, st, w')" "bit st 0" "\<not> bit st 1" "bit st 5"
    "\<not> bit st 6" "\<not> bit st 7" "buf w' = buf w" "shown w' = shown w"
    using assms(1) ne unfolding mouse_machine_def by blast
  then show ?thesis
    by (simp add: util_sys_inb_def AUX_def OBF_FULL_def IBF_FULL_def TIMEOUT_ERR_def PAR_ERR_def error_free_def
        has_OR has_BIT bit_ucast_iff)
qed

lemma mouse_data:
  assumes "mouse_machine E buf shown pending" and ne: "buf w \<noteq> []"
  shows "\<exists>w'. util_sys_inb (l4_kernel E) OUT_BUF old w = (0, hd (buf w), w') \<and> buf w' = tl (buf w) \<and> shown w' = shown w"
proof -
  obtain v w' where "sys_inb (l4_kernel E) OUT_BUF w = (0, v, w')" "ucast v = hd (buf w)"
    "buf w' = tl (buf w)" "shown w' = shown w"
    using assms(1) ne unfolding mouse_machine_def by blast
  then show ?thesis by (simp add: util_sys_inb_def)
qed

lemma mouse_ih_takes_byte:
  assumes m: "mouse_machine E buf shown pending" and b: "buf w = x # rest"
  shows "\<exists>st w'. error_free st \<and> lab4_mouse_ih E s w = lab4_byte E st x s w' \<and> buf w' = rest \<and> shown w' = shown w"
proof -
  obtain st w1 where st: "util_sys_inb (l4_kernel E) STAT_REG (l4_junk E) w = (0, st, w1)" "has st AUX" "has st OBF_FULL"
    "error_free st" "buf w1 = buf w" "shown w1 = shown w"
    using mouse_status [OF m, of w "l4_junk E"] b by auto
  obtain w2 where "util_sys_inb (l4_kernel E) OUT_BUF (l4_junk E) w1 = (0, x, w2)" "buf w2 = rest" "shown w2 = shown w"
    using mouse_data [OF m, of w1 "l4_junk E"] st b by auto
  with st show ?thesis unfolding lab4_mouse_ih_def by auto
qed

lemma disable_acknowledged:
  assumes m: "mouse_machine E buf shown pending" and b: "buf w = ack # rest"
  shows "\<exists>w'. lab4_mouse_disable_data_reporting (l4_kernel E) (l4_junk E) w = Some (if ack = 0xFA then 0 else -1, w') \<and>
    shown w' = shown w"
proof -
  let ?K = "l4_kernel E" and ?j = "l4_junk E"
  have cmd: "\<exists>r w'. lab4_write_kbc_command ?K ?j c 3 v = Some (r, w') \<and> buf w' = buf v \<and> shown w' = shown v"
    if ne: "buf v \<noteq> []" for v c
    using mouse_status [OF m ne, of ?j] mouse_out [OF m] by (subst lab4_write_kbc_command.simps) fastforce
  have arg: "\<exists>r w'. lab4_write_kbc_arg ?K ?j c 3 v = Some (r, w') \<and> buf w' = buf v \<and> shown w' = shown v"
    if ne: "buf v \<noteq> []" for v c
    using mouse_status [OF m ne, of ?j] mouse_out [OF m] by (subst lab4_write_kbc_arg.simps) fastforce
  have ret: "\<exists>w'. lab4_read_kbc_return ?K ?j ?j 3 v = Some ((0, hd (buf v)), w') \<and> shown w' = shown v"
    if ne: "buf v \<noteq> []" for v
  proof -
    obtain st v1 where st: "util_sys_inb ?K STAT_REG ?j v = (0, st, v1)" "has st OBF_FULL" "buf v1 = buf v" "shown v1 = shown v"
      using mouse_status [OF m ne, of ?j] by blast
    then obtain v2 where "util_sys_inb ?K OUT_BUF ?j v1 = (0, hd (buf v), v2)" "shown v2 = shown v"
      using mouse_data [OF m, of v1 ?j] ne by auto
    with st show ?thesis by (subst lab4_read_kbc_return.simps) simp
  qed
  obtain r1 w1 where 1: "lab4_write_kbc_command ?K ?j BYTE_TO_MOUSE 3 w = Some (r1, w1)" "buf w1 = buf w" "shown w1 = shown w"
    using cmd [of w BYTE_TO_MOUSE] b by auto
  obtain r2 w2 where 2: "lab4_write_kbc_arg ?K ?j DIS_DATA_REPORTING 3 w1 = Some (r2, w2)" "buf w2 = buf w1" "shown w2 = shown w1"
    using arg [of w1 DIS_DATA_REPORTING] 1 b by auto
  obtain w3 where 3: "lab4_read_kbc_return ?K ?j ?j 3 w2 = Some ((0, ack), w3)" "shown w3 = shown w2"
    using ret [of w2] 1 2 b by auto
  show ?thesis using 1 2 3 by (simp add: lab4_mouse_disable_data_reporting_def)
qed

text \<open>Packets as the mouse sends them, and what is printed for one.\<close>

fun bytes_of :: "u8 \<times> u8 \<times> u8 \<Rightarrow> u8 list" where
  "bytes_of (a, b, c) = [a, b, c]"

fun packet_of :: "u8 \<times> u8 \<times> u8 \<Rightarrow> packet" where
  "packet_of (a, b, c) = decode_packet
     \<lparr>bytes = [a, b, c], rb = False, mb = False, lb = False, delta_x = 0, delta_y = 0, x_ov = False, y_ov = False\<rparr>"

lemma decode_packet_of: "bytes p = [a, b, c] \<Longrightarrow> decode_packet p = packet_of (a, b, c)"
  by (simp add: decode_packet_def Let_def)

text \<open>The driver after \<open>k\<close> bytes of a packet.\<close>

definition midway :: "nat \<Rightarrow> u8 list \<Rightarrow> Lab4State \<Rightarrow> bool" where
  "midway k bs s \<longleftrightarrow> lab4_i s = int k \<and> length (bytes (lab4_pp s)) = 3 \<and> lab4_valid_packet s \<and> \<not> update_count s \<and>
     take k (bytes (lab4_pp s)) = bs"

lemma midway_byte:
  assumes "midway k bs s" and "k < 2" and "k = 0 \<longrightarrow> bit x 3" and "error_free st"
  shows "\<exists>s'. lab4_byte E st x s w = Some (s', w) \<and> midway (Suc k) (bs @ [x]) s' \<and> lab4_count s' = lab4_count s"
proof -
  have f: "has x FIRST_BYTE \<longleftrightarrow> bit x 3" by (simp add: FIRST_BYTE_def has_BIT)
  show ?thesis
    using assms
    by (auto simp: midway_def lab4_byte_def lab4_store_byte_def error_free_def f take_Suc_conv_app_nth Let_def)
qed

lemma last_byte:
  assumes "midway 2 [a, b] s" and "error_free st"
  shows "\<exists>s'. lab4_byte E st c s w = Some (s'\<lparr>update_count := True\<rparr>, mouse_print_packet E (packet_of (a, b, c)) w) \<and>
    midway 0 [] s' \<and> lab4_count s' = lab4_count s"
proof -
  obtain x y z where p: "bytes (lab4_pp s) = [x, y, z]"
    using assms(1) by (auto simp: midway_def numeral_eq_Suc length_Suc_conv)
  then have xy: "x = a" "y = b" using assms(1) by (simp_all add: midway_def numeral_2_eq_2)
  let ?p = "(lab4_pp s)\<lparr>bytes := [a, b, c]\<rparr>"
  have "lab4_byte E st c s w = Some (s\<lparr>lab4_pp := decode_packet ?p, update_count := True, lab4_i := 0\<rparr>,
      mouse_print_packet E (decode_packet ?p) w)"
    using assms p xy by (simp add: midway_def lab4_byte_def lab4_store_byte_def error_free_def lab4_fields_eq Let_def)
  moreover have "decode_packet ?p = packet_of (a, b, c)" by (rule decode_packet_of) simp
  moreover have "length (bytes (packet_of (a, b, c))) = 3" by (simp add: decode_packet_def Let_def)
  ultimately show ?thesis
    using assms(1)
    by (intro exI [of _ "s\<lparr>lab4_pp := packet_of (a, b, c), lab4_i := 0\<rparr>"]) (simp add: midway_def)
qed

text \<open>Between two iterations of the loop.\<close>

definition between ::
  "('w \<Rightarrow> u8 list) \<Rightarrow> ('w \<Rightarrow> packet list) \<Rightarrow> packet list \<Rightarrow> (u8 \<times> u8 \<times> u8) list \<Rightarrow> u8 list \<Rightarrow> Lab4State \<Rightarrow> 'w \<Rightarrow> bool" where
  "between buf shown sh ps rest s v \<longleftrightarrow>
     (\<exists>ds ts k. ps = ds @ ts \<and> k < 3 \<and> (ts = [] \<longrightarrow> k = 0) \<and>
        buf v = drop k (concat (map bytes_of ts)) @ rest \<and> midway k (take k (concat (map bytes_of ts))) s \<and>
        unat (lab4_count s) = length ds \<and> shown v = sh @ map packet_of ds)"

lemma packet_step_takes_byte:
  assumes m: "mouse_machine E buf shown pending" and ps: "\<forall>(a, b, c)\<in>set ps. bit a 3" "length ps < 2 ^ 32"
    and i: "between buf shown sh ps rest s v" and go: "unat (lab4_count s) < length ps" and r: "raised msg 2"
  shows "\<exists>s2 v2. packet_step E 2 msg s v = Some (s2, v2) \<and> between buf shown sh ps rest s2 v2 \<and>
    length (buf v2) < length (buf v)"
proof -
  obtain ds ts k where d: "ps = ds @ ts" "k < 3" "buf v = drop k (concat (map bytes_of ts)) @ rest"
    "midway k (take k (concat (map bytes_of ts))) s" "unat (lab4_count s) = length ds" "shown v = sh @ map packet_of ds"
    using i unfolding between_def by blast
  obtain a b c us where ts: "ts = (a, b, c) # us" using d(1,5) go by (cases ts) auto
  have a: "bit a 3" using ps(1) d(1) ts by auto
  have nu: "\<not> update_count s" using d(4) by (simp add: midway_def)
  have bufk: "buf v = drop k [a, b, c] @ concat (map bytes_of us) @ rest"
    using d(2,3) ts by (auto simp: numeral_3_eq_3 less_Suc_eq)
  obtain x ys where x: "buf v = x # ys" "ys = drop (Suc k) [a, b, c] @ concat (map bytes_of us) @ rest" "x = [a, b, c] ! k"
    using bufk d(2) by (auto simp: numeral_3_eq_3 less_Suc_eq)
  obtain st v1 where st: "error_free st" "lab4_mouse_ih E s v = lab4_byte E st x s v1" "buf v1 = ys" "shown v1 = shown v"
    using mouse_ih_takes_byte [OF m x(1)] by blast
  show ?thesis
  proof (cases "k < 2")
    case True
    have mk: "midway k (take k [a, b, c]) s" using d(2,4) ts by (auto simp: numeral_3_eq_3 less_Suc_eq)
    have kx: "k = 0 \<longrightarrow> bit x 3" using a x(3) by simp
    obtain s' where s': "lab4_byte E st x s v1 = Some (s', v1)" "midway (Suc k) (take k [a, b, c] @ [x]) s'"
      "lab4_count s' = lab4_count s" using midway_byte [OF mk True kx st(1), of E v1] by blast
    have t: "take k [a, b, c] @ [x] = take (Suc k) [a, b, c]" using True x(3) by (auto simp: less_Suc_eq numeral_2_eq_2)
    let ?zs = "concat (map bytes_of us)"
    have pre: "drop (Suc k) (concat (map bytes_of ts)) = drop (Suc k) [a, b, c] @ ?zs"
      "take (Suc k) (concat (map bytes_of ts)) = take (Suc k) [a, b, c]"
      using True ts by (auto simp: numeral_2_eq_2 less_Suc_eq)
    have nx: "buf v1 = drop (Suc k) (concat (map bytes_of ts)) @ rest"
      "midway (Suc k) (take (Suc k) (concat (map bytes_of ts))) s'"
      using st(3) x(2) s'(2) t by (simp_all only: pre append_assoc)
    have "between buf shown sh ps rest s' v1"
      unfolding between_def
      by (rule exI [of _ ds], rule exI [of _ ts], rule exI [of _ "Suc k"])
        (use True nx d(1,5,6) s'(3) st(4) in \<open>simp add: ts\<close>)
    moreover have "\<not> update_count s'" using s'(2) by (simp add: midway_def)
    ultimately show ?thesis using r st x(1) s'(1) by (simp add: packet_step_def)
  next
    case False
    then have k: "k = 2" using d(2) by simp
    then have m2: "midway 2 [a, b] s" and "x = c" using d(4) ts x(3) by (simp_all add: numeral_2_eq_2)
    then obtain s' where s': "lab4_byte E st x s v1 = Some (s'\<lparr>update_count := True\<rparr>, mouse_print_packet E (packet_of (a, b, c)) v1)"
      "midway 0 [] s'" "lab4_count s' = lab4_count s" using last_byte [OF m2 st(1), of E c v1] by auto
    let ?s2 = "s'\<lparr>lab4_count := lab4_count s' + 1, update_count := False\<rparr>" and ?v2 = "mouse_print_packet E (packet_of (a, b, c)) v1"
    have "unat (lab4_count s + 1) = Suc (length ds)"
      using d(5) go ps(2) by (simp add: unat_word_ariths)
    then have "between buf shown sh ps rest ?s2 ?v2"
      unfolding between_def
      by (intro exI [of _ "ds @ [(a, b, c)]"] exI [of _ us] exI [of _ 0])
        (use d(1,6) ts s'(2,3) st(3,4) x(2) k mouse_print [OF m] in \<open>simp add: midway_def del: packet_of.simps\<close>)
    moreover have "packet_step E 2 msg s v = Some (?s2, ?v2)" using r st s' by (simp add: packet_step_def)
    ultimately show ?thesis using mouse_print(1) [OF m] st(3) x(1) by simp
  qed
qed

lemma packet_loop:
  assumes m: "mouse_machine E buf shown pending" and ps: "\<forall>(a, b, c)\<in>set ps. bit a 3" "length ps < 2 ^ 32"
    and i: "between buf shown sh ps rest s w"
  shows "\<exists>s' w'. receive_loop (l4_receive E) (\<lambda>s. lab4_count s < of_nat (length ps)) (packet_step E 2) s w = Some (s', w') \<and>
    buf w' = rest \<and> shown w' = sh @ map packet_of ps"
proof -
  let ?go = "\<lambda>s. lab4_count s < of_nat (length ps)" and ?I = "between buf shown sh ps rest"
  let ?R = "inv_image (less_than <*lex*> less_than) (\<lambda>(s :: Lab4State, w). (length (buf w), pending w))"
  have go: "?go s \<longleftrightarrow> unat (lab4_count s) < length ps" for s :: Lab4State
    using ps(2) by (simp add: word_less_nat_alt unat_of_nat_small)
  have ne: "buf v \<noteq> []" if iv: "?I s v" and g: "?go s" for s v
  proof -
    obtain ds ts k where d: "ps = ds @ ts" "k < 3" "buf v = drop k (concat (map bytes_of ts)) @ rest"
      "unat (lab4_count s) = length ds" using iv unfolding between_def by blast
    obtain a b c us where "ts = (a, b, c) # us" using d(1,4) g go by (cases ts) auto
    then show ?thesis using d(2,3) by simp
  qed
  have keep: "?I s v1" if "?I s v" "buf v1 = buf v" "shown v1 = shown v" for s v v1
    using that by (simp add: between_def)
  have "\<exists>s' w'. receive_loop (l4_receive E) ?go (packet_step E 2) s w = Some (s', w') \<and> ?I s' w' \<and> \<not> ?go s'"
  proof (rule receive_loop_returns [where R = ?R])
    show "?I s w" by (rule i)
    show "wf ?R" by (simp add: wf_inv_image wf_lex_prod)
  next
    fix s :: Lab4State and v msg v1
    assume "?I s v" "?go s" and r: "l4_receive E v = (msg, v1)" and "msg_r msg \<noteq> 0"
    then show "?I s v1 \<and> ((s, v1), (s, v)) \<in> ?R"
      using mouse_receive [OF m r] keep [of s v v1] ne [of s v] by simp
  next
    fix s :: Lab4State and v msg v1
    assume iv: "?I s v" and g: "?go s" and r: "l4_receive E v = (msg, v1)" and "msg_r msg = 0"
    note rv = mouse_receive [OF m r]
    have i1: "?I s v1" using keep [OF iv] rv by blast
    show "\<exists>s2 v2. packet_step E 2 msg s v1 = Some (s2, v2) \<and> ?I s2 v2 \<and> ((s2, v2), (s, v)) \<in> ?R"
    proof (cases "raised msg 2")
      case False
      moreover have "\<not> update_count s" using iv unfolding between_def midway_def by blast
      ultimately show ?thesis using rv i1 ne [OF iv g] by (simp add: packet_step_def)
    next
      case True
      then show ?thesis
        using packet_step_takes_byte [OF m ps i1] g rv by (fastforce simp: go)
    qed
  qed
  then obtain s' w' where e: "receive_loop (l4_receive E) ?go (packet_step E 2) s w = Some (s', w')"
    and f: "?I s' w'" "\<not> ?go s'" by blast
  have "buf w' = rest \<and> shown w' = sh @ map packet_of ps"
    using f unfolding go between_def by auto
  with e show ?thesis by blast
qed

section \<open>Properties\<close>

text \<open>The mouse driver of the game is the one of the laboratory. Handling a byte changes the
  packet, the index and the flags exactly as mouse_ih of the project does in the same
  situation, including the accesses outside the packet, and prints the packet exactly when
  its third byte arrives without an error in a valid packet.\<close>
lemma lab4_byte_as_project:
  "lab4_byte E status byte s w =
     map_option (\<lambda>m. (s\<lparr>lab4_pp := pp m, lab4_i := idx m, lab4_valid_packet := valid_packet m, update_count := updateMouse m\<rparr>,
       if lab4_i s = 2 \<and> lab4_valid_packet s \<and> error_free status then mouse_print_packet E (pp m) w else w))
     (mouse_byte status byte (drv s))"
  by (rule lab4_byte_eq)

text \<open>C32: mouse_test_packet prints the packets asked for. On a mouse that sends cnt packets, each
  with bit 3 of its first byte set, and then an answer, whatever else the kernel delivers
  in between, the exercise ends, has printed these packets decoded and in order and none
  else, and returns 0 exactly when the answer to its last command is the acknowledgement
  0xFA.\<close>
theorem mouse_test_packet_prints:
  assumes "mouse_machine E buf shown pending" and "\<forall>(a, b, c)\<in>set ps. bit a 3" and "length ps < 2 ^ 32"
    and "buf w = concat (map bytes_of ps) @ ack # rest"
  shows "\<exists>s' w'. mouse_test_packet E (of_nat (length ps)) lab4_init w = Some (if ack = 0xFA then 0 else -1, s', w') \<and>
    shown w' = shown w @ map packet_of ps"
proof -
  let ?K = "l4_kernel E" and ?w1 = "mouse_enable_data_reporting E w"
  obtain r h1 w2 where s: "sys_irqsetpolicy ?K MOUSE_IRQ_LINE (IRQ_REENABLE OR IRQ_EXCLUSIVE) 1 ?w1 = (r, h1, w2)"
    and w2: "buf w2 = buf w" "shown w2 = shown w"
    using mouse_subscribe [OF assms(1), of MOUSE_IRQ_LINE "IRQ_REENABLE OR IRQ_EXCLUSIVE" 1 ?w1]
      mouse_enable [OF assms(1)] by auto
  let ?s1 = "lab4_init\<lparr>lab4_kb_hook_id := h1\<rparr>"
  have "between buf shown (shown w) ps (ack # rest) ?s1 w2"
    unfolding between_def
    by (rule exI [of _ "[]"], rule exI [of _ ps], rule exI [of _ 0])
      (use w2 assms(4) in \<open>simp add: midway_def lab4_init_def\<close>)
  from packet_loop [OF assms(1-3) this]
  obtain s2 w3 where l: "receive_loop (l4_receive E) (\<lambda>s. lab4_count s < of_nat (length ps)) (packet_step E 2) ?s1 w2 = Some (s2, w3)"
    and w3: "buf w3 = ack # rest" "shown w3 = shown w @ map packet_of ps" by blast
  obtain r4 w4 where u: "sys_irqrmpolicy ?K (lab4_kb_hook_id s2) w3 = (r4, w4)" "buf w4 = buf w3" "shown w4 = shown w3"
    using mouse_unsubscribe [OF assms(1)] by blast
  obtain w5 where "lab4_mouse_disable_data_reporting ?K (l4_junk E) w4 = Some (if ack = 0xFA then 0 else -1, w5)"
    "shown w5 = shown w4"
    using disable_acknowledged [OF assms(1), of w4 ack rest] u(2) w3(1) by auto
  then show ?thesis
    using s l u w3 by (simp add: mouse_test_packet_def lab4_mouse_subscribe_int_def lab4_mouse_unsubscribe_int_def
        lab4_init_def BIT_def)
qed

text \<open>A mouse whose world is the list of bytes to come and the list of printed packets.\<close>

definition sample_lab4 :: "(u8 list \<times> packet list) lab4_env" where
  "sample_lab4 = \<lparr>l4_kernel = \<lparr>
       sys_inb = (\<lambda>port w. if port = STAT_REG then (0, 0x21, w) else (0, ucast (hd (fst w)), (tl (fst w), snd w))),
       sys_outb = (\<lambda>port v w. (0, w)), tickdelay = (\<lambda>us w. w),
       sys_irqsetpolicy = (\<lambda>irq p h w. (0, h, w)), sys_irqrmpolicy = (\<lambda>h w. (0, w))\<rparr>,
     l4_receive = (\<lambda>w. (\<lparr>msg_r = 0, msg_notify = True, msg_hardware = True, msg_interrupts = 2\<rparr>, w)),
     mouse_print_packet = (\<lambda>p w. (fst w, snd w @ [p])), mouse_enable_data_reporting = (\<lambda>w. w), l4_junk = 0\<rparr>"

theorem mouse_test_packet_prints_witness:
  "\<exists>s' w'. mouse_test_packet sample_lab4 2 lab4_init ([0x08, 1, 2, 0x18, 0xFF, 0, 0xFA], []) = Some (0, s', w') \<and>
     map delta_x (snd w') = [1, 0xFFFF]"
proof -
  have m: "mouse_machine sample_lab4 fst snd (\<lambda>w. 0)"
    by (simp add: mouse_machine_def sample_lab4_def raised_def has_def byte_through_port STAT_REG_def OUT_BUF_def)
  show ?thesis
    using mouse_test_packet_prints [OF m, of "[(0x08, 1, 2), (0x18, 0xFF, 0)]" "([0x08, 1, 2, 0x18, 0xFF, 0, 0xFA], [])" "0xFA" "[]"]
    by (auto simp: decode_packet_def has_def packet_masks BIT_def SIGN_EXTENSION_def)
qed

end
