(* ===== verification/LabVideo.thy ===== *)
theory LabVideo
  imports Receive Keyboard Pixels
begin

text \<open>
  The video laboratory, \<open>lab5/videocard.c\<close> and \<open>lab5/lab5.c\<close>: rectangles, patterns, XPM
  images and moving images in the video memory. \<open>lab5/videocard.c\<close> was committed with
  unresolved merge conflicts; the model is its side \<open>HEAD\<close>, the one whose functions
  \<open>lab5/lab5.c\<close> calls.
\<close>

section \<open>Constants and state\<close>

definition LINEAR_FRAMEBUFFER :: u16 where "LINEAR_FRAMEBUFFER = BIT 14"
definition VIDEO_CARD_INT :: u8 where "VIDEO_CARD_INT = 0x10"
definition COLOR_BLACK :: u32 where "COLOR_BLACK = 0x0000"
definition INDEXED_MODE :: u16 where "INDEXED_MODE = 0x105"
definition lab5_ESC_BREAKCODE :: u8 where "lab5_ESC_BREAKCODE = 0x81"

record mode_info = vbe_mode_info +
  RedMaskSize :: u8
  GreenMaskSize :: u8
  BlueMaskSize :: u8

text \<open>\<open>lab5_mem\<close> is what \<open>video_mem\<close> points to, \<open>None\<close> before it is mapped.\<close>

record Lab5State =
  lab5_counter :: int
  lab5_kb_hook_id :: int
  lab5_timer_hook_id :: int
  lab5_code :: u8
  lab5_bytes_per_pixel :: u8
  lab5_vmi_p :: mode_info
  lab5_mem :: "mem option"

text \<open>
  The calls of the kernel and of the LCOM library. \<open>l5_mode_info\<close> gives what the structure
  holds after \<open>vbe_get_mode_info\<close>, \<open>l5_mapped\<close> the contents of memory when it is mapped;
  \<open>l5_junk\<close> and \<open>l5_image\<close> are the contents of uninitialised locals.
\<close>

record ('w, 'x) lab5_env =
  l5_kernel :: "'w kernel"
  l5_receive :: "'w \<Rightarrow> message \<times> 'w"
  l5_mode_info :: "u16 \<Rightarrow> mode_info \<Rightarrow> 'w \<Rightarrow> int \<times> mode_info \<times> 'w"
  l5_privctl :: "u32 \<times> u32 \<Rightarrow> 'w \<Rightarrow> int \<times> 'w"
  l5_map_phys :: "u32 \<Rightarrow> u32 \<Rightarrow> 'w \<Rightarrow> bool \<times> 'w"
  l5_int86 :: "reg86 \<Rightarrow> 'w \<Rightarrow> int \<times> 'w"
  l5_mapped :: "u32 \<Rightarrow> mem"
  l5_xpm_load :: "'x \<Rightarrow> xpm_image option"
  l5_sleep :: "u8 \<Rightarrow> 'w \<Rightarrow> 'w"
  vg_exit :: "'w \<Rightarrow> int \<times> 'w"
  l5_junk :: u8
  l5_image :: xpm_image

section \<open>The driver (lab5/videocard.c)\<close>

definition set_vbe_mode :: "('w, 'x) lab5_env \<Rightarrow> u16 \<Rightarrow> 'w \<Rightarrow> int \<times> 'w" where
  "set_vbe_mode E mode w =
     (case l5_int86 E \<lparr>intno = VIDEO_CARD_INT, reg_ax = 0x4F02, reg_bx = mode OR LINEAR_FRAMEBUFFER\<rparr> w of
        (r, w1) \<Rightarrow> (if r \<noteq> 0 then 1 else 0, w1))"

definition kb_subscribe_int ::
  "'w kernel \<Rightarrow> Lab5State \<Rightarrow> 'w \<Rightarrow> (int \<times> u8) \<times> Lab5State \<times> 'w" where
  "kb_subscribe_int K s w =
     (let bit_no = word_of_int (lab5_kb_hook_id s)
      in case sys_irqsetpolicy K KEYBOARD_IRQ (IRQ_REENABLE OR IRQ_EXCLUSIVE) (lab5_kb_hook_id s) w of
           (r, hook', w') \<Rightarrow> ((r, bit_no), s\<lparr>lab5_kb_hook_id := hook'\<rparr>, w'))"

definition kb_unsubscribe_int :: "'w kernel \<Rightarrow> Lab5State \<Rightarrow> 'w \<Rightarrow> int \<times> 'w" where
  "kb_unsubscribe_int K s w = sys_irqrmpolicy K (lab5_kb_hook_id s) w"

text \<open>A status byte that cannot be read is the uninitialised local.\<close>

definition kb_int_handler :: "('w, 'x) lab5_env \<Rightarrow> Lab5State \<Rightarrow> 'w \<Rightarrow> int \<times> Lab5State \<times> 'w" where
  "kb_int_handler E s w =
     (let K = l5_kernel E; (r, status, w1) = util_sys_inb K STAT_REG (l5_junk E) w;
          read = (\<lambda>s w. if has status OBF_FULL
                        then (case util_sys_inb K OUT_BUF (lab5_code s) w of (r, c, w') \<Rightarrow> (s\<lparr>lab5_code := c\<rparr>, w'))
                        else (s, w));
          (s1, w2) = read s w1
      in if has status (AUX OR PAR_ERR OR TIMEOUT_ERR) then (-1, s1, w2)
         else if lab5_code s1 = TWO_BYTES then
           (case read s1 w2 of (s2, w3) \<Rightarrow>
              if has status (AUX OR PAR_ERR OR TIMEOUT_ERR) then (-1, s2, w3) else (0, s2, w3))
         else (0, s1, w2))"

text \<open>
  The size of the memory is a product of \<open>int\<close>s, undefined when it overflows; \<open>panic\<close> has
  no result.
\<close>

definition lab5_map_vram :: "('w, 'x) lab5_env \<Rightarrow> u16 \<Rightarrow> Lab5State \<Rightarrow> 'w \<Rightarrow> (int \<times> Lab5State \<times> 'w) option" where
  "lab5_map_vram E mode s w =
     (case l5_mode_info E mode (lab5_vmi_p s) w of
        (r, vmi, w1) \<Rightarrow>
          let bpp = (word_of_int ((uint (BitsPerPixel vmi) + 7) div 8) :: u8);
              size = unat bpp * unat (XResolution vmi) * unat (YResolution vmi);
              base = PhysBasePtr vmi
          in if \<not> size < 2 ^ 31 then None
             else case l5_privctl E (base, base + of_nat size) w1 of
               (r, w2) \<Rightarrow>
                 if r \<noteq> 0 then None
                 else case l5_map_phys E base (of_nat size) w2 of
                   (mapped, w3) \<Rightarrow>
                     if mapped
                     then Some (0, s\<lparr>lab5_vmi_p := vmi, lab5_bytes_per_pixel := bpp,
                                     lab5_mem := Some (l5_mapped E base)\<rparr>, w3)
                     else None)"

subsection \<open>Drawing\<close>

text \<open>
  Copying bytes to an offset. The offsets are \<open>int\<close>s; one that overflows lies outside the
  memory, so the bounds test covers that too.
\<close>

definition store_at :: "mem \<Rightarrow> nat \<Rightarrow> u8 list \<Rightarrow> mem option" where
  "store_at m pos bs =
     (if pos + length bs \<le> length m then Some (take pos m @ bs @ drop (pos + length bs) m) else None)"

definition vg_draw_hline :: "Lab5State \<Rightarrow> u16 \<Rightarrow> u16 \<Rightarrow> u16 \<Rightarrow> u32 \<Rightarrow> mem \<Rightarrow> mem option" where
  "vg_draw_hline s x y len color m =
     (let X = unat (XResolution (lab5_vmi_p s)); bpp = unat (lab5_bytes_per_pixel s)
      in foldM (\<lambda>i m. do { bs \<leftarrow> object_bytes color bpp; store_at m ((unat y * X + i) * bpp) bs })
           [unat x..<min (unat x + unat len) X] m)"

definition vg_draw_rectangle :: "Lab5State \<Rightarrow> u16 \<Rightarrow> u16 \<Rightarrow> u16 \<Rightarrow> u16 \<Rightarrow> u32 \<Rightarrow> mem \<Rightarrow> mem option" where
  "vg_draw_rectangle s x y width height color m =
     foldM (\<lambda>col m. vg_draw_hline s x (of_nat col) width color m)
       [unat y..<min (unat y + unat height) (unat (YResolution (lab5_vmi_p s)))] m"

text \<open>\<open>BIT(n)\<close> and a right shift by \<open>n\<close>, undefined when \<open>n\<close> is too large.\<close>

definition bit_of :: "nat \<Rightarrow> u32 option" where
  "bit_of n = (if n < 31 then Some (BIT n) else None)"

definition shift_right :: "u32 \<Rightarrow> nat \<Rightarrow> u32 option" where
  "shift_right v n = (if n < 32 then Some (drop_bit n v) else None)"

text \<open>The colour of one rectangle of the pattern.\<close>

definition matrix_color :: "mode_info \<Rightarrow> u16 \<Rightarrow> u8 \<Rightarrow> u32 \<Rightarrow> u8 \<Rightarrow> nat \<Rightarrow> nat \<Rightarrow> u32 option" where
  "matrix_color vmi mode no_rectangles first step row col =
     do {
       let R = unat (RedMaskSize vmi);
       let G = unat (GreenMaskSize vmi);
       let B = unat (BlueMaskSize vmi);
       bR \<leftarrow> bit_of R; bG \<leftarrow> bit_of G; bB \<leftarrow> bit_of B;
       r0 \<leftarrow> shift_right first (G + B);
       g0 \<leftarrow> shift_right first B;
       let r_first = r0 mod bR;
       let g_first = g0 mod bG;
       let b_first = first mod bB;
       let st = unat step;
       if mode = INDEXED_MODE then do {
         bN \<leftarrow> bit_of (unat (BitsPerPixel vmi));
         Some ((first + of_nat ((row * unat no_rectangles + col) * st)) mod bN)
       }
       else do {
         let r_color = (r_first + of_nat (col * st)) mod bR;
         let g_color = (g_first + of_nat (row * st)) mod bG;
         let b_color = (b_first + of_nat ((col + row) * st)) mod bB;
         Some (push_bit (G + B) r_color OR push_bit B g_color OR b_color)
       }
     }"

definition vg_draw_matrix :: "Lab5State \<Rightarrow> u16 \<Rightarrow> u8 \<Rightarrow> u32 \<Rightarrow> u8 \<Rightarrow> mem \<Rightarrow> mem option" where
  "vg_draw_matrix s mode no_rectangles first step m =
     (let vmi = lab5_vmi_p s; X = unat (XResolution vmi); Y = unat (YResolution vmi); n = unat no_rectangles
      in if n = 0 then None
         else let
           rectangle_width = X div n; rectangle_height = Y div n;
           blackstripe_width = of_nat (X mod n) :: u16; blackstripe_height = of_nat (Y mod n) :: u16
         in do {
           m1 \<leftarrow> vg_draw_rectangle s (XResolution vmi - blackstripe_width) 0 blackstripe_width (YResolution vmi) COLOR_BLACK m;
           m2 \<leftarrow> vg_draw_rectangle s 0 (YResolution vmi - blackstripe_height) (XResolution vmi) blackstripe_height COLOR_BLACK m1;
           foldM (\<lambda>row. foldM (\<lambda>col m. do {
               color \<leftarrow> matrix_color vmi mode no_rectangles first step row col;
               vg_draw_rectangle s (of_nat (col * rectangle_width)) (of_nat (row * rectangle_height))
                 (of_nat rectangle_width) (of_nat rectangle_height) color m
             }) [0..<n]) [0..<n] m2
         })"

text \<open>No clipping: a pixel below the screen is outside the memory.\<close>

definition vg_draw_image :: "Lab5State \<Rightarrow> u16 \<Rightarrow> u16 \<Rightarrow> xpm_image \<Rightarrow> mem \<Rightarrow> mem option" where
  "vg_draw_image s x y img m =
     (let X = unat (XResolution (lab5_vmi_p s)); bpp = unat (lab5_bytes_per_pixel s); width = unat (img_width img)
      in foldM (\<lambda>col. foldM (\<lambda>row m. do {
             let src = row * width + col;
             if src + bpp \<le> length (img_bytes img)
             then store_at m (((unat y + row) * X + col + unat x) * bpp) (take bpp (drop src (img_bytes img)))
             else None
           }) [0..<unat (img_height img)]) [0..<width] m)"

text \<open>
  The row is a \<open>uint16_t\<close> compared with an \<open>int\<close>: when the image ends beyond row 65535 the
  loop does not end (or leaves the memory before).
\<close>

definition vg_clear_image :: "Lab5State \<Rightarrow> u16 \<Rightarrow> u16 \<Rightarrow> xpm_image \<Rightarrow> mem \<Rightarrow> mem option" where
  "vg_clear_image s x y img m =
     (let X = unat (XResolution (lab5_vmi_p s)); bpp = unat (lab5_bytes_per_pixel s);
          stop = unat y + unat (img_height img)
      in if stop \<le> 65535
         then foldM (\<lambda>row m. store_at m (row * X * bpp + unat x) (replicate (bpp * unat (img_width img)) 0))
                [unat y..<stop] m
         else None)"

definition lab5_timer_subscribe_int ::
  "'w kernel \<Rightarrow> Lab5State \<Rightarrow> 'w \<Rightarrow> (int \<times> u8) \<times> Lab5State \<times> 'w" where
  "lab5_timer_subscribe_int K s w =
     (let bit_no = word_of_int (lab5_timer_hook_id s)
      in case sys_irqsetpolicy K TIMER0_IRQ IRQ_REENABLE (lab5_timer_hook_id s) w of
           (r, hook', w') \<Rightarrow> ((r, bit_no), s\<lparr>lab5_timer_hook_id := hook'\<rparr>, w'))"

definition lab5_timer_unsubscribe_int :: "'w kernel \<Rightarrow> Lab5State \<Rightarrow> 'w \<Rightarrow> int \<times> 'w" where
  "lab5_timer_unsubscribe_int K s w = sys_irqrmpolicy K (lab5_timer_hook_id s) w"

definition lab5_timer_int_handler :: "Lab5State \<Rightarrow> Lab5State" where
  "lab5_timer_int_handler s = s\<lparr>lab5_counter := i32_of (u32_of (lab5_counter s) + 1)\<rparr>"

text \<open>Drawing into the mapped memory; without it the pointer is null.\<close>

definition draw_with :: "(mem \<Rightarrow> mem option) \<Rightarrow> Lab5State \<Rightarrow> Lab5State option" where
  "draw_with f s = do { m \<leftarrow> lab5_mem s; m' \<leftarrow> f m; Some (s\<lparr>lab5_mem := Some m'\<rparr>) }"

section \<open>The exercises (lab5/lab5.c)\<close>

definition video_test_init :: "('w, 'x) lab5_env \<Rightarrow> u16 \<Rightarrow> u8 \<Rightarrow> 'w \<Rightarrow> int \<times> 'w" where
  "video_test_init E mode delay w =
     (case set_vbe_mode E mode w of
        (err, w1) \<Rightarrow> if err \<noteq> 0 then (err, w1) else vg_exit E (l5_sleep E delay w1))"

text \<open>Waiting for the release of ESC, as the drawing exercises do before they leave.\<close>

definition esc_step :: "('w, 'x) lab5_env \<Rightarrow> u32 \<Rightarrow> message \<Rightarrow> Lab5State \<Rightarrow> 'w \<Rightarrow> (Lab5State \<times> 'w) option" where
  "esc_step E irq_set msg s w =
     Some (if raised msg irq_set then (case kb_int_handler E s w of (r, s1, w1) \<Rightarrow> (s1, w1)) else (s, w))"

definition wait_esc :: "('w, 'x) lab5_env \<Rightarrow> Lab5State \<Rightarrow> 'w \<Rightarrow> (int \<times> Lab5State \<times> 'w) option" where
  "wait_esc E s w =
     do {
       let K = l5_kernel E;
       let ((r, bit_no), s1, w1) = kb_subscribe_int K s w;
       (s2, w2) \<leftarrow> receive_loop (l5_receive E) (\<lambda>s. lab5_code s \<noteq> lab5_ESC_BREAKCODE)
                    (esc_step E (BIT (unat bit_no))) (s1\<lparr>lab5_code := 0\<rparr>) w1;
       let (r, w3) = kb_unsubscribe_int K s2 w2;
       let (r, w4) = vg_exit E w3;
       Some (r, s2, w4)
     }"

text \<open>Mapping the memory and setting the mode; the exercises return the error of either.\<close>

definition enter_mode :: "('w, 'x) lab5_env \<Rightarrow> u16 \<Rightarrow> Lab5State \<Rightarrow> 'w \<Rightarrow> (int \<times> Lab5State \<times> 'w) option" where
  "enter_mode E mode s w =
     do {
       (err, s1, w1) \<leftarrow> lab5_map_vram E mode s w;
       Some (if err \<noteq> 0 then (err, s1, w1)
             else case set_vbe_mode E mode w1 of (err, w2) \<Rightarrow> (err, s1, w2))
     }"

definition video_test_rectangle ::
  "('w, 'x) lab5_env \<Rightarrow> u16 \<Rightarrow> u16 \<Rightarrow> u16 \<Rightarrow> u16 \<Rightarrow> u16 \<Rightarrow> u32 \<Rightarrow> Lab5State \<Rightarrow> 'w \<Rightarrow> (int \<times> Lab5State \<times> 'w) option" where
  "video_test_rectangle E mode x y width height color s w =
     do {
       (err, s1, w1) \<leftarrow> enter_mode E mode s w;
       if err \<noteq> 0 then Some (err, s1, w1)
       else do {
         s2 \<leftarrow> draw_with (vg_draw_rectangle s1 x y width height color) s1;
         wait_esc E s2 w1
       }
     }"

definition video_test_pattern ::
  "('w, 'x) lab5_env \<Rightarrow> u16 \<Rightarrow> u8 \<Rightarrow> u32 \<Rightarrow> u8 \<Rightarrow> Lab5State \<Rightarrow> 'w \<Rightarrow> (int \<times> Lab5State \<times> 'w) option" where
  "video_test_pattern E mode no_rectangles first step s w =
     do {
       (err, s1, w1) \<leftarrow> enter_mode E mode s w;
       if err \<noteq> 0 then Some (err, s1, w1)
       else do {
         s2 \<leftarrow> draw_with (vg_draw_matrix s1 mode no_rectangles first step) s1;
         wait_esc E s2 w1
       }
     }"

definition video_test_xpm ::
  "('w, 'x) lab5_env \<Rightarrow> 'x \<Rightarrow> u16 \<Rightarrow> u16 \<Rightarrow> Lab5State \<Rightarrow> 'w \<Rightarrow> (int \<times> Lab5State \<times> 'w) option" where
  "video_test_xpm E xpm x y s w =
     do {
       (err, s1, w1) \<leftarrow> enter_mode E INDEXED_MODE s w;
       if err \<noteq> 0 then Some (err, s1, w1)
       else case l5_xpm_load E xpm of
         None \<Rightarrow> Some (-1, s1, w1)
       | Some img \<Rightarrow> do {
           s2 \<leftarrow> draw_with (vg_draw_image s1 x y img) s1;
           wait_esc E s2 w1
         }
     }"

subsection \<open>Moving an image\<close>

text \<open>The position and the tick counter of \<open>video_test_move\<close>; the latter is an \<open>int16_t\<close>.\<close>

record MoveState =
  mv :: Lab5State
  xi :: u16
  yi :: u16
  ticks :: u16

text \<open>\<open>xi++\<close> or \<open>yi++\<close>, and a step of \<open>speed\<close> that stops at the target.\<close>

definition move_one :: "u16 \<Rightarrow> MoveState \<Rightarrow> MoveState" where
  "move_one xf ms = (if xi ms \<noteq> xf then ms\<lparr>xi := xi ms + 1\<rparr> else ms\<lparr>yi := yi ms + 1\<rparr>)"

definition move_by :: "u16 \<Rightarrow> u16 \<Rightarrow> u16 \<Rightarrow> MoveState \<Rightarrow> MoveState" where
  "move_by speed xf yf ms =
     (if xi ms \<noteq> xf
      then let x = xi ms + speed in ms\<lparr>xi := if x > xf then xf else x\<rparr>
      else let y = yi ms + speed in ms\<lparr>yi := if y > yf then yf else y\<rparr>)"

text \<open>\<open>redraw f\<close> clears the image, moves it by \<open>f\<close> and draws it again.\<close>

definition redraw :: "xpm_image \<Rightarrow> (MoveState \<Rightarrow> MoveState) \<Rightarrow> MoveState \<Rightarrow> MoveState option" where
  "redraw img f ms =
     do {
       s1 \<leftarrow> draw_with (vg_clear_image (mv ms) (xi ms) (yi ms) img) (mv ms);
       let ms1 = f (ms\<lparr>mv := s1\<rparr>);
       s2 \<leftarrow> draw_with (vg_draw_image s1 (xi ms1) (yi ms1) img) s1;
       Some (ms1\<lparr>mv := s2\<rparr>)
     }"

text \<open>\<open>counter%(60/fr_rate)==0\<close>: undefined for a rate of 0 or above 60.\<close>

definition frame_due :: "int \<Rightarrow> u8 \<Rightarrow> bool option" where
  "frame_due counter fr_rate =
     (if fr_rate = 0 \<or> 60 div unat fr_rate = 0 then None
      else Some (counter mod int (60 div unat fr_rate) = 0))"

definition animate :: "xpm_image \<Rightarrow> u16 \<Rightarrow> u16 \<Rightarrow> u16 \<Rightarrow> MoveState \<Rightarrow> MoveState option" where
  "animate img xf yf speed ms =
     (if sint speed < 0 then
        let ms1 = ms\<lparr>ticks := ticks ms + 1\<rparr>
        in if sint (ticks ms1) = - sint speed
           then map_option (\<lambda>ms2. ms2\<lparr>ticks := 0\<rparr>) (redraw img (move_one xf) ms1)
           else Some ms1
      else redraw img (move_by speed xf yf) ms)"

definition move_step ::
  "('w, 'x) lab5_env \<Rightarrow> u32 \<Rightarrow> u32 \<Rightarrow> xpm_image \<Rightarrow> u16 \<Rightarrow> u16 \<Rightarrow> u16 \<Rightarrow> u8 \<Rightarrow> message \<Rightarrow> MoveState \<Rightarrow> 'w \<Rightarrow>
   (MoveState \<times> 'w) option" where
  "move_step E irq_set_keyboard irq_set_timer img xf yf speed fr_rate msg ms w =
     do {
       let (ms1, w1) = (if raised msg irq_set_keyboard
                        then (case kb_int_handler E (mv ms) w of (r, s, w') \<Rightarrow> (ms\<lparr>mv := s\<rparr>, w')) else (ms, w));
       ms2 \<leftarrow> (if raised msg irq_set_timer then do {
                 let ms' = ms1\<lparr>mv := lab5_timer_int_handler (mv ms1)\<rparr>;
                 due \<leftarrow> frame_due (lab5_counter (mv ms')) fr_rate;
                 if due then animate img xf yf speed ms' else Some ms'
               } else Some ms1);
       Some (ms2, w1)
     }"

definition video_test_move ::
  "('w, 'x) lab5_env \<Rightarrow> 'x \<Rightarrow> u16 \<Rightarrow> u16 \<Rightarrow> u16 \<Rightarrow> u16 \<Rightarrow> u16 \<Rightarrow> u8 \<Rightarrow> Lab5State \<Rightarrow> 'w \<Rightarrow> (int \<times> Lab5State \<times> 'w) option" where
  "video_test_move E xpm xi0 yi0 xf yf speed fr_rate s w =
     do {
       let K = l5_kernel E;
       (r, s1, w1) \<leftarrow> lab5_map_vram E INDEXED_MODE s w;
       let (r, w2) = set_vbe_mode E INDEXED_MODE w1;
       let img = (case l5_xpm_load E xpm of Some img \<Rightarrow> img | None \<Rightarrow> l5_image E);
       let ((r, bit_no_keyboard), s2, w3) = kb_subscribe_int K s1 w2;
       let ((r, bit_no_timer), s3, w4) = lab5_timer_subscribe_int K s2 w3;
       let s4 = s3\<lparr>lab5_code := 0\<rparr>;
       if xi0 \<noteq> xf \<and> yi0 \<noteq> yf then (case vg_exit E w4 of (r, w5) \<Rightarrow> Some (r, s4, w5))
       else do {
         s5 \<leftarrow> draw_with (vg_draw_image s4 xi0 yi0 img) s4;
         (ms, w5) \<leftarrow> receive_loop (l5_receive E)
            (\<lambda>ms. lab5_code (mv ms) \<noteq> lab5_ESC_BREAKCODE \<and> (xi ms \<noteq> xf \<or> yi ms \<noteq> yf))
            (move_step E (BIT (unat bit_no_keyboard)) (BIT (unat bit_no_timer)) img xf yf speed fr_rate)
            \<lparr>mv = s5, xi = xi0, yi = yi0, ticks = 0\<rparr> w4;
         let (r, w6) = lab5_timer_unsubscribe_int K (mv ms) w5;
         let (r, w7) = kb_unsubscribe_int K (mv ms) w6;
         let (r, w8) = vg_exit E w7;
         Some (r, mv ms, w8)
       }
     }"

definition video_test_controller :: int where
  "video_test_controller = 1"

section \<open>What the drawing operations paint\<close>

text \<open>The mode as a screen of the project's video card, so that its pixel lemmas apply.\<close>

definition scr :: "Lab5State \<Rightarrow> Screen" where
  "scr s = \<lparr>vmi_p = vbe_mode_info.truncate (lab5_vmi_p s), bytes_per_pixel = uint (lab5_bytes_per_pixel s),
     vram_size = of_nat (unat (XResolution (lab5_vmi_p s)) * unat (YResolution (lab5_vmi_p s)) *
       unat (lab5_bytes_per_pixel s)),
     rectangle_width = 0, rectangle_height = 0, left_rectangle_width = 0, right_rectangle_width = 0\<rparr>"

lemma scr_simps:
  "hres (scr s) = unat (XResolution (lab5_vmi_p s))" "vres (scr s) = unat (YResolution (lab5_vmi_p s))"
  "bpp (scr s) = unat (lab5_bytes_per_pixel s)"
  by (simp_all add: hres_def vres_def bpp_def scr_def vbe_mode_info.defs)

lemma store_at_put:
  assumes "fb_ok S" and "p < fb_size S"
  shows "store_at m (p * bpp S) c = fb_put S m p c"
proof -
  have "p * bpp S + bpp S \<le> fb_size S * bpp S" by (rule pixel_fits) (rule assms(2))
  moreover have "fb_size S * bpp S < 2 ^ 32" using assms(1) by (simp add: fb_ok_def fb_size_def)
  ultimately have "unat (of_nat (p * bpp S) :: u32) = p * bpp S" by (intro unat_of_nat_small) simp
  then show ?thesis by (simp add: store_at_def fb_put_def memcpy_to_def)
qed

lemma vg_hline_painted:
  assumes wf: "fb_wf (scr s) m" and y: "unat y < vres (scr s)"
  shows "\<exists>m'. vg_draw_hline s x y len color m = Some m' \<and>
    fb.painted (scr s) m (\<Union>i\<in>{unat x..<min (unat x + unat len) (hres (scr s))}. {pix (scr s) i (unat y)})
      (\<lambda>_. colour_bytes (scr s) color) m'"
proof -
  let ?S = "scr s" and ?is = "[unat x..<min (unat x + unat len) (hres (scr s))]"
  have ok: "fb_ok ?S" using wf by (simp add: fb_wf_def)
  have "nat (bytes_per_pixel ?S) = unat (lab5_bytes_per_pixel s)" using scr_simps(3) [of s] by (simp add: bpp_def)
  then have ob: "object_bytes color (unat (lab5_bytes_per_pixel s)) = Some (colour_bytes ?S color)"
    using object_bytes_colour(1) [OF ok] by simp
  have "\<exists>m'. foldM (\<lambda>i m. store_at m (pix ?S i (unat y) * bpp ?S) (colour_bytes ?S color)) ?is m = Some m' \<and>
      fb.painted ?S m (\<Union>i\<in>set ?is. {pix ?S i (unat y)}) (\<lambda>_. colour_bytes ?S color) m'"
  proof (rule fb.foldM_painted [OF _ wf])
    fix i m assume "i \<in> set ?is" and m: "fb_wf ?S m"
    then have p: "pix ?S i (unat y) < fb_size ?S" using y by (intro pix_less) simp_all
    show "\<exists>m'. store_at m (pix ?S i (unat y) * bpp ?S) (colour_bytes ?S color) = Some m' \<and>
        fb.painted ?S m {pix ?S i (unat y)} (\<lambda>_. colour_bytes ?S color) m'"
      unfolding store_at_put [OF ok p] using object_bytes_colour(2) [OF ok] m p by (intro fb.put_painted)
  qed
  then show ?thesis
    by (simp add: vg_draw_hline_def ob scr_simps pix_def Let_def)
qed

lemma vg_rectangle_painted:
  assumes wf: "fb_wf (scr s) m"
  shows "\<exists>m'. vg_draw_rectangle s x y width height color m = Some m' \<and>
    fb.painted (scr s) m (rect_pixels (scr s) (unat x) (unat y) (unat width) (unat height))
      (\<lambda>_. colour_bytes (scr s) color) m'"
proof -
  let ?S = "scr s" and ?rows = "[unat y..<min (unat y + unat height) (vres (scr s))]"
  let ?row = "\<lambda>j. \<Union>i\<in>{unat x..<min (unat x + unat width) (hres (scr s))}. {pix (scr s) i j}"
  have "\<exists>m'. foldM (\<lambda>col m. vg_draw_hline s x (of_nat col) width color m) ?rows m = Some m' \<and>
      fb.painted ?S m (\<Union>j\<in>set ?rows. ?row j) (\<lambda>_. colour_bytes ?S color) m'"
  proof (rule fb.foldM_painted [OF _ wf])
    fix j m assume j: "j \<in> set ?rows" and m: "fb_wf ?S m"
    have "vres ?S < 65536" using unat_u16_bound by (simp add: vres_def)
    then have "unat (of_nat j :: u16) = j" using j by (intro unat_of_nat_small) simp
    with vg_hline_painted [OF m, of "of_nat j" x width color] j
    show "\<exists>m'. vg_draw_hline s x (of_nat j) width color m = Some m' \<and>
        fb.painted ?S m (?row j) (\<lambda>_. colour_bytes ?S color) m'" by simp
  qed
  moreover have "(\<Union>j\<in>set ?rows. ?row j) = rect_pixels ?S (unat x) (unat y) (unat width) (unat height)"
    by (fastforce simp: rect_pixels_def)
  ultimately show ?thesis by (simp add: vg_draw_rectangle_def scr_simps)
qed

lemma painted_colour:
  "fb.painted S m P f m' \<Longrightarrow> (\<And>q. q \<in> P \<Longrightarrow> q < fb_size S \<Longrightarrow> f q = g q) \<Longrightarrow> fb.painted S m P g m'"
  by (auto simp: fb.painted_def)

section \<open>The pattern\<close>

text \<open>The masks of the mode are narrow enough for the shifts.\<close>

definition masks_ok :: "mode_info \<Rightarrow> u16 \<Rightarrow> bool" where
  "masks_ok vmi mode \<longleftrightarrow> unat (RedMaskSize vmi) < 31 \<and> unat (GreenMaskSize vmi) < 31 \<and> unat (BlueMaskSize vmi) < 31 \<and>
     unat (GreenMaskSize vmi) + unat (BlueMaskSize vmi) < 32 \<and> (mode = INDEXED_MODE \<longrightarrow> unat (BitsPerPixel vmi) < 31)"

lemma matrix_color_defined:
  "masks_ok vmi mode \<Longrightarrow> \<exists>c. matrix_color vmi mode n first step row col = Some c"
  by (auto simp: masks_ok_def matrix_color_def bit_of_def shift_right_def Let_def)

text \<open>What the pattern shows in a pixel: the colour of its tile, or black in the two stripes.\<close>

definition pattern :: "Lab5State \<Rightarrow> u16 \<Rightarrow> u8 \<Rightarrow> u32 \<Rightarrow> u8 \<Rightarrow> nat \<Rightarrow> nat \<Rightarrow> u32" where
  "pattern s mode n first step px py =
     (let rw = hres (scr s) div unat n; rh = vres (scr s) div unat n
      in if px < unat n * rw \<and> py < unat n * rh
         then the (matrix_color (lab5_vmi_p s) mode n first step (py div rh) (px div rw))
         else COLOR_BLACK)"

lemma tile_index: "(c :: nat) * w \<le> p \<Longrightarrow> p < c * w + w \<Longrightarrow> p div w = c"
  by (rule div_nat_eqI) (simp_all add: mult.commute)

lemma tile_below: "(c :: nat) < n \<Longrightarrow> p < c * w + w \<Longrightarrow> p < n * w"
  using pixel_fits [of c n w] by linarith

text \<open>The colour of a pixel by its index.\<close>

definition pattern_at :: "Lab5State \<Rightarrow> u16 \<Rightarrow> u8 \<Rightarrow> u32 \<Rightarrow> u8 \<Rightarrow> nat \<Rightarrow> u8 list" where
  "pattern_at s mode n first step q =
     colour_bytes (scr s) (pattern s mode n first step (q mod hres (scr s)) (q div hres (scr s)))"

lemma in_rect:
  assumes "q \<in> rect_pixels S x y w h"
  shows "x \<le> q mod hres S" "q mod hres S < x + w" "y \<le> q div hres S" "q div hres S < y + h"
  using assms by (auto simp: rect_pixels_def pix_def)

lemma rect_pattern:
  assumes "fb_wf (scr s) m"
    and "\<And>px py. unat x \<le> px \<Longrightarrow> px < unat x + unat w \<Longrightarrow> unat y \<le> py \<Longrightarrow> py < unat y + unat h \<Longrightarrow>
      pattern s mode n first step px py = color"
  shows "\<exists>m'. vg_draw_rectangle s x y w h color m = Some m' \<and>
    fb.painted (scr s) m (rect_pixels (scr s) (unat x) (unat y) (unat w) (unat h)) (pattern_at s mode n first step) m'"
proof -
  obtain m' where m': "vg_draw_rectangle s x y w h color m = Some m'"
    "fb.painted (scr s) m (rect_pixels (scr s) (unat x) (unat y) (unat w) (unat h)) (\<lambda>_. colour_bytes (scr s) color) m'"
    using vg_rectangle_painted [OF assms(1)] by blast
  have "fb.painted (scr s) m (rect_pixels (scr s) (unat x) (unat y) (unat w) (unat h)) (pattern_at s mode n first step) m'"
  proof (rule painted_colour [OF m'(2)])
    fix q assume "q \<in> rect_pixels (scr s) (unat x) (unat y) (unat w) (unat h)"
    from assms(2) [OF in_rect [OF this]] show "colour_bytes (scr s) color = pattern_at s mode n first step q"
      by (simp add: pattern_at_def)
  qed
  with m'(1) show ?thesis by blast
qed

lemma tile_pattern:
  assumes wf: "fb_wf (scr s) m" and mk: "masks_ok (lab5_vmi_p s) mode" and r: "row < unat n" and c: "col < unat n"
  defines "rw \<equiv> hres (scr s) div unat n" and "rh \<equiv> vres (scr s) div unat n"
  shows "\<exists>m'. (do { color \<leftarrow> matrix_color (lab5_vmi_p s) mode n first step row col;
      vg_draw_rectangle s (of_nat (col * rw)) (of_nat (row * rh)) (of_nat rw) (of_nat rh) color m }) = Some m' \<and>
    fb.painted (scr s) m (rect_pixels (scr s) (col * rw) (row * rh) rw rh) (pattern_at s mode n first step) m'"
proof -
  obtain color where k: "matrix_color (lab5_vmi_p s) mode n first step row col = Some color"
    using matrix_color_defined [OF mk] by blast
  have b: "hres (scr s) < 65536" "vres (scr s) < 65536" using unat_u16_bound by (simp_all add: hres_def vres_def)
  have "col * rw + rw \<le> unat n * rw" "row * rh + rh \<le> unat n * rh" using r c by (simp_all only: pixel_fits)
  moreover have "unat n * rw \<le> hres (scr s)" "unat n * rh \<le> vres (scr s)" by (simp_all add: rw_def rh_def)
  ultimately have "col * rw < 65536" "row * rh < 65536" "rw < 65536" "rh < 65536" using b by linarith+
  then have u: "unat (of_nat (col * rw) :: u16) = col * rw" "unat (of_nat (row * rh) :: u16) = row * rh"
    "unat (of_nat rw :: u16) = rw" "unat (of_nat rh :: u16) = rh"
    by (intro unat_of_nat_small; simp)+
  have "pattern s mode n first step px py = color"
    if "col * rw \<le> px" "px < col * rw + rw" "row * rh \<le> py" "py < row * rh + rh" for px py
  proof -
    have "px div rw = col" "py div rh = row" using that by (simp_all add: tile_index)
    moreover have "px < unat n * rw" "py < unat n * rh" using that r c tile_below by blast+
    ultimately show ?thesis using k by (simp add: pattern_def Let_def rw_def [symmetric] rh_def [symmetric])
  qed
  with rect_pattern [OF wf, of "of_nat (col * rw)" "of_nat rw" "of_nat (row * rh)" "of_nat rh" mode n first step color]
  show ?thesis by (simp only: u k Option.bind.bind_lunit)
qed

lemma tiles_painted:
  fixes n :: u8
  assumes wf: "fb_wf (scr s) m" and mk: "masks_ok (lab5_vmi_p s) mode"
  defines "rw \<equiv> hres (scr s) div unat n" and "rh \<equiv> vres (scr s) div unat n"
  shows "\<exists>m'. foldM (\<lambda>row. foldM (\<lambda>col m. do { color \<leftarrow> matrix_color (lab5_vmi_p s) mode n first step row col;
      vg_draw_rectangle s (of_nat (col * rw)) (of_nat (row * rh)) (of_nat rw) (of_nat rh) color m })
        [0..<unat n]) [0..<unat n] m = Some m' \<and>
    fb.painted (scr s) m (\<Union>row\<in>set [0..<unat n]. \<Union>col\<in>set [0..<unat n]. rect_pixels (scr s) (col * rw) (row * rh) rw rh)
      (pattern_at s mode n first step) m'"
proof (rule fb.foldM_painted [OF _ wf], rule fb.foldM_painted)
  fix row m col m'
  assume "row \<in> set [0..<unat n]" "col \<in> set [0..<unat n]" "fb_wf (scr s) m'"
  then show "\<exists>m''. (do { color \<leftarrow> matrix_color (lab5_vmi_p s) mode n first step row col;
      vg_draw_rectangle s (of_nat (col * rw)) (of_nat (row * rh)) (of_nat rw) (of_nat rh) color m' }) = Some m'' \<and>
    fb.painted (scr s) m' (rect_pixels (scr s) (col * rw) (row * rh) rw rh) (pattern_at s mode n first step) m''"
    using tile_pattern [OF _ mk, of m' row n col] by (simp add: rw_def rh_def)
qed

lemma tiles_and_stripes_cover:
  assumes n: "0 < n" and p: "px < X" "py < (Y :: nat)"
  shows "(X - X mod n \<le> px \<and> px < X) \<or> (Y - Y mod n \<le> py \<and> py < Y) \<or>
    (\<exists>row<n. \<exists>col<n. col * (X div n) \<le> px \<and> px < col * (X div n) + X div n \<and>
       row * (Y div n) \<le> py \<and> py < row * (Y div n) + Y div n)"
proof -
  have tile: "\<exists>c<n. c * (Z div n) \<le> p \<and> p < c * (Z div n) + Z div n" if z: "p < Z - Z mod n" for p Z
  proof -
    have zn: "Z - Z mod n = n * (Z div n)" by (simp add: minus_mod_eq_mult_div)
    then have w: "0 < Z div n" using z by (cases "Z div n = 0") simp_all
    have "p div (Z div n) < n" using z zn w by (simp add: less_mult_imp_div_less)
    moreover have "p div (Z div n) * (Z div n) \<le> p" by (rule div_times_less_eq_dividend)
    moreover have "p < p div (Z div n) * (Z div n) + Z div n" using dividend_less_div_times [OF w, of p] by simp
    ultimately show ?thesis by blast
  qed
  show ?thesis using tile [of px X] tile [of py Y] p by (meson not_le)
qed

lemma stripe_numbers:
  fixes R :: u16 and n :: u8
  assumes "0 < unat n"
  shows "unat (of_nat (unat R mod unat n) :: u16) = unat R mod unat n"
    "unat (R - of_nat (unat R mod unat n)) = unat n * (unat R div unat n)"
proof -
  show u: "unat (of_nat (unat R mod unat n) :: u16) = unat R mod unat n"
    using le_less_trans [OF mod_less_eq_dividend unat_u16_bound, of R "unat n"] by (intro unat_of_nat_small) simp
  have "(of_nat (unat R mod unat n) :: u16) \<le> R"
    unfolding word_le_nat_alt u by (rule mod_less_eq_dividend)
  then have "unat (R - of_nat (unat R mod unat n)) = unat R - unat R mod unat n" by (simp add: unat_sub u)
  then show "unat (R - of_nat (unat R mod unat n)) = unat n * (unat R div unat n)"
    by (simp add: minus_mod_eq_mult_div)
qed

lemma vg_draw_matrix_painted:
  assumes wf: "fb_wf (scr s) m" and mk: "masks_ok (lab5_vmi_p s) mode" and n: "0 < unat n"
  shows "\<exists>m'. vg_draw_matrix s mode n first step m = Some m' \<and> fb_wf (scr s) m' \<and>
    (\<forall>q<fb_size (scr s). fb_get (scr s) m' q = pattern_at s mode n first step q)"
proof -
  let ?S = "scr s" and ?f = "pattern_at s mode n first step"
  let ?XR = "XResolution (lab5_vmi_p s)" and ?YR = "YResolution (lab5_vmi_p s)"
  let ?X = "hres ?S" and ?Y = "vres ?S"
  let ?rw = "?X div unat n" and ?rh = "?Y div unat n"
  let ?bw = "of_nat (unat ?XR mod unat n) :: u16" and ?bh = "of_nat (unat ?YR mod unat n) :: u16"
  note sx = stripe_numbers [OF n, of ?XR] and sy = stripe_numbers [OF n, of ?YR]
  note S = scr_simps [of s]
  have bx: "pattern s mode n first step px py = COLOR_BLACK" if "unat n * ?rw \<le> px" for px py
    using that by (simp add: pattern_def Let_def)
  have by': "pattern s mode n first step px py = COLOR_BLACK" if "unat n * ?rh \<le> py" for px py
    using that by (simp add: pattern_def Let_def)
  obtain m1 where 1: "vg_draw_rectangle s (?XR - ?bw) 0 ?bw ?YR COLOR_BLACK m = Some m1"
    "fb.painted ?S m (rect_pixels ?S (unat n * ?rw) 0 (?X mod unat n) ?Y) ?f m1"
    using rect_pattern [OF wf, of "?XR - ?bw" ?bw 0 ?YR mode n first step COLOR_BLACK] bx sx by (auto simp: S)
  obtain m2 where 2: "vg_draw_rectangle s 0 (?YR - ?bh) ?XR ?bh COLOR_BLACK m1 = Some m2"
    "fb.painted ?S m1 (rect_pixels ?S 0 (unat n * ?rh) ?X (?Y mod unat n)) ?f m2"
    using rect_pattern [OF fb.painted_wf [OF 1(2)], of 0 ?XR "?YR - ?bh" ?bh mode n first step COLOR_BLACK] by' sy
    by (auto simp: S)
  let ?T = "\<Union>row\<in>set [0..<unat n]. \<Union>col\<in>set [0..<unat n]. rect_pixels ?S (col * ?rw) (row * ?rh) ?rw ?rh"
  obtain m3 where 3: "foldM (\<lambda>row. foldM (\<lambda>col m. do { color \<leftarrow> matrix_color (lab5_vmi_p s) mode n first step row col;
      vg_draw_rectangle s (of_nat (col * ?rw)) (of_nat (row * ?rh)) (of_nat ?rw) (of_nat ?rh) color m })
        [0..<unat n]) [0..<unat n] m2 = Some m3" "fb.painted ?S m2 ?T ?f m3"
    using tiles_painted [OF fb.painted_wf [OF 2(2)] mk] by blast
  have e: "vg_draw_matrix s mode n first step m = Some m3"
    using n 1(1) 2(1) 3(1) by (simp add: vg_draw_matrix_def Let_def S)
  have cover: "q \<in> rect_pixels ?S (unat n * ?rw) 0 (?X mod unat n) ?Y \<union> rect_pixels ?S 0 (unat n * ?rh) ?X (?Y mod unat n) \<union> ?T"
    if q: "q < fb_size ?S" for q
  proof -
    let ?px = "q mod ?X" and ?py = "q div ?X"
    have X: "0 < ?X" using q by (cases "?X = 0") (simp_all add: fb_size_def)
    have b: "?px < ?X" "?py < ?Y" and pq: "q = pix ?S ?px ?py"
      using q X by (simp_all add: fb_size_def pix_def less_mult_imp_div_less mult.commute)
    have z: "Z - Z mod unat n = unat n * (Z div unat n)" "unat n * (Z div unat n) + Z mod unat n = Z" for Z
      by (simp_all add: minus_mod_eq_mult_div)
    from tiles_and_stripes_cover [OF n b]
    show ?thesis
      by (subst pq, unfold Un_iff UN_iff) (use b in \<open>auto simp: pix_in_rect z\<close>)
  qed
  from fb.painted_trans [OF fb.painted_trans [OF 1(2) 2(2)] 3(2)] cover
  have "fb_wf ?S m3 \<and> (\<forall>q<fb_size ?S. fb_get ?S m3 q = ?f q)" unfolding fb.painted_def by auto
  with e show ?thesis by blast
qed

section \<open>Moving an image\<close>

text \<open>An indexed mode with its memory mapped, and an image that lies on the screen.\<close>

definition indexed :: "Lab5State \<Rightarrow> bool" where
  "indexed s \<longleftrightarrow> lab5_bytes_per_pixel s = 1 \<and>
     (\<exists>m. lab5_mem s = Some m \<and> length m = unat (XResolution (lab5_vmi_p s)) * unat (YResolution (lab5_vmi_p s)))"

definition on_screen :: "Lab5State \<Rightarrow> xpm_image \<Rightarrow> u16 \<Rightarrow> u16 \<Rightarrow> bool" where
  "on_screen s img x y \<longleftrightarrow> unat x + unat (img_width img) \<le> unat (XResolution (lab5_vmi_p s)) \<and>
     unat y + unat (img_height img) \<le> unat (YResolution (lab5_vmi_p s)) \<and>
     unat (img_width img) * unat (img_height img) \<le> length (img_bytes img)"

lemma store_at_keeps: "pos + length bs \<le> length m \<Longrightarrow> \<exists>m'. store_at m pos bs = Some m' \<and> length m' = length m"
  by (simp add: store_at_def)

lemma vg_draw_image_safe:
  assumes b: "lab5_bytes_per_pixel s = 1" and o: "on_screen s img x y"
    and len: "length m = unat (XResolution (lab5_vmi_p s)) * unat (YResolution (lab5_vmi_p s))"
  shows "\<exists>m'. vg_draw_image s x y img m = Some m' \<and> length m' = length m"
proof -
  let ?X = "unat (XResolution (lab5_vmi_p s))" and ?Y = "unat (YResolution (lab5_vmi_p s))"
  let ?w = "unat (img_width img)" and ?h = "unat (img_height img)"
  let ?px = "\<lambda>col row m. if row * ?w + col + 1 \<le> length (img_bytes img)
      then store_at m ((unat y + row) * ?X + col + unat x) (take 1 (drop (row * ?w + col) (img_bytes img))) else None"
  have e: "vg_draw_image s x y img m = foldM (\<lambda>col. foldM (?px col) [0..<?h]) [0..<?w] m"
    by (simp only: vg_draw_image_def b Let_def unsigned_1 mult_1_right)
  have "\<exists>m'. foldM (\<lambda>col. foldM (?px col) [0..<?h]) [0..<?w] m = Some m' \<and> length m' = length m"
  proof (rule foldM_keeps [where P = "\<lambda>m'. length m' = length m"], simp, rule foldM_keeps, assumption)
    fix col row and t t' :: mem assume c: "col \<in> set [0..<?w]" "row \<in> set [0..<?h]" "length t' = length m"
    have "row * ?w + ?w \<le> ?h * ?w" using c(2) by (intro pixel_fits) simp
    then have src: "row * ?w + col + 1 \<le> length (img_bytes img)"
      using o c(1) by (simp add: on_screen_def mult.commute)
    have "(unat y + row) * ?X + ?X \<le> ?Y * ?X" using o c(2) by (intro pixel_fits) (simp add: on_screen_def)
    then have "(unat y + row) * ?X + col + unat x + 1 \<le> length t'"
      using o c len by (simp add: on_screen_def mult.commute)
    then show "\<exists>t''. ?px col row t' = Some t'' \<and> length t'' = length m"
      using src c(3) store_at_keeps [of "(unat y + row) * ?X + col + unat x" "take 1 (drop (row * ?w + col) (img_bytes img))" t']
      by simp
  qed
  then show ?thesis by (simp only: e)
qed

lemma vg_clear_image_safe:
  assumes b: "lab5_bytes_per_pixel s = 1" and o: "on_screen s img x y"
    and len: "length m = unat (XResolution (lab5_vmi_p s)) * unat (YResolution (lab5_vmi_p s))"
  shows "\<exists>m'. vg_clear_image s x y img m = Some m' \<and> length m' = length m"
proof -
  let ?X = "unat (XResolution (lab5_vmi_p s))" and ?Y = "unat (YResolution (lab5_vmi_p s))"
  let ?w = "unat (img_width img)" and ?h = "unat (img_height img)"
  have stop: "unat y + ?h \<le> 65535"
    using o unat_u16_bound [of "YResolution (lab5_vmi_p s)"] by (simp add: on_screen_def)
  have "\<exists>m'. foldM (\<lambda>row m. store_at m (row * ?X + unat x) (replicate ?w 0)) [unat y..<unat y + ?h] m = Some m' \<and>
      length m' = length m"
  proof (rule foldM_keeps, simp)
    fix row and t :: mem assume r: "row \<in> set [unat y..<unat y + ?h]" "length t = length m"
    have "row * ?X + ?X \<le> ?Y * ?X" using o r(1) by (intro pixel_fits) (simp add: on_screen_def)
    then show "\<exists>t'. store_at t (row * ?X + unat x) (replicate ?w 0) = Some t' \<and> length t' = length m"
      using o r(2) len store_at_keeps [of "row * ?X + unat x" "replicate ?w 0" t] by (simp add: on_screen_def mult.commute)
  qed
  then show ?thesis using stop by (simp add: vg_clear_image_def b Let_def)
qed

lemma redraw_moves:
  assumes i: "indexed (mv ms)" and o: "on_screen (mv ms) img (xi ms) (yi ms)"
    and f: "\<And>s. xi (f (ms\<lparr>mv := s\<rparr>)) = x' \<and> yi (f (ms\<lparr>mv := s\<rparr>)) = y'" and o': "on_screen (mv ms) img x' y'"
  shows "\<exists>ms'. redraw img f ms = Some ms' \<and> xi ms' = x' \<and> yi ms' = y' \<and> indexed (mv ms') \<and>
    lab5_vmi_p (mv ms') = lab5_vmi_p (mv ms)"
proof -
  obtain m where m: "lab5_bytes_per_pixel (mv ms) = 1" "lab5_mem (mv ms) = Some m"
    "length m = unat (XResolution (lab5_vmi_p (mv ms))) * unat (YResolution (lab5_vmi_p (mv ms)))"
    using i by (auto simp: indexed_def)
  obtain m1 where m1: "vg_clear_image (mv ms) (xi ms) (yi ms) img m = Some m1" "length m1 = length m"
    using vg_clear_image_safe [OF m(1) o m(3)] by blast
  let ?s1 = "(mv ms)\<lparr>lab5_mem := Some m1\<rparr>"
  have "on_screen ?s1 img x' y'" using o' by (simp add: on_screen_def)
  then obtain m2 where m2: "vg_draw_image ?s1 x' y' img m1 = Some m2" "length m2 = length m1"
    using vg_draw_image_safe [of ?s1 img x' y' m1] m m1(2) by auto
  show ?thesis
    using m m1 m2 f [of ?s1] by (simp add: redraw_def draw_with_def indexed_def Let_def)
qed

lemma animate_step:
  assumes i: "indexed (mv ms)" and sp: "0 \<le> sint speed"
    and x: "unat (xi ms) \<le> unat xf" "unat xf + unat speed < 65536" and y: "yi ms = yf" "unat yf + unat speed < 65536"
    and o: "on_screen (mv ms) img xf yf"
  shows "\<exists>ms'. animate img xf yf speed ms = Some ms' \<and> indexed (mv ms') \<and> lab5_vmi_p (mv ms') = lab5_vmi_p (mv ms) \<and>
    yi ms' = yf \<and> unat (xi ms') = min (unat (xi ms) + unat speed) (unat xf)"
proof -
  have ux: "unat (xi ms + speed) = unat (xi ms) + unat speed" using x by (simp add: unat_word_ariths)
  have uy: "unat (yf + speed) = unat yf + unat speed" using y(2) by (simp add: unat_word_ariths)
  define x' where "x' = (if xi ms \<noteq> xf then if xi ms + speed > xf then xf else xi ms + speed else xf)"
  have x': "unat x' = min (unat (xi ms) + unat speed) (unat xf)" "unat x' \<le> unat xf"
    using ux x(1) by (auto simp: x'_def word_less_nat_alt)
  have "\<not> yf + speed > yf \<Longrightarrow> yf + speed = yf"
    using uy by (simp add: word_less_nat_alt word_unat_eq_iff)
  then have f: "xi (move_by speed xf yf (ms\<lparr>mv := s\<rparr>)) = x' \<and> yi (move_by speed xf yf (ms\<lparr>mv := s\<rparr>)) = yf" for s
    using y(1) by (simp add: move_by_def x'_def Let_def)
  have o1: "on_screen (mv ms) img (xi ms) (yi ms)" "on_screen (mv ms) img x' yf"
    using o x(1) x'(2) y(1) by (simp_all add: on_screen_def)
  obtain ms' where "redraw img (move_by speed xf yf) ms = Some ms'" "xi ms' = x'" "yi ms' = yf" "indexed (mv ms')"
    "lab5_vmi_p (mv ms') = lab5_vmi_p (mv ms)"
    using redraw_moves [where f = "move_by speed xf yf" and x' = x' and y' = yf, OF i o1(1) f o1(2)] by blast
  then show ?thesis using sp x'(1) by (simp add: animate_def)
qed

lemma animate_frames:
  assumes i: "indexed (mv ms)" and sp: "0 \<le> sint speed"
    and x: "unat (xi ms) \<le> unat xf" "unat xf + unat speed < 65536" and y: "yi ms = yf" "unat yf + unat speed < 65536"
    and o: "on_screen (mv ms) img xf yf"
  shows "\<exists>ms'. foldM (\<lambda>_. animate img xf yf speed) [0..<k] ms = Some ms' \<and> indexed (mv ms') \<and>
    lab5_vmi_p (mv ms') = lab5_vmi_p (mv ms) \<and> yi ms' = yf \<and> unat (xi ms') = min (unat (xi ms) + k * unat speed) (unat xf)"
proof (induction k)
  case 0
  then show ?case using i x y by simp
next
  case (Suc k)
  then obtain m1 where m1: "foldM (\<lambda>_. animate img xf yf speed) [0..<k] ms = Some m1" "indexed (mv m1)"
    "lab5_vmi_p (mv m1) = lab5_vmi_p (mv ms)" "yi m1 = yf" "unat (xi m1) = min (unat (xi ms) + k * unat speed) (unat xf)"
    by blast
  have "on_screen (mv m1) img xf yf" using o m1(3) by (simp add: on_screen_def)
  moreover have "unat (xi m1) \<le> unat xf" using m1(5) by simp
  ultimately obtain m2 where m2: "animate img xf yf speed m1 = Some m2" "indexed (mv m2)"
    "lab5_vmi_p (mv m2) = lab5_vmi_p (mv m1)" "yi m2 = yf" "unat (xi m2) = min (unat (xi m1) + unat speed) (unat xf)"
    using animate_step [OF m1(2) sp _ x(2) m1(4) y(2)] by blast
  have "unat (xi m2) = min (unat (xi ms) + Suc k * unat speed) (unat xf)"
    using m2(5) m1(5) by (auto simp: min_def)
  then show ?case using m1 m2 by (simp add: foldM_append)
qed

section \<open>Properties\<close>

text \<open>C33: vg_draw_matrix draws the pattern exactly. In a mode whose masks the shifts can express
  and with at least one rectangle per side it never leaves the video memory, and
  afterwards every pixel of the screen shows the colour computed for the rectangle it lies
  in, or black in the stripes that the division leaves over on the right and at the
  bottom.\<close>
theorem vg_draw_matrix_exact:
  assumes "fb_wf (scr s) m" and "masks_ok (lab5_vmi_p s) mode" and "no_rectangles \<noteq> 0"
  shows "\<exists>m'. vg_draw_matrix s mode no_rectangles first step m = Some m' \<and> length m' = length m \<and>
    (\<forall>px py. px < hres (scr s) \<longrightarrow> py < vres (scr s) \<longrightarrow>
       fb_get (scr s) m' (pix (scr s) px py) =
         colour_bytes (scr s) (pattern s mode no_rectangles first step px py))"
proof -
  have "0 < unat no_rectangles" using assms(3) by (simp add: unat_gt_0)
  then obtain m' where m': "vg_draw_matrix s mode no_rectangles first step m = Some m'" "fb_wf (scr s) m'"
    "\<forall>q<fb_size (scr s). fb_get (scr s) m' q = pattern_at s mode no_rectangles first step q"
    using vg_draw_matrix_painted [OF assms(1,2)] by blast
  have "fb_get (scr s) m' (pix (scr s) px py) = colour_bytes (scr s) (pattern s mode no_rectangles first step px py)"
    if "px < hres (scr s)" "py < vres (scr s)" for px py
    using m'(3) pix_less [OF that] that by (simp add: pattern_at_def pix_def)
  moreover have "length m' = length m" using m'(2) assms(1) by (simp add: fb_wf_def)
  ultimately show ?thesis using m'(1) by blast
qed

text \<open>A small screen of five by three pixels of one byte.\<close>

definition sample_lab5 :: Lab5State where
  "sample_lab5 = \<lparr>lab5_counter = 0, lab5_kb_hook_id = 4, lab5_timer_hook_id = 1, lab5_code = 0,
     lab5_bytes_per_pixel = 1,
     lab5_vmi_p = \<lparr>XResolution = 5, YResolution = 3, BitsPerPixel = 8, PhysBasePtr = 0xE0000000,
       RedMaskSize = 0, GreenMaskSize = 0, BlueMaskSize = 0\<rparr>,
     lab5_mem = Some (replicate 15 7)\<rparr>"

lemma sample_lab5_facts:
  "hres (scr sample_lab5) = 5" "vres (scr sample_lab5) = 3" "bpp (scr sample_lab5) = 1"
  "fb_wf (scr sample_lab5) (replicate 15 7)"
proof -
  show h: "hres (scr sample_lab5) = 5" "vres (scr sample_lab5) = 3" "bpp (scr sample_lab5) = 1"
    by (simp_all add: scr_simps) (simp_all add: sample_lab5_def)
  have "unat (vram_size (scr sample_lab5)) = 15" "bytes_per_pixel (scr sample_lab5) = 1"
    by (simp_all add: scr_def sample_lab5_def)
  then show "fb_wf (scr sample_lab5) (replicate 15 7)" using h by (simp add: fb_wf_def fb_ok_def)
qed

theorem vg_draw_matrix_exact_witness:
  "\<exists>m'. vg_draw_matrix sample_lab5 INDEXED_MODE 2 1 1 (replicate 15 7) = Some m' \<and>
     fb_get (scr sample_lab5) m' (pix (scr sample_lab5) 2 0) = [2] \<and>
     fb_get (scr sample_lab5) m' (pix (scr sample_lab5) 4 0) = [0]"
proof -
  have mk: "masks_ok (lab5_vmi_p sample_lab5) INDEXED_MODE" by (simp add: masks_ok_def sample_lab5_def)
  have "matrix_color (lab5_vmi_p sample_lab5) INDEXED_MODE 2 1 1 0 1 = Some 2"
    by (simp add: matrix_color_def sample_lab5_def bit_of_def shift_right_def BIT_def)
  then have "pattern sample_lab5 INDEXED_MODE 2 1 1 2 0 = 2" "pattern sample_lab5 INDEXED_MODE 2 1 1 4 0 = 0"
    by (simp_all add: pattern_def sample_lab5_facts COLOR_BLACK_def)
  moreover have "colour_bytes (scr sample_lab5) 2 = [2]" "colour_bytes (scr sample_lab5) 0 = [0]"
    by (simp_all add: colour_bytes_def sample_lab5_facts)
  ultimately show ?thesis
    using vg_draw_matrix_exact [OF sample_lab5_facts(4) mk, of 2 1 1] by (auto simp: sample_lab5_facts)
qed

text \<open>C34: A moving image reaches its target without overshooting. For a horizontal move to the
  right with a non-negative speed, on a screen that holds the image at its target and with
  coordinates far enough from the 16-bit limit, k frames of the animation stay inside the
  video memory and bring the image to the smaller of its start plus k times the speed and
  the target, on the same line.\<close>
theorem animation_reaches_target:
  assumes "indexed (mv ms)" and "0 \<le> sint speed" and "unat (xi ms) \<le> unat xf" and "unat xf + unat speed < 65536"
    and "yi ms = yf" and "unat yf + unat speed < 65536" and "on_screen (mv ms) img xf yf"
  shows "\<exists>ms'. foldM (\<lambda>_. animate img xf yf speed) [0..<k] ms = Some ms' \<and> yi ms' = yf \<and>
    unat (xi ms') = min (unat (xi ms) + k * unat speed) (unat xf)"
  using animate_frames [OF assms] by blast

theorem animation_reaches_target_witness:
  "\<exists>ms'. foldM (\<lambda>_. animate \<lparr>img_width = 2, img_height = 1, img_bytes = [1, 2]\<rparr> 3 1 2) [0..<2]
       \<lparr>mv = sample_lab5, xi = 0, yi = 1, ticks = 0\<rparr> = Some ms' \<and> unat (xi ms') = 3"
proof -
  let ?ms = "\<lparr>mv = sample_lab5, xi = 0, yi = 1, ticks = 0\<rparr>" and ?img = "\<lparr>img_width = 2, img_height = 1, img_bytes = [1, 2 :: u8]\<rparr>"
  have "indexed (mv ?ms)" "on_screen (mv ?ms) ?img 3 1"
    by (simp_all add: indexed_def on_screen_def sample_lab5_def)
  then show ?thesis
    using animation_reaches_target [of ?ms 2 3 1 ?img 2] by auto
qed

end
