(* ===== verification/G06Video.thy ===== *)
theory G06Video
  imports Letter Keyboard
begin

text \<open>
  The snapshot \<open>proj/src/imgs/xboard/g06-main/proj/src\<close> of an earlier version of the game,
  for one machine and without a serial line: what its \<open>videocard.c\<close> and \<open>keyboard.c\<close> do
  differently. Functions that are the same in both versions (\<open>map_vram\<close>, \<open>draw_hline\<close>,
  \<open>create_image\<close>, the copying of buffers, timer and mouse) are those of the other theories.
\<close>

section \<open>Drawing (videocard.c)\<close>

text \<open>Rectangles are not confined to the board.\<close>

definition g06_draw_rectangle ::
  "Screen \<Rightarrow> mem \<Rightarrow> u16 \<Rightarrow> u16 \<Rightarrow> u16 \<Rightarrow> u16 \<Rightarrow> u32 \<Rightarrow> mem option" where
  "g06_draw_rectangle s board_mem x y width height color =
     foldM (\<lambda>i m. draw_hline s m x (of_nat i) width color)
       [unat y..<min (unat y + unat height) (unat (YResolution (vmi_p s)))] board_mem"

text \<open>The rows of the picture are taken to be as long as the picture is high.\<close>

definition g06_draw_image :: "Screen \<Rightarrow> mem \<Rightarrow> xpm_image \<Rightarrow> u16 \<Rightarrow> u16 \<Rightarrow> mem option" where
  "g06_draw_image s board_mem img x y =
     (let X = XResolution (vmi_p s); Y = YResolution (vmi_p s);
          bpp = u32_of (bytes_per_pixel s); n = nat (bytes_per_pixel s)
      in foldM
        (\<lambda>y_img m.
           foldM
             (\<lambda>x_img m.
                let position = ((ucast y + of_nat y_img) * ucast X + ucast x + of_nat x_img) * bpp;
                    color_position = (of_nat y_img * ucast (img_height img) + of_nat x_img) * bpp
                in case (block_bytes (img_bytes img) color_position n, object_bytes color_transparent n) of
                     (Some px, Some tr) \<Rightarrow> if px \<noteq> tr then memcpy_to m position px else Some m
                   | _ \<Rightarrow> None)
             [0..<min (unat (img_width img)) (unat X - unat x)] m)
        [0..<min (unat (img_height img)) (unat Y - unat y)] board_mem)"

section \<open>Keyboard and letters (keyboard.c)\<close>

record G06Keyboard =
  g06_kb_hook_id :: int
  g06_code :: u8
  letterImg :: xpm_image

definition g06_OUT_BUF_EMPTY :: int where "g06_OUT_BUF_EMPTY = -1"

definition g06_keyboard_subscribe_int ::
  "'w kernel \<Rightarrow> G06Keyboard \<Rightarrow> 'w \<Rightarrow> (int \<times> u8) \<times> G06Keyboard \<times> 'w" where
  "g06_keyboard_subscribe_int K kb w =
     (let bit_no = word_of_int (g06_kb_hook_id kb)
      in case sys_irqsetpolicy K KEYBOARD_IRQ (IRQ_REENABLE OR IRQ_EXCLUSIVE) (g06_kb_hook_id kb) w of
           (r, hook', w') \<Rightarrow> ((r, bit_no), kb\<lparr>g06_kb_hook_id := hook'\<rparr>, w'))"

definition g06_keyboard_unsubscribe_int :: "'w kernel \<Rightarrow> G06Keyboard \<Rightarrow> 'w \<Rightarrow> int \<times> 'w" where
  "g06_keyboard_unsubscribe_int K kb w = sys_irqrmpolicy K (g06_kb_hook_id kb) w"

text \<open>The cases of the switch, a make code with the picture of its letter.\<close>

definition g06_letter_cases :: "(u8 \<times> Xpm) list" where
  "g06_letter_cases =
     [(0x1e, letter_xpm 0), (0x30, letter_xpm 1), (0x2e, letter_xpm 2), (0x20, letter_xpm 3),
      (0x12, letter_xpm 4), (0x21, letter_xpm 5), (0x22, letter_xpm 6), (0x23, letter_xpm 7),
      (0x17, letter_xpm 8), (0x24, letter_xpm 9), (0x25, letter_xpm 10), (0x26, letter_xpm 11),
      (0x32, letter_xpm 12), (0x31, letter_xpm 13), (0x18, letter_xpm 14), (0x19, letter_xpm 15),
      (0x10, letter_xpm 16), (0x13, letter_xpm 17), (0x1f, letter_xpm 18), (0x14, letter_xpm 19),
      (0x16, letter_xpm 20), (0x2f, letter_xpm 21), (0x11, letter_xpm 22), (0x2d, letter_xpm 23),
      (0x15, letter_xpm 24), (0x2c, letter_xpm 25)]"

text \<open>The global picture \<open>letterImg\<close> is kept for a byte without a case.\<close>

definition g06_drawLetter :: "xpm_loader \<Rightarrow> u8 \<Rightarrow> xpm_image \<Rightarrow> xpm_image" where
  "g06_drawLetter load byte img =
     (case find (\<lambda>(c, xpm). byte = c OR BIT 7) g06_letter_cases of
        None \<Rightarrow> img
      | Some (c, xpm) \<Rightarrow> snd (create_image load xpm img))"

text \<open>
  The output buffer is read in any case, and a prefix byte is followed by a second read.
\<close>

definition g06_keyboard_int_handler ::
  "'w kernel \<Rightarrow> xpm_loader \<Rightarrow> G06Keyboard \<Rightarrow> 'w \<Rightarrow> int \<times> G06Keyboard \<times> 'w" where
  "g06_keyboard_int_handler K load kb w =
     (case util_sys_inb K STAT_REG 0 w of
        (r, kbc_state, w1) \<Rightarrow>
          if r \<noteq> 0 then (r, kb, w1)
          else
            let valid_values = (has kbc_state OBF_FULL \<and>
                  \<not> has kbc_state (PAR_ERR OR TIMEOUT_ERR OR AUX))
            in case util_sys_inb K OUT_BUF (g06_code kb) w1 of
                 (r, c1, w2) \<Rightarrow>
                   let kb1 = kb\<lparr>g06_code := c1\<rparr>
                   in if r \<noteq> 0 then (r, kb1, w2)
                      else if c1 = TWO_BYTES \<and> valid_values then
                        (case util_sys_inb K OUT_BUF c1 w2 of
                           (r, c2, w3) \<Rightarrow>
                             let kb2 = kb1\<lparr>g06_code := c2\<rparr>
                             in if r \<noteq> 0 then (r, kb2, w3)
                                else (0, kb2\<lparr>letterImg := g06_drawLetter load c2 (letterImg kb2)\<rparr>, w3))
                      else if valid_values then
                        (0, kb1\<lparr>letterImg := g06_drawLetter load c1 (letterImg kb1)\<rparr>, w2)
                      else (g06_OUT_BUF_EMPTY, kb1, w2))"

section \<open>Drawing a name (videocard.c)\<close>

text \<open>
  The loop runs for \<open>c\<close> from 0 to 7; \<open>n\<close> is what is left of it. Reading outside the array
  \<open>make_code\<close> has no result. The picture in \<open>letterImg\<close> changes with every letter.
\<close>

primrec g06_draw_letters ::
  "xpm_loader \<Rightarrow> Screen \<Rightarrow> u8 list \<Rightarrow> int \<Rightarrow> int \<Rightarrow> int \<Rightarrow> nat \<Rightarrow> mem \<times> xpm_image \<Rightarrow> (mem \<times> xpm_image) option"
where
  "g06_draw_letters load s make_code base_x base_y spacing 0 mi = Some mi"
| "g06_draw_letters load s make_code base_x base_y spacing (Suc n) mi =
     (let c = 7 - n
      in if c < length make_code then
           (let p = make_code ! c
            in if p = 0 \<or> p = 0x9c then Some mi
               else do {
                 let x = base_x + spacing * int c;
                 let img = g06_drawLetter load p (snd mi);
                 m \<leftarrow> g06_draw_image s (fst mi) img (u16_of x) (u16_of base_y);
                 g06_draw_letters load s make_code base_x base_y spacing n (m, img)
               })
         else None)"

definition g06_draw_name ::
  "xpm_loader \<Rightarrow> Screen \<Rightarrow> mem \<Rightarrow> xpm_image \<Rightarrow> u8 list \<Rightarrow> int \<Rightarrow> int \<Rightarrow> int \<Rightarrow> (mem \<times> xpm_image) option" where
  "g06_draw_name load s m img make_code base_x base_y spacing =
     g06_draw_letters load s make_code base_x base_y spacing 8 (m, img)"

section \<open>What the drawing operations do\<close>

lemma g06_draw_rectangle_painted:
  assumes "fb_wf s m"
  shows "\<exists>m'. g06_draw_rectangle s m x y width height color = Some m' \<and>
    fb.painted s m (rect_pixels s (unat x) (unat y) (unat width) (unat height))
      (\<lambda>_. colour_bytes s color) m'"
  using rows_painted [OF assms] by (simp add: g06_draw_rectangle_def vres_def)

text \<open>On the board the two versions of the rectangle agree.\<close>

lemma g06_draw_rectangle_on_board:
  "on_board s x y \<Longrightarrow> g06_draw_rectangle s m x y width height color = draw_rectangle s m x y width height color"
  by (simp add: g06_draw_rectangle_def draw_rectangle_def on_board_def)

text \<open>The pixel the code takes for the one in column \<open>i\<close> and row \<open>j\<close>.\<close>

definition sheared :: "Screen \<Rightarrow> xpm_image \<Rightarrow> nat \<Rightarrow> nat \<Rightarrow> u8 list" where
  "sheared s img i j =
     take (bpp s) (drop ((j * unat (img_height img) + i) * bpp s) (img_bytes img))"

lemma sheared_square: "img_width img = img_height img \<Longrightarrow> sheared s img = image_at s img"
  by (intro ext) (simp add: sheared_def image_at_def)

lemma sheared_offset:
  assumes "fb_ok s"
  shows "(of_nat j * ucast (img_height img) + of_nat i) * u32_of (bytes_per_pixel s) =
    (of_nat ((j * unat (img_height img) + i) * bpp s) :: u32)"
  unfolding of_nat_bpp [OF assms] of_nat_unat_ucast by (simp only: of_nat_mult of_nat_add)

lemma sheared_block:
  assumes ok: "fb_ok s" and img: "image_ok s img" and wide: "unat (img_height img) \<le> unat (img_width img)"
    and i: "i < unat (img_width img)" and j: "j < unat (img_height img)"
  shows "block_bytes (img_bytes img)
      ((of_nat j * ucast (img_height img) + of_nat i) * u32_of (bytes_per_pixel s))
      (nat (bytes_per_pixel s)) = Some (sheared s img i j) \<and> fb_colour s (sheared s img i j)"
proof -
  let ?w = "unat (img_width img)" and ?h = "unat (img_height img)"
  have "j * ?h + i \<le> j * ?w + i" using wide by simp
  also have "\<dots> < ?w * ?h" using pixel_fits [of j ?h ?w] i j by (simp add: mult.commute)
  finally have "j * ?h + i < ?w * ?h" .
  from pixel_fits [OF this, of "bpp s"]
  have fits: "(j * ?h + i) * bpp s + bpp s \<le> length (img_bytes img)"
    and small: "(j * ?h + i) * bpp s < 2 ^ 32"
    using img by (auto simp: image_ok_def)
  have "unat (of_nat ((j * ?h + i) * bpp s) :: u32) = (j * ?h + i) * bpp s"
    using small by (intro unat_of_nat_small) simp
  with fits show ?thesis
    unfolding sheared_offset [OF ok]
    by (simp only: block_bytes_def sheared_def bpp_def [symmetric] fb_colour_def) simp
qed

lemma g06_draw_image_painted:
  assumes wf: "fb_wf s m" and img: "image_ok s img" and wide: "unat (img_height img) \<le> unat (img_width img)"
  shows "\<exists>m'. g06_draw_image s m img x y = Some m' \<and>
    fb.painted s m
      {pix s (unat x + i) (unat y + j) |i j. i < unat (img_width img) \<and> j < unat (img_height img) \<and>
         unat x + i < hres s \<and> unat y + j < vres s \<and> sheared s img i j \<noteq> colour_bytes s color_transparent}
      (\<lambda>q. sheared s img (q mod hres s - unat x) (q div hres s - unat y)) m'"
proof -
  have ok: "fb_ok s" using wf by (simp add: fb_wf_def)
  let ?cp = "\<lambda>j i. (of_nat j * ucast (img_height img) + of_nat i) * u32_of (bytes_per_pixel s)"
  from blit_painted [OF wf, where W = "unat (img_width img)" and H = "unat (img_height img)"
      and cp = ?cp and src = "sheared s img" and bs = "img_bytes img" and x = x and y = y,
      OF sheared_block [OF ok img wide]]
  show ?thesis by (simp add: g06_draw_image_def Let_def hres_def vres_def)
qed

lemma g06_draw_image_square:
  "img_width img = img_height img \<Longrightarrow> g06_draw_image s m img x y = draw_image s m img x y"
  by (simp add: g06_draw_image_def draw_image_def)

lemma g06_draw_image_wf:
  assumes "fb_wf s m" and "image_ok s img" and "unat (img_height img) \<le> unat (img_width img)"
  shows "\<exists>m'. g06_draw_image s m img x y = Some m' \<and> fb_wf s m'"
  using g06_draw_image_painted [OF assms, of x y] unfolding fb.painted_def by blast

text \<open>Past the end of a picture that is higher than wide.\<close>

lemma last_pixel_outside: "w < h \<Longrightarrow> 0 < w \<Longrightarrow> w * h \<le> (h - 1) * h + (w - 1)" for w h :: nat
proof -
  assume "w < h" "0 < w"
  then obtain d k where "h = w + Suc d" "w = Suc k" by (metis less_imp_Suc_add gr0_implies_Suc add_Suc_right)
  then show ?thesis by (simp add: algebra_simps)
qed

lemma g06_draw_image_outside:
  assumes ok: "fb_ok s"
    and len: "length (img_bytes img) = unat (img_width img) * unat (img_height img) * bpp s"
    and high: "0 < unat (img_width img)" "unat (img_width img) < unat (img_height img)"
    and vis: "unat x + unat (img_width img) \<le> hres s" "unat y + unat (img_height img) \<le> vres s"
    and small: "unat (img_height img) * unat (img_height img) * bpp s < 2 ^ 32"
  shows "g06_draw_image s m img x y = None"
proof -
  let ?w = "unat (img_width img)" and ?h = "unat (img_height img)" and ?n = "nat (bytes_per_pixel s)"
  have b: "0 < bpp s" using ok by (auto simp: fb_ok_def bpp_def)
  let ?k = "((?h - 1) * ?h + (?w - 1)) * bpp s"
  have "(?h - 1) * ?h + (?w - 1) < ?h * ?h"
    using high pixel_fits [of "?h - 1" ?h ?h] by linarith
  then have "?k < 2 ^ 32"
    using small pixel_fits [of "(?h - 1) * ?h + (?w - 1)" "?h * ?h" "bpp s"] by linarith
  then have u: "unat (of_nat ?k :: u32) = ?k" by (intro unat_of_nat_small) simp
  have "?w * ?h * bpp s \<le> ?k" using last_pixel_outside [OF high(2,1)] by (rule mult_le_mono1)
  then have "\<not> ?k + bpp s \<le> ?w * ?h * bpp s" using b by linarith
  then have blk: "block_bytes (img_bytes img) (of_nat ?k) ?n = None"
    unfolding block_bytes_def u len bpp_def [symmetric] by (rule if_not_P)
  show ?thesis
    unfolding g06_draw_image_def Let_def
  proof (rule foldM_undefined [where x = "?h - 1"])
    show "?h - 1 \<in> set [0..<min ?h (unat (YResolution (vmi_p s)) - unat y)]"
      using high vis by (simp add: vres_def)
  qed (rule foldM_undefined [where x = "?w - 1"],
      use high vis in \<open>simp add: hres_def\<close>, simp only: sheared_offset [OF ok] blk prod.case option.case)
qed

section \<open>Names\<close>

text \<open>The switch chooses the picture as the later version does.\<close>

lemma find_zip:
  "find (\<lambda>(c, xpm). b = c OR BIT 7) (zip cs (map f [k..<k + length cs])) =
     map_option (\<lambda>i. (cs ! (i - k), f i)) (find_case b cs k)"
proof (induction b cs k rule: find_case.induct)
  case (2 b c cs k)
  have u: "[k..<k + length (c # cs)] = k # [k + 1..<k + 1 + length cs]" by (simp add: upt_rec)
  have "map_option (\<lambda>i. (cs ! (i - (k + 1)), f i)) (find_case b cs (k + 1)) =
      map_option (\<lambda>i. ((c # cs) ! (i - k), f i)) (find_case b cs (k + 1))"
    by (rule option.map_cong) (auto dest: find_case_Some simp: nth_Cons' Suc_diff_le option.set_sel)
  then show ?case unfolding u using 2 by simp
qed simp

lemma g06_drawLetter_getLetter:
  "g06_drawLetter load b img =
     (case getLetter b of None \<Rightarrow> img | Some k \<Rightarrow> snd (create_image load (letter_xpm k) img))"
proof -
  have e: "g06_letter_cases = zip LETTERS (map letter_xpm [0..<0 + length LETTERS])"
    by (simp add: g06_letter_cases_def LETTERS_def upt_rec)
  show ?thesis
    unfolding g06_drawLetter_def getLetter_def e find_zip by (auto split: option.split)
qed

text \<open>Pictures the snapshot can draw: stored completely, and not higher than wide.\<close>

definition g06_image_ok :: "Screen \<Rightarrow> xpm_image \<Rightarrow> bool" where
  "g06_image_ok s img \<longleftrightarrow> image_ok s img \<and> unat (img_height img) \<le> unat (img_width img)"

lemma g06_drawLetter_ok:
  assumes "g06_image_ok s img" and "\<forall>xpm img. load xpm = Some img \<longrightarrow> g06_image_ok s img"
  shows "g06_image_ok s (g06_drawLetter load b img)"
  using assms by (auto simp: g06_drawLetter_def create_image_def split: option.split)

lemma g06_draw_letters_wf:
  assumes "\<forall>xpm img. load xpm = Some img \<longrightarrow> g06_image_ok s img" and "n \<le> 8" and "8 \<le> length bs"
    and "fb_wf s (fst mi)" and "g06_image_ok s (snd mi)"
  shows "\<exists>m' img'. g06_draw_letters load s bs px py spacing n mi = Some (m', img') \<and>
    fb_wf s m' \<and> g06_image_ok s img'"
  using assms(2-)
proof (induction n arbitrary: mi)
  case 0
  then show ?case by (cases mi) simp
next
  case (Suc n)
  let ?p = "bs ! (7 - n)" and ?img = "g06_drawLetter load (bs ! (7 - n)) (snd mi)"
  have c: "7 - n < length bs" using Suc.prems by simp
  show ?case
  proof (cases "?p = 0 \<or> ?p = 0x9c")
    case True
    then show ?thesis using c Suc.prems by (cases mi) simp
  next
    case False
    have i: "g06_image_ok s ?img" using g06_drawLetter_ok Suc.prems(4) assms(1) by blast
    then obtain m1 where "g06_draw_image s (fst mi) ?img (u16_of (px + spacing * int (7 - n))) (u16_of py) = Some m1"
      and "fb_wf s m1"
      using g06_draw_image_wf Suc.prems(3) unfolding g06_image_ok_def by blast
    then show ?thesis using False c i Suc.IH [of "(m1, ?img)"] Suc.prems by simp
  qed
qed

lemma g06_draw_name_wf:
  assumes "\<forall>xpm img. load xpm = Some img \<longrightarrow> g06_image_ok s img" and "8 \<le> length bs"
    and "fb_wf s m" and "g06_image_ok s img"
  shows "\<exists>m' img'. g06_draw_name load s m img bs px py spacing = Some (m', img') \<and>
    fb_wf s m' \<and> g06_image_ok s img'"
  using g06_draw_letters_wf [OF assms(1), of 8 bs "(m, img)"] assms unfolding g06_draw_name_def by simp

section \<open>Properties\<close>

text \<open>The earlier version of image drawing takes the rows of a picture to be as long as the
  picture is high. A square picture is drawn exactly as by the later version. A picture that
  is at least as wide as high is drawn inside the buffer, but the pixel in column i and row j
  shows the stored pixel number j * height + i. A picture that is higher than wide and lies
  on the screen completely makes the code read past the end of the picture.\<close>
lemma g06_draw_image_rows:
  assumes "mode_115 s" and "fb_wf s m" and "image_ok s img"
    and "length (img_bytes img) = unat (img_width img) * unat (img_height img) * 3"
  shows "(img_width img = img_height img \<longrightarrow> g06_draw_image s m img x y = draw_image s m img x y) \<and>
    (unat (img_height img) \<le> unat (img_width img) \<longrightarrow>
       (\<exists>m'. g06_draw_image s m img x y = Some m' \<and>
         (\<forall>px py. px < 800 \<longrightarrow> py < 600 \<longrightarrow>
            fb_get s m' (pix s px py) =
              (if unat x \<le> px \<and> px < unat x + unat (img_width img) \<and>
                  unat y \<le> py \<and> py < unat y + unat (img_height img) \<and>
                  sheared s img (px - unat x) (py - unat y) \<noteq> colour_bytes s color_transparent
               then sheared s img (px - unat x) (py - unat y) else fb_get s m (pix s px py))))) \<and>
    (0 < unat (img_width img) \<and> unat (img_width img) < unat (img_height img) \<and>
     unat x + unat (img_width img) \<le> 800 \<and> unat y + unat (img_height img) \<le> 600 \<longrightarrow>
       g06_draw_image s m img x y = None)"
proof (intro conjI impI)
  note f = mode_115_facts [OF assms(1)]
  show "g06_draw_image s m img x y = draw_image s m img x y" if "img_width img = img_height img"
    using that by (rule g06_draw_image_square)
  show "\<exists>m'. g06_draw_image s m img x y = Some m' \<and> (\<forall>px py. px < 800 \<longrightarrow> py < 600 \<longrightarrow>
      fb_get s m' (pix s px py) =
        (if unat x \<le> px \<and> px < unat x + unat (img_width img) \<and>
            unat y \<le> py \<and> py < unat y + unat (img_height img) \<and>
            sheared s img (px - unat x) (py - unat y) \<noteq> colour_bytes s color_transparent
         then sheared s img (px - unat x) (py - unat y) else fb_get s m (pix s px py)))"
    if "unat (img_height img) \<le> unat (img_width img)"
    using g06_draw_image_painted [OF assms(2,3) that, of x y]
      blit_pixels [where s = s and m = m and src = "sheared s img" and x = "unat x" and y = "unat y"
        and shown = "\<lambda>i j. sheared s img i j \<noteq> colour_bytes s color_transparent"] f(1,2)
    by fastforce
  assume h: "0 < unat (img_width img) \<and> unat (img_width img) < unat (img_height img) \<and>
     unat x + unat (img_width img) \<le> 800 \<and> unat y + unat (img_height img) \<le> 600"
  then have "unat (img_height img) * unat (img_height img) \<le> 600 * 600" by (intro mult_le_mono) simp_all
  then show "g06_draw_image s m img x y = None"
    using h assms f by (intro g06_draw_image_outside) (auto simp: fb_wf_def)
qed

lemma g06_draw_image_rows_example:
  "\<exists>m'. g06_draw_image screen_115 (replicate 1440000 0)
       \<lparr>img_width = 2, img_height = 1, img_bytes = [1, 2, 3, 4, 5, 6]\<rparr> 10 20 = Some m' \<and>
     fb_get screen_115 m' (pix screen_115 11 20) = [4, 5, 6] \<and>
     g06_draw_image screen_115 (replicate 1440000 0)
       \<lparr>img_width = 1, img_height = 2, img_bytes = [1, 2, 3, 4, 5, 6]\<rparr> 10 20 = None"
proof -
  let ?a = "\<lparr>img_width = 2, img_height = 1, img_bytes = [1, 2, 3, 4, 5, 6]\<rparr>"
  let ?b = "\<lparr>img_width = 1, img_height = 2, img_bytes = [1, 2, 3, 4, 5, 6]\<rparr>"
  have s: "mode_115 screen_115" using screen_115 by (simp add: squares_115_def)
  note f = mode_115_facts [OF s]
  have w: "fb_wf screen_115 (replicate 1440000 0)" and i: "image_ok screen_115 ?a" "image_ok screen_115 ?b"
    using f by (simp_all add: fb_wf_def image_ok_def)
  have t: "colour_bytes screen_115 color_transparent = [0x69, 0, 0]"
    unfolding colour_bytes_def f(3) by (simp add: upt_rec color_transparent_def)
  have sh: "sheared screen_115 ?a (Suc 0) 0 = [4, 5, 6]" by (simp add: sheared_def f(3))
  obtain m' where "g06_draw_image screen_115 (replicate 1440000 0) ?a 10 20 = Some m'"
    and g: "\<forall>px py. px < 800 \<longrightarrow> py < 600 \<longrightarrow> fb_get screen_115 m' (pix screen_115 px py) =
       (if unat (10::u16) \<le> px \<and> px < unat (10::u16) + unat (img_width ?a) \<and>
           unat (20::u16) \<le> py \<and> py < unat (20::u16) + unat (img_height ?a) \<and>
           sheared screen_115 ?a (px - unat (10::u16)) (py - unat (20::u16)) \<noteq>
             colour_bytes screen_115 color_transparent
        then sheared screen_115 ?a (px - unat (10::u16)) (py - unat (20::u16))
        else fb_get screen_115 (replicate 1440000 0) (pix screen_115 px py))"
  proof -
    have h: "unat (img_height ?a) \<le> unat (img_width ?a)" by simp
    have l: "length (img_bytes ?a) = unat (img_width ?a) * unat (img_height ?a) * 3" by simp
    note r = g06_draw_image_rows [OF s w i(1) l, of 10 20, THEN conjunct2, THEN conjunct1, rule_format, OF h]
    from r show thesis by (rule exE) (erule conjE, rule that)
  qed
  moreover from g [rule_format, of 11 20] have "fb_get screen_115 m' (pix screen_115 11 20) = [4, 5, 6]"
    using sh t by simp
  moreover have "g06_draw_image screen_115 (replicate 1440000 0) ?b 10 20 = None"
    using g06_draw_image_rows [OF s w i(2), of 10 20] by simp
  ultimately show ?thesis by blast
qed

end
