(* ===== verification/G06Board.thy ===== *)
theory G06Board
  imports G06Video Setup
begin

text \<open>
  \<open>piece.c\<close> and \<open>board.c\<close> of the snapshot \<open>g06-main\<close>: pieces without the flags for redrawing,
  a board that is drawn anew for every frame, and no movement rules. The types of the
  pieces, their pictures and the coordinate conversions are those of the later version.
\<close>

section \<open>Pieces (piece.c)\<close>

text \<open>The fields \<open>x\<close>, \<open>y\<close> and \<open>pressed\<close> of the struct, which no function uses, are left out.\<close>

record G06Piece =
  g06_absolute_x :: u16
  g06_absolute_y :: u16
  g06_target_x :: u16
  g06_target_y :: u16
  g06_image :: xpm_image
  g06_type :: PieceType
  g06_is_moving :: bool

text \<open>\<open>p\<close> is the block \<open>malloc\<close> returned; the target is not set.\<close>

definition g06_initPiece :: "xpm_loader \<Rightarrow> G06Piece \<Rightarrow> PieceType \<Rightarrow> int \<Rightarrow> int \<Rightarrow> G06Piece" where
  "g06_initPiece load p piece_type ux uy =
     p\<lparr>g06_image := snd (create_image load (piece_xpm piece_type) (g06_image p)),
       g06_absolute_x := u16_of ux, g06_absolute_y := u16_of uy, g06_type := piece_type,
       g06_is_moving := False\<rparr>"

definition g06_drawPieces :: "Screen \<Rightarrow> mem \<Rightarrow> G06Piece option \<Rightarrow> mem option" where
  "g06_drawPieces s m piece =
     (case piece of
        None \<Rightarrow> Some m
      | Some p \<Rightarrow> g06_draw_image s m (g06_image p) (g06_absolute_x p) (g06_absolute_y p))"

text \<open>One coordinate of one frame is moved as in the later version.\<close>

definition g06_updatePiece :: "G06Piece \<Rightarrow> G06Piece" where
  "g06_updatePiece p =
     (if g06_absolute_x p = g06_target_x p \<and> g06_absolute_y p = g06_target_y p
      then p\<lparr>g06_is_moving := False\<rparr>
      else
        let p1 = p\<lparr>g06_absolute_x := step_towards (g06_target_x p) (g06_absolute_x p)\<rparr>
        in p1\<lparr>g06_absolute_y := step_towards (g06_target_y p1) (g06_absolute_y p1)\<rparr>)"

definition g06_updatePiece_no_animation :: "G06Piece \<Rightarrow> G06Piece" where
  "g06_updatePiece_no_animation p =
     p\<lparr>g06_absolute_x := g06_target_x p, g06_absolute_y := g06_target_y p, g06_is_moving := False\<rparr>"

definition g06_movePiece :: "G06Piece \<Rightarrow> int \<Rightarrow> int \<Rightarrow> G06Piece" where
  "g06_movePiece p px py = p\<lparr>g06_is_moving := True, g06_target_x := u16_of px, g06_target_y := u16_of py\<rparr>"

definition g06_setPiecePosition :: "G06Piece \<Rightarrow> int \<Rightarrow> int \<Rightarrow> G06Piece" where
  "g06_setPiecePosition p px py = p\<lparr>g06_absolute_x := u16_of px, g06_absolute_y := u16_of py\<rparr>"

section \<open>The board (board.c)\<close>

text \<open>As before, a square holds the address of a piece in the heap, or null.\<close>

record G06Board =
  g06_mem_board :: mem
  g06_mem_pieces :: mem
  g06_squares :: "nat option list"
  g06_heap :: "G06Piece list"

definition g06_square_at :: "G06Board \<Rightarrow> int \<Rightarrow> nat option option" where
  "g06_square_at b i =
     (if 0 \<le> i \<and> i < int (length (g06_squares b)) then Some (g06_squares b ! nat i) else None)"

definition g06_set_square :: "G06Board \<Rightarrow> int \<Rightarrow> nat option \<Rightarrow> G06Board option" where
  "g06_set_square b i v =
     (if 0 \<le> i \<and> i < int (length (g06_squares b))
      then Some (b\<lparr>g06_squares := (g06_squares b)[nat i := v]\<rparr>) else None)"

definition g06_piece_of :: "G06Board \<Rightarrow> nat \<Rightarrow> G06Piece option" where
  "g06_piece_of b ref = (if ref < length (g06_heap b) then Some (g06_heap b ! ref) else None)"

definition g06_set_piece :: "G06Board \<Rightarrow> nat \<Rightarrow> G06Piece \<Rightarrow> G06Board option" where
  "g06_set_piece b ref p =
     (if ref < length (g06_heap b) then Some (b\<lparr>g06_heap := (g06_heap b)[ref := p]\<rparr>) else None)"

definition g06_createPiece ::
  "xpm_loader \<Rightarrow> Screen \<Rightarrow> G06Piece \<Rightarrow> PieceType \<Rightarrow> int \<Rightarrow> int \<Rightarrow> G06Board \<Rightarrow> G06Board option" where
  "g06_createPiece load s fresh t c r b =
     (let px = u32_of c * rectangle_width s + left_rectangle_width s;
          py = vertical_margin div 2 + u32_of r * rectangle_height s;
          p = g06_initPiece load fresh t (i32_of px) (i32_of py)
      in g06_set_square (b\<lparr>g06_heap := g06_heap b @ [p]\<rparr>) (get_position c r) (Some (length (g06_heap b))))"

text \<open>
  The two layers are mapped and not cleared. The geometry and the 32 calls of
  \<open>createPiece\<close> are those of the later version.
\<close>

definition g06_initBoard ::
  "'w video_kernel \<Rightarrow> (u32 \<Rightarrow> mem) \<Rightarrow> xpm_loader \<Rightarrow> (nat \<Rightarrow> G06Piece) \<Rightarrow> Screen \<Rightarrow> 'w \<Rightarrow> G06Board \<Rightarrow>
   (Screen \<times> 'w \<times> G06Board) option" where
  "g06_initBoard V mapped load fresh s w b =
     do {
       (mb, s1, w1) \<leftarrow> map_page V mapped 2 0x115 s w;
       (mp, s2, w2) \<leftarrow> map_page V mapped 3 0x115 s1 w1;
       let s3 = set_geometry s2;
       let b1 = b\<lparr>g06_mem_board := mb, g06_mem_pieces := mp, g06_squares := replicate 64 None, g06_heap := []\<rparr>;
       b2 \<leftarrow> foldM (\<lambda>(t, c, r) b. g06_createPiece load s3 (fresh (length (g06_heap b))) t c r b)
              initial_pieces b1;
       Some (s3, w2, b2)
     }"

definition g06_draw_square :: "Screen \<Rightarrow> nat \<Rightarrow> nat \<Rightarrow> u32 \<Rightarrow> mem \<Rightarrow> mem option" where
  "g06_draw_square s row col c m =
     g06_draw_rectangle s m
       (ucast (of_nat col * rectangle_width s + left_rectangle_width s))
       (ucast (of_nat row * rectangle_height s + vertical_margin div 2))
       (ucast (rectangle_width s)) (ucast (rectangle_height s)) c"

definition g06_draw_row :: "Screen \<Rightarrow> nat \<Rightarrow> mem \<times> u32 \<Rightarrow> (mem \<times> u32) option" where
  "g06_draw_row s row mc =
     map_option (\<lambda>(m, c). (m, toggle_color c))
       (foldM (\<lambda>col (m, c).
          let c' = toggle_color c
          in map_option (\<lambda>m'. (m', c')) (g06_draw_square s row col c' m)) [0..<8] mc)"

definition g06_drawBoard :: "Screen \<Rightarrow> G06Board \<Rightarrow> G06Board option" where
  "g06_drawBoard s b =
     do {
       m0 \<leftarrow> vg_clear s (g06_mem_board b);
       (m, c) \<leftarrow> foldM (g06_draw_row s) [0..<8] (m0, color1);
       Some (b\<lparr>g06_mem_board := m\<rparr>)
     }"

definition g06_update_square :: "bool \<Rightarrow> nat \<Rightarrow> G06Board \<Rightarrow> G06Board option" where
  "g06_update_square animation i b =
     do {
       sq \<leftarrow> g06_square_at b (int i);
       case sq of
         None \<Rightarrow> Some b
       | Some ref \<Rightarrow> do {
           p \<leftarrow> g06_piece_of b ref;
           if g06_is_moving p
           then g06_set_piece b ref (if animation then g06_updatePiece p else g06_updatePiece_no_animation p)
           else Some b
         }
     }"

definition g06_updateBoard :: "bool \<Rightarrow> G06Board \<Rightarrow> G06Board option" where
  "g06_updateBoard animation b =
     foldM (\<lambda>row. foldM (\<lambda>col. g06_update_square animation (nat (get_position (int col) (int row)))) [0..<8])
       [0..<8] b"

definition g06_draw_layer :: "Screen \<Rightarrow> G06Board \<Rightarrow> bool \<Rightarrow> mem \<Rightarrow> mem option" where
  "g06_draw_layer s b moving m =
     foldM (\<lambda>row. foldM (\<lambda>col m.
       do {
         sq \<leftarrow> g06_square_at b (get_position (int col) (int row));
         case sq of
           None \<Rightarrow> Some m
         | Some ref \<Rightarrow> do {
             p \<leftarrow> g06_piece_of b ref;
             if g06_is_moving p = moving then g06_drawPieces s m (Some p) else Some m
           }
       }) [0..<8]) [0..<8] m"

definition g06_drawBoardPieces :: "Screen \<Rightarrow> mem \<Rightarrow> G06Board \<Rightarrow> mem option" where
  "g06_drawBoardPieces s video_mem_buffer b =
     do {
       v \<leftarrow> copy_buffers s video_mem_buffer (g06_mem_board b);
       v' \<leftarrow> g06_draw_layer s b False v;
       g06_draw_layer s b True v'
     }"

section \<open>The later version simulates this one\<close>

text \<open>What the snapshot sees of a piece and of a board of the later version.\<close>

definition forget_piece :: "Piece \<Rightarrow> G06Piece" where
  "forget_piece p =
     \<lparr>g06_absolute_x = absolute_x p, g06_absolute_y = absolute_y p, g06_target_x = target_x p,
      g06_target_y = target_y p, g06_image = piece_image p, g06_type = ptype p,
      g06_is_moving = is_moving p\<rparr>"

definition forget :: "Board \<Rightarrow> G06Board" where
  "forget b = \<lparr>g06_mem_board = mem_board b, g06_mem_pieces = mem_pieces b,
     g06_squares = squares b, g06_heap = map forget_piece (heap b)\<rparr>"

lemma forget_access [simp]:
  "g06_square_at (forget b) i = square_at b i"
  "g06_piece_of (forget b) ref = map_option forget_piece (piece_of b ref)"
  "g06_set_square (forget b) i v = map_option forget (set_square b i v)"
  "g06_set_piece (forget b) ref (forget_piece p) = map_option forget (set_piece b ref p)"
  by (simp_all add: forget_def square_at_def g06_square_at_def piece_of_def g06_piece_of_def
      set_square_def g06_set_square_def set_piece_def g06_set_piece_def map_update)

lemma forget_redraw [simp]: "forget (b\<lparr>redrawPieces := v\<rparr>) = forget b"
  by (simp add: forget_def)

lemma forget_pieces:
  "forget_piece (movePiece p x y) = g06_movePiece (forget_piece p) x y"
  "forget_piece (setPiecePosition p x y) = g06_setPiecePosition (forget_piece p) x y"
  "forget_piece (initPiece load p t x y) = g06_initPiece load (forget_piece p) t x y"
  "is_moving p \<Longrightarrow> forget_piece (snd (updatePiece p)) = g06_updatePiece (forget_piece p)"
  "is_moving p \<Longrightarrow> forget_piece (snd (updatePiece_no_animation p)) =
     g06_updatePiece_no_animation (forget_piece p)"
  "forget_piece (p\<lparr>change := v\<rparr>) = forget_piece p" "g06_is_moving (forget_piece p) = is_moving p"
  "g06_type (forget_piece p) = ptype p"
  by (simp_all add: forget_piece_def movePiece_def g06_movePiece_def setPiecePosition_def
      g06_setPiecePosition_def initPiece_def g06_initPiece_def Let_def updatePiece_def
      g06_updatePiece_def updatePiece_no_animation_def g06_updatePiece_no_animation_def)

lemma set_piece_twice:
  "set_piece b ref p = Some b1 \<Longrightarrow> set_piece (b1\<lparr>redrawPieces := v\<rparr>) ref q = map_option (\<lambda>b. b\<lparr>redrawPieces := v\<rparr>) (set_piece b ref q)"
  by (auto simp: set_piece_def split: if_splits)

lemma set_piece_same: "piece_of b ref = Some p \<Longrightarrow> set_piece b ref p = Some b"
  by (auto simp: set_piece_def piece_of_def split: if_splits)

lemma update_square_simulation:
  "map_option forget (update_square animation i b) = g06_update_square animation i (forget b)"
proof (cases "square_at b (int i)")
  case None
  then show ?thesis by (simp add: update_square_def g06_update_square_def)
next
  case (Some sq)
  show ?thesis
  proof (cases "\<exists>ref p. sq = Some ref \<and> piece_of b ref = Some p")
    case False
    then show ?thesis using Some
      by (cases sq) (auto simp: update_square_def g06_update_square_def)
  next
    case True
    then obtain ref p where r: "sq = Some ref" "piece_of b ref = Some p" by blast
    let ?p = "if is_moving p then snd (if animation then updatePiece p else updatePiece_no_animation p) else p"
    obtain b1 where b1: "set_piece b ref ?p = Some b1"
      using r(2) by (auto simp: set_piece_def piece_of_def split: if_splits)
    have l: "map_option forget (update_square animation i b) = map_option forget (set_piece b ref ?p)"
    proof (cases "change ?p")
      case False
      then show ?thesis using Some r b1 by (simp add: update_square_def Let_def)
    next
      case True
      have "map_option forget (set_piece b ref (?p\<lparr>change := False\<rparr>)) = map_option forget (set_piece b ref ?p)"
        by (simp only: forget_access(4) [symmetric] forget_pieces(6))
      moreover have "map_option forget (map_option (\<lambda>b. b\<lparr>redrawPieces := True\<rparr>) q) = map_option forget q" for q
        by (cases q) simp_all
      ultimately show ?thesis
        using Some r b1 True set_piece_twice [OF b1, of True "?p\<lparr>change := False\<rparr>"]
        by (simp add: update_square_def Let_def)
    qed
    show ?thesis
    proof (cases "is_moving p")
      case True
      then show ?thesis
        unfolding l using Some r forget_pieces(4,5) [OF True]
        by (simp add: g06_update_square_def forget_pieces(7) flip: forget_access(4))
    next
      case False
      then show ?thesis
        unfolding l using Some r set_piece_same [OF r(2)]
        by (simp add: g06_update_square_def forget_pieces(7))
    qed
  qed
qed

lemma createPiece_simulation:
  "map_option forget (createPiece load s fresh t c r b) =
     g06_createPiece load s (forget_piece fresh) t c r (forget b)"
proof -
  have "(forget b)\<lparr>g06_heap := g06_heap (forget b) @ [forget_piece p]\<rparr> = forget (b\<lparr>heap := heap b @ [p]\<rparr>)" for p
    by (simp add: forget_def)
  moreover have "length (g06_heap (forget b)) = length (heap b)" by (simp add: forget_def)
  ultimately show ?thesis
    by (simp add: createPiece_def g06_createPiece_def Let_def flip: forget_pieces(3))
qed

text \<open>Every piece of the snapshot is what is left of one of the later version.\<close>

definition remember :: "G06Piece \<Rightarrow> Piece" where
  "remember p = \<lparr>absolute_x = g06_absolute_x p, absolute_y = g06_absolute_y p, board_x = 0, board_y = 0,
     target_x = g06_target_x p, target_y = g06_target_y p, piece_image = g06_image p, ptype = g06_type p,
     is_moving = g06_is_moving p, priority_draw = False, change = False, pawn_moved = False\<rparr>"

lemma forget_remember: "forget_piece (remember p) = p"
  by (simp add: forget_piece_def remember_def)

lemma updateBoard_simulation:
  "map_option forget (updateBoard animation b) = g06_updateBoard animation (forget b)"
  unfolding updateBoard_def g06_updateBoard_def
  by (intro foldM_simulation update_square_simulation)

section \<open>The starting position\<close>

definition g06_board_ok :: "G06Board \<Rightarrow> bool" where
  "g06_board_ok b \<longleftrightarrow> length (g06_squares b) = 64 \<and>
     (\<forall>ref. Some ref \<in> set (g06_squares b) \<longrightarrow> ref < length (g06_heap b))"

definition g06_piece_at :: "G06Board \<Rightarrow> int \<Rightarrow> int \<Rightarrow> G06Piece option" where
  "g06_piece_at b c r = map_option (\<lambda>ref. g06_heap b ! ref) (g06_squares b ! nat (r * 8 + c))"

lemma forget_board_ok: "g06_board_ok (forget b) \<longleftrightarrow> board_ok b"
  by (simp add: g06_board_ok_def board_ok_def forget_def)

lemma forget_piece_at:
  assumes "board_ok b" and "on_sq c r"
  shows "g06_piece_at (forget b) c r = map_option forget_piece (piece_at b c r)"
proof -
  have "nat (r * 8 + c) < length (squares b)" using assms by (auto simp: board_ok_def on_sq_def)
  then have "\<forall>ref. squares b ! nat (r * 8 + c) = Some ref \<longrightarrow> ref < length (heap b)"
    using assms(1) unfolding board_ok_def by (metis nth_mem)
  then show ?thesis
    by (cases "squares b ! nat (r * 8 + c)") (simp_all add: g06_piece_at_def piece_at_def forget_def)
qed

lemma g06_initBoard_simulation:
  assumes V: "video_115 V mapped"
  shows "\<exists>s' w' b'. g06_initBoard V mapped load fresh s w b = Some (s', w', forget b') \<and> squares_115 s' \<and>
    placed initial_pieces (\<lambda>k. made load s' (remember (fresh k))) b' \<and>
    fb_wf s' (mem_board b') \<and> fb_wf s' (mem_pieces b')"
proof -
  obtain m2 s1 w1 where 2: "map_page V mapped 2 0x115 s w = Some (m2, s1, w1)" "mode_115 s1"
    "length m2 = 1440000"
    using map_page_115 [OF V] by blast
  obtain m3 s2 w2 where 3: "map_page V mapped 3 0x115 s1 w1 = Some (m3, s2, w2)" "mode_115 s2"
    "length m3 = 1440000"
    using map_page_115 [OF V] by blast
  let ?s = "set_geometry s2"
  let ?b = "\<lparr>mem_board = m2, mem_pieces = m3, squares = replicate 64 None, heap = [], redrawPieces = True\<rparr>"
  let ?f = "\<lambda>(t, c, r) b. createPiece load ?s (remember (fresh (length (heap b)))) t c r b"
  let ?g = "\<lambda>(t, c, r) b. g06_createPiece load ?s (fresh (length (g06_heap b))) t c r b"
  obtain b' where b': "foldM ?f initial_pieces ?b = Some b'"
    "placed initial_pieces (\<lambda>k. made load ?s (remember (fresh k))) b'" "mem_board b' = m2" "mem_pieces b' = m3"
    using createPieces_placed [of ?b m2 m3 load ?s "\<lambda>k. remember (fresh k)"] by auto
  have "map_option forget (foldM ?f initial_pieces ?b) = foldM ?g initial_pieces (forget ?b)"
  proof (rule foldM_simulation)
    fix x t
    have "length (g06_heap (forget t)) = length (heap t)" by (simp add: forget_def)
    then show "map_option forget (?f x t) = ?g x (forget t)"
      by (cases x) (simp add: createPiece_simulation forget_remember)
  qed
  moreover have "forget ?b = b\<lparr>g06_mem_board := m2, g06_mem_pieces := m3, g06_squares := replicate 64 None,
      g06_heap := []\<rparr>"
    by (simp add: forget_def)
  ultimately have "foldM ?g initial_pieces (b\<lparr>g06_mem_board := m2, g06_mem_pieces := m3,
      g06_squares := replicate 64 None, g06_heap := []\<rparr>) = Some (forget b')"
    using b'(1) by simp
  then have "g06_initBoard V mapped load fresh s w b = Some (?s, w2, forget b')"
    by (simp add: g06_initBoard_def 2(1) 3(1) Let_def)
  then show ?thesis
    using b' set_geometry_115 [OF 3(2)] 2(3) 3(3) mode_115_wf [OF squares_115D(1) [OF set_geometry_115 [OF 3(2)]]]
    by auto
qed

section \<open>Drawing\<close>

lemma g06_draw_square_eq:
  assumes s: "squares_115 s" and "col < 8" and "row < 8"
  shows "g06_draw_square s row col c m = draw_square s row col c m"
proof -
  let ?x = "of_nat col * rectangle_width s + left_rectangle_width s"
  let ?y = "of_nat row * rectangle_height s + vertical_margin div 2"
  have o: "on_sq (int col) (int row)" using assms by (simp add: on_sq_def)
  have "u16_of (getScreenX s (int col)) = ucast ?x" "u16_of (getScreenY s (int row)) = ucast ?y"
    by (simp_all add: getScreenX_def getScreenY_def u16_of_i32 u32_of_nat add.commute)
  then have "on_board s (ucast ?x) (ucast ?y)"
    using on_board_square [OF s, of "int col" "int row"] o assms by simp
  then show ?thesis
    by (simp add: g06_draw_square_def draw_square_def g06_draw_rectangle_on_board)
qed

lemma foldM_cong: "(\<And>x t. x \<in> set xs \<Longrightarrow> f x t = g x t) \<Longrightarrow> foldM f xs s = foldM g xs s"
  by (induction xs arbitrary: s) (auto split: option.split)

lemma g06_drawBoard_drawBoard:
  assumes s: "squares_115 s" and wf: "fb_wf s (mem_board b)"
  shows "g06_drawBoard s (forget b) =
    map_option forget (drawBoard s (b\<lparr>mem_board := replicate (length (mem_board b)) 0\<rparr>))"
proof -
  have "g06_draw_row s row mc = draw_row s row mc" if "row \<in> set [0..<8]" for row mc
    using that unfolding g06_draw_row_def draw_row_def
    by (auto simp: g06_draw_square_eq [OF s] intro!: arg_cong [where f = "map_option _"] foldM_cong)
  then have "foldM (g06_draw_row s) [0..<8] mc = foldM (draw_row s) [0..<8] mc" for mc
    by (rule foldM_cong)
  then show ?thesis
    using vg_clear_wf(1) [OF wf]
    by (cases "foldM (draw_row s) [0..<8] (replicate (length (mem_board b)) 0, color1)")
      (auto simp: g06_drawBoard_def drawBoard_def forget_def)
qed

section \<open>Properties\<close>

text \<open>C38: The later version of the board refines the earlier one: forgetting the flags for
  priority, redrawing and moved pawns, a frame of the later updateBoard is a frame of the
  earlier one, with animation and without, for every board, undefined cases included.\<close>
theorem g06_updateBoard_refined:
  "map_option forget (updateBoard animation b) = g06_updateBoard animation (forget b)"
  by (rule updateBoard_simulation)

text \<open>The earlier initBoard sets up the same game of chess as the later one: with a video card
  that provides mode 0x115 it returns, and each square holds exactly the piece of the
  starting position, at rest and drawn at the corner of its square. The earlier drawBoard
  then gives each pixel of the board the colour of its square and clears every other
  pixel, whatever the layer held before.\<close>
lemma g06_set_up:
  assumes "video_115 V mapped"
  shows "\<exists>s' w' b' m. g06_initBoard V mapped load fresh s w b = Some (s', w', b') \<and>
    squares_115 s' \<and> g06_board_ok b' \<and>
    (\<forall>c r. on_sq c r \<longrightarrow>
      (case start_type c r of
         None \<Rightarrow> g06_piece_at b' c r = None
       | Some t \<Rightarrow> \<exists>p. g06_piece_at b' c r = Some p \<and> g06_type p = t \<and> \<not> g06_is_moving p \<and>
           uint (g06_absolute_x p) = 59 * c + 65 \<and> uint (g06_absolute_y p) = 59 * r + 64)) \<and>
    g06_drawBoard s' b' = Some (b'\<lparr>g06_mem_board := m\<rparr>) \<and>
    (\<forall>px py. px < 800 \<longrightarrow> py < 600 \<longrightarrow> fb_get s' m (pix s' px py) =
       (if 65 \<le> px \<and> px < 537 \<and> 64 \<le> py \<and> py < 536
        then colour_bytes s' (square_colour ((px - 65) div 59) ((py - 64) div 59)) else [0, 0, 0]))"
proof -
  obtain s' w' b' where i: "g06_initBoard V mapped load fresh s w b = Some (s', w', forget b')"
    and s: "squares_115 s'" and p: "placed initial_pieces (\<lambda>k. made load s' (remember (fresh k))) b'"
    and wf: "fb_wf s' (mem_board b')"
    using g06_initBoard_simulation [OF assms] by blast
  note ok = placed_board_ok [OF p] and f = mode_115_facts [OF squares_115D(1) [OF s]]
  have "case start_type c r of
         None \<Rightarrow> g06_piece_at (forget b') c r = None
       | Some t \<Rightarrow> \<exists>p. g06_piece_at (forget b') c r = Some p \<and> g06_type p = t \<and> \<not> g06_is_moving p \<and>
           uint (g06_absolute_x p) = 59 * c + 65 \<and> uint (g06_absolute_y p) = 59 * r + 64"
    if o: "on_sq c r" for c r
  proof -
    have "uint (u16_of (getScreenX s' c)) = 59 * c + 65" "uint (u16_of (getScreenY s' r)) = 59 * r + 64"
      using o s by (simp_all add: square_corner on_sq_def)
    then show ?thesis
      using placed_piece_at [OF p o]
      by (auto simp: forget_piece_at [OF ok o] made_def forget_piece_def initPiece_def Let_def
          split: option.splits)
  qed
  moreover let ?z = "b'\<lparr>mem_board := replicate (length (mem_board b')) 0\<rparr>"
  obtain m where "drawBoard s' ?z = Some (?z\<lparr>redrawPieces := True, mem_board := m\<rparr>)"
    and g: "\<forall>px py. px < hres s' \<longrightarrow> py < vres s' \<longrightarrow> fb_get s' m (pix s' px py) =
       (if (65 \<le> px \<and> px < 537) \<and> (64 \<le> py \<and> py < 536)
        then colour_bytes s' (square_colour ((px - 65) div 59) ((py - 64) div 59))
        else fb_get s' (mem_board ?z) (pix s' px py))"
    using drawBoard_pixels [OF s, of ?z] vg_clear_wf(2) [OF wf] by auto
  then have "g06_drawBoard s' (forget b') = Some ((forget b')\<lparr>g06_mem_board := m\<rparr>)"
    using g06_drawBoard_drawBoard [OF s wf] by (simp add: forget_def)
  moreover have "fb_get s' (replicate (length (mem_board b')) 0) (pix s' px py) = [0, 0, 0]"
    if "px < 800" "py < 600" for px py
  proof -
    have "pix s' px py * 3 + 3 \<le> fb_size s' * 3"
      using pix_less [of px s' py] that f(1,2) pixel_fits [of "pix s' px py" "fb_size s'" 3] by simp
    then have "3 \<le> 1440000 - pix s' px py * 3" using f(1,2) by (simp add: fb_size_def)
    then have "replicate (min 3 (1440000 - pix s' px py * 3)) (0 :: u8) = replicate 3 0" by (simp add: min_absorb1)
    then show ?thesis
      using wf by (simp add: fb_get_def f(3) mode_115_wf [OF squares_115D(1) [OF s]] numeral_3_eq_3)
  qed
  ultimately show ?thesis
    using i s ok g f(1,2) by (intro exI [of _ s'] exI [of _ w'] exI [of _ "forget b'"] exI [of _ m])
      (auto simp: forget_board_ok)
qed

lemma g06_set_up_example:
  "\<exists>s' w' b' p m. g06_initBoard sample_video (\<lambda>_. replicate 1440000 0) (\<lambda>_. None)
       (\<lambda>_. forget_piece sample_piece) screen_115 () (forget blank_board) = Some (s', w', b') \<and>
     g06_piece_at b' 3 7 = Some p \<and> g06_type p = w_queen \<and>
     g06_drawBoard s' b' = Some (b'\<lparr>g06_mem_board := m\<rparr>) \<and> fb_get s' m (pix s' 0 0) = [0, 0, 0]"
proof -
  have o: "on_sq 3 7" by (simp add: on_sq_def)
  obtain s' w' b' m where i: "g06_initBoard sample_video (\<lambda>_. replicate 1440000 0) (\<lambda>_. None)
       (\<lambda>_. forget_piece sample_piece) screen_115 () (forget blank_board) = Some (s', w', b')"
    "g06_drawBoard s' b' = Some (b'\<lparr>g06_mem_board := m\<rparr>)"
    and q: "\<forall>c r. on_sq c r \<longrightarrow>
      (case start_type c r of
         None \<Rightarrow> g06_piece_at b' c r = None
       | Some t \<Rightarrow> \<exists>p. g06_piece_at b' c r = Some p \<and> g06_type p = t \<and> \<not> g06_is_moving p \<and>
           uint (g06_absolute_x p) = 59 * c + 65 \<and> uint (g06_absolute_y p) = 59 * r + 64)"
    and g: "\<forall>px py. px < 800 \<longrightarrow> py < 600 \<longrightarrow> fb_get s' m (pix s' px py) =
       (if 65 \<le> px \<and> px < 537 \<and> 64 \<le> py \<and> py < 536
        then colour_bytes s' (square_colour ((px - 65) div 59) ((py - 64) div 59)) else [0, 0, 0])"
    using g06_set_up [OF sample_video] by blast
  obtain p where "g06_piece_at b' 3 7 = Some p" "g06_type p = w_queen"
    using q [rule_format, OF o] by (auto simp: start_type_def)
  with i g [rule_format, of 0 0] show ?thesis by auto
qed

end
