(* ===== verification/G06Cursor.thy ===== *)
theory G06Cursor
  imports G06Board Cursor
begin

text \<open>
  \<open>cursor.c\<close> of the snapshot \<open>g06-main\<close>: in this version the cursor itself drags the pieces.
  Every packet moves it, a press picks up the piece under it, and a release drops the piece
  on whatever square is under it, without movement rules or turns.
\<close>

section \<open>State\<close>

record G06Cursor =
  g06_x :: u16
  g06_y :: u16
  g06_initial_row :: u8
  g06_initial_col :: u8
  cursorMovingPiece :: bool
  g06_pressed :: bool
  g06_cursor_image :: xpm_image
  pressed_piece :: "nat option"

text \<open>\<open>c\<close> is the uninitialised local of the caller; three fields are set.\<close>

definition g06_initCursor :: "xpm_loader \<Rightarrow> G06Cursor \<Rightarrow> G06Cursor" where
  "g06_initCursor load c =
     c\<lparr>g06_x := 0, g06_y := 0, g06_cursor_image := snd (create_image load arrow (g06_cursor_image c))\<rparr>"

definition g06_drawCursor :: "Screen \<Rightarrow> mem \<Rightarrow> G06Cursor option \<Rightarrow> mem option" where
  "g06_drawCursor s m cursor =
     (case cursor of
        None \<Rightarrow> Some m
      | Some c \<Rightarrow> g06_draw_image s m (g06_cursor_image c) (g06_x c) (g06_y c))"

section \<open>A packet\<close>

text \<open>
  A free cursor moves as in the later version. While a piece is dragged the margins are
  those of a piece, and the piece follows, centred on the cursor.
\<close>

definition drag_x :: "Screen \<Rightarrow> u16 \<Rightarrow> int \<Rightarrow> u16" where
  "drag_x s cx dx =
     (if uint cx < - dx then 0
      else if uint cx + dx + 58 \<ge> i32_of (get_h_res s) then ucast (get_h_res s - 59)
      else u16_of (uint cx + dx))"

definition drag_y :: "Screen \<Rightarrow> u16 \<Rightarrow> int \<Rightarrow> u16" where
  "drag_y s cy dy =
     (if uint cy < dy then 0
      else if uint cy - dy + 58 \<ge> i32_of (get_v_res s) then ucast (get_v_res s - 59)
      else u16_of (uint cy - dy))"

definition g06_move :: "Screen \<Rightarrow> int \<Rightarrow> int \<Rightarrow> G06Board \<Rightarrow> G06Cursor \<Rightarrow> (G06Board \<times> G06Cursor) option" where
  "g06_move s dx dy b c =
     (if \<not> cursorMovingPiece c
      then Some (b, c\<lparr>g06_x := move_x s (g06_x c) dx, g06_y := move_y s (g06_y c) dy\<rparr>)
      else do {
        let c1 = c\<lparr>g06_x := drag_x s (g06_x c) dx, g06_y := drag_y s (g06_y c) dy\<rparr>;
        ref \<leftarrow> pressed_piece c1;
        p \<leftarrow> g06_piece_of b ref;
        b1 \<leftarrow> g06_set_piece b ref (g06_setPiecePosition p (uint (g06_x c1) - 29) (uint (g06_y c1) - 29));
        Some (b1, c1)
      })"

text \<open>The button goes down: a piece under the cursor is picked up.\<close>

definition g06_press :: "Screen \<Rightarrow> G06Board \<Rightarrow> G06Cursor \<Rightarrow> G06Cursor option" where
  "g06_press s b c =
     (let c1 = c\<lparr>g06_pressed := True\<rparr>;
          col = getBoardX s (uint (g06_x c)); row = getBoardY s (uint (g06_y c))
      in if row \<ge> 0 \<and> row < 8 \<and> col \<ge> 0 \<and> col < 8 then
           do {
             sq \<leftarrow> g06_square_at b (row * 8 + col);
             case sq of
               None \<Rightarrow> Some c1
             | Some ref \<Rightarrow>
                 Some (c1\<lparr>cursorMovingPiece := True, pressed_piece := Some ref,
                          g06_initial_col := word_of_int col, g06_initial_row := word_of_int row\<rparr>)
           }
         else Some c1)"

text \<open>
  The button goes up. The square under the cursor is read without a check that there is
  one; \<open>put_down\<close> returns the piece to where it was drawn, \<open>drop_at\<close> also moves it.
\<close>

definition put_down :: "Screen \<Rightarrow> G06Cursor \<Rightarrow> nat \<Rightarrow> G06Board \<Rightarrow> G06Board option" where
  "put_down s c ref b =
     do {
       p \<leftarrow> g06_piece_of b ref;
       g06_set_piece b ref (g06_setPiecePosition p (getScreenX s (uint (g06_initial_col c)))
         (getScreenY s (uint (g06_initial_row c))))
     }"

definition drop_at :: "Screen \<Rightarrow> G06Cursor \<Rightarrow> nat \<Rightarrow> int \<Rightarrow> int \<Rightarrow> G06Board \<Rightarrow> G06Board option" where
  "drop_at s c ref col row b =
     do {
       b1 \<leftarrow> put_down s c ref b;
       p \<leftarrow> g06_piece_of b1 ref;
       b2 \<leftarrow> g06_set_piece b1 ref (g06_movePiece p (getScreenX s col) (getScreenY s row));
       b3 \<leftarrow> g06_set_square b2 (uint (g06_initial_row c) * 8 + uint (g06_initial_col c)) None;
       g06_set_square b3 (row * 8 + col) (Some ref)
     }"

definition g06_release :: "Screen \<Rightarrow> G06Board \<Rightarrow> G06Cursor \<Rightarrow> (G06Board \<times> G06Cursor) option" where
  "g06_release s b c =
     (let c1 = c\<lparr>g06_pressed := False\<rparr>;
          col = getBoardX s (uint (g06_x c)); row = getBoardY s (uint (g06_y c))
      in if cursorMovingPiece c then
           do {
             sq \<leftarrow> g06_square_at b (row * 8 + col);
             ref \<leftarrow> pressed_piece c;
             b1 \<leftarrow> (case sq of
                      Some other \<Rightarrow> do {
                        p \<leftarrow> g06_piece_of b ref;
                        q \<leftarrow> g06_piece_of b other;
                        let sameTeam = (type_num (g06_type p) > 5 \<and> type_num (g06_type q) > 5 \<or>
                                        type_num (g06_type p) \<le> 5 \<and> type_num (g06_type q) \<le> 5);
                        if \<not> sameTeam then drop_at s c ref col row b else put_down s c ref b
                      }
                    | None \<Rightarrow> drop_at s c ref col row b);
             Some (b1, c1\<lparr>cursorMovingPiece := False, pressed_piece := None\<rparr>)
           }
         else Some (b, c1))"

definition g06_updateCursor :: "Screen \<Rightarrow> packet \<Rightarrow> G06Board \<Rightarrow> G06Cursor \<Rightarrow> (G06Board \<times> G06Cursor) option" where
  "g06_updateCursor s pkt b c =
     do {
       (b1, c1) \<leftarrow> g06_move s (sint (delta_x pkt)) (sint (delta_y pkt)) b c;
       if lb pkt \<and> \<not> g06_pressed c1 then map_option (\<lambda>c2. (b1, c2)) (g06_press s b1 c1)
       else if \<not> lb pkt \<and> g06_pressed c1 then g06_release s b1 c1
       else Some (b1, c1)
     }"

text \<open>
  A click on one of the two buttons of the start screen chooses the player; the first
  component is the global \<open>player_number\<close>.
\<close>

definition g06_cursorClickPlayer :: "G06Cursor \<Rightarrow> int \<Rightarrow> int \<times> bool" where
  "g06_cursorClickPlayer c player_number =
     (let x = uint (g06_x c); y = uint (g06_y c)
      in if (x > 307 \<and> x < 466 \<and> y > 62 \<and> y < 104) \<and> g06_pressed c then (2, True)
         else if (x > 307 \<and> x < 466 \<and> y > 517 \<and> y < 558) \<and> g06_pressed c then (1, True)
         else (player_number, False))"

section \<open>Invariant\<close>

text \<open>
  No piece stands on two squares, and a dragged piece still stands on the square it was
  picked up from.
\<close>

definition one_each :: "'a option list \<Rightarrow> bool" where
  "one_each sqs \<longleftrightarrow> (\<forall>i j. i < length sqs \<longrightarrow> j < length sqs \<longrightarrow> sqs ! i \<noteq> None \<longrightarrow> sqs ! i = sqs ! j \<longrightarrow> i = j)"

definition home :: "G06Cursor \<Rightarrow> int" where
  "home c = uint (g06_initial_row c) * 8 + uint (g06_initial_col c)"

definition g06_invar :: "G06Board \<Rightarrow> G06Cursor \<Rightarrow> bool" where
  "g06_invar b c \<longleftrightarrow> g06_board_ok b \<and> one_each (g06_squares b) \<and>
     (cursorMovingPiece c \<longrightarrow> home c < 64 \<and> pressed_piece c \<noteq> None \<and>
        g06_squares b ! nat (home c) = pressed_piece c)"

lemma home_nonneg: "0 \<le> home c"
  by (simp add: home_def)

lemma g06_invar_ref:
  assumes "g06_invar b c" and "cursorMovingPiece c"
  obtains ref where "pressed_piece c = Some ref" "ref < length (g06_heap b)" "home c < 64"
    "g06_squares b ! nat (home c) = Some ref" "length (g06_squares b) = 64"
proof -
  from assms obtain ref where r: "pressed_piece c = Some ref" "home c < 64"
    "g06_squares b ! nat (home c) = Some ref" and l: "length (g06_squares b) = 64"
    by (auto simp: g06_invar_def g06_board_ok_def)
  then have "nat (home c) < length (g06_squares b)" using home_nonneg [of c] by simp
  then have "Some ref \<in> set (g06_squares b)" using r(3) by (metis nth_mem)
  then show thesis using assms(1) r l that by (auto simp: g06_invar_def g06_board_ok_def)
qed

lemma one_each_move:
  assumes "one_each sqs" and "h < length sqs" and "i < length sqs" and "h \<noteq> i"
  shows "one_each (sqs[h := None, i := sqs ! h])"
proof -
  let ?t = "sqs[h := None, i := sqs ! h]" and ?src = "\<lambda>k. if k = i then h else k"
  have src: "k \<noteq> h \<and> ?t ! k = sqs ! ?src k" if "k < length sqs" "?t ! k \<noteq> None" for k
    using that assms(2-) by (auto simp: nth_list_update split: if_splits)
  have "a = b" if a: "a < length sqs" "?t ! a \<noteq> None" and b: "b < length sqs" and e: "?t ! a = ?t ! b" for a b
  proof -
    have "?t ! b \<noteq> None" using a e by simp
    note sa = src [OF a] and sb = src [OF b this]
    have "sqs ! ?src a = sqs ! ?src b" "sqs ! ?src a \<noteq> None" using sa sb e a(2) by simp_all
    moreover have "?src a < length sqs" "?src b < length sqs" using assms(2) a b by simp_all
    ultimately have "?src a = ?src b" using assms(1) unfolding one_each_def by blast
    then show "a = b" using sa sb by (simp split: if_splits)
  qed
  then show ?thesis unfolding one_each_def by (metis length_list_update)
qed

text \<open>Putting back and dropping, for a reference that leads to a piece.\<close>

definition lowered_piece :: "Screen \<Rightarrow> G06Cursor \<Rightarrow> G06Piece \<Rightarrow> G06Piece" where
  "lowered_piece s c p =
     g06_setPiecePosition p (getScreenX s (uint (g06_initial_col c))) (getScreenY s (uint (g06_initial_row c)))"

lemma put_down_Some:
  "ref < length (g06_heap b) \<Longrightarrow>
   put_down s c ref b = Some (b\<lparr>g06_heap := (g06_heap b)[ref := lowered_piece s c (g06_heap b ! ref)]\<rparr>)"
  by (simp add: put_down_def g06_piece_of_def g06_set_piece_def lowered_piece_def)

lemma drop_at_Some:
  assumes "ref < length (g06_heap b)" and "length (g06_squares b) = 64" and "home c < 64"
    and "0 \<le> row * 8 + col" and "row * 8 + col < 64"
  shows "drop_at s c ref col row b =
    Some (b\<lparr>g06_heap := (g06_heap b)[ref := g06_movePiece (lowered_piece s c (g06_heap b ! ref))
               (getScreenX s col) (getScreenY s row)],
            g06_squares := (g06_squares b)[nat (home c) := None, nat (row * 8 + col) := Some ref]\<rparr>)"
  using assms home_nonneg [of c]
  by (simp add: drop_at_def put_down_Some g06_piece_of_def g06_set_piece_def g06_set_square_def home_def)

text \<open>The index of the square under the cursor, as the code computes it.\<close>

definition sq_under :: "Screen \<Rightarrow> G06Cursor \<Rightarrow> int" where
  "sq_under s c = getBoardY s (uint (g06_y c)) * 8 + getBoardX s (uint (g06_x c))"

lemma sq_under_nonneg: "squares_115 s \<Longrightarrow> 0 \<le> sq_under s c"
  using getBoardX_range(1) [of s "uint (g06_x c)"] getBoardY_range(1) [of s "uint (g06_y c)"]
    uint_u16 [of "g06_x c"] uint_u16 [of "g06_y c"] by (simp add: sq_under_def)

definition g06_same_team :: "G06Board \<Rightarrow> nat \<Rightarrow> nat option \<Rightarrow> bool" where
  "g06_same_team b ref sq \<longleftrightarrow>
     (\<exists>other. sq = Some other \<and> is_white (g06_type (g06_heap b ! ref)) = is_white (g06_type (g06_heap b ! other)))"

definition let_go :: "G06Cursor \<Rightarrow> G06Cursor" where
  "let_go c = c\<lparr>g06_pressed := False, cursorMovingPiece := False, pressed_piece := None\<rparr>"

lemma release_dragged:
  assumes s: "squares_115 s" and inv: "g06_invar b c" and d: "cursorMovingPiece c"
    and ref: "pressed_piece c = Some ref"
  shows "g06_release s b c =
    (if 64 \<le> sq_under s c then None
     else if g06_same_team b ref (g06_squares b ! nat (sq_under s c))
     then Some (b\<lparr>g06_heap := (g06_heap b)[ref := lowered_piece s c (g06_heap b ! ref)]\<rparr>, let_go c)
     else Some (b\<lparr>g06_heap := (g06_heap b)[ref := g06_movePiece (lowered_piece s c (g06_heap b ! ref))
                     (getScreenX s (getBoardX s (uint (g06_x c)))) (getScreenY s (getBoardY s (uint (g06_y c))))],
                  g06_squares := (g06_squares b)[nat (home c) := None, nat (sq_under s c) := Some ref]\<rparr>, let_go c))"
proof -
  have f: "ref < length (g06_heap b)" "home c < 64" "length (g06_squares b) = 64"
    using g06_invar_ref [OF inv d] ref by auto
  note n = sq_under_nonneg [OF s, of c]
  show ?thesis
  proof (cases "64 \<le> sq_under s c")
    case True
    then show ?thesis using d f by (simp add: g06_release_def Let_def g06_square_at_def flip: sq_under_def)
  next
    case False
    then have i: "nat (sq_under s c) < 64" using n by simp
    have sq: "g06_square_at b (sq_under s c) = Some (g06_squares b ! nat (sq_under s c))"
      using False n f by (simp add: g06_square_at_def)
    have o: "other < length (g06_heap b)" if "g06_squares b ! nat (sq_under s c) = Some other" for other
    proof -
      have "Some other \<in> set (g06_squares b)" using that i f by (metis nth_mem)
      then show ?thesis using inv by (simp add: g06_invar_def g06_board_ok_def)
    qed
    note drop = drop_at_Some [OF f(1,3,2), of "getBoardY s (uint (g06_y c))" "getBoardX s (uint (g06_x c))",
        folded sq_under_def]
    show ?thesis
    proof (cases "g06_squares b ! nat (sq_under s c)")
      case None
      then show ?thesis using False n d ref sq drop
        by (simp add: g06_release_def Let_def g06_same_team_def let_go_def flip: sq_under_def)
    next
      case (Some other)
      then show ?thesis using False n d ref sq drop o [OF Some] f(1)
        by (auto simp: g06_release_def Let_def g06_same_team_def let_go_def g06_piece_of_def put_down_Some
            is_white_num simp flip: sq_under_def)
    qed
  qed
qed

section \<open>Every packet keeps the invariant\<close>

text \<open>Nothing but the look of the pieces changes.\<close>

definition only_looks :: "G06Board \<Rightarrow> G06Board \<Rightarrow> bool" where
  "only_looks b b' \<longleftrightarrow> g06_squares b' = g06_squares b \<and> map g06_type (g06_heap b') = map g06_type (g06_heap b)"

lemma only_looks_length: "only_looks b b' \<Longrightarrow> length (g06_heap b') = length (g06_heap b)"
  unfolding only_looks_def by (metis length_map)

lemma only_looks_invar: "only_looks b b' \<Longrightarrow> g06_invar b' c \<longleftrightarrow> g06_invar b c"
  using only_looks_length [of b b'] by (auto simp: g06_invar_def g06_board_ok_def only_looks_def)

lemma list_update_type:
  "g06_type p = g06_type (h ! ref) \<Longrightarrow> map g06_type (h[ref := p]) = map g06_type h"
  by (metis list_update_id map_update)

lemma piece_types [simp]:
  "g06_type (g06_setPiecePosition p x y) = g06_type p" "g06_type (g06_movePiece p x y) = g06_type p"
  "g06_type (lowered_piece s c p) = g06_type p"
  by (simp_all add: g06_setPiecePosition_def g06_movePiece_def lowered_piece_def)

definition dragged :: "Screen \<Rightarrow> packet \<Rightarrow> G06Cursor \<Rightarrow> G06Cursor" where
  "dragged s pkt c = c\<lparr>g06_x := drag_x s (g06_x c) (sint (delta_x pkt)), g06_y := drag_y s (g06_y c) (sint (delta_y pkt))\<rparr>"

lemma g06_move_keeps:
  assumes "g06_invar b c"
  shows "\<exists>b1 c1. g06_move s (sint (delta_x pkt)) (sint (delta_y pkt)) b c = Some (b1, c1) \<and> only_looks b b1 \<and>
    g06_invar b1 c1 \<and> (\<exists>ux uy. c1 = c\<lparr>g06_x := ux, g06_y := uy\<rparr>) \<and> (cursorMovingPiece c \<longrightarrow> c1 = dragged s pkt c)"
proof (cases "cursorMovingPiece c")
  case False
  then show ?thesis using assms
    by (auto simp: g06_move_def only_looks_def g06_invar_def)
next
  case True
  obtain ref where r: "pressed_piece c = Some ref" "ref < length (g06_heap b)"
    using g06_invar_ref [OF assms True] by blast
  let ?c = "dragged s pkt c"
  let ?p = "g06_setPiecePosition (g06_heap b ! ref) (uint (g06_x ?c) - 29) (uint (g06_y ?c) - 29)"
  let ?b = "b\<lparr>g06_heap := (g06_heap b)[ref := ?p]\<rparr>"
  have "g06_move s (sint (delta_x pkt)) (sint (delta_y pkt)) b c = Some (?b, ?c)"
    using True r by (simp add: g06_move_def g06_piece_of_def g06_set_piece_def dragged_def Let_def)
  moreover have l: "only_looks b ?b" by (simp add: only_looks_def list_update_type)
  moreover have "g06_invar ?b ?c"
    using only_looks_invar [OF l, of ?c] assms by (simp add: g06_invar_def dragged_def home_def)
  moreover have "\<exists>ux uy. ?c = c\<lparr>g06_x := ux, g06_y := uy\<rparr>" unfolding dragged_def by blast
  ultimately show ?thesis by blast
qed

lemma g06_press_keeps:
  assumes s: "squares_115 s" and inv: "g06_invar b c"
  shows "\<exists>c'. g06_press s b c = Some c' \<and> g06_invar b c'"
proof -
  let ?col = "getBoardX s (uint (g06_x c))" and ?row = "getBoardY s (uint (g06_y c))"
  have l: "length (g06_squares b) = 64" using inv by (simp add: g06_invar_def g06_board_ok_def)
  have inv': "g06_invar b (c\<lparr>g06_pressed := True\<rparr>)" using inv by (simp add: g06_invar_def home_def)
  show ?thesis
  proof (cases "?row \<ge> 0 \<and> ?row < 8 \<and> ?col \<ge> 0 \<and> ?col < 8")
    case False
    then show ?thesis using inv' by (auto simp: g06_press_def Let_def)
  next
    case True
    then have i: "0 \<le> ?row * 8 + ?col" "?row * 8 + ?col < 64" by linarith+
    have w: "uint (word_of_int ?col :: u8) = ?col" "uint (word_of_int ?row :: u8) = ?row"
      using True by (simp_all add: uint_word_of_int)
    show ?thesis
    proof (cases "g06_squares b ! nat (?row * 8 + ?col)")
      case None
      then show ?thesis using True i l inv' by (simp add: g06_press_def Let_def g06_square_at_def)
    next
      case (Some ref)
      then show ?thesis using True i l inv
        by (simp add: g06_press_def Let_def g06_square_at_def g06_invar_def home_def w)
    qed
  qed
qed

lemma g06_release_keeps:
  assumes s: "squares_115 s" and inv: "g06_invar b c"
    and r: "g06_release s b c = Some (b', c')"
  shows "g06_invar b' c' \<and> map g06_type (g06_heap b') = map g06_type (g06_heap b) \<and>
    set (g06_squares b') - {None} \<subseteq> set (g06_squares b)"
proof (cases "cursorMovingPiece c")
  case False
  then show ?thesis using r inv by (auto simp: g06_release_def Let_def g06_invar_def)
next
  case True
  obtain ref where p: "pressed_piece c = Some ref" "ref < length (g06_heap b)" "home c < 64"
    "g06_squares b ! nat (home c) = Some ref" "length (g06_squares b) = 64"
    using g06_invar_ref [OF inv True] .
  note rel = release_dragged [OF s inv True p(1)] and n = sq_under_nonneg [OF s, of c]
  have u: "\<not> 64 \<le> sq_under s c" using r rel by (auto split: if_splits)
  show ?thesis
  proof (cases "g06_same_team b ref (g06_squares b ! nat (sq_under s c))")
    case True
    let ?b = "b\<lparr>g06_heap := (g06_heap b)[ref := lowered_piece s c (g06_heap b ! ref)]\<rparr>"
    have e: "b' = ?b" "c' = let_go c" using r rel u True by simp_all
    have l: "only_looks b ?b" by (simp add: only_looks_def list_update_type)
    show ?thesis
      using only_looks_invar [OF l, of "let_go c"] inv l
      unfolding e by (auto simp: g06_invar_def let_go_def only_looks_def)
  next
    case False
    let ?h = "nat (home c)" and ?i = "nat (sq_under s c)"
    let ?p = "g06_movePiece (lowered_piece s c (g06_heap b ! ref))
      (getScreenX s (getBoardX s (uint (g06_x c)))) (getScreenY s (getBoardY s (uint (g06_y c))))"
    have e: "b' = b\<lparr>g06_heap := (g06_heap b)[ref := ?p],
        g06_squares := (g06_squares b)[?h := None, ?i := Some ref]\<rparr>" "c' = let_go c"
      using r rel u False by simp_all
    have "?h \<noteq> ?i" using False p(4) by (auto simp: g06_same_team_def)
    moreover have "?h < 64" "?i < 64" using home_nonneg [of c] n u p(3) by auto
    ultimately have one: "one_each (g06_squares b')"
      using one_each_move [of "g06_squares b" ?h ?i] inv p by (simp add: e g06_invar_def)
    have sub: "set (g06_squares b') - {None} \<subseteq> set (g06_squares b)"
    proof -
      have "Some ref \<in> set (g06_squares b)" using p(4,5) \<open>?h < 64\<close> by (metis nth_mem)
      moreover have "set (g06_squares b') \<subseteq> insert (Some ref) (insert None (set (g06_squares b)))"
        unfolding e
        using order_trans [OF set_update_subset_insert insert_mono [OF set_update_subset_insert]] by simp
      ultimately show ?thesis by blast
    qed
    then have "g06_board_ok b'"
      using inv p(5) unfolding g06_invar_def g06_board_ok_def e by auto
    with one sub show ?thesis by (simp add: g06_invar_def e let_go_def list_update_type)
  qed
qed

lemma g06_updateCursor_keeps:
  assumes s: "squares_115 s" and inv: "g06_invar b c" and r: "g06_updateCursor s pkt b c = Some (b', c')"
  shows "g06_invar b' c' \<and> map g06_type (g06_heap b') = map g06_type (g06_heap b) \<and>
    set (g06_squares b') - {None} \<subseteq> set (g06_squares b)"
proof -
  obtain b1 c1 where m: "g06_move s (sint (delta_x pkt)) (sint (delta_y pkt)) b c = Some (b1, c1)"
    "only_looks b b1" "g06_invar b1 c1"
    using g06_move_keeps [OF inv] by blast
  then show ?thesis
    using r g06_press_keeps [OF s m(3)] g06_release_keeps [OF s m(3)]
    by (auto simp: g06_updateCursor_def only_looks_def split: if_splits)
qed

lemma g06_updateCursor_None:
  assumes s: "squares_115 s" and inv: "g06_invar b c"
  shows "g06_updateCursor s pkt b c = None \<longleftrightarrow>
    cursorMovingPiece c \<and> g06_pressed c \<and> \<not> lb pkt \<and> 64 \<le> sq_under s (dragged s pkt c)"
proof -
  obtain b1 c1 where m: "g06_move s (sint (delta_x pkt)) (sint (delta_y pkt)) b c = Some (b1, c1)"
    "g06_invar b1 c1" "\<exists>ux uy. c1 = c\<lparr>g06_x := ux, g06_y := uy\<rparr>" "cursorMovingPiece c \<longrightarrow> c1 = dragged s pkt c"
    using g06_move_keeps [OF inv] by blast
  have c: "cursorMovingPiece c1 = cursorMovingPiece c" "g06_pressed c1 = g06_pressed c" using m(3) by auto
  have rel: "g06_release s b1 c1 = None \<longleftrightarrow> cursorMovingPiece c \<and> 64 \<le> sq_under s (dragged s pkt c)"
  proof (cases "cursorMovingPiece c")
    case False
    then show ?thesis using c by (simp add: g06_release_def)
  next
    case True
    then obtain ref where "pressed_piece c1 = Some ref" using g06_invar_ref [OF m(2)] c by metis
    from release_dragged [OF s m(2) _ this] True c m(4) show ?thesis by simp
  qed
  show ?thesis
    using g06_press_keeps [OF s m(2)] rel c by (auto simp: g06_updateCursor_def m(1))
qed

section \<open>Properties\<close>

text \<open>C35: No sequence of mouse packets duplicates, creates or changes a piece. From a board on which
  no piece stands on two squares, a packet is handled without undefined behaviour unless it
  releases a dragged piece where the computed square index leaves the array, and every run
  of packets leaves no piece on two squares, all types as they were and only pieces on the
  board that were there before; a dragged piece still stands on the square it was picked
  up from.\<close>
theorem g06_packets_keep_pieces:
  assumes "squares_115 s" and "g06_invar b c"
  shows "(g06_updateCursor s pkt b c = None \<longleftrightarrow>
      cursorMovingPiece c \<and> g06_pressed c \<and> \<not> lb pkt \<and> 64 \<le> sq_under s (dragged s pkt c)) \<and>
    (\<forall>pkts b' c'. foldM (\<lambda>pkt (b, c). g06_updateCursor s pkt b c) pkts (b, c) = Some (b', c') \<longrightarrow>
      g06_invar b' c' \<and> map g06_type (g06_heap b') = map g06_type (g06_heap b) \<and>
      set (g06_squares b') - {None} \<subseteq> set (g06_squares b))"
proof (intro conjI allI impI g06_updateCursor_None [OF assms])
  fix pkts b' c'
  assume "foldM (\<lambda>pkt (b, c). g06_updateCursor s pkt b c) pkts (b, c) = Some (b', c')"
  then have "g06_invar b' c' \<and> map g06_type (g06_heap b') = map g06_type (g06_heap b) \<and>
      set (g06_squares b') - {None} \<subseteq> set (g06_squares b)"
    using assms(2)
  proof (induction pkts arbitrary: b c)
    case (Cons pkt pkts)
    then obtain b1 c1 where 1: "g06_updateCursor s pkt b c = Some (b1, c1)"
      "foldM (\<lambda>pkt (b, c). g06_updateCursor s pkt b c) pkts (b1, c1) = Some (b', c')"
      by (auto split: option.splits)
    from g06_updateCursor_keeps [OF assms(1) Cons.prems(2) 1(1)] Cons.IH [OF 1(2)] show ?case
      by (simp, blast)
  qed auto
  then show "g06_invar b' c'" "map g06_type (g06_heap b') = map g06_type (g06_heap b)"
    "set (g06_squares b') - {None} \<subseteq> set (g06_squares b)" by blast+
qed

definition g06_rook_board :: G06Board where
  "g06_rook_board = \<lparr>g06_mem_board = [], g06_mem_pieces = [],
     g06_squares = (replicate 64 None)[18 := Some 0],
     g06_heap = [(forget_piece sample_piece)\<lparr>g06_type := w_rook\<rparr>]\<rparr>"

definition g06_free_cursor :: G06Cursor where
  "g06_free_cursor = \<lparr>g06_x = 200, g06_y = 200, g06_initial_row = 0, g06_initial_col = 0,
     cursorMovingPiece = False, g06_pressed = False,
     g06_cursor_image = \<lparr>img_width = 0, img_height = 0, img_bytes = []\<rparr>, pressed_piece = None\<rparr>"

definition g06_dragging_cursor :: G06Cursor where
  "g06_dragging_cursor = g06_free_cursor\<lparr>g06_x := 540, g06_y := 200, cursorMovingPiece := True,
     g06_pressed := True, pressed_piece := Some 0, g06_initial_row := 2, g06_initial_col := 2\<rparr>"

lemma g06_rook_board_squares:
  "length (g06_squares g06_rook_board) = 64" "g06_heap g06_rook_board \<noteq> []"
  "i < 64 \<Longrightarrow> g06_squares g06_rook_board ! i = (if i = 18 then Some 0 else None)"
  by (simp_all add: g06_rook_board_def nth_list_update)

lemma g06_rook_board_ok: "g06_board_ok g06_rook_board" "one_each (g06_squares g06_rook_board)"
proof -
  have "Some ref \<in> set (g06_squares g06_rook_board) \<Longrightarrow> ref = 0" for ref
    using g06_rook_board_squares by (metis in_set_conv_nth option.distinct(1) option.inject)
  then show "g06_board_ok g06_rook_board"
    using g06_rook_board_squares(1,2) by (auto simp: g06_board_ok_def)
  show "one_each (g06_squares g06_rook_board)"
    by (auto simp: one_each_def g06_rook_board_squares split: if_splits)
qed

lemma g06_sample_invar:
  "g06_invar g06_rook_board g06_free_cursor" "g06_invar g06_rook_board g06_dragging_cursor"
  using g06_rook_board_ok g06_rook_board_squares(3) [of 18]
  by (simp_all add: g06_invar_def g06_free_cursor_def g06_dragging_cursor_def home_def)

theorem g06_packets_keep_pieces_witness:
  "\<exists>b' c'. g06_updateCursor screen_115 sample_packet g06_rook_board g06_free_cursor = Some (b', c') \<and>
     g06_invar b' c' \<and> set (g06_squares b') - {None} \<subseteq> set (g06_squares g06_rook_board)"
proof -
  note t = g06_packets_keep_pieces [OF screen_115 g06_sample_invar(1), of sample_packet]
  then have "g06_updateCursor screen_115 sample_packet g06_rook_board g06_free_cursor \<noteq> None"
    by (simp add: g06_free_cursor_def)
  then obtain b' c' where u: "g06_updateCursor screen_115 sample_packet g06_rook_board g06_free_cursor = Some (b', c')"
    by (cases "g06_updateCursor screen_115 sample_packet g06_rook_board g06_free_cursor") auto
  with t [THEN conjunct2, rule_format, of "[sample_packet]" b' c'] show ?thesis by simp
qed

text \<open>C39: Dropping a piece. The square is taken from the computed index row * 8 + column alone. If the
  index leaves the array the behaviour is undefined. Otherwise a piece dropped on one of its
  own colour, or on its own square, goes back to where it was picked up, and any other drop
  clears that square, puts the piece on the square of the index, capturing what was there,
  and sends the piece on its way. To the right of the board the index belongs to the next
  row: the piece is then stored on a square other than the one it is drawn at.\<close>
theorem g06_release_drops:
  assumes "squares_115 s" and "g06_invar b c" and "cursorMovingPiece c" and "pressed_piece c = Some ref"
  shows "if 64 \<le> sq_under s c then g06_release s b c = None
    else \<exists>b'. g06_release s b c = Some (b', let_go c) \<and>
      (if g06_same_team b ref (g06_squares b ! nat (sq_under s c))
       then g06_squares b' = g06_squares b \<and> g06_heap b' ! ref = lowered_piece s c (g06_heap b ! ref)
       else g06_squares b' = (g06_squares b)[nat (home c) := None, nat (sq_under s c) := Some ref] \<and>
         g06_is_moving (g06_heap b' ! ref) \<and>
         g06_target_x (g06_heap b' ! ref) = u16_of (getScreenX s (getBoardX s (uint (g06_x c)))) \<and>
         g06_target_y (g06_heap b' ! ref) = u16_of (getScreenY s (getBoardY s (uint (g06_y c)))))"
proof -
  have "ref < length (g06_heap b)" using g06_invar_ref [OF assms(2,3)] assms(4) by auto
  then show ?thesis
    using release_dragged [OF assms] by (simp add: g06_movePiece_def)
qed

theorem g06_release_drops_witness:
  "\<exists>b' c'. g06_release screen_115 g06_rook_board g06_dragging_cursor = Some (b', c') \<and>
     g06_squares b' = (replicate 64 None)[24 := Some 0] \<and>
     uint (g06_target_x (g06_heap b' ! 0)) = 537 \<and> uint (g06_target_y (g06_heap b' ! 0)) = 182"
proof -
  let ?c = g06_dragging_cursor
  have i: "getBoardX screen_115 (uint (g06_x ?c)) = 8" "getBoardY screen_115 (uint (g06_y ?c)) = 2"
    by (simp_all add: g06_dragging_cursor_def getBoardX_115 [OF screen_115] getBoardY_115 [OF screen_115])
  then have u: "sq_under screen_115 ?c = 24" by (simp add: sq_under_def)
  have d: "cursorMovingPiece ?c" "pressed_piece ?c = Some 0" "home ?c = 18"
    by (simp_all add: g06_dragging_cursor_def home_def)
  have "\<not> g06_same_team g06_rook_board 0 (g06_squares g06_rook_board ! 24)"
    by (simp add: g06_same_team_def g06_rook_board_squares)
  moreover have e: "(replicate 64 None)[18 := None] = replicate 64 (None :: nat option)"
    by (simp add: list_update_same_conv)
  ultimately show ?thesis
    using g06_release_drops [OF screen_115 g06_sample_invar(2) d(1,2)]
      square_corner [OF screen_115, of 8] square_corner [OF screen_115, of 2]
    by (auto simp: u i d g06_rook_board_def e)
qed

end
