(* ===== verification/G06Main.thy ===== *)
theory G06Main
  imports G06Cursor Receive
begin

text \<open>
  \<open>main.c\<close> of the snapshot \<open>g06-main\<close>: the program for one machine. A click chooses a player,
  keys type a name that ENTER ends, and then the board is shown and pieces can be dragged,
  until 3600 timer interrupts have passed.
\<close>

section \<open>State and parameters\<close>

text \<open>The globals of the files and the locals of \<open>proj_main_loop\<close>.\<close>

record G06Game =
  o_screen :: Screen
  o_timer :: TimerState
  o_kb :: G06Keyboard
  o_mouse :: MouseState
  o_cursor :: G06Cursor
  o_board :: G06Board
  o_name :: "u8 list"
  o_player_number :: int
  o_animation :: bool
  o_click :: bool
  o_player_choice :: bool
  o_count :: int
  o_l :: int
  o_video_mem :: mem
  o_buffer :: mem
  o_name_choice :: xpm_image
  o_player_choice_image :: xpm_image
  o_toggle_animation :: xpm_image
  o_irq_timer :: u8
  o_irq_kb :: u8
  o_irq_mouse :: u32

text \<open>What the code calls, and what uninitialised memory holds.\<close>

record 'w g06_env =
  o_kernel :: "'w kernel"
  o_video :: "'w video_kernel"
  o_load :: xpm_loader
  o_mapped :: "u32 \<Rightarrow> mem"
  o_fresh :: "nat \<Rightarrow> G06Piece"
  o_receive :: "'w \<Rightarrow> message \<times> 'w"
  o_mouse_enable :: "'w \<Rightarrow> 'w"
  o_sleep :: "nat \<Rightarrow> 'w \<Rightarrow> 'w"
  o_status :: u8
  o_byte :: u8
  o_image :: xpm_image

definition G06_BACKSPACE :: u8 where "G06_BACKSPACE = 0x8e"
definition G06_ENTER :: u8 where "G06_ENTER = 0x9c"
definition G06_TOGGLE :: u8 where "G06_TOGGLE = 0xac"

section \<open>Starting\<close>

definition g06_main_init :: "'w g06_env \<Rightarrow> G06Game \<Rightarrow> 'w \<Rightarrow> (G06Game \<times> 'w) option" where
  "g06_main_init E g w =
     do {
       let K = o_kernel E;
       ((r, vmp, vbp), s1, w1) \<leftarrow> init_graphics_mode (o_video E) 0x115 (o_screen g) w;
       let name_choice = snd (create_image (o_load E) name_choice_xpm (o_image E));
       let menu = snd (create_image (o_load E) menu_xpm (o_image E));
       vm \<leftarrow> vmp;
       vb \<leftarrow> vbp;
       v \<leftarrow> g06_draw_image s1 (o_mapped E vm) menu 95 50;
       let w2 = o_sleep E 2 w1;
       let player_choice = snd (create_image (o_load E) player_choice_xpm (o_image E));
       let toggle = snd (create_image (o_load E) toggle_animation_xpm (o_image E));
       let ((r, bit_timer), timer1, w3) = timer_subscribe_int K ((o_timer g)\<lparr>n_interrupts := 0\<rparr>) w2;
       let ((r, bit_kb), kb1, w4) = g06_keyboard_subscribe_int K (o_kb g) w3;
       let cursor1 = g06_initCursor (o_load E) (o_cursor g);
       let w5 = o_mouse_enable E w4;
       let ((r, bit_mouse), mouse1, w6) = mouse_subscribe_int K (o_mouse g) w5;
       Some (g\<lparr>o_screen := s1, o_timer := timer1, o_kb := kb1, o_mouse := mouse1, o_cursor := cursor1,
               o_click := False, o_player_choice := False, o_count := 0, o_l := 0,
               o_video_mem := v, o_buffer := o_mapped E vb, o_name_choice := name_choice,
               o_player_choice_image := player_choice, o_toggle_animation := toggle,
               o_irq_timer := BIT (unat bit_timer), o_irq_kb := BIT (unat bit_kb),
               o_irq_mouse := BIT (unat bit_mouse)\<rparr>, w6)
     }"

section \<open>The interrupts\<close>

text \<open>\<open>name[i] = v\<close> in the array of eight bytes.\<close>

definition g06_set_name :: "int \<Rightarrow> u8 \<Rightarrow> G06Game \<Rightarrow> G06Game option" where
  "g06_set_name i v g =
     (if 0 \<le> i \<and> i < int (length (o_name g)) then Some (g\<lparr>o_name := (o_name g)[nat i := v]\<rparr>) else None)"

definition g06_type_key :: "u8 \<Rightarrow> G06Game \<Rightarrow> G06Game option" where
  "g06_type_key code g =
     (if o_l g < 9 then
        if code = G06_BACKSPACE \<and> o_l g \<ge> 1 then
          map_option (\<lambda>g1. g1\<lparr>o_l := o_l g1 - 1\<rparr>) (g06_set_name (o_l g - 1) 0 g)
        else if o_l g < 8 \<and> code \<noteq> G06_BACKSPACE then
          map_option (\<lambda>g1. g1\<lparr>o_l := o_l g1 + 1\<rparr>) (g06_set_name (o_l g) code g)
        else Some g
      else Some g)"

definition g06_on_keyboard :: "'w g06_env \<Rightarrow> G06Game \<Rightarrow> 'w \<Rightarrow> (G06Game \<times> 'w) option" where
  "g06_on_keyboard E g w =
     (case g06_keyboard_int_handler (o_kernel E) (o_load E) (o_kb g) w of
        (r, kb1, w1) \<Rightarrow> do {
          let g1 = g\<lparr>o_kb := kb1\<rparr>;
          let break = has (g06_code kb1) (BIT 7);
          g2 \<leftarrow> (if o_click g1 \<and> o_player_choice g1 \<and> break then g06_type_key (g06_code kb1) g1 else Some g1);
          let g3 = (if o_click g2 \<and> \<not> o_player_choice g2 \<and> break \<and> g06_code kb1 = G06_TOGGLE
                    then g2\<lparr>o_animation := \<not> o_animation g2\<rparr> else g2);
          Some (g3, w1)
        })"

text \<open>Drawing the name changes the picture \<open>letterImg\<close> as well as the buffer.\<close>

definition g06_show_name :: "'w g06_env \<Rightarrow> int \<Rightarrow> int \<Rightarrow> int \<Rightarrow> G06Game \<Rightarrow> G06Game option" where
  "g06_show_name E px py spacing g =
     map_option (\<lambda>(v, img). g\<lparr>o_buffer := v, o_kb := (o_kb g)\<lparr>letterImg := img\<rparr>\<rparr>)
       (g06_draw_name (o_load E) (o_screen g) (o_buffer g) (letterImg (o_kb g)) (o_name g) px py spacing)"

definition g06_background :: "xpm_image \<Rightarrow> G06Game \<Rightarrow> G06Game option" where
  "g06_background img g =
     do {
       v1 \<leftarrow> vg_clear (o_screen g) (o_buffer g);
       v2 \<leftarrow> g06_draw_image (o_screen g) v1 img 95 15;
       Some (g\<lparr>o_buffer := v2\<rparr>)
     }"

definition g06_first_frame :: "'w g06_env \<Rightarrow> G06Game \<Rightarrow> 'w \<Rightarrow> (G06Game \<times> 'w) option" where
  "g06_first_frame E g w =
     do {
       (s1, w1, b1) \<leftarrow> g06_initBoard (o_video E) (o_mapped E) (o_load E) (o_fresh E) (o_screen g) w (o_board g);
       Some (g\<lparr>o_screen := s1, o_board := b1, o_count := o_count g + 1\<rparr>, w1)
     }"

definition g06_board_frame :: "'w g06_env \<Rightarrow> G06Game \<Rightarrow> G06Game option" where
  "g06_board_frame E g =
     do {
       let s = o_screen g;
       v1 \<leftarrow> vg_clear s (o_buffer g);
       b1 \<leftarrow> g06_drawBoard s (o_board g);
       b2 \<leftarrow> g06_updateBoard (o_animation g) b1;
       v2 \<leftarrow> g06_drawBoardPieces s v1 b2;
       v3 \<leftarrow> g06_draw_image s v2 (o_toggle_animation g) 538 185;
       let g1 = g\<lparr>o_board := b2, o_buffer := v3\<rparr>;
       if o_player_number g1 = 1 then g06_show_name E 63 560 20 g1 else g06_show_name E 63 23 20 g1
     }"

text \<open>\<open>name[l-1] == 0x9c\<close>, read only when \<open>l > 0\<close>.\<close>

definition g06_confirmed :: "G06Game \<Rightarrow> bool option" where
  "g06_confirmed g =
     (if o_l g > 0 then
        (if o_l g - 1 < int (length (o_name g)) then Some (o_name g ! nat (o_l g - 1) = G06_ENTER) else None)
      else Some False)"

definition g06_frame :: "'w g06_env \<Rightarrow> G06Game \<Rightarrow> 'w \<Rightarrow> (G06Game \<times> 'w) option" where
  "g06_frame E g w =
     (if o_click g then do {
        confirmed \<leftarrow> g06_confirmed g;
        let g1 = g\<lparr>o_player_choice := \<not> confirmed\<rparr>;
        if o_player_choice g1 then do {
          g2 \<leftarrow> g06_background (o_name_choice g1) g1;
          g3 \<leftarrow> g06_show_name E 142 312 68 g2;
          Some (g3, w)
        }
        else if o_count g1 = 0 then g06_first_frame E g1 w
        else map_option (\<lambda>g2. (g2, w)) (g06_board_frame E g1)
      }
      else if \<not> o_player_choice g then map_option (\<lambda>g1. (g1, w)) (g06_background (o_player_choice_image g) g)
      else Some (g, w))"

definition g06_on_timer :: "'w g06_env \<Rightarrow> G06Game \<Rightarrow> 'w \<Rightarrow> (G06Game \<times> 'w) option" where
  "g06_on_timer E g w =
     do {
       (g1, w1) \<leftarrow> g06_frame E (g\<lparr>o_timer := timer_int_handler (o_timer g)\<rparr>) w;
       v \<leftarrow> g06_drawCursor (o_screen g1) (o_buffer g1) (Some (o_cursor g1));
       vm \<leftarrow> copy_from_buffer (o_screen g1) (o_video_mem g1) v;
       Some (g1\<lparr>o_buffer := v, o_video_mem := vm\<rparr>, w1)
     }"

definition g06_on_mouse :: "'w g06_env \<Rightarrow> G06Game \<Rightarrow> 'w \<Rightarrow> (G06Game \<times> 'w) option" where
  "g06_on_mouse E g w =
     do {
       (m1, w1) \<leftarrow> mouse_ih (o_kernel E) (o_status E) (o_byte E) (o_mouse g) w;
       let g1 = g\<lparr>o_mouse := m1\<rparr>;
       Some (if \<not> o_click g1
             then let (n, clicked) = g06_cursorClickPlayer (o_cursor g1) (o_player_number g1)
                  in g1\<lparr>o_player_number := n, o_click := clicked\<rparr>
             else g1, w1)
     }"

section \<open>The loop\<close>

definition g06_step :: "'w g06_env \<Rightarrow> message \<Rightarrow> G06Game \<Rightarrow> 'w \<Rightarrow> (G06Game \<times> 'w) option" where
  "g06_step E msg g w =
     do {
       (g1, w1) \<leftarrow> (if raised msg (ucast (o_irq_kb g)) then g06_on_keyboard E g w else Some (g, w));
       (g2, w2) \<leftarrow> (if raised msg (ucast (o_irq_timer g1)) then g06_on_timer E g1 w1 else Some (g1, w1));
       (g3, w3) \<leftarrow> (if raised msg (o_irq_mouse g2) then g06_on_mouse E g2 w2 else Some (g2, w2));
       if updateMouse (o_mouse g3) then do {
         (b, c) \<leftarrow> g06_updateCursor (o_screen g3) (pp (o_mouse g3)) (o_board g3) (o_cursor g3);
         Some (g3\<lparr>o_board := b, o_cursor := c, o_mouse := (o_mouse g3)\<lparr>updateMouse := False\<rparr>\<rparr>, w3)
       }
       else Some (g3, w3)
     }"

definition g06_main_loop :: "'w g06_env \<Rightarrow> G06Game \<Rightarrow> 'w \<Rightarrow> (G06Game \<times> 'w) option" where
  "g06_main_loop E = receive_loop (o_receive E) (\<lambda>g. n_interrupts (o_timer g) < 60 * 60) (g06_step E)"

text \<open>The keyboard stays subscribed.\<close>

definition g06_main_shutdown :: "'w g06_env \<Rightarrow> G06Game \<Rightarrow> 'w \<Rightarrow> (int \<times> 'w) option" where
  "g06_main_shutdown E g w =
     do {
       let K = o_kernel E;
       let (r, w1) = timer_unsubscribe_int K (o_timer g) w;
       let (r, w2) = mouse_unsubscribe_int K (o_mouse g) w1;
       (r, w3) \<leftarrow> mouse_disable_data_reporting K (o_status E) (o_byte E) w2;
       Some (return_text_mode (o_video E) w3)
     }"

definition g06_proj_main_loop :: "'w g06_env \<Rightarrow> G06Game \<Rightarrow> 'w \<Rightarrow> (int \<times> 'w) option" where
  "g06_proj_main_loop E g w =
     do {
       (g1, w1) \<leftarrow> g06_main_init E g w;
       (g2, w2) \<leftarrow> g06_main_loop E g1 w1;
       g06_main_shutdown E g2 w2
     }"

section \<open>Typing a name\<close>

definition g06_name_ok :: "u8 list \<Rightarrow> int \<Rightarrow> bool" where
  "g06_name_ok name l \<longleftrightarrow> length name = 8 \<and> 0 \<le> l \<and> l \<le> 8 \<and> (\<forall>i<8. l \<le> int i \<longrightarrow> name ! i = 0)"

text \<open>The name typed so far, and what a key does to it.\<close>

definition typed :: "G06Game \<Rightarrow> u8 list" where
  "typed g = take (nat (o_l g)) (o_name g)"

definition g06_edit_name :: "u8 \<Rightarrow> u8 list \<Rightarrow> u8 list" where
  "g06_edit_name code xs =
     (if code = G06_BACKSPACE then butlast xs else if length xs < 8 then xs @ [code] else xs)"

lemma g06_type_key_edits:
  assumes ok: "g06_name_ok (o_name g) (o_l g)"
  shows "\<exists>name l. g06_type_key code g = Some (g\<lparr>o_name := name, o_l := l\<rparr>) \<and> g06_name_ok name l \<and>
    take (nat l) name = g06_edit_name code (typed g)"
proof -
  have l: "length (o_name g) = 8" "0 \<le> o_l g" "o_l g \<le> 8" and z: "\<forall>i<8. o_l g \<le> int i \<longrightarrow> o_name g ! i = 0"
    using ok by (auto simp: g06_name_ok_def)
  consider (del) "code = G06_BACKSPACE" "o_l g \<ge> 1" | (add) "code \<noteq> G06_BACKSPACE" "o_l g < 8"
    | (none) "code = G06_BACKSPACE" "o_l g = 0" | (full) "code \<noteq> G06_BACKSPACE" "o_l g = 8"
    using l by linarith
  then show ?thesis
  proof cases
    case del
    define k where "k = nat (o_l g - 1)"
    have k: "o_l g = int (Suc k)" "k < 8" using del l by (auto simp: k_def)
    have "g06_type_key code g = Some (g\<lparr>o_name := (o_name g)[k := 0], o_l := int k\<rparr>)"
      using del k l by (simp add: g06_type_key_def g06_set_name_def)
    moreover have "g06_name_ok ((o_name g)[k := 0]) (int k)"
      using k l z by (auto simp: g06_name_ok_def nth_list_update)
    moreover have "take k ((o_name g)[k := 0]) = g06_edit_name code (typed g)"
      using del k l by (simp add: g06_edit_name_def typed_def butlast_take nat_add_distrib)
    ultimately show ?thesis by (metis nat_int)
  next
    case add
    define k where "k = nat (o_l g)"
    have k: "o_l g = int k" "k < 8" using add l by (auto simp: k_def)
    have "g06_type_key code g = Some (g\<lparr>o_name := (o_name g)[k := code], o_l := int (Suc k)\<rparr>)"
      using add k l by (simp add: g06_type_key_def g06_set_name_def)
    moreover have "g06_name_ok ((o_name g)[k := code]) (int (Suc k))"
      using k l z by (auto simp: g06_name_ok_def nth_list_update)
    moreover have "take (Suc k) ((o_name g)[k := code]) = g06_edit_name code (typed g)"
      using add k l by (simp add: g06_edit_name_def typed_def take_Suc_conv_app_nth)
    ultimately show ?thesis by (metis nat_int)
  next
    case none
    then show ?thesis using ok by (intro exI [of _ "o_name g"] exI [of _ 0])
      (simp add: g06_type_key_def g06_edit_name_def typed_def)
  next
    case full
    then show ?thesis using ok l by (intro exI [of _ "o_name g"] exI [of _ "o_l g"])
      (simp add: g06_type_key_def g06_edit_name_def typed_def)
  qed
qed

lemma g06_confirmed_last:
  assumes "g06_name_ok (o_name g) (o_l g)"
  shows "g06_confirmed g = Some (typed g \<noteq> [] \<and> last (typed g) = G06_ENTER)"
proof (cases "o_l g = 0")
  case True
  then show ?thesis by (simp add: g06_confirmed_def typed_def)
next
  case False
  define k where "k = nat (o_l g - 1)"
  have k: "o_l g = int (Suc k)" "k < 8" "length (o_name g) = 8"
    using False assms by (auto simp: k_def g06_name_ok_def)
  then have "typed g \<noteq> []" "last (typed g) = o_name g ! k"
    by (simp_all add: typed_def nat_add_distrib take_Suc_conv_app_nth)
  then show ?thesis using k by (simp add: g06_confirmed_def)
qed

section \<open>Properties of the name\<close>

text \<open>C40: Typing a name. Every sequence of keys is handled inside the eight bytes of the array and
  edits a list of at most eight codes from the right; the game starts exactly when the last
  code of that list is ENTER. ENTER needs a place of its own, so with eight letters typed no
  sequence of keys without BACKSPACE changes anything and the game never starts.\<close>
theorem g06_name_confirmed:
  assumes "g06_name_ok (o_name g) (o_l g)"
  shows "\<exists>g'. foldM g06_type_key codes g = Some g' \<and> g06_name_ok (o_name g') (o_l g') \<and>
    typed g' = fold g06_edit_name codes (typed g) \<and>
    g06_confirmed g' = Some (typed g' \<noteq> [] \<and> last (typed g') = G06_ENTER) \<and>
    (length (typed g) = 8 \<and> last (typed g) \<noteq> G06_ENTER \<and> G06_BACKSPACE \<notin> set codes \<longrightarrow>
       typed g' = typed g \<and> g06_confirmed g' = Some False)"
proof -
  have "\<exists>g'. foldM g06_type_key codes g = Some g' \<and> g06_name_ok (o_name g') (o_l g') \<and>
      typed g' = fold g06_edit_name codes (typed g)"
    using assms
  proof (induction codes arbitrary: g)
    case (Cons code codes)
    obtain name l where k: "g06_type_key code g = Some (g\<lparr>o_name := name, o_l := l\<rparr>)" "g06_name_ok name l"
      "take (nat l) name = g06_edit_name code (typed g)"
      using g06_type_key_edits [OF Cons.prems] by blast
    with Cons.IH [of "g\<lparr>o_name := name, o_l := l\<rparr>"] show ?case by (simp add: typed_def)
  qed simp
  then obtain g' where g': "foldM g06_type_key codes g = Some g'" "g06_name_ok (o_name g') (o_l g')"
    "typed g' = fold g06_edit_name codes (typed g)" by blast
  have full: "fold g06_edit_name cs xs = xs" if "length xs = 8" "G06_BACKSPACE \<notin> set cs" for cs xs
    using that by (induction cs) (auto simp: g06_edit_name_def)
  show ?thesis
    using g' g06_confirmed_last [OF g'(2)] full [of "typed g" codes] by auto
qed

section \<open>The state of the game\<close>

text \<open>
  Before the first frame of the board the squares have no size, so no piece can be picked
  up; afterwards the board and the cursor keep their invariant.
\<close>

definition g06_game_ok :: "G06Game \<Rightarrow> bool" where
  "g06_game_ok g \<longleftrightarrow> g06_name_ok (o_name g) (o_l g) \<and> 0 \<le> o_count g \<and>
     0 \<le> n_interrupts (o_timer g) \<and> n_interrupts (o_timer g) \<le> 3600 \<and>
     (if o_count g = 0
      then rectangle_width (o_screen g) = 0 \<and> rectangle_height (o_screen g) = 0 \<and> \<not> cursorMovingPiece (o_cursor g)
      else squares_115 (o_screen g) \<and> g06_invar (o_board g) (o_cursor g))"

text \<open>What of a state the invariant reads.\<close>

definition g06_core where
  "g06_core g = (o_name g, o_l g, o_count g, o_timer g, o_screen g, o_cursor g, g06_squares (o_board g),
     map g06_type (g06_heap (o_board g)))"

lemma g06_core_ok: "g06_core g' = g06_core g \<Longrightarrow> g06_game_ok g \<Longrightarrow> g06_game_ok g'"
  using only_looks_invar [of "o_board g" "o_board g'" "o_cursor g"]
  by (auto simp: g06_core_def g06_game_ok_def only_looks_def split: if_splits)

lemma g06_show_name_core: "g06_show_name E px py sp g = Some g' \<Longrightarrow> g06_core g' = g06_core g"
  by (auto simp: g06_show_name_def g06_core_def)

lemma g06_background_core: "g06_background img g = Some g' \<Longrightarrow> g06_core g' = g06_core g"
  by (auto simp: g06_background_def g06_core_def split: bind_splits)

lemma g06_update_square_looks:
  assumes "g06_board_ok b" and "i < 64"
  shows "\<exists>b'. g06_update_square animation i b = Some b' \<and> only_looks b b'"
proof (cases "g06_squares b ! i")
  case None
  then show ?thesis using assms by (simp add: g06_update_square_def g06_square_at_def g06_board_ok_def only_looks_def)
next
  case (Some ref)
  then have "Some ref \<in> set (g06_squares b)" using assms unfolding g06_board_ok_def by (metis nth_mem)
  then have r: "ref < length (g06_heap b)" using assms(1) by (simp add: g06_board_ok_def)
  have "g06_type (g06_updatePiece p) = g06_type p" "g06_type (g06_updatePiece_no_animation p) = g06_type p" for p
    by (simp_all add: g06_updatePiece_def g06_updatePiece_no_animation_def Let_def)
  then show ?thesis using Some r assms
    by (auto simp: g06_update_square_def g06_square_at_def g06_board_ok_def only_looks_def
        g06_piece_of_def g06_set_piece_def list_update_type)
qed

lemma only_looks_trans: "only_looks a b \<Longrightarrow> only_looks b c \<Longrightarrow> only_looks a c"
  by (simp add: only_looks_def)

lemma only_looks_board_ok: "only_looks b b' \<Longrightarrow> g06_board_ok b \<Longrightarrow> g06_board_ok b'"
  using only_looks_length [of b b'] by (simp add: g06_board_ok_def only_looks_def)

lemma g06_updateBoard_looks:
  assumes "g06_board_ok b"
  shows "\<exists>b'. g06_updateBoard animation b = Some b' \<and> only_looks b b'"
  unfolding g06_updateBoard_def
proof (rule foldM_keeps [where P = "only_looks b"])
  show "only_looks b b" by (simp add: only_looks_def)
next
  fix row t assume row: "row \<in> set [0..<8]" and "only_looks b t"
  then show "\<exists>t'. foldM (\<lambda>col. g06_update_square animation (nat (get_position (int col) (int row)))) [0..<8] t = Some t' \<and>
      only_looks b t'"
  proof (intro foldM_keeps [where P = "only_looks b"])
    fix col u assume "col \<in> set [0..<8]" and u: "only_looks b u"
    then have "nat (get_position (int col) (int row)) < 64" using row by (simp add: get_position_def nat_less_iff)
    then show "\<exists>u'. g06_update_square animation (nat (get_position (int col) (int row))) u = Some u' \<and> only_looks b u'"
      using g06_update_square_looks [OF only_looks_board_ok [OF u assms]] only_looks_trans [OF u] by blast
  qed
qed

lemma g06_drawBoard_looks: "g06_drawBoard s b = Some b' \<Longrightarrow> only_looks b b'"
  by (auto simp: g06_drawBoard_def only_looks_def split: bind_splits)

lemma g06_board_frame_core:
  assumes "g06_board_frame E g = Some g'" and "g06_board_ok (o_board g)"
  shows "g06_core g' = g06_core g"
proof -
  obtain b1 b2 v where b: "g06_drawBoard (o_screen g) (o_board g) = Some b1"
    "g06_updateBoard (o_animation g) b1 = Some b2"
    and n: "(if o_player_number g = 1 then g06_show_name E 63 560 20 (g\<lparr>o_board := b2, o_buffer := v\<rparr>)
      else g06_show_name E 63 23 20 (g\<lparr>o_board := b2, o_buffer := v\<rparr>)) = Some g'"
    using assms(1) by (auto simp: g06_board_frame_def Let_def split: bind_splits)
  have 1: "only_looks (o_board g) b1" by (rule g06_drawBoard_looks [OF b(1)])
  have "only_looks b1 b2"
    using g06_updateBoard_looks [OF only_looks_board_ok [OF 1 assms(2)], of "o_animation g"] b(2) by simp
  with 1 have "only_looks (o_board g) b2" by (rule only_looks_trans)
  moreover have "g06_core g' = g06_core (g\<lparr>o_board := b2, o_buffer := v\<rparr>)"
    using n g06_show_name_core by (auto split: if_splits)
  ultimately show ?thesis by (simp add: g06_core_def only_looks_def)
qed

lemma placed_one_each:
  assumes p: "placed initial_pieces mk b"
  shows "one_each (squares b)"
  unfolding one_each_def
proof (intro allI impI)
  fix i j assume i: "i < length (squares b)" and j: "j < length (squares b)"
    and n: "squares b ! i \<noteq> None" and e: "squares b ! i = squares b ! j"
  have at: "\<exists>k. q = pos_of (initial_pieces ! k) \<and> squares b ! q = Some k"
    if "q < length (squares b)" "squares b ! q \<noteq> None" for q
  proof -
    have "q \<in> pos_of ` set initial_pieces" using that p unfolding placed_def by metis
    then obtain k where "k < length initial_pieces" "q = pos_of (initial_pieces ! k)"
      by (metis imageE in_set_conv_nth)
    with p show ?thesis unfolding placed_def by metis
  qed
  show "i = j" using at [OF i n] at [OF j] n e by force
qed

lemma g06_tick:
  assumes "0 \<le> n_interrupts t" and "n_interrupts t < 3600"
  shows "n_interrupts (timer_int_handler t) = n_interrupts t + 1"
proof -
  have e: "u32_of (n_interrupts t) + 1 = word_of_int (n_interrupts t + 1)" by (simp add: u32_of_def wi_hom_succ)
  have "i32_of (word_of_int (n_interrupts t + 1)) = n_interrupts t + 1"
    by (rule i32_of_small_int) (use assms in simp_all)
  then show ?thesis unfolding timer_int_handler_def e by simp
qed

lemma g06_first_frame_ok:
  assumes V: "video_115 (o_video E) (o_mapped E)" and ok: "g06_game_ok g" and c: "o_count g = 0"
    and r: "g06_first_frame E g w = Some (g', w')"
  shows "g06_game_ok g'"
proof -
  obtain s1 w1 b1 where i: "g06_initBoard (o_video E) (o_mapped E) (o_load E) (o_fresh E) (o_screen g) w (o_board g) =
      Some (s1, w1, forget b1)" and s: "squares_115 s1"
    and p: "placed initial_pieces (\<lambda>k. made (o_load E) s1 (remember (o_fresh E k))) b1"
    using g06_initBoard_simulation [OF V] by blast
  have "one_each (g06_squares (forget b1))" using placed_one_each [OF p] by (simp add: forget_def)
  then have "g06_invar (forget b1) (o_cursor g)"
    using placed_board_ok [OF p] ok c by (simp add: g06_invar_def forget_board_ok g06_game_ok_def)
  then show ?thesis
    using r i s ok c by (auto simp: g06_first_frame_def g06_game_ok_def)
qed

lemma g06_frame_ok:
  assumes V: "video_115 (o_video E) (o_mapped E)" and ok: "g06_game_ok g"
    and r: "g06_frame E g w = Some (g', w')"
  shows "g06_game_ok g'"
proof (cases "o_click g")
  case False
  then show ?thesis using r ok g06_background_core [of "o_player_choice_image g" g] g06_core_ok
    by (auto simp: g06_frame_def split: if_splits)
next
  case True
  obtain confirmed where k: "g06_confirmed g = Some confirmed"
    using r True by (cases "g06_confirmed g") (auto simp: g06_frame_def)
  let ?g = "g\<lparr>o_player_choice := \<not> confirmed\<rparr>"
  have ok1: "g06_game_ok ?g" using ok by (simp add: g06_game_ok_def)
  consider (name) "\<not> confirmed" | (first) "confirmed" "o_count g = 0" | (board) "confirmed" "o_count g \<noteq> 0" by blast
  then show ?thesis
  proof cases
    case name
    then obtain g2 where "g06_background (o_name_choice g) ?g = Some g2" "g06_show_name E 142 312 68 g2 = Some g'"
      using r True k by (auto simp: g06_frame_def split: bind_splits)
    then have "g06_core g' = g06_core ?g" using g06_background_core g06_show_name_core by metis
    then show ?thesis using g06_core_ok ok1 by blast
  next
    case first
    then have "g06_first_frame E ?g w = Some (g', w')" using r True k by (simp add: g06_frame_def)
    then show ?thesis using g06_first_frame_ok [OF V ok1] first by simp
  next
    case board
    then have "g06_board_frame E ?g = Some g'" using r True k by (auto simp: g06_frame_def)
    moreover have "g06_board_ok (o_board ?g)" using ok board by (simp add: g06_game_ok_def g06_invar_def)
    ultimately show ?thesis using g06_board_frame_core g06_core_ok ok1 by blast
  qed
qed

lemma g06_on_timer_ok:
  assumes V: "video_115 (o_video E) (o_mapped E)" and ok: "g06_game_ok g"
    and n: "n_interrupts (o_timer g) < 3600" and r: "g06_on_timer E g w = Some (g', w')"
  shows "g06_game_ok g'"
proof -
  let ?g = "g\<lparr>o_timer := timer_int_handler (o_timer g)\<rparr>"
  have "n_interrupts (timer_int_handler (o_timer g)) = n_interrupts (o_timer g) + 1"
    by (rule g06_tick) (use ok n in \<open>simp_all add: g06_game_ok_def\<close>)
  then have ok1: "g06_game_ok ?g" using ok n by (simp add: g06_game_ok_def)
  obtain g1 w1 v vm where f: "g06_frame E ?g w = Some (g1, w1)" "g' = g1\<lparr>o_buffer := v, o_video_mem := vm\<rparr>"
    using r by (auto simp: g06_on_timer_def split: bind_splits)
  have "g06_game_ok g1" by (rule g06_frame_ok [OF V ok1 f(1)])
  then show ?thesis by (simp add: f(2) g06_game_ok_def)
qed

lemma g06_on_keyboard_ok:
  assumes ok: "g06_game_ok g"
  shows "\<exists>g' w'. g06_on_keyboard E g w = Some (g', w') \<and> g06_game_ok g' \<and> o_timer g' = o_timer g"
proof -
  obtain r kb1 w1 where k: "g06_keyboard_int_handler (o_kernel E) (o_load E) (o_kb g) w = (r, kb1, w1)"
    by (metis prod_cases3)
  let ?g = "g\<lparr>o_kb := kb1\<rparr>"
  have "g06_name_ok (o_name ?g) (o_l ?g)" using ok by (simp add: g06_game_ok_def)
  then obtain name l where t: "g06_type_key (g06_code kb1) ?g = Some (?g\<lparr>o_name := name, o_l := l\<rparr>)"
    "g06_name_ok name l"
    using g06_type_key_edits by blast
  then show ?thesis using ok by (auto simp: g06_on_keyboard_def k g06_game_ok_def Let_def)
qed

lemma g06_on_mouse_ok:
  assumes "g06_game_ok g" and "g06_on_mouse E g w = Some (g', w')"
  shows "g06_game_ok g' \<and> o_timer g' = o_timer g"
proof -
  have "g06_core g' = g06_core g"
    using assms(2) by (auto simp: g06_on_mouse_def g06_core_def Let_def split: bind_splits prod.splits if_splits)
  then show ?thesis using g06_core_ok assms(1) by (auto simp: g06_core_def)
qed

text \<open>A board without size: the cursor moves and nothing is picked up.\<close>

lemma g06_updateCursor_blank:
  assumes "rectangle_width s = 0" and "rectangle_height s = 0" and "\<not> cursorMovingPiece c"
  shows "\<exists>c'. g06_updateCursor s pkt b c = Some (b, c') \<and> \<not> cursorMovingPiece c'"
  using assms
  by (simp add: g06_updateCursor_def g06_move_def g06_press_def g06_release_def getBoardX_def getBoardY_def Let_def)

lemma g06_cursor_step_ok:
  assumes ok: "g06_game_ok g"
    and r: "g06_updateCursor (o_screen g) pkt (o_board g) (o_cursor g) = Some (b, c)"
  shows "g06_game_ok (g\<lparr>o_board := b, o_cursor := c, o_mouse := m\<rparr>)"
proof (cases "o_count g = 0")
  case True
  then show ?thesis
    using ok r g06_updateCursor_blank [of "o_screen g" "o_cursor g" pkt "o_board g"] by (auto simp: g06_game_ok_def)
next
  case False
  then have "squares_115 (o_screen g)" "g06_invar (o_board g) (o_cursor g)" using ok by (simp_all add: g06_game_ok_def)
  from g06_updateCursor_keeps [OF this r] False ok show ?thesis by (simp add: g06_game_ok_def)
qed

section \<open>Every frame can be drawn\<close>

text \<open>
  A picture that can be drawn in mode 0x115, and a decoder that finds such a picture for
  every resource. All resources of the program are square.
\<close>

definition pic_ok :: "xpm_image \<Rightarrow> bool" where
  "pic_ok img \<longleftrightarrow> g06_image_ok screen_115 img"

definition g06_loads :: "xpm_loader \<Rightarrow> bool" where
  "g06_loads load \<longleftrightarrow> (\<forall>xpm. \<exists>img. load xpm = Some img \<and> pic_ok img)"

lemma pic_ok_115: "mode_115 s \<Longrightarrow> g06_image_ok s img \<longleftrightarrow> pic_ok img"
  using mode_115_facts(3) [of s] mode_115_facts(3) [OF squares_115D(1) [OF screen_115]]
  by (simp add: pic_ok_def g06_image_ok_def image_ok_def)

definition g06_draw_ok :: "G06Game \<Rightarrow> bool" where
  "g06_draw_ok g \<longleftrightarrow> mode_115 (o_screen g) \<and> fb_wf (o_screen g) (o_buffer g) \<and> fb_wf (o_screen g) (o_video_mem g) \<and>
     pic_ok (o_name_choice g) \<and> pic_ok (o_player_choice_image g) \<and> pic_ok (o_toggle_animation g) \<and>
     pic_ok (g06_cursor_image (o_cursor g)) \<and> pic_ok (letterImg (o_kb g)) \<and>
     (o_count g \<noteq> 0 \<longrightarrow> fb_wf (o_screen g) (g06_mem_board (o_board g)) \<and>
        (\<forall>p\<in>set (g06_heap (o_board g)). pic_ok (g06_image p)))"

lemma draw_pic:
  assumes "mode_115 s" and "fb_wf s m" and "pic_ok img"
  shows "\<exists>m'. g06_draw_image s m img x y = Some m' \<and> fb_wf s m'"
  using g06_draw_image_wf [OF assms(2)] assms(3) unfolding pic_ok_115 [OF assms(1), symmetric] g06_image_ok_def
  by blast

lemma g06_background_total:
  assumes "g06_draw_ok g" and "pic_ok img"
  shows "\<exists>v. g06_background img g = Some (g\<lparr>o_buffer := v\<rparr>) \<and> fb_wf (o_screen g) v"
proof -
  have w: "mode_115 (o_screen g)" "fb_wf (o_screen g) (o_buffer g)" using assms(1) by (simp_all add: g06_draw_ok_def)
  show ?thesis
    using draw_pic [OF w(1) vg_clear_wf(2) [OF w(2)] assms(2), of 95 15] vg_clear_wf(1) [OF w(2)]
    by (auto simp: g06_background_def)
qed

lemma g06_show_name_total:
  assumes "g06_loads (o_load E)" and "g06_draw_ok g" and "8 \<le> length (o_name g)"
  shows "\<exists>v img. g06_show_name E px py sp g = Some (g\<lparr>o_buffer := v, o_kb := (o_kb g)\<lparr>letterImg := img\<rparr>\<rparr>) \<and>
    fb_wf (o_screen g) v \<and> pic_ok img"
proof -
  have w: "mode_115 (o_screen g)" "fb_wf (o_screen g) (o_buffer g)" "g06_image_ok (o_screen g) (letterImg (o_kb g))"
    using assms(2) by (simp_all add: g06_draw_ok_def pic_ok_115)
  have "\<forall>xpm img. o_load E xpm = Some img \<longrightarrow> g06_image_ok (o_screen g) img"
    using assms(1) unfolding pic_ok_115 [OF w(1)] g06_loads_def by (metis option.inject)
  from g06_draw_name_wf [OF this assms(3) w(2,3), of px py sp] show ?thesis
    unfolding pic_ok_115 [OF w(1)] by (auto simp: g06_show_name_def)
qed

lemma g06_first_frame_total:
  assumes V: "video_115 (o_video E) (o_mapped E)" and L: "g06_loads (o_load E)" and d: "g06_draw_ok g"
    and c: "o_count g = 0"
  shows "\<exists>g' w'. g06_first_frame E g w = Some (g', w') \<and> g06_draw_ok g' \<and>
    g' = g\<lparr>o_screen := o_screen g', o_board := o_board g', o_count := 1\<rparr>"
proof -
  obtain s1 w1 b1 where i: "g06_initBoard (o_video E) (o_mapped E) (o_load E) (o_fresh E) (o_screen g) w (o_board g) =
      Some (s1, w1, forget b1)" and s: "squares_115 s1"
    and p: "placed initial_pieces (\<lambda>k. made (o_load E) s1 (remember (o_fresh E k))) b1"
    and m: "fb_wf s1 (mem_board b1)"
    using g06_initBoard_simulation [OF V] by blast
  have "pic_ok (piece_image q)" if q: "q \<in> set (heap b1)" for q
  proof -
    obtain k t c r where "q = made (o_load E) s1 (remember (o_fresh E k)) (t, c, r)"
      using q p unfolding placed_def by (metis in_set_conv_nth prod_cases3)
    moreover obtain img where "o_load E (piece_xpm t) = Some img" "pic_ok img"
      using L unfolding g06_loads_def by metis
    ultimately show ?thesis by (simp add: made_def initPiece_def Let_def create_image_def)
  qed
  then have h: "\<forall>q\<in>set (g06_heap (forget b1)). pic_ok (g06_image q)"
    by (auto simp: forget_def forget_piece_def)
  let ?g = "g\<lparr>o_screen := s1, o_board := forget b1, o_count := 1\<rparr>"
  have "fb_wf s1 (o_buffer g)" "fb_wf s1 (o_video_mem g)"
    using d mode_115_wf [OF squares_115D(1) [OF s]] mode_115_wf [of "o_screen g"] by (simp_all add: g06_draw_ok_def)
  then have "g06_draw_ok ?g"
    using d h m squares_115D(1) [OF s] by (simp add: g06_draw_ok_def forget_def)
  moreover have "g06_first_frame E g w = Some (?g, w1)" using i c by (simp add: g06_first_frame_def)
  ultimately show ?thesis by auto
qed

lemma g06_drawBoard_total:
  assumes s: "squares_115 s" and wf: "fb_wf s (g06_mem_board b)"
  shows "\<exists>m. g06_drawBoard s b = Some (b\<lparr>g06_mem_board := m\<rparr>) \<and> fb_wf s m"
proof -
  have sq: "\<exists>m'. g06_draw_square s row col c m = Some m' \<and> fb_wf s m'" if "fb_wf s m" for row col c m
    unfolding g06_draw_square_def using g06_draw_rectangle_painted [OF that] fb.painted_wf by blast
  have row: "\<exists>mc'. g06_draw_row s row mc = Some mc' \<and> fb_wf s (fst mc')" if w: "fb_wf s (fst mc)" for row mc
  proof -
    have "\<exists>mc'. foldM (\<lambda>col (m, c). let c' = toggle_color c
          in map_option (\<lambda>m'. (m', c')) (g06_draw_square s row col c' m)) [0..<8] mc = Some mc' \<and> fb_wf s (fst mc')"
    proof (rule foldM_keeps [where P = "\<lambda>t. fb_wf s (fst t)", OF w])
      fix col and t :: "mem \<times> u32" assume "fb_wf s (fst t)"
      then obtain m' where "g06_draw_square s row col (toggle_color (snd t)) (fst t) = Some m'" "fb_wf s m'"
        using sq by blast
      then show "\<exists>t'. (case t of (m, c) \<Rightarrow> let c' = toggle_color c
          in map_option (\<lambda>m'. (m', c')) (g06_draw_square s row col c' m)) = Some t' \<and> fb_wf s (fst t')"
        by (simp add: case_prod_beta Let_def)
    qed
    then show ?thesis by (auto simp: g06_draw_row_def)
  qed
  have "\<exists>mc'. foldM (g06_draw_row s) [0..<8] (replicate (length (g06_mem_board b)) 0, color1) = Some mc' \<and> fb_wf s (fst mc')"
    by (rule foldM_keeps) (use vg_clear_wf(2) [OF wf] row in auto)
  then show ?thesis using vg_clear_wf(1) [OF wf] by (auto simp: g06_drawBoard_def)
qed

lemma g06_draw_layer_total:
  assumes s: "mode_115 s" and b: "g06_board_ok b" and pics: "\<forall>p\<in>set (g06_heap b). pic_ok (g06_image p)"
    and wf: "fb_wf s m"
  shows "\<exists>m'. g06_draw_layer s b moving m = Some m' \<and> fb_wf s m'"
  unfolding g06_draw_layer_def
proof (rule foldM_keeps [where P = "fb_wf s", OF wf], rule foldM_keeps [where P = "fb_wf s"])
  fix row col m assume "row \<in> set [0..<8]" "col \<in> set [0..<8]" and w: "fb_wf s m"
  then have i: "0 \<le> get_position (int col) (int row)" "get_position (int col) (int row) < 64"
    by (simp_all add: get_position_def)
  let ?i = "get_position (int col) (int row)"
  have sq: "g06_square_at b ?i = Some (g06_squares b ! nat ?i)"
    using i b by (simp add: g06_square_at_def g06_board_ok_def)
  show "\<exists>m'. do {
         sq \<leftarrow> g06_square_at b ?i;
         case sq of
           None \<Rightarrow> Some m
         | Some ref \<Rightarrow> do {
             p \<leftarrow> g06_piece_of b ref;
             if g06_is_moving p = moving then g06_drawPieces s m (Some p) else Some m
           }
       } = Some m' \<and> fb_wf s m'"
  proof (cases "g06_squares b ! nat ?i")
    case None
    then show ?thesis using sq w by simp
  next
    case (Some ref)
    have "nat ?i < length (g06_squares b)" using i b by (simp add: g06_board_ok_def)
    then have r: "ref < length (g06_heap b)" using b Some unfolding g06_board_ok_def by (metis nth_mem)
    then show ?thesis
      using sq Some w draw_pic [OF s w] pics by (simp add: g06_piece_of_def g06_drawPieces_def)
  qed
qed

lemma g06_updateBoard_pics:
  assumes "g06_updateBoard animation b = Some b'" and "\<forall>p\<in>set (g06_heap b). pic_ok (g06_image p)"
  shows "(\<forall>p\<in>set (g06_heap b'). pic_ok (g06_image p)) \<and> g06_mem_board b' = g06_mem_board b"
proof -
  let ?P = "\<lambda>t. (\<forall>p\<in>set (g06_heap t). pic_ok (g06_image p)) \<and> g06_mem_board t = g06_mem_board b"
  have sq: "?P t'" if r: "g06_update_square animation i t = Some t'" and P: "?P t" for i t t'
  proof (cases "t' = t")
    case False
    then obtain ref p where ref: "ref < length (g06_heap t)" and p: "p = g06_updatePiece (g06_heap t ! ref) \<or>
        p = g06_updatePiece_no_animation (g06_heap t ! ref)" and t': "t' = t\<lparr>g06_heap := (g06_heap t)[ref := p]\<rparr>"
      using r by (auto simp: g06_update_square_def g06_set_piece_def g06_piece_of_def
          split: bind_splits option.splits if_splits)
    have "g06_image p = g06_image (g06_heap t ! ref)"
      using p by (auto simp: g06_updatePiece_def g06_updatePiece_no_animation_def Let_def)
    then have "pic_ok (g06_image p)" using P ref by simp
    then show ?thesis using P set_update_subset_insert [of "g06_heap t" ref p] by (auto simp: t')
  qed (use P in simp)
  show ?thesis
  proof (rule foldM_kept [where P = ?P, OF assms(1) [unfolded g06_updateBoard_def]])
    show "?P b" using assms(2) by simp
    fix row t t'
    assume "foldM (\<lambda>col. g06_update_square animation (nat (get_position (int col) (int row)))) [0..<8] t = Some t'" "?P t"
    then show "?P t'" by (rule foldM_kept [where P = ?P]) (rule sq)
  qed
qed

lemma g06_board_frame_total:
  assumes L: "g06_loads (o_load E)" and d: "g06_draw_ok g" and ok: "g06_game_ok g" and c: "o_count g \<noteq> 0"
  shows "\<exists>g'. g06_board_frame E g = Some g' \<and> g06_draw_ok g' \<and>
    g' = g\<lparr>o_board := o_board g', o_buffer := o_buffer g', o_kb := o_kb g'\<rparr>"
proof -
  let ?s = "o_screen g"
  have s: "squares_115 ?s" and b: "g06_board_ok (o_board g)" and n: "length (o_name g) = 8"
    using ok c by (simp_all add: g06_game_ok_def g06_invar_def g06_name_ok_def)
  have w: "fb_wf ?s (o_buffer g)" "fb_wf ?s (g06_mem_board (o_board g))" "mode_115 ?s" "pic_ok (o_toggle_animation g)"
    and pics: "\<forall>p\<in>set (g06_heap (o_board g)). pic_ok (g06_image p)"
    using d c by (simp_all add: g06_draw_ok_def)
  obtain m where b1: "g06_drawBoard ?s (o_board g) = Some ((o_board g)\<lparr>g06_mem_board := m\<rparr>)" "fb_wf ?s m"
    using g06_drawBoard_total [OF s w(2)] by blast
  let ?b1 = "(o_board g)\<lparr>g06_mem_board := m\<rparr>"
  have ok1: "g06_board_ok ?b1" using b by (simp add: g06_board_ok_def)
  obtain b2 where b2: "g06_updateBoard (o_animation g) ?b1 = Some b2" "only_looks ?b1 b2"
    using g06_updateBoard_looks [OF ok1] by blast
  have p2: "\<forall>p\<in>set (g06_heap b2). pic_ok (g06_image p)" "g06_mem_board b2 = m"
    using g06_updateBoard_pics [OF b2(1)] pics by simp_all
  note ok2 = only_looks_board_ok [OF b2(2) ok1]
  obtain v1 where v1: "g06_draw_layer ?s b2 False m = Some v1" "fb_wf ?s v1"
    using g06_draw_layer_total [OF w(3) ok2 p2(1) b1(2)] by blast
  obtain v2 where v2: "g06_draw_layer ?s b2 True v1 = Some v2" "fb_wf ?s v2"
    using g06_draw_layer_total [OF w(3) ok2 p2(1) v1(2)] by blast
  obtain v3 where v3: "g06_draw_image ?s v2 (o_toggle_animation g) 538 185 = Some v3" "fb_wf ?s v3"
    using draw_pic [OF w(3) v2(2) w(4)] by blast
  have cp: "copy_buffers ?s (replicate (length (o_buffer g)) 0) (g06_mem_board b2) = Some m"
    using copy_buffers_wf [OF vg_clear_wf(2) [OF w(1)] b1(2)] p2(2) by simp
  let ?g = "g\<lparr>o_board := b2, o_buffer := v3\<rparr>"
  have d1: "g06_draw_ok ?g" using d v3(2) p2 b1(2) by (simp add: g06_draw_ok_def)
  have f: "g06_board_frame E g = (if o_player_number ?g = 1 then g06_show_name E 63 560 20 ?g
      else g06_show_name E 63 23 20 ?g)"
    by (simp add: g06_board_frame_def g06_drawBoardPieces_def Let_def vg_clear_wf(1) [OF w(1)] b1(1) b2(1) cp
        v1(1) v2(1) v3(1))
  obtain v img where "g06_board_frame E g = Some (?g\<lparr>o_buffer := v, o_kb := (o_kb ?g)\<lparr>letterImg := img\<rparr>\<rparr>)"
    "fb_wf ?s v" "pic_ok img"
  proof (cases "o_player_number g = 1")
    case True
    then show ?thesis using that g06_show_name_total [OF L d1, of 63 560 20] n f by auto
  next
    case False
    then show ?thesis using that g06_show_name_total [OF L d1, of 63 23 20] n f by auto
  qed
  then show ?thesis using d1 by (auto simp: g06_draw_ok_def)
qed

lemma g06_frame_total:
  assumes V: "video_115 (o_video E) (o_mapped E)" and L: "g06_loads (o_load E)"
    and d: "g06_draw_ok g" and ok: "g06_game_ok g"
  shows "\<exists>g' w'. g06_frame E g w = Some (g', w') \<and> g06_draw_ok g' \<and> o_timer g' = o_timer g \<and>
    o_mouse g' = o_mouse g \<and> o_irq_kb g' = o_irq_kb g \<and> o_irq_timer g' = o_irq_timer g \<and> o_irq_mouse g' = o_irq_mouse g"
proof (cases "o_click g")
  case False
  have "pic_ok (o_player_choice_image g)" using d by (simp add: g06_draw_ok_def)
  then obtain v where v: "g06_background (o_player_choice_image g) g = Some (g\<lparr>o_buffer := v\<rparr>)" "fb_wf (o_screen g) v"
    using g06_background_total [OF d] by blast
  then have "g06_draw_ok (g\<lparr>o_buffer := v\<rparr>)" using d by (simp add: g06_draw_ok_def)
  then show ?thesis using v False d by (simp add: g06_frame_def)
next
  case True
  have n: "g06_name_ok (o_name g) (o_l g)" using ok by (simp add: g06_game_ok_def)
  obtain cf where k: "g06_confirmed g = Some cf" using g06_confirmed_last [OF n] by blast
  let ?g = "g\<lparr>o_player_choice := \<not> cf\<rparr>"
  have d1: "g06_draw_ok ?g" and ok1: "g06_game_ok ?g" using d ok by (simp_all add: g06_draw_ok_def g06_game_ok_def)
  consider (name) "\<not> cf" | (first) "cf" "o_count g = 0" | (board) "cf" "o_count g \<noteq> 0" by blast
  then show ?thesis
  proof cases
    case name
    have "pic_ok (o_name_choice ?g)" using d by (simp add: g06_draw_ok_def)
    then obtain v where v: "g06_background (o_name_choice ?g) ?g = Some (?g\<lparr>o_buffer := v\<rparr>)" "fb_wf (o_screen g) v"
      using g06_background_total [OF d1] by auto
    have d2: "g06_draw_ok (?g\<lparr>o_buffer := v\<rparr>)" using d1 v(2) by (simp add: g06_draw_ok_def)
    obtain v' img where "g06_show_name E 142 312 68 (?g\<lparr>o_buffer := v\<rparr>) =
        Some (?g\<lparr>o_buffer := v, o_buffer := v', o_kb := (o_kb g)\<lparr>letterImg := img\<rparr>\<rparr>)"
      "fb_wf (o_screen g) v'" "pic_ok img"
      using g06_show_name_total [OF L d2, of 142 312 68] n by (auto simp: g06_name_ok_def)
    then show ?thesis using True k name v d2 by (auto simp: g06_frame_def g06_draw_ok_def)
  next
    case first
    then obtain g' w' where f: "g06_first_frame E ?g w = Some (g', w')" "g06_draw_ok g'"
      "g' = ?g\<lparr>o_screen := o_screen g', o_board := o_board g', o_count := 1\<rparr>"
      using g06_first_frame_total [OF V L d1, of w] by auto
    have "o_timer g' = o_timer g" "o_mouse g' = o_mouse g" "o_irq_kb g' = o_irq_kb g"
      "o_irq_timer g' = o_irq_timer g" "o_irq_mouse g' = o_irq_mouse g"
      by (subst f(3), simp)+
    with f(1,2) show ?thesis using True k first by (simp add: g06_frame_def)
  next
    case board
    then obtain g' where f: "g06_board_frame E ?g = Some g'" "g06_draw_ok g'"
      "g' = ?g\<lparr>o_board := o_board g', o_buffer := o_buffer g', o_kb := o_kb g'\<rparr>"
      using g06_board_frame_total [OF L d1 ok1] by auto
    have "o_timer g' = o_timer g" "o_mouse g' = o_mouse g" "o_irq_kb g' = o_irq_kb g"
      "o_irq_timer g' = o_irq_timer g" "o_irq_mouse g' = o_irq_mouse g"
      by (subst f(3), simp)+
    with f(1,2) show ?thesis using True k board by (simp add: g06_frame_def)
  qed
qed

lemma g06_on_timer_total:
  assumes V: "video_115 (o_video E) (o_mapped E)" and L: "g06_loads (o_load E)"
    and d: "g06_draw_ok g" and ok: "g06_game_ok g" and n: "n_interrupts (o_timer g) < 3600"
  shows "\<exists>g' w'. g06_on_timer E g w = Some (g', w') \<and> g06_draw_ok g' \<and> g06_game_ok g' \<and>
    n_interrupts (o_timer g') = n_interrupts (o_timer g) + 1 \<and> o_mouse g' = o_mouse g \<and>
    o_irq_kb g' = o_irq_kb g \<and> o_irq_timer g' = o_irq_timer g \<and> o_irq_mouse g' = o_irq_mouse g"
proof -
  let ?g = "g\<lparr>o_timer := timer_int_handler (o_timer g)\<rparr>"
  have t: "n_interrupts (timer_int_handler (o_timer g)) = n_interrupts (o_timer g) + 1"
    by (rule g06_tick) (use ok n in \<open>simp_all add: g06_game_ok_def\<close>)
  have ok1: "g06_game_ok ?g" "g06_draw_ok ?g" using ok n t d by (simp_all add: g06_game_ok_def g06_draw_ok_def)
  obtain g1 w1 where f: "g06_frame E ?g w = Some (g1, w1)" and d1: "g06_draw_ok g1" and t1: "o_timer g1 = o_timer ?g"
    and k: "o_mouse g1 = o_mouse g" "o_irq_kb g1 = o_irq_kb g" "o_irq_timer g1 = o_irq_timer g" "o_irq_mouse g1 = o_irq_mouse g"
    using g06_frame_total [OF V L ok1(2,1), of w] by auto
  have w: "mode_115 (o_screen g1)" "fb_wf (o_screen g1) (o_buffer g1)" "fb_wf (o_screen g1) (o_video_mem g1)"
    "pic_ok (g06_cursor_image (o_cursor g1))"
    using d1 by (simp_all add: g06_draw_ok_def)
  obtain v where v: "g06_drawCursor (o_screen g1) (o_buffer g1) (Some (o_cursor g1)) = Some v" "fb_wf (o_screen g1) v"
    using draw_pic [OF w(1,2,4)] by (auto simp: g06_drawCursor_def)
  have "g06_on_timer E g w = Some (g1\<lparr>o_buffer := v, o_video_mem := v\<rparr>, w1)"
    using f v copy_buffers_wf [OF w(3) v(2)] by (simp add: g06_on_timer_def copy_from_buffer_def)
  moreover have "g06_draw_ok (g1\<lparr>o_buffer := v, o_video_mem := v\<rparr>)" using d1 v(2) by (simp add: g06_draw_ok_def)
  moreover have "g06_game_ok (g1\<lparr>o_buffer := v, o_video_mem := v\<rparr>)"
    using g06_frame_ok [OF V ok1(1) f] by (simp add: g06_game_ok_def)
  ultimately show ?thesis using t t1 k by simp
qed

lemma g06_keyboard_pic:
  assumes "g06_loads load" and "pic_ok (letterImg kb)"
    and "g06_keyboard_int_handler K load kb w = (r, kb', w')"
  shows "pic_ok (letterImg kb')"
proof -
  have "\<forall>xpm img. load xpm = Some img \<longrightarrow> g06_image_ok screen_115 img"
    using assms(1) unfolding g06_loads_def pic_ok_def by (metis option.inject)
  then have "pic_ok (g06_drawLetter load b img)" if "pic_ok img" for b img
    using g06_drawLetter_ok that unfolding pic_ok_def by blast
  then show ?thesis
    using assms(2,3) by (auto simp: g06_keyboard_int_handler_def Let_def split: prod.splits if_splits)
qed

lemma g06_on_keyboard_draw_ok:
  assumes L: "g06_loads (o_load E)" and d: "g06_draw_ok g" and r: "g06_on_keyboard E g w = Some (g', w')"
  shows "g06_draw_ok g' \<and> o_mouse g' = o_mouse g \<and> o_irq_kb g' = o_irq_kb g \<and> o_irq_timer g' = o_irq_timer g \<and>
    o_irq_mouse g' = o_irq_mouse g"
proof -
  obtain q kb1 w1 where k: "g06_keyboard_int_handler (o_kernel E) (o_load E) (o_kb g) w = (q, kb1, w1)"
    by (metis prod_cases3)
  have p: "pic_ok (letterImg kb1)" using g06_keyboard_pic [OF L _ k] d by (simp add: g06_draw_ok_def)
  have key: "g2 = g1\<lparr>o_name := o_name g2, o_l := o_l g2\<rparr>" if "g06_type_key c g1 = Some g2" for c g1 g2
    using that by (auto simp: g06_type_key_def g06_set_name_def split: if_splits)
  obtain g2 where g2: "(if o_click g \<and> o_player_choice g \<and> has (g06_code kb1) (BIT 7)
      then g06_type_key (g06_code kb1) (g\<lparr>o_kb := kb1\<rparr>) else Some (g\<lparr>o_kb := kb1\<rparr>)) = Some g2"
    and g': "g' = g2 \<or> g' = g2\<lparr>o_animation := \<not> o_animation g2\<rparr>"
    using r by (auto simp: g06_on_keyboard_def k Let_def split: bind_splits)
  have e: "g2 = g\<lparr>o_kb := kb1, o_name := o_name g2, o_l := o_l g2\<rparr>"
    using g2 key [of "g06_code kb1" "g\<lparr>o_kb := kb1\<rparr>" g2] by (auto split: if_splits)
  have "g06_draw_ok (g\<lparr>o_kb := kb1, o_name := o_name g2, o_l := o_l g2\<rparr>)" using d p by (simp add: g06_draw_ok_def)
  then have d2: "g06_draw_ok g2" using e by simp
  have "o_mouse g2 = o_mouse g" "o_irq_kb g2 = o_irq_kb g" "o_irq_timer g2 = o_irq_timer g" "o_irq_mouse g2 = o_irq_mouse g"
    by (subst e, simp)+
  with d2 g' show ?thesis by (auto simp: g06_draw_ok_def)
qed

section \<open>Reachable states\<close>

inductive g06_reachable :: "'w g06_env \<Rightarrow> G06Game \<Rightarrow> 'w \<Rightarrow> G06Game \<Rightarrow> 'w \<Rightarrow> bool" for E g0 w0 where
  start: "g06_reachable E g0 w0 g0 w0"
| failed: "g06_reachable E g0 w0 g w \<Longrightarrow> n_interrupts (o_timer g) < 60 * 60 \<Longrightarrow> o_receive E w = (msg, w1) \<Longrightarrow>
    msg_r msg \<noteq> 0 \<Longrightarrow> g06_reachable E g0 w0 g w1"
| message: "g06_reachable E g0 w0 g w \<Longrightarrow> n_interrupts (o_timer g) < 60 * 60 \<Longrightarrow> o_receive E w = (msg, w1) \<Longrightarrow>
    msg_r msg = 0 \<Longrightarrow> g06_step E msg g w1 = Some (g', w') \<Longrightarrow> g06_reachable E g0 w0 g' w'"

lemma map_vram_squares:
  "map_vram V n mode s w = Some (r, s1, w1) \<Longrightarrow>
   rectangle_width s1 = rectangle_width s \<and> rectangle_height s1 = rectangle_height s"
  by (auto simp: map_vram_def Let_def split: prod.splits if_splits)

lemma init_graphics_mode_squares:
  "init_graphics_mode V mode s w = Some (r, s1, w1) \<Longrightarrow>
   rectangle_width s1 = rectangle_width s \<and> rectangle_height s1 = rectangle_height s"
  by (auto simp: init_graphics_mode_def split: option.splits prod.splits dest!: map_vram_squares)

text \<open>The globals as the program is loaded.\<close>

definition g06_loaded :: "G06Game \<Rightarrow> bool" where
  "g06_loaded g \<longleftrightarrow> o_name g = replicate 8 0 \<and> rectangle_width (o_screen g) = 0 \<and> rectangle_height (o_screen g) = 0"

lemma g06_main_init_ok:
  assumes l: "g06_loaded g" and clear: "\<not> cursorMovingPiece (o_cursor g)" and r: "g06_main_init E g w = Some (g', w')"
  shows "g06_game_ok g'"
proof -
  obtain q vmp vbp s1 w1 where i: "init_graphics_mode (o_video E) 0x115 (o_screen g) w = Some ((q, vmp, vbp), s1, w1)"
    using r by (cases "init_graphics_mode (o_video E) 0x115 (o_screen g) w") (auto simp: g06_main_init_def)
  have "o_name g' = o_name g \<and> o_l g' = 0 \<and> o_count g' = 0 \<and> o_screen g' = s1 \<and> n_interrupts (o_timer g') = 0 \<and>
      cursorMovingPiece (o_cursor g') = cursorMovingPiece (o_cursor g)"
    using r by (auto simp: g06_main_init_def i Let_def timer_subscribe_int_def g06_initCursor_def
        split: bind_splits prod.splits)
  then show ?thesis
    using l clear init_graphics_mode_squares [OF i] by (simp add: g06_game_ok_def g06_loaded_def g06_name_ok_def)
qed

lemma g06_step_ok:
  assumes V: "video_115 (o_video E) (o_mapped E)" and ok: "g06_game_ok g"
    and n: "n_interrupts (o_timer g) < 3600" and r: "g06_step E msg g w = Some (g', w')"
  shows "g06_game_ok g'"
proof -
  obtain g1 w1 g2 w2 g3 w3 where
    1: "(if raised msg (ucast (o_irq_kb g)) then g06_on_keyboard E g w else Some (g, w)) = Some (g1, w1)" and
    2: "(if raised msg (ucast (o_irq_timer g1)) then g06_on_timer E g1 w1 else Some (g1, w1)) = Some (g2, w2)" and
    3: "(if raised msg (o_irq_mouse g2) then g06_on_mouse E g2 w2 else Some (g2, w2)) = Some (g3, w3)" and
    4: "(if updateMouse (o_mouse g3) then do {
         (b, c) \<leftarrow> g06_updateCursor (o_screen g3) (pp (o_mouse g3)) (o_board g3) (o_cursor g3);
         Some (g3\<lparr>o_board := b, o_cursor := c, o_mouse := (o_mouse g3)\<lparr>updateMouse := False\<rparr>\<rparr>, w3)
       } else Some (g3, w3)) = Some (g', w')"
    using r unfolding g06_step_def bind_eq_Some_conv split_paired_Ex prod.case by blast
  have "g06_game_ok g1 \<and> n_interrupts (o_timer g1) < 3600"
    using 1 ok n g06_on_keyboard_ok [OF ok, of E w] by (auto split: if_splits)
  then have "g06_game_ok g2" using 2 g06_on_timer_ok [OF V] by (auto split: if_splits)
  then have "g06_game_ok g3" using 3 g06_on_mouse_ok [of g2 E w2 g3 w3] by (auto split: if_splits)
  then show ?thesis using 4 g06_cursor_step_ok by (auto split: if_splits bind_splits)
qed

lemma g06_reachable_ok:
  assumes "g06_reachable E g0 w0 g w" and "video_115 (o_video E) (o_mapped E)" and "g06_game_ok g0"
  shows "g06_game_ok g"
  using assms(1)
proof induction
  case (message g w msg w1 g' w')
  then show ?case using g06_step_ok [OF assms(2)] by simp
qed (use assms(3) in simp_all)

section \<open>The program ends\<close>

lemma util_pending:
  assumes "\<forall>port w. pending (snd (snd (sys_inb K port w))) \<le> (pending w :: nat)"
    and "util_sys_inb K port old w = (r, v, w')"
  shows "pending w' \<le> pending w"
  using assms(1) [rule_format, of port w] assms(2) by (auto simp: util_sys_inb_def split: prod.splits if_splits)

lemma g06_keyboard_pending:
  assumes io: "\<forall>port w. pending (snd (snd (sys_inb K port w))) \<le> (pending w :: nat)"
    and r: "g06_keyboard_int_handler K load kb w = (r, kb', w')"
  shows "pending w' \<le> pending w"
  using r by (auto simp: g06_keyboard_int_handler_def Let_def split: prod.splits if_splits
      dest!: util_pending [OF io] intro: order_trans)

lemma g06_on_keyboard_pending:
  assumes io: "\<forall>port w. pending (snd (snd (sys_inb (o_kernel E) port w))) \<le> (pending w :: nat)"
    and r: "g06_on_keyboard E g w = Some (g', w')"
  shows "pending w' \<le> pending w"
  using r g06_keyboard_pending [OF io, of "o_load E" "o_kb g" w]
  by (auto simp: g06_on_keyboard_def Let_def split: prod.splits bind_splits)

text \<open>The mouse stays quiet.\<close>

definition quiet_ok :: "u8 \<Rightarrow> u8 \<Rightarrow> u32 \<Rightarrow> G06Game \<Rightarrow> bool" where
  "quiet_ok kb timer mouse g \<longleftrightarrow> g06_game_ok g \<and> g06_draw_ok g \<and> \<not> updateMouse (o_mouse g) \<and>
     o_irq_kb g = kb \<and> o_irq_timer g = timer \<and> o_irq_mouse g = mouse"

lemma g06_quiet_step:
  assumes V: "video_115 (o_video E) (o_mapped E)" and L: "g06_loads (o_load E)"
    and q: "quiet_ok kb timer mouse g" and n: "n_interrupts (o_timer g) < 3600"
    and m: "\<not> raised msg mouse"
    and io: "\<forall>port w. pending (snd (snd (sys_inb (o_kernel E) port w))) \<le> (pending w :: nat)"
  shows "\<exists>g' w'. g06_step E msg g w = Some (g', w') \<and> quiet_ok kb timer mouse g' \<and>
    (if raised msg (ucast timer) then n_interrupts (o_timer g') = n_interrupts (o_timer g) + 1
     else n_interrupts (o_timer g') = n_interrupts (o_timer g) \<and> pending w' \<le> pending w)"
proof -
  have "\<exists>g1 w1. (if raised msg (ucast (o_irq_kb g)) then g06_on_keyboard E g w else Some (g, w)) = Some (g1, w1) \<and>
      quiet_ok kb timer mouse g1 \<and> o_timer g1 = o_timer g \<and> pending w1 \<le> pending w"
  proof (cases "raised msg (ucast (o_irq_kb g))")
    case True
    have q': "g06_game_ok g" "g06_draw_ok g" using q by (simp_all add: quiet_ok_def)
    obtain g1 w1 where k: "g06_on_keyboard E g w = Some (g1, w1)" "g06_game_ok g1" "o_timer g1 = o_timer g"
      using g06_on_keyboard_ok [OF q'(1), of E w] by (elim exE conjE)
    have "quiet_ok kb timer mouse g1"
      using g06_on_keyboard_draw_ok [OF L q'(2) k(1)] k(2) q by (simp add: quiet_ok_def)
    then show ?thesis using True k g06_on_keyboard_pending [OF io k(1)] by simp
  qed (use q in simp)
  then obtain g1 w1 where
    1: "(if raised msg (ucast (o_irq_kb g)) then g06_on_keyboard E g w else Some (g, w)) = Some (g1, w1)"
    "quiet_ok kb timer mouse g1" "o_timer g1 = o_timer g" "pending w1 \<le> pending w" by blast
  have o: "g06_game_ok g1" "g06_draw_ok g1" "n_interrupts (o_timer g1) < 3600" "o_irq_timer g1 = timer"
    using 1 n by (simp_all add: quiet_ok_def)
  have "\<exists>g2 w2. (if raised msg (ucast (o_irq_timer g1)) then g06_on_timer E g1 w1 else Some (g1, w1)) = Some (g2, w2) \<and>
      quiet_ok kb timer mouse g2 \<and>
      (if raised msg (ucast timer) then n_interrupts (o_timer g2) = n_interrupts (o_timer g) + 1
       else n_interrupts (o_timer g2) = n_interrupts (o_timer g) \<and> pending w2 \<le> pending w)"
    using g06_on_timer_total [OF V L o(2,1,3), of w1] 1(2-4) o(4) by (auto simp: quiet_ok_def)
  then obtain g2 w2 where
    2: "(if raised msg (ucast (o_irq_timer g1)) then g06_on_timer E g1 w1 else Some (g1, w1)) = Some (g2, w2)"
    "quiet_ok kb timer mouse g2"
    "if raised msg (ucast timer) then n_interrupts (o_timer g2) = n_interrupts (o_timer g) + 1
     else n_interrupts (o_timer g2) = n_interrupts (o_timer g) \<and> pending w2 \<le> pending w" by blast
  have "g06_step E msg g w = Some (g2, w2)"
    unfolding g06_step_def using 1(1) 2(1,2) m by (simp add: quiet_ok_def)
  then show ?thesis using 2(2,3) by blast
qed

section \<open>Properties\<close>

text \<open>A machine whose timer ticks all the time, and a state before the loop.\<close>

definition blank_pic :: xpm_image where
  "blank_pic = \<lparr>img_width = 0, img_height = 0, img_bytes = []\<rparr>"

definition ticking :: "unit g06_env" where
  "ticking = \<lparr>o_kernel = table_kernel (\<lambda>_. 0), o_video = sample_video, o_load = (\<lambda>_. Some blank_pic),
     o_mapped = (\<lambda>_. replicate 1440000 0), o_fresh = (\<lambda>_. forget_piece sample_piece),
     o_receive = (\<lambda>w. (\<lparr>msg_r = 0, msg_notify = True, msg_hardware = True, msg_interrupts = 1\<rparr>, w)),
     o_mouse_enable = (\<lambda>w. w), o_sleep = (\<lambda>_ w. w), o_status = 0, o_byte = 0, o_image = blank_pic\<rparr>"

definition typing_game :: "u8 list \<Rightarrow> int \<Rightarrow> G06Game" where
  "typing_game name l = \<lparr>o_screen = screen_115\<lparr>rectangle_width := 0, rectangle_height := 0\<rparr>,
     o_timer = \<lparr>t_hook_id = 0, n_interrupts = 0\<rparr>,
     o_kb = \<lparr>g06_kb_hook_id = 4, g06_code = 0, letterImg = blank_pic\<rparr>, o_mouse = mouse_init\<lparr>mouse_hook_id := 1\<rparr>,
     o_cursor = g06_free_cursor, o_board = g06_rook_board, o_name = name, o_player_number = 1,
     o_animation = True, o_click = True, o_player_choice = True, o_count = 0, o_l = l,
     o_video_mem = replicate 1440000 0, o_buffer = replicate 1440000 0, o_name_choice = blank_pic,
     o_player_choice_image = blank_pic, o_toggle_animation = blank_pic,
     o_irq_timer = 1, o_irq_kb = 16, o_irq_mouse = 2\<rparr>"

lemma sample_ok:
  "g06_loads (o_load ticking)" "video_115 (o_video ticking) (o_mapped ticking)"
  "g06_draw_ok (typing_game name l)" "g06_name_ok name l \<Longrightarrow> g06_game_ok (typing_game name l)"
proof -
  have p: "pic_ok blank_pic" by (simp add: pic_ok_def g06_image_ok_def image_ok_def blank_pic_def)
  then show "g06_loads (o_load ticking)" by (simp add: g06_loads_def ticking_def)
  show "video_115 (o_video ticking) (o_mapped ticking)" using sample_video by (simp add: ticking_def)
  have "mode_115 (screen_115\<lparr>rectangle_width := 0, rectangle_height := 0\<rparr>)" by (simp add: mode_115_def screen_115_def)
  with p show "g06_draw_ok (typing_game name l)"
    by (simp add: g06_draw_ok_def typing_game_def mode_115_wf g06_free_cursor_def flip: blank_pic_def)
  show "g06_game_ok (typing_game name l)" if "g06_name_ok name l"
    using that by (simp add: g06_game_ok_def typing_game_def g06_free_cursor_def)
qed

theorem g06_name_confirmed_witness:
  "\<exists>g'. foldM g06_type_key [0x9c, 0x9e, 0x9c] (typing_game [0x9e, 0x9e, 0x9e, 0x9e, 0x9e, 0x9e, 0x9e, 0x9e] 8) = Some g' \<and>
     g06_confirmed g' = Some False"
proof -
  let ?g = "typing_game [0x9e, 0x9e, 0x9e, 0x9e, 0x9e, 0x9e, 0x9e, 0x9e] 8"
  have ok: "g06_name_ok (o_name ?g) (o_l ?g)" by (simp add: typing_game_def g06_name_ok_def)
  have t: "length (typed ?g) = 8" "last (typed ?g) \<noteq> G06_ENTER"
    by (simp_all add: typed_def typing_game_def G06_ENTER_def)
  have "G06_BACKSPACE \<notin> set [0x9c, 0x9e, 0x9c]" by (simp add: G06_BACKSPACE_def)
  with g06_name_confirmed [OF ok, of "[0x9c, 0x9e, 0x9c]"] t show ?thesis by blast
qed

text \<open>C37: From the loaded program every state the message loop reaches is well-formed, whatever the
  devices deliver, provided that the flag cursorMovingPiece of the local cursor, which
  initCursor leaves uninitialised, happens to be clear when the program starts: the name
  stays inside its array and ends in zeros, at most 3600 timer interrupts are counted, before
  the first frame of the board no piece is dragged, and from then on the squares have the
  geometry of mode 0x115, every square refers to a piece, no piece stands on two squares and
  a dragged piece still stands where it was picked up.\<close>
theorem g06_main_invariant:
  assumes "video_115 (o_video E) (o_mapped E)" and "g06_loaded g" and "\<not> cursorMovingPiece (o_cursor g)"
    and "g06_main_init E g w = Some (g0, w0)" and "g06_reachable E g0 w0 g' w'"
  shows "g06_name_ok (o_name g') (o_l g') \<and> 0 \<le> n_interrupts (o_timer g') \<and> n_interrupts (o_timer g') \<le> 3600 \<and>
    (if o_count g' = 0 then \<not> cursorMovingPiece (o_cursor g')
     else squares_115 (o_screen g') \<and> g06_invar (o_board g') (o_cursor g'))"
  using g06_reachable_ok [OF assms(5,1) g06_main_init_ok [OF assms(2-4)]]
  by (auto simp: g06_game_ok_def)

theorem g06_main_invariant_witness:
  "\<exists>g0 w0. g06_main_init ticking (typing_game (replicate 8 0) 0) () = Some (g0, w0) \<and>
     g06_name_ok (o_name g0) (o_l g0) \<and> \<not> cursorMovingPiece (o_cursor g0)"
proof -
  let ?g = "typing_game (replicate 8 0) 0"
  have l: "g06_loaded ?g" "\<not> cursorMovingPiece (o_cursor ?g)"
    by (simp_all add: g06_loaded_def typing_game_def g06_free_cursor_def)
  have "\<exists>g0 w0. g06_main_init ticking ?g () = Some (g0, w0) \<and> o_count g0 = 0"
    by (simp add: g06_main_init_def ticking_def sample_video_def init_graphics_mode_def map_vram_def Let_def
        create_image_def blank_pic_def g06_draw_image_def timer_subscribe_int_def g06_keyboard_subscribe_int_def
        mouse_subscribe_int_def table_kernel_def)
  then obtain g0 w0 where i: "g06_main_init ticking ?g () = Some (g0, w0)" "o_count g0 = 0" by blast
  from g06_main_invariant [OF sample_ok(2) l i(1) g06_reachable.start] i show ?thesis by auto
qed

text \<open>C36: The program ends. From any well-formed state, in whatever phase of the game, if the timer
  keeps interrupting, the mouse is quiet and every picture can be decoded, the message loop
  returns after exactly 3600 timer interrupts: every frame of the start screen, of the name
  and of the board is drawn inside its buffers, whatever is typed, and the state is
  well-formed at the end.\<close>
theorem g06_quiet_run_ends:
  assumes "video_115 (o_video E) (o_mapped E)" and "g06_loads (o_load E)"
    and "g06_game_ok g" and "g06_draw_ok g" and "\<not> updateMouse (o_mouse g)"
    and "\<forall>w. \<not> raised (fst (o_receive E w)) (o_irq_mouse g)"
    and "fair_irq (o_receive E) (ucast (o_irq_timer g)) pending"
    and "\<forall>port w. pending (snd (snd (sys_inb (o_kernel E) port w))) \<le> pending w"
  shows "\<exists>g' w'. g06_main_loop E g w = Some (g', w') \<and> n_interrupts (o_timer g') = 3600 \<and>
    g06_game_ok g' \<and> g06_draw_ok g'"
proof -
  let ?I = "\<lambda>g' w'. quiet_ok (o_irq_kb g) (o_irq_timer g) (o_irq_mouse g) g'"
  let ?R = "inv_image (less_than <*lex*> less_than) (\<lambda>(g', w'). (nat (3600 - n_interrupts (o_timer g')), pending w'))"
  let ?go = "\<lambda>g. n_interrupts (o_timer g) < 60 * 60"
  have "\<exists>g' w'. receive_loop (o_receive E) ?go (g06_step E) g w = Some (g', w') \<and> ?I g' w' \<and> \<not> ?go g'"
  proof (rule receive_loop_returns [where I = ?I and R = ?R])
    show "?I g w" using assms by (simp add: quiet_ok_def)
    show "wf ?R" by (intro wf_inv_image wf_lex_prod wf_less_than)
  next
    fix g' w' msg w1
    assume "?I g' w'" and r: "o_receive E w' = (msg, w1)" and "msg_r msg \<noteq> 0"
    then show "?I g' w1 \<and> ((g', w1), (g', w')) \<in> ?R" using fair_irqD [OF assms(7) r] by simp
  next
    fix g' w' msg w1
    assume i: "?I g' w'" and go: "?go g'" and r: "o_receive E w' = (msg, w1)" and m: "msg_r msg = 0"
    have "\<not> raised msg (o_irq_mouse g)" using assms(6) [rule_format, of w'] r by simp
    from g06_quiet_step [OF assms(1,2) i _ this assms(8), of w1] go
    obtain g2 w2 where s: "g06_step E msg g' w1 = Some (g2, w2)" "?I g2 w2"
      "if raised msg (ucast (o_irq_timer g)) then n_interrupts (o_timer g2) = n_interrupts (o_timer g') + 1
       else n_interrupts (o_timer g2) = n_interrupts (o_timer g') \<and> pending w2 \<le> pending w1" by auto
    have "((g2, w2), (g', w')) \<in> ?R"
      using s(3) go fair_irqD [OF assms(7) r] m by (auto split: if_splits)
    with s show "\<exists>s2 w2. g06_step E msg g' w1 = Some (s2, w2) \<and> ?I s2 w2 \<and> ((s2, w2), (g', w')) \<in> ?R" by blast
  qed
  then show ?thesis by (auto simp: g06_main_loop_def quiet_ok_def g06_game_ok_def)
qed

theorem g06_quiet_run_ends_witness:
  "\<exists>g' w'. g06_main_loop ticking (typing_game [0x9e, 0x9c, 0, 0, 0, 0, 0, 0] 2) () = Some (g', w') \<and>
     n_interrupts (o_timer g') = 3600"
proof -
  let ?g = "typing_game [0x9e, 0x9c, 0, 0, 0, 0, 0, 0] 2"
  have "g06_name_ok [0x9e, 0x9c, 0, 0, 0, 0, 0, 0] 2"
  proof -
    have "\<forall>i<8. 2 \<le> i \<longrightarrow> [0x9e :: u8, 0x9c, 0, 0, 0, 0, 0, 0] ! i = 0"
      by (simp add: nth_Cons' numeral_eq_Suc less_Suc_eq)
    then show ?thesis by (simp add: g06_name_ok_def)
  qed
  note ok = sample_ok(4) [OF this]
  have "\<not> updateMouse (o_mouse ?g)" by (simp add: typing_game_def mouse_init_def)
  moreover have "\<forall>w. \<not> raised (fst (o_receive ticking w)) (o_irq_mouse ?g)"
    by (simp add: raised_def ticking_def typing_game_def has_def)
  moreover have "fair_irq (o_receive ticking) (ucast (o_irq_timer ?g)) (\<lambda>_. 0)"
    by (simp add: fair_irq_def raised_def ticking_def typing_game_def has_def)
  ultimately show ?thesis
    using g06_quiet_run_ends [OF sample_ok(2,1) ok sample_ok(3), of "\<lambda>_. 0" "()"] by auto
qed

end
