(* ===== verification/Spec2Isabelle.thy ===== *)
theory Spec2Isabelle
  imports Program LabTimer LabKeyboard LabMouse LabVideo G06Main
begin

text \<open>
  A verification of LC-Chess, a two-player chess program for Minix written in C on top of
  the LCOM course library, together with the driver laboratories kept in the same
  repository. All paths below are relative to \<open>src/\<close>.

  \<^bold>\<open>The program and its parts.\<close> Two virtual machines connected by a serial cable each run
  \<open>proj/src\<close>. \<open>proj_main_loop\<close> of \<open>main.c\<close> brings up the video card, the devices and the game,
  then waits for interrupt messages. On each message the interrupt handlers of timer,
  keyboard, mouse and serial port turn what the devices offer into events of the event
  queue; the loop then pops every event and gives it to \<open>inputHandler\<close>, which dispatches on
  the state of the game: choosing a name, waiting for the peer, choosing a colour, waiting
  for the peer's colour, playing. Playing draws the board, lets the player drag a piece onto
  a marked square, and exchanges the moves with the peer as messages of four bytes through
  the two byte queues of the serial port driver.

  \<^bold>\<open>Theories and sources.\<close>
  \<^item> \<open>Prelude\<close>: the C integer types as words and the conversions between them, the loop
    combinator \<open>foldM\<close>, and lemmas every component shares. \<open>Kernel\<close>: the system calls and
    \<open>utils.c\<close>.
  \<^item> \<open>ByteQueue\<close>: \<open>queue.c\<close>. The record \<open>Queue\<close> has the C widths (byte-sized front, rear and
    size, 32-bit capacity). \<open>SerialPort\<close>: \<open>serialPort.c\<close>, \<open>serialConst.h\<close>.
  \<^item> \<open>Timer\<close>, \<open>Keyboard\<close>, \<open>Mouse\<close>, \<open>EventQueue\<close>: \<open>timer.c\<close>, \<open>keyboard.c\<close>, \<open>mouse.c\<close>,
    \<open>event_queue.c\<close>. The file-level variables of each file are the fields of its record.
  \<^item> \<open>VideoCard\<close>: \<open>videocard.c\<close>; \<open>Pixels\<close>: what its operations do to single pixels.
  \<^item> \<open>Piece\<close>, \<open>Cursor\<close>, \<open>Letter\<close>: \<open>piece.c\<close>, \<open>cursor.c\<close>, \<open>letter.c\<close>.
  \<^item> \<open>Board\<close>: \<open>board.c\<close>. Pieces live in a heap, a list addressed by position, and the 64 squares
    hold addresses, as the C array of pointers does, because two squares can share a piece
    while a move is under way. \<open>Geometry\<close>, \<open>Moves\<close>, \<open>Setup\<close>: the coordinate conversions, the
    marking of the possible moves, and the initial position.
  \<^item> \<open>Game\<close>: the globals and function statics of \<open>main.c\<close> and the handlers \<open>name_choice_ih\<close>,
    \<open>waiting_ih\<close>, \<open>choosing_ih\<close>, \<open>waiting_choosing_ih\<close>. \<open>Play\<close>: \<open>playing_ih\<close> and \<open>inputHandler\<close>.
    \<open>MainLoop\<close>: \<open>proj_main_loop\<close>. \<open>Exchange\<close> and \<open>Control\<close>: the properties that span them.
    \<open>Peers\<close>: two machines and the line between them, as a step relation over those handlers.
    \<open>Scene\<close>: the well-formedness of a game in progress and that every event keeps it. \<open>Turn\<close>: a
    whole turn, from the press of the button to its release. \<open>Rounds\<close>: turns, their transmission over
    the line, and games of two machines. \<open>Ending\<close>: the capture of a king, up to the end of the game at
    both machines. \<open>Notify\<close>: what a notification can change. \<open>Shutdown\<close>: the program of the winner,
    from the capture to its end. \<open>Screens\<close>: the well-formedness of the four screens before the game.
    \<open>Program\<close>: the whole program, from its loading to the end of the game.
  \<^item> \<open>Receive\<close>: the message loop of the laboratories, as a combinator. \<open>LabTimer\<close>,
    \<open>LabKeyboard\<close>, \<open>LabMouse\<close>, \<open>LabVideo\<close>: \<open>lab2\<close> to \<open>lab5\<close>, each the driver and the exercises.
  \<^item> \<open>G06Video\<close>, \<open>G06Board\<close>, \<open>G06Cursor\<close>, \<open>G06Main\<close>: the earlier version of the game for one
    machine that the repository keeps under \<open>proj/src/imgs/xboard/g06-main\<close>. Its functions
    have the prefix \<open>g06_\<close>; those that are the same in both versions are not repeated.

  \<^bold>\<open>What is shown.\<close>
  \<^item> Play: a move made at one end and its message received at the other take two boards in
    the same position to the same new position and pass the turn; dropping a piece makes and
    sends the move exactly on a marked square that is not held by the own colour; the marked
    squares are exactly those the declarative movement rules allow, although the code reads
    beside the board array, and the marking fails exactly when a word it reads there cannot be
    read (\<open>readable\<close>); the set-up gives the starting position.
  \<^item> Games: after any number of rounds, in every interleaving, two machines show the same position,
    one that alternating moves of the rules lead to, with the two steps of a pawn allowed by the flag
    its player holds for it; and a round can be completed. A capture of the king can be carried to the other machine, and ends the game with one winner. Moves from
    or to the corner (0, 0) are excluded from these theorems: their code is the zero byte, the peer
    never hears them, and \<open>corner_square_lost\<close> shows that the boards then differ.
  \<^item> A turn: the press of the button on a piece, what follows with the button down, and its
    release make exactly the move the rules allow at the start of the turn.
  \<^item> Progress and preservation: on a machine whose devices work, bringing the devices up and every
    iteration of the message loop have a defined result in which the whole state is well-formed
    again, from the first screen to the end of the game, but for five situations (\<open>step_fault\<close>),
    which are stated in terms of the state before the iteration and of the events and bytes it
    meets. The program of the player who lost always ends.
  \<^item> Two machines: in every interleaving of events, sent and received bytes the right to move is
    never duplicated once both play; the handshake that leads there has a race, after which
    both can play white.
  \<^item> Control: the state of the game moves only along the edges of its state machine, and every
    iteration of the main loop keeps the queues, the name and the event queue well-formed.
  \<^item> Drivers: the ring buffer refines a bounded first-in first-out list; the bytes queued for
    sending reach the device in order; mouse packets are decoded exactly; events are handled
    in the reverse of their order; the controller loops that cannot give up.
  \<^item> Drawing: rectangles and images are drawn inside the buffer and change exactly the pixels
    they should; animations reach their target.
  \<^item> Laboratories: the exercises end on a machine that keeps delivering interrupts, and have
    printed or drawn exactly what was asked for.
  \<^item> Earlier version: a simulation shows that the later board refines the earlier one; no
    sequence of mouse packets duplicates a piece; every reachable state is well-formed when the
    flag \<open>cursorMovingPiece\<close>, which the code leaves uninitialised, is clear at the start; and
    the program ends when its timer keeps ticking and the mouse is quiet.
  \<^item> Several theorems state behaviour that is not what the code intends (the square of code
    zero is lost in transmission, the program of the winner may never end, pawns misjudge the
    black king, a queue of 256 bytes reports itself empty, two prefix bytes overrun the scan code buffer, a name of eight
    letters cannot be confirmed in the earlier version): they are
    proved as the code behaves.

  \<^bold>\<open>Interfaces.\<close> The locale \<open>bounded_fifo\<close> is what the serial port driver relies on of a queue
  and is interpreted on the ring buffer; \<open>bounded_lifo\<close> is the contract of the event queue,
  interpreted on \<open>pushEvent\<close> and \<open>popEvent\<close>; \<open>pixel_buffer\<close> is what the drawing proofs need of
  a buffer (reading back what was written and nothing else), interpreted on the byte
  buffers of the video card for every screen; \<open>serial_service\<close> is what the handling of a notification
  needs of the interrupt handler of the serial port (a relation that it keeps, closed under steps),
  interpreted on that handler with the well-formedness of the queues for every kernel, and used by the
  shutdown with the bytes in the queues for a line that brings nothing.

  \<^bold>\<open>Modelling decisions.\<close>
  \<^item> System calls, the LCOM functions (\<open>xpm_load\<close>, \<open>driver_receive\<close>, the printing functions of the
    laboratories) and the BIOS are fields of records of functions over an unspecified world;
    what a theorem needs of them is a hypothesis with a concrete instance in its witness.
  \<^item> A result \<open>None\<close> stands for behaviour C leaves undefined (an access outside an object),
    for a panic, and for a loop that does not return; theorems that an operation works show
    \<open>Some\<close>.
  \<^item> Two kinds of operations have a meaning that depends on the machine, and the model asks a
    parameter whether they have one. A word beside the array of the squares, which the marking
    of moves compares with the null pointer, is \<open>e_junk\<close>: \<open>None\<close> when reading it is not defined,
    otherwise whether it differs from null. \<open>free\<close> of a page mapped by \<open>vm_map_phys\<close>, which \<open>malloc\<close> did not
    allocate, is defined when \<open>e_free\<close> holds. A machine on which C's undefined behaviour is never
    defined has \<open>e_junk = (\<lambda>_. None)\<close> and \<open>e_free = False\<close>; the theorems hold for it too.
  \<^item> Loops with a bound are folds over their index list. Loops that end by a decreasing
    quantity (\<open>drain\<close>, \<open>drain_events\<close>, \<open>empty_queue\<close>) are total functions with a measure. Loops that wait for a
    device (\<open>sp_clear_device\<close>, \<open>sp_flush\<close>, the controller loops, \<open>poll_loop\<close>, \<open>receive_loop\<close>,
    \<open>main_loop\<close>) are partial functions; that they return is proved from a hypothesis on the
    device. There is no fuel: \<open>issue_kbc_command\<close> and \<open>lab3_read_kbc_return\<close> recurse on
    the attempt counter of the source.
  \<^item> A buffer is the list of its bytes. Video memory is identified with its mapped pages, whose
    content before the first write is a parameter. Uninitialised locals are parameters too, so a
    theorem holds for whatever they contain; the one exception is the flag \<open>cursorMovingPiece\<close> of
    the earlier version, which \<open>g06_main_invariant\<close> assumes to be clear. Released buffers are not
    used again by the code, so releasing changes no state.
  \<^item> Integers keep their width, \<open>int\<close> variables are mathematical integers where the values are
    bounded by the code, and the product with the one \<open>float\<close> of the code is rounded to 24
    significant bits, half to even, before it is truncated.

  \<^bold>\<open>Not modelled.\<close> The XPM pictures are data. The headers under \<open>.minix-src\<close> belong to Minix and
  LCOM. The \<open>main\<close> functions only start the LCOM framework, and \<open>lab0\<close> prints one line.
  \<open>lab5/videocard.c\<close> contains unresolved merge conflicts; the side named HEAD, which
  \<open>lab5.c\<close> uses, is modelled. The other side declares the same functions again, calls
  \<open>vg_clear_image\<close> with an order of arguments no definition in the repository has, and assigns
  a variable that is declared nowhere, so it has no meaning to translate. The directories \<open>lab2\<close> to \<open>lab5\<close> inside \<open>g06-main\<close> are copies of
  the laboratories.
\<close>

end
